(* ===== verification/Go_Prelude.thy ===== *)
theory Go_Prelude
  imports Main "HOL-Library.Signed_Division" "HOL-Library.Multiset"
begin

text \<open>
  The shared layer of the development: Go's fixed-width integers written out on \<open>int\<close>,
  the outcome of a fallible or panicking call, the state-passing composition of such calls,
  and the hand-written insertion sort the repository uses in several packages.
  Errors are the sentinel values of the Go packages: two errors are the same exactly when
  \<^verbatim>\<open>errors.Is\<close> identifies them, so the formatted message is not part of the model.
\<close>

named_theorems go_int \<open>facts about wrap-around integers\<close>
named_theorems go_run \<open>how composed operations run\<close>

section \<open>Integers\<close>

definition wrap64 :: "int \<Rightarrow> int" where
  "wrap64 x = (x + 2 ^ 63) mod 2 ^ 64 - 2 ^ 63"

definition wrap16 :: "int \<Rightarrow> int" where
  "wrap16 x = (x + 2 ^ 15) mod 2 ^ 16 - 2 ^ 15"

definition u64 :: "int \<Rightarrow> int" where
  "u64 x = x mod 2 ^ 64"

definition in64 :: "int \<Rightarrow> bool" where
  "in64 x \<longleftrightarrow> - (2 ^ 63) \<le> x \<and> x < 2 ^ 63"

abbreviation MinInt64 :: int where
  "MinInt64 \<equiv> - (2 ^ 63)"

abbreviation MaxInt64 :: int where
  "MaxInt64 \<equiv> 2 ^ 63 - 1"

text \<open>
  Go's \<open>/\<close> and \<open>%\<close> truncate toward zero; the quotient of the least value by \<open>-1\<close>
  wraps to itself. The callers below never divide by zero, where Go panics.
\<close>

definition go_div :: "int \<Rightarrow> int \<Rightarrow> int" where
  "go_div a b = wrap64 (a sdiv b)"

definition go_rem :: "int \<Rightarrow> int \<Rightarrow> int" where
  "go_rem a b = a smod b"

lemma wrap64_id [simp]: "in64 x \<Longrightarrow> wrap64 x = x"
  by (simp add: in64_def wrap64_def)

lemma in64_wrap64 [simp]: "in64 (wrap64 x)"
proof -
  have "0 \<le> (x + 2 ^ 63) mod 2 ^ 64" "(x + 2 ^ 63) mod 2 ^ 64 < (2::int) ^ 64"
    by simp_all
  then show ?thesis by (simp add: in64_def wrap64_def)
qed

lemma wrap64_eq_iff: "wrap64 x = x \<longleftrightarrow> in64 x"
  by (metis in64_wrap64 wrap64_id)

lemma wrap64_cong: "wrap64 x = wrap64 y \<longleftrightarrow> x mod 2 ^ 64 = y mod 2 ^ 64"
proof -
  have "wrap64 x = wrap64 y \<longleftrightarrow> (x + 2 ^ 63) mod 2 ^ 64 = (y + 2 ^ 63) mod 2 ^ 64"
    by (simp add: wrap64_def)
  also have "\<dots> \<longleftrightarrow> x mod 2 ^ 64 = y mod 2 ^ 64"
    by (simp add: mod_eq_dvd_iff)
  finally show ?thesis .
qed

lemma wrap64_mod: "wrap64 x mod 2 ^ 64 = x mod 2 ^ 64"
  using wrap64_cong [of "wrap64 x" x] by simp

lemma wrap64_add [go_int]: "wrap64 (wrap64 x + y) = wrap64 (x + y)"
  unfolding wrap64_cong by (metis mod_add_left_eq wrap64_mod)

lemma wrap64_add_right [go_int]: "wrap64 (x + wrap64 y) = wrap64 (x + y)"
  using wrap64_add [of y x] by (simp add: add.commute)

lemma wrap64_diff_left [go_int]: "wrap64 (wrap64 x - y) = wrap64 (x - y)"
  using wrap64_add [of x "- y"] by simp

lemma wrap64_diff_right [go_int]: "wrap64 (x - wrap64 y) = wrap64 (x - y)"
  unfolding wrap64_cong by (metis mod_diff_right_eq wrap64_mod)

lemma wrap64_mult: "wrap64 (wrap64 x * y) = wrap64 (x * y)"
  unfolding wrap64_cong by (metis mod_mult_left_eq wrap64_mod)

text \<open>A sum of two in-range values wraps by at most one period.\<close>

lemma wrap64_sum_cases:
  assumes "in64 a" and "in64 b"
  shows "wrap64 (a + b) =
    (if a + b < - (2 ^ 63) then a + b + 2 ^ 64 else if 2 ^ 63 \<le> a + b then a + b - 2 ^ 64 else a + b)"
proof -
  consider "a + b < - (2 ^ 63)" | "2 ^ 63 \<le> a + b" | "in64 (a + b)"
    by (fastforce simp: in64_def)
  then show ?thesis
  proof cases
    case 1
    have "wrap64 (a + b) = wrap64 (a + b + 2 ^ 64)"
      by (simp add: wrap64_cong)
    also have "\<dots> = a + b + 2 ^ 64"
      using assms 1 by (intro wrap64_id) (simp add: in64_def)
    finally show ?thesis using 1 by simp
  next
    case 2
    have "wrap64 (a + b) = wrap64 (a + b - 2 ^ 64)"
      by (simp add: wrap64_cong)
    also have "\<dots> = a + b - 2 ^ 64"
      using assms 2 by (intro wrap64_id) (simp add: in64_def)
    finally show ?thesis using 2 by simp
  next
    case 3
    then show ?thesis by (simp add: in64_def)
  qed
qed

lemma wrap64_diff_cases:
  assumes "in64 a" and "in64 b"
  shows "wrap64 (a - b) =
    (if a - b < - (2 ^ 63) then a - b + 2 ^ 64 else if 2 ^ 63 \<le> a - b then a - b - 2 ^ 64 else a - b)"
proof -
  consider "a - b < - (2 ^ 63)" | "2 ^ 63 \<le> a - b" | "in64 (a - b)"
    by (fastforce simp: in64_def)
  then show ?thesis
  proof cases
    case 1
    have "wrap64 (a - b) = wrap64 (a - b + 2 ^ 64)"
      by (simp add: wrap64_cong)
    also have "\<dots> = a - b + 2 ^ 64"
      using assms 1 by (intro wrap64_id) (simp add: in64_def)
    finally show ?thesis using 1 by simp
  next
    case 2
    have "wrap64 (a - b) = wrap64 (a - b - 2 ^ 64)"
      by (simp add: wrap64_cong)
    also have "\<dots> = a - b - 2 ^ 64"
      using assms 2 by (intro wrap64_id) (simp add: in64_def)
    finally show ?thesis using 2 by simp
  next
    case 3
    then show ?thesis by (simp add: in64_def)
  qed
qed

lemma in64_0 [simp]: "in64 0"
  by (simp add: in64_def)

lemma in64_between: "in64 a \<Longrightarrow> in64 b \<Longrightarrow> a \<le> x \<Longrightarrow> x \<le> b \<Longrightarrow> in64 x"
  by (simp add: in64_def)

lemma in64_minus_iff: "in64 (- x) \<longleftrightarrow> in64 (x - 1)"
  by (auto simp: in64_def)

section \<open>Outcomes\<close>

datatype err =
    MoneyErrCurrencyMismatch | MoneyErrUnknownCurrency | MoneyErrOverflow
  | MoneyErrInvalidAmount | MoneyErrInvalidRatios
  | ErrUnbalanced | ErrMultiCurrency | ErrInsufficientFunds | ErrInvalidAmount | ErrNoEntries
  | ErrAccountNotFound | ErrTransactionNotFound | ErrAccountExists | ErrInvalidAccount
  | ErrInvalidAccountType | ErrInvalidDirection | ErrAccountCurrency | ErrNotPending
  | ErrNotPosted | ErrAlreadyReversed | ErrCaptureExceedsAuthorization | ErrInvalidCursor
  | ErrFeeExceedsAmount | ErrInvalidFeeSchedule | ErrPaymentNotFound | ErrNotCapturable
  | ErrNotRefundable | ErrRefundExceedsPayment | ErrAmountRequired
  | ErrKeyNotFound | ErrFingerprintMismatch | ErrInProgress | ErrKeyRequired | ErrInvalidKey
  | ErrInvalidType | ErrEventNotFound | ErrInvalidPayload
  | ErrMalformedHeader | ErrNoSignatures | ErrTooOld | ErrNoMatch
  | ErrEndpointNotFound | ErrDeliveryNotFound | ErrSecretNotFound | ErrNotReplayable
  | ErrEndpointDisabled | ErrInsecureScheme | ErrPrivateAddress | ErrInvalidURL | ErrRedirect
  | ErrAPIKeyNotFound
  | ErrContext \<comment> \<open>\<^verbatim>\<open>ctx.Err()\<close>\<close>
  | ErrOther string \<comment> \<open>an error with no sentinel, named by its origin\<close>

datatype 'a outcome = Ok 'a | Err err | Panic

fun andThen :: "'a outcome \<Rightarrow> ('a \<Rightarrow> 'b outcome) \<Rightarrow> 'b outcome" where
  "andThen (Ok x) f = f x"
| "andThen (Err e) f = Err e"
| "andThen Panic f = Panic"

fun map_outcome_list :: "('a \<Rightarrow> 'b outcome) \<Rightarrow> 'a list \<Rightarrow> 'b list outcome" where
  "map_outcome_list f [] = Ok []"
| "map_outcome_list f (x # xs) =
     andThen (f x) (\<lambda>y. andThen (map_outcome_list f xs) (\<lambda>ys. Ok (y # ys)))"

lemma andThen_eq_Ok [simp]: "andThen m f = Ok y \<longleftrightarrow> (\<exists>x. m = Ok x \<and> f x = Ok y)"
  by (cases m) auto

lemma andThen_eq_Err: "andThen m f = Err e \<longleftrightarrow> m = Err e \<or> (\<exists>x. m = Ok x \<and> f x = Err e)"
  by (cases m) auto

lemma andThen_eq_Panic: "andThen m f = Panic \<longleftrightarrow> m = Panic \<or> (\<exists>x. m = Ok x \<and> f x = Panic)"
  by (cases m) auto

lemma map_outcome_list_Ok:
  "map_outcome_list f xs = Ok ys \<longleftrightarrow> list_all2 (\<lambda>x y. f x = Ok y) xs ys"
  by (induction xs arbitrary: ys) (auto simp: list_all2_Cons1)

lemma map_outcome_list_total:
  "(\<And>x. x \<in> set xs \<Longrightarrow> f x = Ok (g x)) \<Longrightarrow> map_outcome_list f xs = Ok (map g xs)"
  by (induction xs) auto

section \<open>Stateful operations\<close>

text \<open>
  A method that reads and writes state returns its outcome together with the state it
  leaves, on the error paths too: Go does not undo writes when a later call fails.
\<close>

type_synonym ('s, 'a) opr = "'s \<Rightarrow> 'a outcome \<times> 's"

definition ret :: "'a outcome \<Rightarrow> ('s, 'a) opr" where
  "ret r = (\<lambda>s. (r, s))"

definition seq :: "('s, 'a) opr \<Rightarrow> ('a \<Rightarrow> ('s, 'b) opr) \<Rightarrow> ('s, 'b) opr" where
  "seq m f = (\<lambda>s. case m s of
     (Ok x, s') \<Rightarrow> f x s'
   | (Err e, s') \<Rightarrow> (Err e, s')
   | (Panic, s') \<Rightarrow> (Panic, s'))"

text \<open>A database transaction: the state is kept only when the body succeeds.\<close>

definition atomically :: "('s, 'a) opr \<Rightarrow> ('s, 'a) opr" where
  "atomically m = (\<lambda>s. case m s of (Ok x, s') \<Rightarrow> (Ok x, s') | (r, s') \<Rightarrow> (r, s))"

lemma ret_apply [simp, go_run]: "ret r s = (r, s)"
  by (simp add: ret_def)

lemma seq_Ok [go_run]: "m s = (Ok x, s') \<Longrightarrow> seq m f s = f x s'"
  by (simp add: seq_def)

lemma seq_Err [go_run]: "m s = (Err e, s') \<Longrightarrow> seq m f s = (Err e, s')"
  by (simp add: seq_def)

lemma seq_eq_Ok:
  "seq m f s = (Ok y, t) \<longleftrightarrow> (\<exists>x s'. m s = (Ok x, s') \<and> f x s' = (Ok y, t))"
  by (auto simp: seq_def split: prod.splits outcome.splits)

lemma seq_assoc: "seq (seq m f) g = seq m (\<lambda>x. seq (f x) g)"
  by (rule ext) (simp add: seq_def split: prod.splits outcome.splits)

lemma seq_ret [simp]: "seq (ret (Ok x)) f = f x"
  by (simp add: seq_def ret_def)

lemma seq_ret_Err [simp]: "seq (ret (Err e)) f = ret (Err e)"
  by (rule ext) (simp add: seq_def ret_def)

lemma seq_ret_Panic [simp]: "seq (ret Panic) f = ret Panic"
  by (rule ext) (simp add: seq_def ret_def)

lemma ret_eq_Ok [simp]: "ret r s = (Ok x, t) \<longleftrightarrow> r = Ok x \<and> t = s"
  by (auto simp: ret_def)

lemma atomically_Ok [simp]: "atomically m s = (Ok x, t) \<longleftrightarrow> m s = (Ok x, t)"
  by (auto simp: atomically_def split: prod.splits outcome.splits)

lemma atomically_cases:
  obtains (commit) x t where "m s = (Ok x, t)" "atomically m s = (Ok x, t)"
  | (rollback) r t where "m s = (r, t)" "\<forall>x. r \<noteq> Ok x" "atomically m s = (r, s)"
  by (cases "m s"; cases "fst (m s)") (auto simp: atomically_def)

text \<open>Preservation of a predicate on the state, outcome by outcome.\<close>

definition keeps :: "('s \<Rightarrow> bool) \<Rightarrow> ('s, 'a) opr \<Rightarrow> bool" where
  "keeps P m \<longleftrightarrow> (\<forall>s. P s \<longrightarrow> P (snd (m s)))"

lemma keeps_ret [intro]: "keeps P (ret r)"
  by (simp add: keeps_def)

lemma keeps_seq [intro]:
  assumes "keeps P m" and "\<And>x. keeps P (f x)"
  shows "keeps P (seq m f)"
  using assms by (fastforce simp: keeps_def seq_def split: prod.splits outcome.splits)

lemma keeps_if [intro]: "\<lbrakk>b \<Longrightarrow> keeps P m; \<not> b \<Longrightarrow> keeps P m'\<rbrakk> \<Longrightarrow> keeps P (if b then m else m')"
  by simp

section \<open>Insertion sort\<close>

text \<open>
  The inner loop \<^verbatim>\<open>for j := i; j > 0 && less(xs[j], xs[j-1]); j--\<close> swaps the element at
  \<open>j\<close> to the left while it is less than its neighbour; the outer loop runs it for
  \<open>i = 1, 2, \<dots>\<close>. Both are written on indices, as the code has them.
\<close>

fun sink :: "('a \<Rightarrow> 'a \<Rightarrow> bool) \<Rightarrow> nat \<Rightarrow> 'a list \<Rightarrow> 'a list" where
  "sink lt 0 xs = xs"
| "sink lt (Suc j) xs =
     (if lt (xs ! Suc j) (xs ! j)
      then sink lt j (xs[Suc j := xs ! j, j := xs ! Suc j])
      else xs)"

definition insertion_sort :: "('a \<Rightarrow> 'a \<Rightarrow> bool) \<Rightarrow> 'a list \<Rightarrow> 'a list" where
  "insertion_sort lt xs = fold (sink lt) [1..<length xs] xs"

lemma length_sink [simp]: "length (sink lt j xs) = length xs"
  by (induction j arbitrary: xs) auto

lemma mset_sink: "j < length xs \<Longrightarrow> mset (sink lt j xs) = mset xs"
proof (induction j arbitrary: xs)
  case 0
  then show ?case by simp
next
  case (Suc j)
  then have "mset (xs[Suc j := xs ! j, j := xs ! Suc j]) = mset xs"
    using mset_swap [of j xs "Suc j"] by (simp add: list_update_swap)
  with Suc show ?case by simp
qed

lemma sink_nth_above: "j < i \<Longrightarrow> sink lt j xs ! i = xs ! i"
  by (induction j arbitrary: xs) auto


lemma mset_take_sink:
  assumes "j < length xs"
  shows "mset (take (Suc j) (sink lt j xs)) = mset (take (Suc j) xs)"
proof -
  have "drop (Suc j) (sink lt j xs) = drop (Suc j) xs"
    by (rule nth_equalityI) (auto simp: sink_nth_above)
  moreover have "mset (take (Suc j) (sink lt j xs)) + mset (drop (Suc j) (sink lt j xs)) =
      mset (take (Suc j) xs) + mset (drop (Suc j) xs)"
    using assms by (metis append_take_drop_id mset_append mset_sink)
  ultimately show ?thesis by simp
qed

lemma sorted_take_Suc:
  assumes "j < length xs"
  shows "sorted (map k (take (Suc j) xs)) \<longleftrightarrow>
    sorted (map k (take j xs)) \<and> (\<forall>x\<in>set (take j xs). k x \<le> k (xs ! j))"
  using assms by (auto simp: take_Suc_conv_app_nth sorted_append)

lemma sorted_sink:
  fixes k :: "'a \<Rightarrow> 'b::linorder"
  assumes "\<And>x y. lt x y \<longleftrightarrow> k x < k y" and "j < length xs" and "sorted (map k (take j xs))"
  shows "sorted (map k (take (Suc j) (sink lt j xs)))"
  using assms(2,3)
proof (induction j arbitrary: xs)
  case 0
  then show ?case by (cases xs) auto
next
  case (Suc j)
  have bound: "\<forall>x\<in>set (take j xs). k x \<le> k (xs ! j)" and init: "sorted (map k (take j xs))"
    using Suc.prems sorted_take_Suc [of j xs k] by auto
  show ?case
  proof (cases "lt (xs ! Suc j) (xs ! j)")
    case True
    define ys where "ys = xs[Suc j := xs ! j, j := xs ! Suc j]"
    have len: "j < length ys" and tk: "take j ys = take j xs" and nth: "ys ! Suc j = xs ! j" "ys ! j = xs ! Suc j"
      using Suc.prems by (auto simp: ys_def)
    have pre: "sorted (map k (take (Suc j) (sink lt j ys)))"
      using Suc.IH [OF len] tk init by simp
    have "set (take (Suc j) (sink lt j ys)) = insert (xs ! Suc j) (set (take j xs))"
      using mset_take_sink [OF len, THEN mset_eq_setD] len by (simp add: take_Suc_conv_app_nth tk nth)
    then have "\<forall>x\<in>set (take (Suc j) (sink lt j ys)). k x \<le> k (sink lt j ys ! Suc j)"
      using True bound by (auto simp: assms(1) sink_nth_above nth)
    then show ?thesis
      using pre Suc.prems True sorted_take_Suc [of "Suc j" "sink lt j ys" k] by (simp add: ys_def)
  next
    case False
    then have "k (xs ! j) \<le> k (xs ! Suc j)" by (simp add: assms(1))
    then have "\<forall>x\<in>set (take (Suc j) xs). k x \<le> k (xs ! Suc j)"
      using bound Suc.prems by (fastforce simp: take_Suc_conv_app_nth)
    with False Suc.prems show ?thesis
      using sorted_take_Suc [of "Suc j" xs k] by simp
  qed
qed

lemma length_insertion_sort [simp]: "length (insertion_sort lt xs) = length xs"
proof -
  have "length (fold (sink lt) js xs) = length xs" for js
    by (induction js arbitrary: xs) auto
  then show ?thesis by (simp add: insertion_sort_def)
qed

lemma insertion_sort_prefix:
  fixes k :: "'a \<Rightarrow> 'b::linorder"
  assumes "\<And>x y. lt x y \<longleftrightarrow> k x < k y" and "m \<le> length xs"
  shows "length (fold (sink lt) [1..<m] xs) = length xs \<and> mset (fold (sink lt) [1..<m] xs) = mset xs
    \<and> sorted (map k (take m (fold (sink lt) [1..<m] xs)))"
  using assms(2)
proof (induction m)
  case 0
  then show ?case by simp
next
  case (Suc m)
  show ?case
  proof (cases "m = 0")
    case True
    then show ?thesis by (cases xs) auto
  next
    case False
    with Suc sorted_sink [where k = k, OF assms(1)] show ?thesis
      by (simp add: mset_sink)
  qed
qed

lemma mset_insertion_sort:
  fixes k :: "'a \<Rightarrow> 'b::linorder"
  assumes "\<And>x y. lt x y \<longleftrightarrow> k x < k y"
  shows "mset (insertion_sort lt xs) = mset xs"
  using insertion_sort_prefix [where k = k, OF assms, of "length xs" xs] by (simp add: insertion_sort_def)

lemma sorted_insertion_sort:
  fixes k :: "'a \<Rightarrow> 'b::linorder"
  assumes "\<And>x y. lt x y \<longleftrightarrow> k x < k y"
  shows "sorted (map k (insertion_sort lt xs))"
proof -
  have "sorted (map k (take (length xs) (insertion_sort lt xs)))"
    using insertion_sort_prefix [where k = k, OF assms, of "length xs" xs]
    unfolding insertion_sort_def by blast
  then show ?thesis by simp
qed

lemma insertion_sort_eq_sort: "insertion_sort (<) xs = sort xs"
proof -
  have "mset (insertion_sort (<) xs) = mset xs"
    by (rule mset_insertion_sort [where k = id]) simp
  moreover have "sorted (insertion_sort (<) xs)"
    using sorted_insertion_sort [where k = id and lt = "(<)"] by simp
  ultimately show ?thesis
    by (metis properties_for_sort)
qed

lemma set_insertion_sort:
  fixes k :: "'a \<Rightarrow> 'b::linorder"
  assumes "\<And>x y. lt x y \<longleftrightarrow> k x < k y"
  shows "set (insertion_sort lt xs) = set xs"
  using mset_insertion_sort [where k = k, OF assms] by (rule mset_eq_setD)

end
