(* ===== verification/Go_Strings.thy ===== *)
theory Go_Strings
  imports Go_Prelude "HOL-Library.Char_ord" "HOL-Library.List_Lexorder"
begin

text \<open>
  The parts of Go's \<^verbatim>\<open>strconv\<close> and \<^verbatim>\<open>strings\<close> packages the repository relies on. A Go
  string is a sequence of bytes, so it is a \<open>string\<close> here; \<open><\<close> on strings is the bytewise
  lexicographic order (\<open>List_Lexorder\<close> over \<open>Char_ord\<close>), as in Go.
\<close>

named_theorems go_str \<open>round trips and shapes of rendered values\<close>

section \<open>Decimal integers\<close>

definition digit_char :: "nat \<Rightarrow> char" where
  "digit_char d = char_of (48 + d)"

definition is_digit :: "char \<Rightarrow> bool" where
  "is_digit c \<longleftrightarrow> CHR ''0'' \<le> c \<and> c \<le> CHR ''9''"

definition digit_val :: "char \<Rightarrow> nat" where
  "digit_val c = of_char c - 48"

fun FormatUint :: "nat \<Rightarrow> string" where
  "FormatUint n = (if n < 10 then [digit_char n] else FormatUint (n div 10) @ [digit_char (n mod 10)])"

declare FormatUint.simps [simp del]

definition FormatInt :: "int \<Rightarrow> string" where
  "FormatInt i = (if i < 0 then CHR ''-'' # FormatUint (nat (- i)) else FormatUint (nat i))"

definition digits_value :: "string \<Rightarrow> nat" where
  "digits_value s = foldl (\<lambda>n c. 10 * n + digit_val c) 0 s"

text \<open>
  \<^verbatim>\<open>strconv.ParseInt(s, 10, 64)\<close>: an optional sign, at least one digit, nothing else, and a
  value that fits. Its error is a syntax or a range error; no caller tells them apart.
\<close>

definition ParseInt :: "string \<Rightarrow> int option" where
  "ParseInt s =
     (let neg = (s \<noteq> [] \<and> hd s = CHR ''-'');
          ds = (if s \<noteq> [] \<and> (hd s = CHR ''-'' \<or> hd s = CHR ''+'') then tl s else s);
          n = int (digits_value ds);
          v = (if neg then - n else n)
      in if ds = [] \<or> \<not> list_all is_digit ds then None
         else if in64 v then Some v else None)"

lemma of_char_digit_char: "d < 10 \<Longrightarrow> of_char (digit_char d) = 48 + d"
  by (simp add: digit_char_def)

lemma is_digit_iff: "is_digit c \<longleftrightarrow> 48 \<le> (of_char c :: nat) \<and> (of_char c :: nat) \<le> 57"
  by (simp add: is_digit_def less_eq_char_def)

lemma is_digit_digit_char [simp]: "d < 10 \<Longrightarrow> is_digit (digit_char d)"
  by (simp add: is_digit_iff of_char_digit_char)

lemma digit_val_digit_char [simp]: "d < 10 \<Longrightarrow> digit_val (digit_char d) = d"
  by (simp add: digit_val_def of_char_digit_char)

lemma FormatUint_digits [simp]: "list_all is_digit (FormatUint n)"
proof (induction n rule: FormatUint.induct)
  case (1 n)
  then show ?case
    by (cases "n < 10") (simp_all add: FormatUint.simps [of n])
qed

lemma FormatUint_nonempty [simp]: "FormatUint n \<noteq> []"
  by (subst FormatUint.simps) simp

lemma digits_value_append_one: "digits_value (s @ [c]) = 10 * digits_value s + digit_val c"
  by (simp add: digits_value_def)

lemma digits_value_FormatUint [simp]: "digits_value (FormatUint n) = n"
proof (induction n rule: FormatUint.induct)
  case (1 n)
  show ?case
  proof (cases "n < 10")
    case True
    then show ?thesis by (simp add: FormatUint.simps [of n] digits_value_def)
  next
    case False
    with 1 show ?thesis
      by (simp add: FormatUint.simps [of n] digits_value_append_one)
  qed
qed

lemma hd_digits:
  assumes "list_all is_digit s" and "s \<noteq> []"
  shows "hd s \<noteq> CHR ''-''" and "hd s \<noteq> CHR ''+''"
  using assms by (cases s; auto simp: is_digit_iff)+

lemma ParseInt_digits:
  assumes "list_all is_digit s" and "s \<noteq> []"
  shows "ParseInt s = (if int (digits_value s) < 2 ^ 63 then Some (int (digits_value s)) else None)"
    and "ParseInt (CHR ''-'' # s) =
      (if int (digits_value s) \<le> 2 ^ 63 then Some (- int (digits_value s)) else None)"
  using assms hd_digits [OF assms] by (simp_all add: ParseInt_def Let_def in64_def)

lemma ParseInt_FormatInt [go_str]: "in64 i \<Longrightarrow> ParseInt (FormatInt i) = Some i"
  by (auto simp: FormatInt_def ParseInt_digits in64_def)

lemma ParseInt_in64: "ParseInt s = Some i \<Longrightarrow> in64 i"
  by (auto simp: ParseInt_def Let_def split: if_splits)

lemma digits_value_append:
  "digits_value (s @ t) = digits_value s * 10 ^ length t + digits_value t"
proof (induction t rule: rev_induct)
  case Nil
  then show ?case by (simp add: digits_value_def)
next
  case (snoc c t)
  have "digits_value ((s @ t) @ [c]) = 10 * (digits_value s * 10 ^ length t + digits_value t) + digit_val c"
    using snoc by (simp only: digits_value_append_one)
  then show ?case by (simp add: digits_value_append_one algebra_simps)
qed

lemma digits_value_zeros [simp]: "digits_value (replicate k CHR ''0'') = 0"
  by (induction k) (simp_all add: digits_value_def digit_val_def replicate_append_same [symmetric])

lemma is_digit_zero [simp]: "is_digit CHR ''0''"
  by (simp add: is_digit_iff)

lemma digits_value_bound: "list_all is_digit s \<Longrightarrow> digits_value s < 10 ^ length s"
proof (induction s rule: rev_induct)
  case Nil
  then show ?case by (simp add: digits_value_def)
next
  case (snoc c s)
  then have "digit_val c \<le> 9" "digits_value s < 10 ^ length s"
    by (auto simp: is_digit_iff digit_val_def)
  then show ?case by (simp add: digits_value_append_one)
qed

lemma length_FormatUint_le:
  assumes "n < 10 ^ k" and "0 < k"
  shows "length (FormatUint n) \<le> k"
  using assms
proof (induction k arbitrary: n)
  case 0
  then show ?case by simp
next
  case (Suc k)
  show ?case
  proof (cases "n < 10")
    case True
    then show ?thesis by (simp add: FormatUint.simps [of n])
  next
    case False
    with Suc.prems have "0 < k" by (cases k) auto
    moreover have "n div 10 < 10 ^ k" using Suc.prems by (simp add: less_mult_imp_div_less mult.commute)
    ultimately show ?thesis using Suc.IH False by (simp add: FormatUint.simps [of n])
  qed
qed

section \<open>Cutting and trimming\<close>

text \<open>\<^verbatim>\<open>strings.Cut\<close> around a one-byte separator: the text before, the text after, found or not.\<close>

fun Cut :: "char \<Rightarrow> string \<Rightarrow> string \<times> string \<times> bool" where
  "Cut sep [] = ([], [], False)"
| "Cut sep (c # s) =
     (if c = sep then ([], s, True)
      else (case Cut sep s of (before, after, ok) \<Rightarrow> (c # before, after, ok)))"

lemma Cut_append: "sep \<notin> set b \<Longrightarrow> Cut sep (b @ sep # a) = (b, a, True)"
  by (induction b) auto

lemma Cut_absent: "sep \<notin> set s \<Longrightarrow> Cut sep s = (s, [], False)"
  by (induction s) auto

lemma Cut_found: "Cut sep s = (b, a, True) \<Longrightarrow> s = b @ sep # a \<and> sep \<notin> set b"
  by (induction s arbitrary: b) (auto split: if_splits prod.splits)

lemma Cut_not_found: "Cut sep s = (b, a, False) \<Longrightarrow> b = s \<and> a = [] \<and> sep \<notin> set s"
  by (induction s arbitrary: b) (auto split: if_splits prod.splits)

fun Split :: "char \<Rightarrow> string \<Rightarrow> string list" where
  "Split sep [] = [[]]"
| "Split sep (c # s) =
     (if c = sep then [] # Split sep s
      else (case Split sep s of [] \<Rightarrow> [[c]] | p # ps \<Rightarrow> (c # p) # ps))"

lemma Split_nonempty [simp]: "Split sep s \<noteq> []"
  by (induction s) (auto split: list.splits)

lemma Split_absent: "sep \<notin> set s \<Longrightarrow> Split sep s = [s]"
  by (induction s) auto

lemma Split_append: "sep \<notin> set p \<Longrightarrow> Split sep (p @ sep # s) = p # Split sep s"
  by (induction p) auto

text \<open>The UTF-8 encodings of the code points \<^verbatim>\<open>unicode.IsSpace\<close> accepts.\<close>

definition unicode_spaces :: "string list" where
  "unicode_spaces =
     map (\<lambda>c. [char_of (c :: nat)]) [9, 10, 11, 12, 13, 32]
     @ map (map char_of) ([[194, 133], [194, 160], [225, 154, 128]] :: nat list list)
     @ map (\<lambda>c. map char_of [226, 128, c :: nat])
         [128, 129, 130, 131, 132, 133, 134, 135, 136, 137, 138, 168, 169, 175]
     @ map (map char_of) ([[226, 129, 159], [227, 128, 128]] :: nat list list)"

definition has_prefix :: "string \<Rightarrow> string \<Rightarrow> bool" where
  "has_prefix s p \<longleftrightarrow> take (length p) s = p"

definition has_suffix :: "string \<Rightarrow> string \<Rightarrow> bool" where
  "has_suffix s p \<longleftrightarrow> has_prefix (rev s) (rev p)"

lemma has_prefix_shrinks: "has_prefix s p \<Longrightarrow> p \<noteq> [] \<Longrightarrow> length s - length p < length s"
  by (cases s) (auto simp: has_prefix_def)

text \<open>Dropping leading members of a list of non-empty patterns, as long as one matches.\<close>

function drop_leading :: "string list \<Rightarrow> string \<Rightarrow> string" where
  "drop_leading ps s =
     (case List.find (\<lambda>p. p \<noteq> [] \<and> has_prefix s p) ps of
        None \<Rightarrow> s
      | Some p \<Rightarrow> drop_leading ps (drop (length p) s))"
  by pat_completeness auto
termination
  by (relation "measure (\<lambda>(ps, s). length s)") (auto simp: find_Some_iff intro: has_prefix_shrinks)

declare drop_leading.simps [simp del]

definition TrimSpace :: "string \<Rightarrow> string" where
  "TrimSpace s = rev (drop_leading (map rev unicode_spaces) (rev (drop_leading unicode_spaces s)))"

lemma drop_leading_id:
  "(\<And>p. p \<in> set ps \<Longrightarrow> p = [] \<or> \<not> has_prefix s p) \<Longrightarrow> drop_leading ps s = s"
  by (subst drop_leading.simps) (force split: option.splits simp: find_Some_iff in_set_conv_nth)

lemma has_prefix_hd: "p \<noteq> [] \<Longrightarrow> has_prefix s p \<Longrightarrow> s \<noteq> [] \<and> hd s = hd p"
  by (cases p; cases s) (auto simp: has_prefix_def)

text \<open>
  Printable ASCII text is left alone: no white-space code point starts or ends with a
  byte between \<open>0x21\<close> and \<open>0x7E\<close>.
\<close>

definition graphic :: "char \<Rightarrow> bool" where
  "graphic c \<longleftrightarrow> 33 \<le> (of_char c :: nat) \<and> (of_char c :: nat) \<le> 126"

lemma unicode_spaces_ends:
  "p \<in> set unicode_spaces \<Longrightarrow> p \<noteq> [] \<and> \<not> graphic (hd p) \<and> \<not> graphic (last p)"
  by (auto simp: unicode_spaces_def graphic_def)

lemma TrimSpace_id [go_str]:
  assumes "s \<noteq> [] \<Longrightarrow> graphic (hd s) \<and> graphic (last s)"
  shows "TrimSpace s = s"
proof -
  have "drop_leading unicode_spaces s = s"
    using assms unicode_spaces_ends by (intro drop_leading_id) (metis has_prefix_hd)
  moreover have "drop_leading (map rev unicode_spaces) (rev s) = rev s"
  proof (rule drop_leading_id)
    fix p
    assume "p \<in> set (map rev unicode_spaces)"
    then obtain q where "p = rev q" "q \<in> set unicode_spaces" by auto
    then show "p = [] \<or> \<not> has_prefix (rev s) p"
      using assms unicode_spaces_ends [of q] has_prefix_hd [of p "rev s"] by (auto simp: hd_rev)
  qed
  ultimately show ?thesis by (simp add: TrimSpace_def)
qed

lemma is_digit_graphic: "is_digit c \<Longrightarrow> graphic c"
  by (simp add: is_digit_iff graphic_def)

end
