(* ===== verification/Money.thy ===== *)
theory Money
  imports Go_Strings "HOL-Library.Product_Lexorder"
begin

text \<open>
  Package \<^verbatim>\<open>internal/money\<close>: the currency table, exact amounts in minor units, checked
  arithmetic on \<open>int64\<close>, basis-point multiplication, the largest-remainder \<open>Allocate\<close>, and
  decimal rendering and parsing. A panic of the Go code is the outcome \<open>Panic\<close>.
\<close>

section \<open>Currencies\<close>

definition exponents :: "(string \<times> nat) list" where
  "exponents =
     map (\<lambda>c. (c, 2))
       [''AUD'', ''BRL'', ''CAD'', ''CHF'', ''CNY'', ''CZK'', ''DKK'', ''EUR'', ''GBP'', ''HKD'',
        ''IDR'', ''ILS'', ''INR'', ''MXN'', ''MYR'', ''NOK'', ''NZD'', ''PHP'', ''PLN'', ''RON'',
        ''RUB'', ''SEK'', ''SGD'', ''THB'', ''TRY'', ''USD'', ''ZAR'']
     @ map (\<lambda>c. (c, 0))
       [''BIF'', ''CLP'', ''DJF'', ''GNF'', ''ISK'', ''JPY'', ''KMF'', ''KRW'', ''PYG'', ''RWF'',
        ''UGX'', ''VND'', ''VUV'', ''XAF'', ''XOF'', ''XPF'']
     @ map (\<lambda>c. (c, 3))
       [''BHD'', ''IQD'', ''JOD'', ''KWD'', ''LYD'', ''OMR'', ''TND'']"

definition pow10 :: "int list" where
  "pow10 = [1, 10, 100, 1000]"

definition Exponent :: "string \<Rightarrow> nat outcome" where
  "Exponent c = (case map_of exponents c of None \<Rightarrow> Err MoneyErrUnknownCurrency | Some e \<Rightarrow> Ok e)"

definition Currency_Valid :: "string \<Rightarrow> bool" where
  "Currency_Valid c \<longleftrightarrow> map_of exponents c \<noteq> None"

text \<open>
  \<^verbatim>\<open>strings.ToUpper\<close>, as far as its result can be an ASCII string: ASCII letters, and the two
  other code points whose upper case is ASCII (dotless i, U+0131, and long s, U+017F). Every
  other non-ASCII code point maps to a non-ASCII one and is left as it is here.
\<close>

fun ToUpper :: "string \<Rightarrow> string" where
  "ToUpper [] = []"
| "ToUpper (c # s) =
     (if 97 \<le> (of_char c :: nat) \<and> (of_char c :: nat) \<le> 122 then char_of ((of_char c :: nat) - 32) # ToUpper s
      else if (of_char c :: nat) = 196 \<and> s \<noteq> [] \<and> (of_char (hd s) :: nat) = 177 then CHR ''I'' # ToUpper (tl s)
      else if (of_char c :: nat) = 197 \<and> s \<noteq> [] \<and> (of_char (hd s) :: nat) = 191 then CHR ''S'' # ToUpper (tl s)
      else c # ToUpper s)"

definition ParseCurrency :: "string \<Rightarrow> string outcome" where
  "ParseCurrency s =
     (let c = ToUpper (TrimSpace s)
      in if Currency_Valid c then Ok c else Err MoneyErrUnknownCurrency)"

definition Currencies :: "string list" where
  "Currencies = sort (map fst exponents)"

section \<open>Amounts\<close>

record money =
  amount :: int
  currency :: string

definition money_ok :: "money \<Rightarrow> bool" where
  "money_ok m \<longleftrightarrow> in64 (amount m) \<and> Currency_Valid (currency m)"

definition Money_New :: "int \<Rightarrow> string \<Rightarrow> money outcome" where
  "Money_New minor c =
     (if \<not> Currency_Valid c then Err MoneyErrUnknownCurrency
      else Ok \<lparr>amount = minor, currency = c\<rparr>)"

definition MustNew :: "int \<Rightarrow> string \<Rightarrow> money outcome" where
  "MustNew minor c = (case Money_New minor c of Ok m \<Rightarrow> Ok m | _ \<Rightarrow> Panic)"

definition Money_Zero :: "string \<Rightarrow> money" where
  "Money_Zero c = \<lparr>amount = 0, currency = c\<rparr>"

definition Money_IsZero :: "money \<Rightarrow> bool" where
  "Money_IsZero m \<longleftrightarrow> amount m = 0"

definition Money_Sign :: "money \<Rightarrow> int" where
  "Money_Sign m = (if amount m < 0 then -1 else if amount m > 0 then 1 else 0)"

definition Money_Add :: "money \<Rightarrow> money \<Rightarrow> money outcome" where
  "Money_Add m q =
     (if currency m \<noteq> currency q then Err MoneyErrCurrencyMismatch
      else let s = wrap64 (amount m + amount q)
        in if (amount m > 0 \<and> amount q > 0 \<and> s < 0) \<or> (amount m < 0 \<and> amount q < 0 \<and> s \<ge> 0)
           then Err MoneyErrOverflow
           else Ok \<lparr>amount = s, currency = currency m\<rparr>)"

definition Money_Sub :: "money \<Rightarrow> money \<Rightarrow> money outcome" where
  "Money_Sub m q =
     (if currency m \<noteq> currency q then Err MoneyErrCurrencyMismatch
      else let d = wrap64 (amount m - amount q)
        in if (amount m \<ge> 0 \<and> amount q < 0 \<and> d < 0) \<or> (amount m < 0 \<and> amount q > 0 \<and> d \<ge> 0)
           then Err MoneyErrOverflow
           else Ok \<lparr>amount = d, currency = currency m\<rparr>)"

definition Money_Neg :: "money \<Rightarrow> money outcome" where
  "Money_Neg m =
     (if amount m = MinInt64 then Err MoneyErrOverflow
      else Ok \<lparr>amount = wrap64 (- amount m), currency = currency m\<rparr>)"

definition Money_Abs :: "money \<Rightarrow> money outcome" where
  "Money_Abs m = (if amount m \<ge> 0 then Ok m else Money_Neg m)"

definition Money_Cmp :: "money \<Rightarrow> money \<Rightarrow> int outcome" where
  "Money_Cmp m q =
     (if currency m \<noteq> currency q then Err MoneyErrCurrencyMismatch
      else Ok (if amount m < amount q then -1 else if amount m > amount q then 1 else 0))"

section \<open>Integer helpers\<close>

definition floorDiv :: "int \<Rightarrow> int \<Rightarrow> int" where
  "floorDiv a b =
     (let q = go_div a b
      in if go_rem a b \<noteq> 0 \<and> ((a < 0) \<noteq> (b < 0)) then wrap64 (q - 1) else q)"

definition mulInt64 :: "int \<Rightarrow> int \<Rightarrow> int \<times> bool" where
  "mulInt64 a b =
     (if a = 0 \<or> b = 0 then (0, True)
      else let p = wrap64 (a * b)
        in if (a = -1 \<and> b = MinInt64) \<or> (b = -1 \<and> a = MinInt64) then (0, False)
           else if go_div p b \<noteq> a then (0, False)
           else (p, True))"

definition addInt64 :: "int \<Rightarrow> int \<Rightarrow> int \<times> bool" where
  "addInt64 a b =
     (let s = wrap64 (a + b)
      in if (a > 0 \<and> b > 0 \<and> s < 0) \<or> (a < 0 \<and> b < 0 \<and> s \<ge> 0) then (0, False) else (s, True))"

definition abs64 :: "int \<Rightarrow> int" where
  "abs64 v = (if v < 0 then wrap64 (- v) else v)"

text \<open>
  \<^verbatim>\<open>bits.Mul64\<close> returns the high and low words of a 128-bit product; \<^verbatim>\<open>bits.Div64\<close> divides
  such a pair and panics when the quotient does not fit, which the guard before it excludes.
\<close>

definition Mul64 :: "int \<Rightarrow> int \<Rightarrow> int \<times> int" where
  "Mul64 x y = (x * y div 2 ^ 64, x * y mod 2 ^ 64)"

definition Div64 :: "int \<Rightarrow> int \<Rightarrow> int \<Rightarrow> (int \<times> int) outcome" where
  "Div64 hi lo y =
     (if y = 0 \<or> y \<le> hi then Panic
      else Ok ((hi * 2 ^ 64 + lo) div y, (hi * 2 ^ 64 + lo) mod y))"

definition mulDivTrunc :: "int \<Rightarrow> int \<Rightarrow> int \<Rightarrow> (int \<times> int) outcome" where
  "mulDivTrunc a ratio dv =
     (if a = 0 \<or> ratio = 0 then Ok (0, 0)
      else let neg = (a < 0);
               ua = (if neg then u64 (- u64 a) else u64 a);
               (hi, lo) = Mul64 ua (u64 ratio)
        in if hi \<ge> u64 dv then Panic
           else andThen (Div64 hi lo (u64 dv)) (\<lambda>(uq, ur).
             let q = wrap64 uq; r = wrap64 ur
             in Ok (if neg then (wrap64 (- q), wrap64 (- r)) else (q, r))))"

section \<open>Basis points\<close>

definition bpsScale :: int where
  "bpsScale = 10000"

definition halfScale :: int where
  "halfScale = 5000"

definition Money_MulBps :: "money \<Rightarrow> int \<Rightarrow> money outcome" where
  "Money_MulBps m bps =
     (if bps < 0 then Panic
      else let q = floorDiv (amount m) bpsScale;
               r = wrap64 (amount m - wrap64 (q * bpsScale));
               (inner1, ok1) = mulInt64 r bps
        in if \<not> ok1 then Panic
           else let (inner2, ok2) = addInt64 inner1 halfScale
             in if \<not> ok2 then Panic
                else let inner = floorDiv inner2 bpsScale;
                         (outer, ok3) = mulInt64 q bps
                  in if \<not> ok3 then Panic
                     else let (total, ok4) = addInt64 outer inner
                       in if \<not> ok4 then Panic
                          else Ok \<lparr>amount = total, currency = currency m\<rparr>)"

section \<open>Allocation\<close>

fun sum_ratios :: "int \<Rightarrow> int list \<Rightarrow> int outcome" where
  "sum_ratios acc [] = Ok acc"
| "sum_ratios acc (r # rs) =
     (if r < 0 then Err MoneyErrInvalidRatios
      else let (s, ok) = addInt64 acc r
        in if \<not> ok then Err MoneyErrInvalidRatios else sum_ratios s rs)"

definition ValidateRatios :: "int list \<Rightarrow> int outcome" where
  "ValidateRatios ratios =
     (if ratios = [] then Err MoneyErrInvalidRatios
      else andThen (sum_ratios 0 ratios) (\<lambda>s. if s = 0 then Err MoneyErrInvalidRatios else Ok s))"

text \<open>The comparison handed to \<^verbatim>\<open>sort.SliceStable\<close>: largest remainder first, ties by position.\<close>

definition allocate_less :: "int list \<Rightarrow> bool \<Rightarrow> nat \<Rightarrow> nat \<Rightarrow> bool" where
  "allocate_less rems forward ia ib =
     (if rems ! ia \<noteq> rems ! ib then rems ! ia > rems ! ib
      else if forward then ia < ib else ia > ib)"

definition bump_parts :: "int \<Rightarrow> nat list \<Rightarrow> int list \<Rightarrow> int list" where
  "bump_parts stp idxs parts = fold (\<lambda>i ps. ps[i := wrap64 (ps ! i + stp)]) idxs parts"

definition Money_Allocate :: "money \<Rightarrow> int list \<Rightarrow> money list outcome" where
  "Money_Allocate m ratios =
     (case ValidateRatios ratios of
        Err e \<Rightarrow> Panic
      | Panic \<Rightarrow> Panic
      | Ok s \<Rightarrow>
          andThen (map_outcome_list (\<lambda>ratio. mulDivTrunc (amount m) ratio s) ratios) (\<lambda>qrs.
            let parts = map fst qrs;
                rems = map (\<lambda>qr. abs64 (snd qr)) qrs;
                allocated = foldl (\<lambda>a q. wrap64 (a + q)) 0 parts;
                leftover = wrap64 (amount m - allocated)
            in andThen
              (if leftover \<noteq> 0
               then let stp = (if leftover < 0 then -1 else 1);
                        order = insertion_sort (allocate_less rems (leftover > 0)) [0..<length ratios];
                        n = nat (abs64 leftover)
                 in if n > length order then Panic
                    else Ok (bump_parts stp (take n order) parts)
               else Ok parts)
              (\<lambda>ps. Ok (map (\<lambda>p. \<lparr>amount = p, currency = currency m\<rparr>) ps))))"

section \<open>Rendering and parsing\<close>

definition Money_Format :: "money \<Rightarrow> string outcome" where
  "Money_Format m =
     andThen (Exponent (currency m)) (\<lambda>e.
       if e = 0 then Ok (FormatInt (amount m))
       else let scale = pow10 ! e;
                neg = (amount m < 0);
                mag = (if neg then u64 (- u64 (amount m)) else u64 (amount m));
                whole = mag div u64 scale;
                frac = mag mod u64 scale;
                fs = FormatUint (nat frac)
         in Ok ((if neg then ''-'' else '''') @ FormatUint (nat whole) @ ''.''
                @ replicate (e - length fs) CHR ''0'' @ fs))"

definition Money_String :: "money \<Rightarrow> string" where
  "Money_String m =
     (case Money_Format m of
        Ok s \<Rightarrow> s @ '' '' @ currency m
      | _ \<Rightarrow> FormatInt (amount m) @ '' minor '' @ currency m)"

definition allDigits :: "string \<Rightarrow> bool" where
  "allDigits s \<longleftrightarrow> list_all is_digit s"

definition ParseDecimal :: "string \<Rightarrow> string \<Rightarrow> money outcome" where
  "ParseDecimal s0 c =
     andThen (Exponent c) (\<lambda>e.
       let s = TrimSpace s0
       in if s = [] then Err MoneyErrInvalidAmount
          else let neg = (hd s = CHR ''-'');
                   s = (if hd s = CHR ''-'' \<or> hd s = CHR ''+'' then tl s else s)
            in if s = [] then Err MoneyErrInvalidAmount
               else let (whole, frac, hasDot) = Cut CHR ''.'' s
                 in if hasDot \<and> e = 0 then Err MoneyErrInvalidAmount
                    else if length frac > e then Err MoneyErrInvalidAmount
                    else if whole = [] \<and> frac = [] then Err MoneyErrInvalidAmount
                    else if \<not> allDigits whole \<or> \<not> allDigits frac then Err MoneyErrInvalidAmount
                    else let padded = frac @ replicate (e - length frac) CHR ''0'';
                             digits = whole @ padded;
                             digits = (if digits = [] then ''0'' else digits);
                             digits = (if neg then CHR ''-'' # digits else digits)
                      in (case ParseInt digits of
                            None \<Rightarrow> Err MoneyErrOverflow
                          | Some minor \<Rightarrow> Ok \<lparr>amount = minor, currency = c\<rparr>))"

end
