(* ===== verification/Money_Laws.thy ===== *)
theory Money_Laws
  imports Money
begin

text \<open>
  What package \<^verbatim>\<open>money\<close> promises: checked arithmetic agrees with arithmetic on the integers
  or fails, \<open>MulBps\<close> is exact round-half-up, \<open>Allocate\<close> never loses a unit, and a rendered
  amount parses back.
\<close>

section \<open>The currency table\<close>

lemma exponents_le_3: "map_of exponents c = Some e \<Longrightarrow> e \<le> 3"
proof -
  have "\<forall>p\<in>set exponents. snd p \<le> 3" by (simp add: exponents_def)
  then show "map_of exponents c = Some e \<Longrightarrow> e \<le> 3" by (fastforce dest: map_of_SomeD)
qed

lemma pow10_nth: "e \<le> 3 \<Longrightarrow> pow10 ! e = 10 ^ e"
  by (auto simp: pow10_def le_Suc_eq numeral_3_eq_3)

lemma Currency_Valid_Exponent: "Currency_Valid c \<longleftrightarrow> (\<exists>e. Exponent c = Ok e)"
  by (auto simp: Currency_Valid_def Exponent_def split: option.splits)

lemma Exponent_Ok: "Exponent c = Ok e \<longleftrightarrow> map_of exponents c = Some e"
  by (auto simp: Exponent_def split: option.splits)

section \<open>Checked arithmetic\<close>

lemma Money_Add_spec:
  assumes "in64 (amount m)" and "in64 (amount q)"
  shows "Money_Add m q =
    (if currency m \<noteq> currency q then Err MoneyErrCurrencyMismatch
     else if in64 (amount m + amount q) then Ok \<lparr>amount = amount m + amount q, currency = currency m\<rparr>
     else Err MoneyErrOverflow)"
  using assms by (auto simp: Money_Add_def Let_def wrap64_sum_cases in64_def)

lemma Money_Sub_spec:
  assumes "in64 (amount m)" and "in64 (amount q)"
  shows "Money_Sub m q =
    (if currency m \<noteq> currency q then Err MoneyErrCurrencyMismatch
     else if in64 (amount m - amount q) then Ok \<lparr>amount = amount m - amount q, currency = currency m\<rparr>
     else Err MoneyErrOverflow)"
  using assms by (auto simp: Money_Sub_def Let_def wrap64_diff_cases in64_def)

lemma addInt64_spec:
  assumes "in64 a" and "in64 b"
  shows "addInt64 a b = (if in64 (a + b) then (a + b, True) else (0, False))"
  using assms by (auto simp: addInt64_def Let_def wrap64_sum_cases in64_def)

lemma in64_div:
  assumes "in64 a" and "0 < b"
  shows "in64 (a div b)"
proof (cases "0 \<le> a")
  case True
  then have "0 \<le> a div b" "a div b \<le> a"
    using assms zdiv_mono2 [of a 1 b] by (simp_all add: pos_imp_zdiv_nonneg_iff)
  with assms True show ?thesis by (simp add: in64_def)
next
  case False
  then have "a \<le> a div b" "a div b < 0"
    using assms zdiv_mono2_neg [of a 1 b] by (simp_all add: pos_imp_zdiv_neg_iff)
  with assms show ?thesis by (simp add: in64_def)
qed

lemma floorDiv_pos:
  assumes "in64 a" and "0 < b"
  shows "floorDiv a b = a div b"
proof (cases "a < 0 \<and> \<not> b dvd a")
  case True
  then have sd: "a sdiv b = a div b + 1" and sm: "a smod b \<noteq> 0"
    using assms by (simp_all add: signed_divide_int_eq_divide_int signed_modulo_int_eq_modulo_int
        sgn_if dvd_eq_mod_eq_0)
       (smt (verit) pos_mod_bound)
  have "a div b < 0" using True assms by (simp add: pos_imp_zdiv_neg_iff)
  then have "in64 (a div b + 1)"
    using in64_div [OF assms] by (simp add: in64_def)
  with True assms sd sm in64_div [OF assms] show ?thesis
    by (simp add: floorDiv_def go_div_def go_rem_def)
next
  case False
  then have "a sdiv b = a div b" and "a \<ge> 0 \<or> a smod b = 0"
    using assms by (auto simp: signed_divide_int_eq_divide_int signed_modulo_int_eq_modulo_int
        sgn_if dvd_eq_mod_eq_0)
  with assms in64_div [OF assms] show ?thesis
    by (auto simp: floorDiv_def go_div_def go_rem_def Let_def)
qed

text \<open>
  Dividing the wrapped product back recovers the operand only when nothing wrapped: the
  truncation error is smaller than half a period.
\<close>

lemma wrapped_product_recovers:
  assumes a: "in64 a" and b: "in64 b" "b \<noteq> 0"
    and rec: "wrap64 (a * b) sdiv b = a"
  shows "in64 (a * b)"
proof -
  let ?p = "wrap64 (a * b)"
  have "?p = b * a + ?p smod b"
    using rec mult_sdiv_smod_eq [of b ?p] by simp
  then have "?p - a * b = ?p smod b" by (simp add: mult.commute)
  moreover have "\<bar>?p smod b\<bar> < 2 ^ 63"
    using smod_int_range [of b ?p] b by (auto simp: in64_def abs_if split: if_splits)
  moreover have "(?p - a * b) mod 2 ^ 64 = 0"
    using wrap64_mod [of "a * b"] by (simp add: mod_eq_dvd_iff)
  then obtain k where "?p - a * b = 2 ^ 64 * k" by (metis mod_0_imp_dvd dvdE)
  ultimately have "k = 0" by (auto simp: abs_if split: if_splits)
  with \<open>?p - a * b = 2 ^ 64 * k\<close> have "?p = a * b" by simp
  then show ?thesis by (simp add: wrap64_eq_iff)
qed

lemma sdiv_in64:
  assumes "in64 p" and "in64 b" and "\<not> (p = MinInt64 \<and> b = -1)"
  shows "in64 (p sdiv b)"
proof (cases "p = MinInt64")
  case True
  show ?thesis
  proof (cases "b = 0")
    case True
    then show ?thesis by (simp add: sdiv_int_div_0)
  next
    case False
    have "p \<noteq> 0" using True by simp
    then have "p sdiv b \<noteq> - p"
      using assms(3) True int_sdiv_negated_is_minus1 [of p b] by blast
    moreover have "p sdiv b \<in> {- \<bar>p\<bar>..\<bar>p\<bar>}" by (rule sdiv_int_range)
    ultimately show ?thesis using True by (auto simp: in64_def)
  qed
next
  case False
  with assms(1) sdiv_int_range [of p b] show ?thesis
    by (auto simp: in64_def abs_if split: if_splits)
qed

lemma mulInt64_spec:
  assumes "in64 a" and "in64 b"
  shows "mulInt64 a b = (if in64 (a * b) then (a * b, True) else (0, False))"
proof (cases "a = 0 \<or> b = 0")
  case True
  then show ?thesis by (auto simp: mulInt64_def)
next
  case nz: False
  let ?p = "wrap64 (a * b)"
  show ?thesis
  proof (cases "in64 (a * b)")
    case True
    then have "\<not> ((a = -1 \<and> b = MinInt64) \<or> (b = -1 \<and> a = MinInt64))"
      by (auto simp: in64_def)
    moreover have "a * b sdiv b = a"
      using nz by (simp add: signed_divide_int_eq_divide_int)
    ultimately show ?thesis
      using True assms nz by (simp add: mulInt64_def go_div_def Let_def)
  next
    case False
    have "go_div ?p b \<noteq> a" if g: "\<not> ((a = -1 \<and> b = MinInt64) \<or> (b = -1 \<and> a = MinInt64))"
    proof
      assume eq: "go_div ?p b = a"
      show False
      proof (cases "?p = MinInt64 \<and> b = -1")
        case True
        then have "wrap64 (- a) = MinInt64" by auto
        moreover have "in64 (- a)" using assms(1) g True by (auto simp: in64_def)
        ultimately have "a = 2 ^ 63" by simp
        with assms(1) show False by (simp add: in64_def)
      next
        case False
        then have "?p sdiv b = a"
          using eq assms sdiv_in64 [of ?p b] by (simp add: go_div_def)
        with assms nz \<open>\<not> in64 (a * b)\<close> show False
          using wrapped_product_recovers by blast
      qed
    qed
    with False nz show ?thesis
      by (auto simp: mulInt64_def Let_def)
  qed
qed

section \<open>Basis points\<close>

lemma in64_small: "\<bar>x\<bar> \<le> 2 ^ 62 \<Longrightarrow> in64 x"
  by (auto simp: in64_def)

lemma MulBps_split:
  "(x * bps + 5000) div 10000 = x div 10000 * bps + (x mod 10000 * bps + 5000) div (10000 :: int)"
proof -
  have "x * bps + 5000 = 10000 * (x div 10000 * bps) + (x mod 10000 * bps + 5000)"
    using mult_div_mod_eq [of 10000 x] by (metis (no_types, lifting) add.assoc distrib_right mult.assoc)
  then show ?thesis by simp
qed

lemma Money_MulBps_characterisation:
  assumes "in64 (amount m)" and "0 \<le> bps" and "in64 bps"
  defines "q \<equiv> amount m div 10000" and "r \<equiv> amount m mod 10000"
  shows "Money_MulBps m bps =
    (if in64 (r * bps) \<and> in64 (r * bps + 5000) \<and> in64 (q * bps) \<and> in64 ((amount m * bps + 5000) div 10000)
     then Ok \<lparr>amount = (amount m * bps + 5000) div 10000, currency = currency m\<rparr>
     else Panic)"
proof -
  have q: "floorDiv (amount m) bpsScale = q" "in64 q"
    using assms by (simp_all add: floorDiv_pos bpsScale_def in64_div)
  have rb: "0 \<le> r" "r < 10000" by (simp_all add: r_def)
  have "amount m - q * 10000 = r"
    by (simp add: q_def r_def minus_div_mult_eq_mod)
  moreover have "wrap64 (amount m - wrap64 (q * 10000)) = wrap64 (amount m - q * 10000)"
    by (rule wrap64_diff_right)
  moreover have r64: "in64 r" using rb by (auto simp: in64_def)
  ultimately have r: "wrap64 (amount m - wrap64 (q * bpsScale)) = r"
    by (simp add: bpsScale_def)
  have half: "in64 halfScale" by (simp add: halfScale_def in64_def)
  have inner: "floorDiv (r * bps + 5000) bpsScale = (r * bps + 5000) div 10000"
    if "in64 (r * bps + 5000)" using that by (simp add: floorDiv_pos bpsScale_def)
  have inner64: "in64 ((r * bps + 5000) div 10000)" if "in64 (r * bps + 5000)"
    using that by (simp add: in64_div)
  have tot: "q * bps + (r * bps + 5000) div 10000 = (amount m * bps + 5000) div 10000"
    unfolding q_def r_def by (rule MulBps_split [symmetric])
  have "mulInt64 r bps = (if in64 (r * bps) then (r * bps, True) else (0, False))"
    and "mulInt64 q bps = (if in64 (q * bps) then (q * bps, True) else (0, False))"
    by (rule mulInt64_spec [OF r64 assms(3)], rule mulInt64_spec [OF q(2) assms(3)])
  moreover have "addInt64 (r * bps) halfScale =
      (if in64 (r * bps + 5000) then (r * bps + 5000, True) else (0, False))" if "in64 (r * bps)"
    using addInt64_spec [OF that half] by (simp add: halfScale_def)
  moreover have "addInt64 (q * bps) ((r * bps + 5000) div 10000) =
      (if in64 ((amount m * bps + 5000) div 10000)
       then ((amount m * bps + 5000) div 10000, True) else (0, False))"
    if "in64 (q * bps)" "in64 (r * bps + 5000)"
    using addInt64_spec [OF that(1) inner64 [OF that(2)]] by (simp only: tot)
  ultimately show ?thesis
    using assms(2)
    by (cases "in64 (r * bps)"; cases "in64 (r * bps + 5000)"; cases "in64 (q * bps)";
        simp add: Money_MulBps_def Let_def q(1) r inner)
qed

lemma Money_MulBps_fee_rate:
  assumes "in64 (amount m)" and "0 \<le> bps" and "bps \<le> 10000" and "MinInt64 \<le> amount m div 10000 * bps"
  shows "Money_MulBps m bps = Ok \<lparr>amount = (amount m * bps + 5000) div 10000, currency = currency m\<rparr>"
proof -
  define a where "a = amount m"
  define q where "q = a div 10000"
  define r where "r = a mod 10000"
  have qr: "a = q * 10000 + r" and r: "0 \<le> r" "r < 10000"
    by (simp_all add: q_def r_def)
  have b: "in64 bps" using assms by (simp add: in64_def)
  have rb: "0 \<le> r * bps" "r * bps \<le> 10000 * 10000"
    using r assms(2,3) mult_mono [of r 10000 bps 10000] by simp_all
  then have i: "in64 (r * bps)" "in64 (r * bps + 5000)" by (simp_all add: in64_def)
  have qup: "q * bps \<le> max 0 (q * 10000)"
    using assms(2,3) by (cases "0 \<le> q") (auto simp: mult_left_mono mult_nonpos_nonneg le_max_iff_disj)
  have amax: "a < 2 ^ 63" using assms(1) by (simp add: in64_def a_def)
  then have "q * bps < 2 ^ 63" using qup qr r by (auto simp: max_def split: if_splits)
  with assms(4) have j: "in64 (q * bps)" by (simp add: in64_def q_def a_def)
  have t: "(a * bps + 5000) div 10000 = q * bps + (r * bps + 5000) div 10000"
    unfolding q_def r_def by (rule MulBps_split)
  have inner: "0 \<le> (r * bps + 5000) div 10000" "(r * bps + 5000) div 10000 \<le> r"
  proof -
    show "0 \<le> (r * bps + 5000) div 10000" using rb by simp
    have "r * bps \<le> r * 10000" using r assms(3) by (simp add: mult_left_mono)
    then show "(r * bps + 5000) div 10000 \<le> r" by simp
  qed
  have "(a * bps + 5000) div 10000 < 2 ^ 63"
  proof (cases "0 \<le> q")
    case True
    then have "q * bps \<le> q * 10000" using assms(3) by (simp add: mult_left_mono)
    with t inner qr amax show ?thesis by linarith
  next
    case False
    then have "q * bps \<le> 0" using assms(2) by (simp add: mult_nonpos_nonneg)
    with t inner r have "(a * bps + 5000) div 10000 < 10000" by linarith
    then show ?thesis by simp
  qed
  moreover have "- (2 ^ 63) \<le> (a * bps + 5000) div 10000"
    using t inner(1) j unfolding in64_def by linarith
  ultimately have "in64 ((a * bps + 5000) div 10000)" by (simp add: in64_def)
  with i j Money_MulBps_characterisation [OF assms(1,2) b] show ?thesis
    by (simp add: a_def q_def r_def)
qed

section \<open>Allocation\<close>

lemma sum_ratios_Ok:
  assumes "0 \<le> acc" and "in64 acc" and "\<forall>r\<in>set rs. in64 r"
  shows "sum_ratios acc rs = Ok t \<longleftrightarrow>
    (\<forall>r\<in>set rs. 0 \<le> r) \<and> t = acc + sum_list rs \<and> in64 t"
  using assms
proof (induction rs arbitrary: acc)
  case Nil
  then show ?case by auto
next
  case (Cons r rs)
  show ?case
  proof (cases "0 \<le> r \<and> in64 (acc + r)")
    case True
    with Cons show ?thesis by (auto simp: addInt64_spec)
  next
    case False
    have "\<not> (in64 (acc + (r + sum_list rs)) \<and> (\<forall>x\<in>set rs. 0 \<le> x))" if "0 \<le> r"
    proof clarify
      assume "in64 (acc + (r + sum_list rs))" and "\<forall>x\<in>set rs. 0 \<le> x"
      moreover from this(2) have "0 \<le> sum_list rs" by (simp add: sum_list_nonneg)
      ultimately show False using that False Cons.prems by (simp add: in64_def)
    qed
    with False Cons.prems show ?thesis by (auto simp: addInt64_spec)
  qed
qed

lemma ValidateRatios_Ok:
  assumes "\<forall>r\<in>set ratios. in64 r"
  shows "ValidateRatios ratios = Ok s \<longleftrightarrow>
    (\<forall>r\<in>set ratios. 0 \<le> r) \<and> s = sum_list ratios \<and> 0 < s \<and> in64 s"
proof -
  have "sum_list ratios = 0" if "ratios = []" using that by simp
  then show ?thesis
    using assms sum_list_nonneg [of ratios]
    by (auto simp: ValidateRatios_def sum_ratios_Ok split: if_splits)
qed

lemma u64_neg: "a < 0 \<Longrightarrow> in64 a \<Longrightarrow> u64 (- u64 a) = - a"
  by (simp add: u64_def mod_minus_eq in64_def)

lemma u64_id: "0 \<le> a \<Longrightarrow> in64 a \<Longrightarrow> u64 a = a"
  by (simp add: u64_def in64_def)

lemma wrap64_minus: "wrap64 (- wrap64 x) = wrap64 (- x)"
  using wrap64_diff_right [of 0 x] by simp

lemma in64_below: "0 \<le> x \<Longrightarrow> x < y \<Longrightarrow> in64 y \<Longrightarrow> in64 x \<and> in64 (- x)"
  by (simp add: in64_def)

lemma mulDivTrunc_spec:
  assumes a: "in64 a" and r: "0 \<le> r" "r \<le> s" and s: "0 < s" "in64 s"
  shows "mulDivTrunc a r s = Ok (sgn a * (\<bar>a\<bar> * r div s), sgn a * (\<bar>a\<bar> * r mod s))"
proof (cases "a = 0 \<or> r = 0")
  case True
  then show ?thesis by (auto simp: mulDivTrunc_def)
next
  case nz: False
  define p where "p = \<bar>a\<bar> * r"
  have A: "\<bar>a\<bar> \<le> 2 ^ 63" using a by (auto simp: in64_def)
  have "p \<le> \<bar>a\<bar> * s" unfolding p_def using r by (simp add: mult_left_mono)
  then have qA: "p div s \<le> \<bar>a\<bar>"
    using zdiv_mono1 [of p "\<bar>a\<bar> * s" s] s by simp
  have "p \<le> 2 ^ 63 * s"
    using \<open>p \<le> \<bar>a\<bar> * s\<close> A s by (meson mult_right_mono order_trans less_imp_le)
  then have hi: "p div 2 ^ 64 < s" using s by simp
  have q0: "0 \<le> p div s" and m0: "0 \<le> p mod s" "p mod s < s"
    using s r by (simp_all add: p_def pos_imp_zdiv_nonneg_iff)
  have r64: "in64 r" using r s by (simp add: in64_def)
  have un: "(if a < 0 then u64 (- u64 a) else u64 a) = \<bar>a\<bar>" "u64 r = r" "u64 s = s"
    using a r s r64 by (auto simp: u64_neg u64_id)
  have whole: "p div 2 ^ 64 * 2 ^ 64 + p mod 2 ^ 64 = p" by simp
  have rem: "in64 (p mod s)" "in64 (- (p mod s))" using in64_below [OF m0 s(2)] by simp_all
  show ?thesis
  proof (cases "a < 0")
    case True
    then have "in64 (- (p div s))" using qA q0 a by (simp add: in64_def)
    moreover have "u64 (- u64 a) = - a" "- (a * r) = p" using un(1) True by (simp_all add: p_def)
    ultimately show ?thesis
      using True nz hi rem s whole unfolding mulDivTrunc_def Mul64_def Div64_def Let_def
      by (simp add: un(2,3) wrap64_minus)
  next
    case False
    then have "in64 (p div s)" using qA q0 a by (simp add: in64_def)
    moreover have "a * r = p" using False by (simp add: p_def)
    ultimately show ?thesis
      using False nz hi rem un s whole by (simp add: mulDivTrunc_def Mul64_def Div64_def Let_def)
  qed
qed

lemma foldl_wrap64: "foldl (\<lambda>a q. wrap64 (a + q)) (wrap64 x) qs = wrap64 (x + sum_list qs)"
  by (induction qs arbitrary: x) (simp_all add: wrap64_add add.assoc)

lemma bump_parts_eq:
  assumes "distinct idxs" and "\<forall>i\<in>set idxs. i < length parts"
  shows "bump_parts stp idxs parts =
    map (\<lambda>j. if j \<in> set idxs then wrap64 (parts ! j + stp) else parts ! j) [0..<length parts]"
  using assms
proof (induction idxs arbitrary: parts)
  case Nil
  then show ?case by (simp add: bump_parts_def map_nth)
next
  case (Cons i idxs)
  let ?ps = "parts[i := wrap64 (parts ! i + stp)]"
  have "bump_parts stp (i # idxs) parts = bump_parts stp idxs ?ps"
    by (simp add: bump_parts_def)
  also have "\<dots> = map (\<lambda>j. if j \<in> set idxs then wrap64 (?ps ! j + stp) else ?ps ! j) [0..<length ?ps]"
    using Cons by simp
  also have "\<dots> = map (\<lambda>j. if j \<in> set (i # idxs) then wrap64 (parts ! j + stp) else parts ! j) [0..<length parts]"
    using Cons.prems by (auto simp: nth_list_update)
  finally show ?case .
qed

definition allocate_key :: "int list \<Rightarrow> bool \<Rightarrow> nat \<Rightarrow> int \<times> int" where
  "allocate_key rems forward i = (- (rems ! i), if forward then int i else - int i)"

lemma allocate_less_key:
  "allocate_less rems forward i j \<longleftrightarrow> allocate_key rems forward i < allocate_key rems forward j"
  by (auto simp: allocate_less_def allocate_key_def less_prod_def')

lemma sorted_take_before:
  fixes k :: "'a \<Rightarrow> 'b::linorder"
  assumes "sorted (map k xs)" and "distinct xs" and "inj_on k (set xs)"
    and "x \<in> set (take n xs)" and "y \<in> set xs" and "y \<notin> set (take n xs)"
  shows "k x < k y"
proof -
  have "y \<in> set (drop n xs)" using assms(5,6) by (metis Un_iff append_take_drop_id set_append)
  moreover have "sorted (map k (take n xs) @ map k (drop n xs))"
    using assms(1) by (metis append_take_drop_id map_append)
  ultimately have "k x \<le> k y" using assms(4) by (auto simp: sorted_append)
  moreover have "k x \<noteq> k y"
    using assms by (metis in_set_takeD inj_onD)
  ultimately show ?thesis by simp
qed

lemma inj_allocate_key: "inj_on (allocate_key rems forward) X"
  by (auto simp: inj_on_def allocate_key_def split: if_splits)

text \<open>
  Fewer leftover units than positive remainders: every part that receives a unit lost a
  fraction to truncation.
\<close>

lemma leftover_hits_positive:
  fixes g :: "nat \<Rightarrow> int"
  assumes "\<And>j. 0 \<le> g j" and "\<And>j. g j < s" and "int l * s = (\<Sum>j<n. g j)" and "0 < s"
    and B: "B \<subseteq> {..<n}" "card B = l"
    and largest: "\<And>i j. i \<in> B \<Longrightarrow> j < n \<Longrightarrow> j \<notin> B \<Longrightarrow> g j \<le> g i"
    and "i \<in> B"
  shows "0 < g i"
proof (rule ccontr)
  assume "\<not> 0 < g i"
  then have gi: "g i = 0" using assms(1) [of i] by simp
  have fin: "finite B" using B(1) finite_subset by blast
  have "(\<Sum>j<n. g j) = (\<Sum>j\<in>B. g j)"
    using B(1) largest [OF \<open>i \<in> B\<close>] assms(1) gi
    by (intro sum.mono_neutral_right) (auto intro: antisym)
  also have "\<dots> = (\<Sum>j\<in>B - {i}. g j)"
    using fin \<open>i \<in> B\<close> gi by (simp add: sum.remove)
  also have "\<dots> \<le> (\<Sum>j\<in>B - {i}. s)"
    by (rule sum_mono) (use assms(2) in \<open>simp add: less_imp_le\<close>)
  also have "\<dots> = int (l - 1) * s"
    using B(2) fin \<open>i \<in> B\<close> by simp
  finally have "int l * s \<le> int (l - 1) * s" using assms(3) by simp
  moreover have "0 < l" using B(2) fin \<open>i \<in> B\<close> card_gt_0_iff by blast
  ultimately show False using assms(4) by (simp add: mult_le_cancel_right)
qed

lemma sum_list_nth: "sum_list (map f xs) = (\<Sum>j<length xs. f (xs ! j))"
  by (simp add: sum_list_sum_nth atLeast0LessThan)

text \<open>
  The functional specification of \<open>Allocate\<close>: every part is the truncated proportional
  share, and a set \<open>B\<close> of as many positions as there are leftover units, namely the first
  ones in the order of \<open>allocate_less\<close>, gets one more unit in the direction of the total.
\<close>

definition share :: "int \<Rightarrow> int list \<Rightarrow> nat \<Rightarrow> int" where
  "share a ratios j = \<bar>a\<bar> * ratios ! j div sum_list ratios"

definition fraction :: "int \<Rightarrow> int list \<Rightarrow> nat \<Rightarrow> int" where
  "fraction a ratios j = \<bar>a\<bar> * ratios ! j mod sum_list ratios"

definition allocation :: "int \<Rightarrow> int list \<Rightarrow> nat set \<Rightarrow> int list" where
  "allocation a ratios B =
     map (\<lambda>j. sgn a * (share a ratios j + of_bool (j \<in> B))) [0..<length ratios]"

definition allocation_bonus :: "int \<Rightarrow> int list \<Rightarrow> nat set \<Rightarrow> bool" where
  "allocation_bonus a ratios B \<longleftrightarrow>
     B \<subseteq> {..<length ratios}
     \<and> int (card B) * sum_list ratios = (\<Sum>j<length ratios. fraction a ratios j)
     \<and> (\<forall>i\<in>B. \<forall>j<length ratios. j \<notin> B \<longrightarrow>
          allocate_less (map (fraction a ratios) [0..<length ratios]) (a > 0) i j)"

lemma share_fraction: "share a ratios j * sum_list ratios + fraction a ratios j = \<bar>a\<bar> * ratios ! j"
  by (simp add: share_def fraction_def)

lemma fraction_bounds:
  assumes "0 < sum_list ratios"
  shows "0 \<le> fraction a ratios j" and "fraction a ratios j < sum_list ratios"
  using assms by (simp_all add: fraction_def)

lemma sum_shares:
  "(\<Sum>j<length ratios. share a ratios j) * sum_list ratios + (\<Sum>j<length ratios. fraction a ratios j)
     = \<bar>a\<bar> * sum_list ratios"
proof -
  have "(\<Sum>j<length ratios. share a ratios j) * sum_list ratios + (\<Sum>j<length ratios. fraction a ratios j)
      = (\<Sum>j<length ratios. \<bar>a\<bar> * ratios ! j)"
    by (simp add: share_fraction sum_distrib_right flip: sum.distrib)
  also have "\<dots> = \<bar>a\<bar> * sum_list ratios"
    using sum_list_nth [of "\<lambda>x. x" ratios] by (simp add: sum_distrib_left)
  finally show ?thesis .
qed

lemma ratio_le_sum:
  fixes ratios :: "int list"
  assumes "\<forall>r\<in>set ratios. 0 \<le> r" and "j < length ratios"
  shows "0 \<le> ratios ! j \<and> ratios ! j \<le> sum_list ratios"
proof -
  have "x \<in> set xs \<Longrightarrow> \<forall>r\<in>set xs. 0 \<le> r \<Longrightarrow> x \<le> sum_list xs" for x :: int and xs
    by (induction xs) (auto simp: sum_list_nonneg add_increasing)
  then show ?thesis using assms nth_mem by blast
qed

lemma share_bounds:
  assumes "\<forall>r\<in>set ratios. 0 \<le> r" and "0 < sum_list ratios" and "j < length ratios"
  shows "0 \<le> share a ratios j" and "share a ratios j \<le> \<bar>a\<bar>"
    and "0 < fraction a ratios j \<Longrightarrow> share a ratios j < \<bar>a\<bar>"
proof -
  have r: "0 \<le> ratios ! j" "ratios ! j \<le> sum_list ratios"
    using ratio_le_sum [OF assms(1,3)] by simp_all
  show "0 \<le> share a ratios j"
    using r assms(2) by (simp add: share_def pos_imp_zdiv_nonneg_iff)
  have le: "\<bar>a\<bar> * ratios ! j \<le> \<bar>a\<bar> * sum_list ratios" using r by (simp add: mult_left_mono)
  then have "share a ratios j * sum_list ratios \<le> \<bar>a\<bar> * sum_list ratios"
    using share_fraction [of a ratios j] fraction_bounds [OF assms(2), of a j] by linarith
  then show "share a ratios j \<le> \<bar>a\<bar>" using assms(2) by (simp add: mult_le_cancel_right)
  assume "0 < fraction a ratios j"
  then have "share a ratios j * sum_list ratios < \<bar>a\<bar> * sum_list ratios"
    using share_fraction [of a ratios j] le by linarith
  then show "share a ratios j < \<bar>a\<bar>" using assms(2) by (simp add: mult_less_cancel_right)
qed

lemma bonus_positive:
  assumes "0 < sum_list ratios" and "allocation_bonus a ratios B" and "i \<in> B"
  shows "0 < fraction a ratios i"
proof (rule leftover_hits_positive [of "fraction a ratios" "sum_list ratios" "card B" "length ratios" B])
  show "fraction a ratios j \<le> fraction a ratios i" if "i \<in> B" "j < length ratios" "j \<notin> B" for i j
  proof -
    have "i < length ratios" using that(1) assms(2) by (auto simp: allocation_bonus_def)
    then show ?thesis
      using that assms(2) by (fastforce simp: allocation_bonus_def allocate_less_def split: if_splits)
  qed
qed (use assms fraction_bounds in \<open>auto simp: allocation_bonus_def\<close>)

lemma sum_allocation:
  assumes "0 < sum_list ratios" and "allocation_bonus a ratios B"
  shows "sum_list (allocation a ratios B) = a"
proof -
  let ?n = "length ratios" and ?s = "sum_list ratios"
  have B: "B \<subseteq> {..<?n}" "finite B"
    using assms(2) finite_subset by (auto simp: allocation_bonus_def)
  have "sum_list (allocation a ratios B) = (\<Sum>j<?n. sgn a * (share a ratios j + of_bool (j \<in> B)))"
    by (simp add: allocation_def interv_sum_list_conv_sum_set_nat atLeast0LessThan)
  also have "\<dots> = sgn a * ((\<Sum>j<?n. share a ratios j) + int (card B))"
    using B by (simp add: sum_distrib_left [symmetric] sum.distrib Int_absorb1 inf_commute
        flip: sum.inter_restrict) (metis Int_absorb1 inf_commute)
  also have "(\<Sum>j<?n. share a ratios j) + int (card B) = \<bar>a\<bar>"
  proof -
    have "((\<Sum>j<?n. share a ratios j) + int (card B)) * ?s = \<bar>a\<bar> * ?s"
      using sum_shares [of a ratios] assms(2) by (simp add: allocation_bonus_def distrib_right)
    then show ?thesis using assms(1) by simp
  qed
  finally show ?thesis by (simp add: sgn_mult_abs)
qed

lemma bonus_order:
  fixes rems :: "int list" and n :: nat and fwd :: bool
  defines "order \<equiv> insertion_sort (allocate_less rems fwd) [0..<n]"
  shows "set order = {..<n}" and "distinct order" and "length order = n"
    and "i \<in> set (take l order) \<Longrightarrow> j < n \<Longrightarrow> j \<notin> set (take l order) \<Longrightarrow> allocate_less rems fwd i j"
proof -
  note key = allocate_less_key [of rems fwd]
  show st: "set order = {..<n}"
    unfolding order_def by (subst set_insertion_sort [OF key]) auto
  have "mset order = mset [0..<n]" unfolding order_def by (rule mset_insertion_sort [OF key])
  then show di: "distinct order" by (metis distinct_upt mset_eq_imp_distinct_iff)
  show "length order = n" by (simp add: order_def)
  assume "i \<in> set (take l order)" "j < n" "j \<notin> set (take l order)"
  moreover have "sorted (map (allocate_key rems fwd) order)"
    unfolding order_def by (rule sorted_insertion_sort [OF key])
  ultimately show "allocate_less rems fwd i j"
    using sorted_take_before [OF _ di inj_allocate_key] st key by blast
qed

text \<open>The units truncation leaves over: fewer than there are parts, and representable.\<close>

definition leftover_units :: "int \<Rightarrow> int list \<Rightarrow> nat" where
  "leftover_units a ratios = nat (\<bar>a\<bar> - (\<Sum>j<length ratios. share a ratios j))"

lemma leftover_units:
  assumes nn: "\<forall>r\<in>set ratios. 0 \<le> r" and pos: "0 < sum_list ratios"
  shows "int (leftover_units a ratios) = \<bar>a\<bar> - (\<Sum>j<length ratios. share a ratios j)"
    and "int (leftover_units a ratios) * sum_list ratios = (\<Sum>j<length ratios. fraction a ratios j)"
    and "leftover_units a ratios \<le> length ratios"
    and "int (leftover_units a ratios) \<le> \<bar>a\<bar>"
proof -
  let ?n = "length ratios" and ?s = "sum_list ratios"
  define L where "L = \<bar>a\<bar> - (\<Sum>j<?n. share a ratios j)"
  have L: "L * ?s = (\<Sum>j<?n. fraction a ratios j)"
    using sum_shares [of a ratios] by (simp add: L_def left_diff_distrib)
  have "0 \<le> (\<Sum>j<?n. fraction a ratios j)"
    using fraction_bounds [OF pos] by (simp add: sum_nonneg)
  then have L0: "0 \<le> L" using L pos by (metis mult_le_cancel_right_pos mult_zero_left)
  have "(\<Sum>j<?n. fraction a ratios j) \<le> (\<Sum>j<?n. ?s)"
    by (rule sum_mono) (use fraction_bounds [OF pos] in \<open>simp add: less_imp_le\<close>)
  then have "L * ?s \<le> int ?n * ?s" by (simp add: L)
  then have Ln: "L \<le> int ?n" using pos by simp
  have "0 \<le> (\<Sum>j<?n. share a ratios j)"
    by (rule sum_nonneg) (simp add: share_bounds(1) [OF nn pos])
  then have "L \<le> \<bar>a\<bar>" by (simp add: L_def)
  moreover have lu: "int (leftover_units a ratios) = L" using L0 by (simp add: leftover_units_def L_def)
  ultimately show "int (leftover_units a ratios) \<le> \<bar>a\<bar>" by simp
  show "int (leftover_units a ratios) = \<bar>a\<bar> - (\<Sum>j<?n. share a ratios j)" using lu L_def by simp
  show "int (leftover_units a ratios) * ?s = (\<Sum>j<?n. fraction a ratios j)" using lu L by simp
  show "leftover_units a ratios \<le> ?n" using lu Ln by linarith
qed

lemma leftover_units_in64:
  assumes nn: "\<forall>r\<in>set ratios. 0 \<le> r" and pos: "0 < sum_list ratios"
    and "in64 (sum_list ratios)" and a: "in64 a"
  shows "in64 (int (leftover_units a ratios))"
proof (rule ccontr)
  assume "\<not> ?thesis"
  then have big: "2 ^ 63 \<le> int (leftover_units a ratios)" by (simp add: in64_def)
  with leftover_units(4) [OF nn pos, of a] a have full: "\<bar>a\<bar> = 2 ^ 63" and "int (leftover_units a ratios) = \<bar>a\<bar>"
    by (auto simp: in64_def)
  then have "(\<Sum>j<length ratios. share a ratios j) = 0"
    using leftover_units(1) [OF nn pos, of a] by simp
  then have zero: "\<forall>j<length ratios. share a ratios j = 0"
    by (subst (asm) sum_nonneg_eq_0_iff) (auto simp: share_bounds(1) [OF nn pos])
  have "\<exists>r\<in>set ratios. 0 < r" using pos sum_list_nonpos [of ratios] by (meson not_le)
  then obtain r where "r \<in> set ratios" "0 < r" by blast
  then obtain j where j: "j < length ratios" "0 < ratios ! j" by (auto simp: in_set_conv_nth)
  have "sum_list ratios * 1 \<le> \<bar>a\<bar> * ratios ! j"
    using j assms(3) full pos by (intro mult_mono) (auto simp: in64_def)
  then have "1 \<le> share a ratios j"
    using pos zdiv_mono1 [of "sum_list ratios" "\<bar>a\<bar> * ratios ! j" "sum_list ratios"] by (simp add: share_def)
  with zero j(1) show False by simp
qed

lemma truncated_shares:
  assumes "in64 a" and nn: "\<forall>r\<in>set ratios. 0 \<le> r" and pos: "0 < sum_list ratios"
    and "in64 (sum_list ratios)"
  shows "map_outcome_list (\<lambda>ratio. mulDivTrunc a ratio (sum_list ratios)) ratios =
    Ok (map (\<lambda>j. (sgn a * share a ratios j, sgn a * fraction a ratios j)) [0..<length ratios])"
proof -
  have "map_outcome_list (\<lambda>ratio. mulDivTrunc a ratio (sum_list ratios)) ratios =
      Ok (map (\<lambda>ratio. (sgn a * (\<bar>a\<bar> * ratio div sum_list ratios), sgn a * (\<bar>a\<bar> * ratio mod sum_list ratios))) ratios)"
  proof (rule map_outcome_list_total)
    fix ratio
    assume "ratio \<in> set ratios"
    then have "0 \<le> ratio" "ratio \<le> sum_list ratios" using ratio_le_sum [OF nn] by (auto simp: in_set_conv_nth)
    then show "mulDivTrunc a ratio (sum_list ratios) =
        Ok (sgn a * (\<bar>a\<bar> * ratio div sum_list ratios), sgn a * (\<bar>a\<bar> * ratio mod sum_list ratios))"
      using assms by (intro mulDivTrunc_spec) simp_all
  qed
  also have "map (\<lambda>ratio. (sgn a * (\<bar>a\<bar> * ratio div sum_list ratios), sgn a * (\<bar>a\<bar> * ratio mod sum_list ratios))) ratios
      = map (\<lambda>j. (sgn a * share a ratios j, sgn a * fraction a ratios j)) [0..<length ratios]"
    by (rule nth_equalityI) (simp_all add: share_def fraction_def)
  finally show ?thesis .
qed

lemma abs64_sgn:
  assumes "0 \<le> x" and "in64 x" and "a = 0 \<Longrightarrow> x = 0"
  shows "abs64 (sgn a * x) = x"
  using assms by (cases "a = 0") (auto simp: abs64_def sgn_if)

lemma bump_allocation:
  assumes nn: "\<forall>r\<in>set ratios. 0 \<le> r" and pos: "0 < sum_list ratios" and "in64 a"
    and bonus: "allocation_bonus a ratios (set idxs)" and "distinct idxs"
  shows "bump_parts (sgn a) idxs (map (\<lambda>j. sgn a * share a ratios j) [0..<length ratios])
    = allocation a ratios (set idxs)"
proof -
  have idx: "\<forall>i\<in>set idxs. i < length ratios"
    using bonus by (auto simp: allocation_bonus_def)
  have "wrap64 (sgn a * share a ratios j + sgn a) = sgn a * (share a ratios j + 1)" if "j \<in> set idxs" for j
  proof -
    have "0 \<le> share a ratios j" "share a ratios j < \<bar>a\<bar>"
      using share_bounds [OF nn pos] bonus_positive [OF pos bonus that] idx that by auto
    then have "in64 (sgn a * (share a ratios j + 1))"
      using assms(3) by (auto simp: in64_def sgn_if split: if_splits)
    then show ?thesis by (simp add: distrib_left)
  qed
  then show ?thesis
    using bump_parts_eq [OF assms(5), of "map (\<lambda>j. sgn a * share a ratios j) [0..<length ratios]"] idx
    by (auto simp: allocation_def)
qed

lemma Money_Allocate_spec:
  assumes "in64 (amount m)" and "\<forall>r\<in>set ratios. in64 r" and "ValidateRatios ratios = Ok s"
  shows "\<exists>B. allocation_bonus (amount m) ratios B \<and> Money_Allocate m ratios =
    Ok (map (\<lambda>p. \<lparr>amount = p, currency = currency m\<rparr>) (allocation (amount m) ratios B))"
proof -
  define a n where "a = amount m" and "n = length ratios"
  define l where "l = leftover_units a ratios"
  have nn: "\<forall>r\<in>set ratios. 0 \<le> r" and s: "s = sum_list ratios" and pos: "0 < sum_list ratios"
    and s64: "in64 (sum_list ratios)" and a64: "in64 a"
    using assms ValidateRatios_Ok by (auto simp: a_def)
  define rems where "rems = map (fraction a ratios) [0..<n]"
  define parts where "parts = map (\<lambda>j. sgn a * share a ratios j) [0..<n]"
  define order where "order = insertion_sort (allocate_less rems (0 < a)) [0..<n]"
  note ord = bonus_order [where rems = rems and fwd = "0 < a" and n = n, folded order_def]
  note lu = leftover_units [OF nn pos, of a, folded l_def n_def]
  have bonus: "allocation_bonus a ratios (set (take l order))"
    using ord(4) lu(2,3) ord(1-3)
    by (auto simp: allocation_bonus_def rems_def n_def distinct_card dest: in_set_takeD)
  have rems: "map (\<lambda>j. abs64 (sgn a * fraction a ratios j)) [0..<n] = rems"
    using fraction_bounds [OF pos] in64_below [OF _ _ s64]
    by (auto simp: rems_def intro!: abs64_sgn) (simp add: fraction_def)
  have l64: "in64 (int l)" using leftover_units_in64 [OF nn pos s64 a64] by (simp add: l_def)
  have "sum_list parts = sgn a * (\<Sum>j<n. share a ratios j)"
    by (simp add: parts_def interv_sum_list_conv_sum_set_nat atLeast0LessThan sum_distrib_left)
  then have "a - sum_list parts = sgn a * int l"
    using lu(1) by (simp add: right_diff_distrib sgn_mult_abs)
  moreover have "in64 (sgn a * int l)" using l64 by (auto simp: in64_def sgn_if)
  moreover have "foldl (\<lambda>a q. wrap64 (a + q)) 0 parts = wrap64 (sum_list parts)"
    using foldl_wrap64 [of 0 parts] by simp
  ultimately have left: "wrap64 (a - foldl (\<lambda>a q. wrap64 (a + q)) 0 parts) = sgn a * int l"
    by (simp add: wrap64_diff_right)
  have abs: "abs64 (sgn a * int l) = int l"
    using l64 lu(4) by (auto intro: abs64_sgn)
  have "(if sgn a * int l \<noteq> 0
       then if length order < l then Panic
            else Ok (bump_parts (if sgn a * int l < 0 then -1 else 1) (take l order) parts)
       else Ok parts) = Ok (allocation a ratios (set (take l order)))"
  proof (cases "sgn a * int l = 0")
    case True
    then show ?thesis by (auto simp: parts_def allocation_def n_def sgn_if split: if_splits)
  next
    case False
    then have "(if sgn a * int l < 0 then -1 else 1) = sgn a" by (auto simp: sgn_if split: if_splits)
    with False show ?thesis
      using bump_allocation [OF nn pos a64 bonus] ord(2,3) lu(3) by (simp add: parts_def n_def)
  qed
  moreover have "sgn a * int l \<noteq> 0 \<Longrightarrow> (0 < sgn a * int l) = (0 < a)"
    by (auto simp: sgn_if)
  ultimately have "Money_Allocate m ratios = andThen (Ok (allocation a ratios (set (take l order))))
      (\<lambda>ps. Ok (map (\<lambda>p. \<lparr>amount = p, currency = currency m\<rparr>) ps))"
    unfolding Money_Allocate_def assms(3) a_def [symmetric]
    using truncated_shares [OF a64 nn pos s64] left rems abs
    by (simp add: s Let_def comp_def order_def parts_def n_def cong: if_cong)
  with bonus show ?thesis by (auto simp: a_def)
qed

section \<open>Rendering and parsing\<close>

text \<open>What \<open>ParseDecimal\<close> makes of a sign, whole digits and exactly as many fraction digits as the currency has.\<close>

lemma digit_not: "is_digit c \<Longrightarrow> c \<noteq> CHR ''.'' \<and> c \<noteq> CHR ''-'' \<and> c \<noteq> CHR ''+''"
  by (auto simp: is_digit_iff)

lemma digits_no_dot: "list_all is_digit s \<Longrightarrow> CHR ''.'' \<notin> set s"
  using digit_not by (auto simp: list_all_iff)

lemma TrimSpace_signed:
  assumes "list_all is_digit w" and "w \<noteq> []" and "list_all is_digit f"
  shows "TrimSpace (w @ f) = w @ f" and "TrimSpace (CHR ''-'' # w @ f) = CHR ''-'' # w @ f"
    and "f \<noteq> [] \<Longrightarrow> TrimSpace (w @ CHR ''.'' # f) = w @ CHR ''.'' # f"
    and "f \<noteq> [] \<Longrightarrow> TrimSpace (CHR ''-'' # w @ CHR ''.'' # f) = CHR ''-'' # w @ CHR ''.'' # f"
proof -
  have d: "graphic (hd w)" "graphic (last w)" "f \<noteq> [] \<Longrightarrow> graphic (last f)" "graphic CHR ''-''"
    using assms by (auto simp: list_all_iff is_digit_graphic graphic_def [of "CHR ''-''"])
  show "TrimSpace (w @ f) = w @ f" "TrimSpace (CHR ''-'' # w @ f) = CHR ''-'' # w @ f"
    "f \<noteq> [] \<Longrightarrow> TrimSpace (w @ CHR ''.'' # f) = w @ CHR ''.'' # f"
    "f \<noteq> [] \<Longrightarrow> TrimSpace (CHR ''-'' # w @ CHR ''.'' # f) = CHR ''-'' # w @ CHR ''.'' # f"
    using assms(2) d by (cases "f = []", auto intro!: TrimSpace_id simp: last_append)
qed

lemma ParseDecimal_digits:
  assumes "Exponent c = Ok e" and w: "list_all is_digit w" "w \<noteq> []" and f: "list_all is_digit f" "length f = e"
  defines "body \<equiv> (if e = 0 then w else w @ CHR ''.'' # f)"
  defines "v \<equiv> digits_value w * 10 ^ e + digits_value f"
  shows "ParseDecimal body c = (if int v < 2 ^ 63 then Ok \<lparr>amount = int v, currency = c\<rparr> else Err MoneyErrOverflow)"
    and "ParseDecimal (CHR ''-'' # body) c =
      (if int v \<le> 2 ^ 63 then Ok \<lparr>amount = - int v, currency = c\<rparr> else Err MoneyErrOverflow)"
proof -
  have fe: "e = 0 \<longleftrightarrow> f = []" using f by auto
  have body: "body \<noteq> []" "hd body \<noteq> CHR ''-''" "hd body \<noteq> CHR ''+''"
    using w hd_digits [OF w] by (auto simp: body_def)
  have trim: "TrimSpace body = body" "TrimSpace (CHR ''-'' # body) = CHR ''-'' # body"
    using TrimSpace_signed [OF w f(1)] fe by (auto simp: body_def)
  have cut: "Cut CHR ''.'' body = (w, f, 0 < e)"
    using Cut_append [of "CHR ''.''" w f] Cut_absent [of "CHR ''.''" w] digits_no_dot [OF w(1)] fe
    by (auto simp: body_def)
  have digits: "list_all is_digit (w @ f)" "w @ f \<noteq> []" "digits_value (w @ f) = v"
    using w f by (simp_all add: v_def digits_value_append)
  show "ParseDecimal body c = (if int v < 2 ^ 63 then Ok \<lparr>amount = int v, currency = c\<rparr> else Err MoneyErrOverflow)"
    using assms(1) body trim cut w f ParseInt_digits(1) [OF digits(1,2)] digits(3)
    by (auto simp: ParseDecimal_def Let_def allDigits_def)
  show "ParseDecimal (CHR ''-'' # body) c =
      (if int v \<le> 2 ^ 63 then Ok \<lparr>amount = - int v, currency = c\<rparr> else Err MoneyErrOverflow)"
    using assms(1) body trim cut w f ParseInt_digits(2) [OF digits(1,2)] digits(3)
    by (auto simp: ParseDecimal_def Let_def allDigits_def)
qed

text \<open>The shape of a rendered amount.\<close>

definition render_digits :: "nat \<Rightarrow> nat \<Rightarrow> string" where
  "render_digits e n =
     (if e = 0 then FormatUint n
      else FormatUint (n div 10 ^ e) @ CHR ''.''
        # replicate (e - length (FormatUint (n mod 10 ^ e))) CHR ''0'' @ FormatUint (n mod 10 ^ e))"

lemma Money_Format_shape:
  assumes "in64 (amount m)" and "Exponent (currency m) = Ok e"
  shows "Money_Format m = Ok ((if amount m < 0 then ''-'' else []) @ render_digits e (nat \<bar>amount m\<bar>))"
proof -
  have e: "pow10 ! e = 10 ^ e" "e \<le> 3"
    using assms(2) exponents_le_3 pow10_nth by (auto simp: Exponent_Ok)
  then have "(10::int) ^ e \<le> 10 ^ 3" by (intro power_increasing) simp_all
  then have sc: "u64 (pow10 ! e) = 10 ^ e"
    using e by (simp add: u64_def)
  have mag: "(if amount m < 0 then u64 (- u64 (amount m)) else u64 (amount m)) = \<bar>amount m\<bar>"
    using assms(1) by (simp add: u64_neg u64_id)
  have "nat (\<bar>amount m\<bar> div 10 ^ e) = nat \<bar>amount m\<bar> div 10 ^ e"
    "nat (\<bar>amount m\<bar> mod 10 ^ e) = nat \<bar>amount m\<bar> mod 10 ^ e"
    by (simp_all add: nat_div_distrib nat_mod_distrib nat_power_eq)
  then show ?thesis
    unfolding Money_Format_def assms(2) andThen.simps Let_def mag
    by (auto simp: sc render_digits_def FormatInt_def)
qed

lemma ParseDecimal_render:
  assumes "Exponent c = Ok e"
  shows "ParseDecimal (render_digits e n) c =
      (if int n < 2 ^ 63 then Ok \<lparr>amount = int n, currency = c\<rparr> else Err MoneyErrOverflow)"
    and "ParseDecimal (CHR ''-'' # render_digits e n) c =
      (if int n \<le> 2 ^ 63 then Ok \<lparr>amount = - int n, currency = c\<rparr> else Err MoneyErrOverflow)"
proof -
  let ?w = "FormatUint (n div 10 ^ e)"
  let ?f = "if e = 0 then [] else
    replicate (e - length (FormatUint (n mod 10 ^ e))) CHR ''0'' @ FormatUint (n mod 10 ^ e)"
  have "length ?f = e"
    using length_FormatUint_le [of "n mod 10 ^ e" e] by simp
  moreover have "list_all is_digit ?f" 
    using FormatUint_digits [of "n mod 10 ^ e"] by (auto simp: list_all_iff)
  moreover have "digits_value ?w * 10 ^ e + digits_value ?f = n"
    using div_mult_mod_eq [of n "10 ^ e"]
    by (cases "e = 0") (simp_all add: digits_value_append digits_value_def [of "[]"])
  moreover have "render_digits e n = (if e = 0 then ?w else ?w @ CHR ''.'' # ?f)"
    by (simp add: render_digits_def)
  ultimately show "ParseDecimal (render_digits e n) c =
      (if int n < 2 ^ 63 then Ok \<lparr>amount = int n, currency = c\<rparr> else Err MoneyErrOverflow)"
    "ParseDecimal (CHR ''-'' # render_digits e n) c =
      (if int n \<le> 2 ^ 63 then Ok \<lparr>amount = - int n, currency = c\<rparr> else Err MoneyErrOverflow)"
    using ParseDecimal_digits [OF assms FormatUint_digits FormatUint_nonempty, of ?f "n div 10 ^ e"] by simp_all
qed

section \<open>Properties of the package\<close>

text \<open>
  C24. Allocation never loses or creates a unit: for every representable amount and every
  list of ratios that \<open>ValidateRatios\<close> accepts, \<open>Allocate\<close> returns (it does not panic) one
  part per ratio, each in the currency of the total, and the parts add up to exactly the total.
\<close>

theorem Allocate_conserves:
  assumes "in64 (amount m)" and "\<forall>r\<in>set ratios. in64 r" and "ValidateRatios ratios = Ok s"
  shows "\<exists>parts. Money_Allocate m ratios = Ok parts \<and> length parts = length ratios
    \<and> (\<forall>p\<in>set parts. currency p = currency m) \<and> sum_list (map amount parts) = amount m"
proof -
  obtain B where B: "allocation_bonus (amount m) ratios B"
    and run: "Money_Allocate m ratios =
      Ok (map (\<lambda>p. \<lparr>amount = p, currency = currency m\<rparr>) (allocation (amount m) ratios B))"
    using Money_Allocate_spec [OF assms] by blast
  have "0 < sum_list ratios" using assms(3) ValidateRatios_Ok [OF assms(2)] by simp
  then have "sum_list (allocation (amount m) ratios B) = amount m"
    using B by (rule sum_allocation)
  moreover have "map (amount \<circ> (\<lambda>p. \<lparr>amount = p, currency = currency m\<rparr>)) xs = xs" for xs
    by (simp add: comp_def)
  moreover have "length (allocation (amount m) ratios B) = length ratios" by (simp add: allocation_def)
  ultimately show ?thesis unfolding run by simp
qed

lemma Allocate_conserves_witness:
  "\<exists>parts. Money_Allocate \<lparr>amount = -100, currency = ''USD''\<rparr> [1, 0, 1, 1] = Ok parts \<and> length parts = 4
    \<and> (\<forall>p\<in>set parts. currency p = ''USD'') \<and> sum_list (map amount parts) = -100"
  using Allocate_conserves [of "\<lparr>amount = -100, currency = ''USD''\<rparr>" "[1, 0, 1, 1]" 3]
  by (simp add: in64_def ValidateRatios_def addInt64_def wrap64_def eval_nat_numeral)

text \<open>
  Allocation is fair: every part is within one unit of its exact proportional quota
  (scaled by the sum of the ratios to stay in the integers), never has the opposite sign of
  the total, never exceeds it in magnitude, and a ratio of zero gets nothing.
\<close>

theorem Allocate_quota:
  assumes "in64 (amount m)" and "\<forall>r\<in>set ratios. in64 r" and "ValidateRatios ratios = Ok s"
    and "j < length ratios"
  shows "\<exists>parts. Money_Allocate m ratios = Ok parts
    \<and> \<bar>amount (parts ! j) * s - amount m * ratios ! j\<bar> < s
    \<and> 0 \<le> sgn (amount m) * amount (parts ! j) \<and> \<bar>amount (parts ! j)\<bar> \<le> \<bar>amount m\<bar>
    \<and> (ratios ! j = 0 \<longrightarrow> amount (parts ! j) = 0)"
proof -
  define a where "a = amount m"
  obtain B where B: "allocation_bonus a ratios B"
    and run: "Money_Allocate m ratios = Ok (map (\<lambda>p. \<lparr>amount = p, currency = currency m\<rparr>) (allocation a ratios B))"
    using Money_Allocate_spec [OF assms(1-3)] by (auto simp: a_def)
  have nn: "\<forall>r\<in>set ratios. 0 \<le> r" and pos: "0 < sum_list ratios" and s: "s = sum_list ratios"
    using assms(3) ValidateRatios_Ok [OF assms(2)] by simp_all
  define u where "u = share a ratios j + of_bool (j \<in> B)"
  have part: "allocation a ratios B ! j = sgn a * u" using assms(4) by (simp add: allocation_def u_def)
  have fr: "0 \<le> fraction a ratios j" "fraction a ratios j < s" "j \<in> B \<Longrightarrow> 0 < fraction a ratios j"
    using fraction_bounds [OF pos, of a j] bonus_positive [OF pos B] s by simp_all
  have u: "0 \<le> u" "u \<le> \<bar>a\<bar>"
    using share_bounds [OF nn pos assms(4), of a] fr(3) by (auto simp: u_def of_bool_def)
  have "u * s - \<bar>a\<bar> * ratios ! j = of_bool (j \<in> B) * s - fraction a ratios j"
    using share_fraction [of a ratios j] s by (simp add: u_def distrib_right)
  then have quota: "\<bar>u * s - \<bar>a\<bar> * ratios ! j\<bar> < s" using fr by (auto simp: of_bool_def)
  have "sgn a * u * s - a * ratios ! j = sgn a * (u * s - \<bar>a\<bar> * ratios ! j)"
    by (simp add: right_diff_distrib mult.assoc [symmetric] sgn_mult_abs)
  then have "\<bar>sgn a * u * s - a * ratios ! j\<bar> < s" using quota pos s by (auto simp: abs_mult sgn_if)
  moreover have "ratios ! j = 0 \<Longrightarrow> u = 0"
    using fr(3) by (auto simp: u_def share_def fraction_def)
  moreover have "0 \<le> sgn a * (sgn a * u)" "\<bar>sgn a * u\<bar> \<le> \<bar>a\<bar>" using u by (auto simp: sgn_if)
  moreover have "length (allocation a ratios B) = length ratios" by (simp add: allocation_def)
  ultimately show ?thesis
    unfolding run a_def [symmetric] using assms(4) part by simp
qed

lemma Allocate_quota_witness:
  "\<exists>parts. Money_Allocate \<lparr>amount = 10000, currency = ''USD''\<rparr> [1, 0, 2] = Ok parts
    \<and> \<bar>amount (parts ! 1) * 3 - 10000 * 0\<bar> < 3
    \<and> 0 \<le> sgn 10000 * amount (parts ! 1) \<and> \<bar>amount (parts ! 1)\<bar> \<le> \<bar>10000\<bar> \<and> amount (parts ! 1) = 0"
  using Allocate_quota [of "\<lparr>amount = 10000, currency = ''USD''\<rparr>" "[1, 0, 2]" 3 1]
  by (simp add: in64_def ValidateRatios_def addInt64_def wrap64_def)

text \<open>
  C26. \<open>MulBps\<close> is exact round-half-up at every fee rate: for a rate of at most 10000 basis
  points and every representable amount whose outer partial product fits (which is every
  amount above -9223372036854770001), the result is \<open>floor((amount * bps + 5000) / 10000)\<close>
  computed without overflow, in the same currency, with no panic.
\<close>

theorem MulBps_exact:
  assumes "in64 (amount m)" and "0 \<le> bps" and "bps \<le> 10000" and "- 9223372036854770000 \<le> amount m"
  shows "Money_MulBps m bps = Ok \<lparr>amount = (amount m * bps + 5000) div 10000, currency = currency m\<rparr>"
proof -
  have "- 922337203685477 \<le> amount m div 10000"
    using zdiv_mono1 [OF assms(4), of 10000] by simp
  then have "- 922337203685477 * 10000 \<le> amount m div 10000 * bps"
  proof (cases "0 \<le> amount m div 10000")
    case True
    then have "0 \<le> amount m div 10000 * bps" using assms(2) by simp
    then show ?thesis by linarith
  next
    case False
    then have "amount m div 10000 * 10000 \<le> amount m div 10000 * bps"
      using assms(3) by (intro mult_left_mono_neg) simp_all
    with \<open>- 922337203685477 \<le> amount m div 10000\<close> show ?thesis by linarith
  qed
  then show ?thesis using assms by (intro Money_MulBps_fee_rate) simp_all
qed

lemma MulBps_exact_witness:
  "Money_MulBps \<lparr>amount = -12345, currency = ''EUR''\<rparr> 290 = Ok \<lparr>amount = -358, currency = ''EUR''\<rparr>"
  using MulBps_exact [of "\<lparr>amount = -12345, currency = ''EUR''\<rparr>" 290] by (simp add: in64_def)

text \<open>
  C4. Below that bound the documented claim that \<open>MulBps\<close> is exact for every \<open>int64\<close> amount
  fails: at 100 percent the most negative amount is itself the result, and it fits, but the
  rounding of the quotient toward minus infinity makes the partial product overflow, and the
  call panics.
\<close>

theorem MulBps_panics_at_MinInt64:
  "Money_MulBps \<lparr>amount = MinInt64, currency = c\<rparr> 10000 = Panic
    \<and> (MinInt64 * 10000 + 5000) div 10000 = MinInt64"
  using Money_MulBps_characterisation [of "\<lparr>amount = MinInt64, currency = c\<rparr>" 10000]
  by (simp add: in64_def)

text \<open>
  C25. Rendering and parsing are inverse: every representable amount in a known currency is
  rendered by \<open>Format\<close>, and \<open>ParseDecimal\<close> of the rendering in that currency returns the
  same amount, for all exponents and including the least value of \<open>int64\<close>.
\<close>

theorem Format_ParseDecimal:
  assumes "money_ok m"
  shows "\<exists>s. Money_Format m = Ok s \<and> ParseDecimal s (currency m) = Ok m"
proof -
  obtain e where e: "Exponent (currency m) = Ok e"
    using assms by (auto simp: money_ok_def Currency_Valid_Exponent)
  have "in64 (amount m)" using assms by (simp add: money_ok_def)
  with Money_Format_shape [OF this e] ParseDecimal_render [OF e, of "nat \<bar>amount m\<bar>"] show ?thesis
    by (cases "amount m < 0") (auto simp: in64_def)
qed

lemma Format_ParseDecimal_witness:
  "\<exists>s. Money_Format \<lparr>amount = MinInt64, currency = ''KWD''\<rparr> = Ok s
    \<and> ParseDecimal s ''KWD'' = Ok \<lparr>amount = MinInt64, currency = ''KWD''\<rparr>"
  using Format_ParseDecimal [of "\<lparr>amount = MinInt64, currency = ''KWD''\<rparr>"]
  by (simp add: money_ok_def in64_def Currency_Valid_def exponents_def)

text \<open>
  C6. Checked addition and subtraction agree with the integers: on one currency the result
  is the exact sum or difference when it is representable, and \<open>ErrOverflow\<close> otherwise; across
  currencies both are refused.
\<close>

theorem Add_Sub_checked:
  assumes "in64 (amount m)" and "in64 (amount q)"
  shows "Money_Add m q =
      (if currency m \<noteq> currency q then Err MoneyErrCurrencyMismatch
       else if in64 (amount m + amount q) then Ok \<lparr>amount = amount m + amount q, currency = currency m\<rparr>
       else Err MoneyErrOverflow)
    \<and> Money_Sub m q =
      (if currency m \<noteq> currency q then Err MoneyErrCurrencyMismatch
       else if in64 (amount m - amount q) then Ok \<lparr>amount = amount m - amount q, currency = currency m\<rparr>
       else Err MoneyErrOverflow)"
  using Money_Add_spec [OF assms] Money_Sub_spec [OF assms] by simp

lemma Add_Sub_checked_witness:
  "Money_Add \<lparr>amount = MaxInt64, currency = ''USD''\<rparr> \<lparr>amount = 1, currency = ''USD''\<rparr> = Err MoneyErrOverflow
    \<and> Money_Sub \<lparr>amount = MaxInt64, currency = ''USD''\<rparr> \<lparr>amount = 1, currency = ''USD''\<rparr>
      = Ok \<lparr>amount = MaxInt64 - 1, currency = ''USD''\<rparr>"
  using Add_Sub_checked [of "\<lparr>amount = MaxInt64, currency = ''USD''\<rparr>" "\<lparr>amount = 1, currency = ''USD''\<rparr>"]
  by (simp add: in64_def)

end
