(* ===== verification/Ledger_Types.thy ===== *)
theory Ledger_Types
  imports Money_Laws
begin

text \<open>
  Package \<^verbatim>\<open>internal/ledger\<close>, files \<^verbatim>\<open>types.go\<close> and \<^verbatim>\<open>spec.go\<close>: the data of the ledger, the
  balance convention, and the checks a requested transaction must pass before anything is
  read or written. Directions, account types and statuses are Go strings with a few known
  values, so they are strings here too. Instants are nanoseconds since the Unix epoch. A nil
  metadata map and an empty one are the same value, since no code of the package tells them
  apart by anything but filling in the empty one.
\<close>

section \<open>Directions, account types, statuses\<close>

datatype json =
    JNull | JBool bool | JNumber string | JString string
  | JArray "json list" | JObject "(string \<times> json) list"

type_synonym metadata = "(string \<times> json) list"

type_synonym Direction = string

definition Debit :: Direction where "Debit = ''debit''"

definition Credit :: Direction where "Credit = ''credit''"

definition Opposite :: "Direction \<Rightarrow> Direction" where
  "Opposite d = (if d = Debit then Credit else Debit)"

definition Direction_Valid :: "Direction \<Rightarrow> bool" where
  "Direction_Valid d \<longleftrightarrow> d = Debit \<or> d = Credit"

type_synonym AccountType = string

definition Asset :: AccountType where "Asset = ''asset''"

definition Liability :: AccountType where "Liability = ''liability''"

definition Equity :: AccountType where "Equity = ''equity''"

definition Revenue :: AccountType where "Revenue = ''revenue''"

definition Expense :: AccountType where "Expense = ''expense''"

definition NormalBalance :: "AccountType \<Rightarrow> Direction outcome" where
  "NormalBalance t =
     (if t = Asset \<or> t = Expense then Ok Debit
      else if t = Liability \<or> t = Equity \<or> t = Revenue then Ok Credit
      else Err ErrInvalidAccountType)"

definition AccountType_Valid :: "AccountType \<Rightarrow> bool" where
  "AccountType_Valid t \<longleftrightarrow> (case NormalBalance t of Ok d \<Rightarrow> True | _ \<Rightarrow> False)"

definition EquationSign :: "AccountType \<Rightarrow> int" where
  "EquationSign t = (if t = Asset \<or> t = Expense then 1 else -1)"

type_synonym Status = string

definition StatusPending :: Status where "StatusPending = ''pending''"

definition StatusPosted :: Status where "StatusPosted = ''posted''"

definition StatusVoided :: Status where "StatusVoided = ''voided''"

section \<open>Accounts and balances\<close>

record Account =
  acc_ID :: string
  acc_MerchantID :: string
  acc_Name :: string
  acc_Type :: AccountType
  acc_NormalBalance :: Direction
  acc_Currency :: string
  acc_AllowNegative :: bool
  acc_Metadata :: metadata
  acc_CreatedAt :: int

definition Account_Validate :: "Account \<Rightarrow> unit outcome" where
  "Account_Validate a =
     (if acc_ID a = [] then Err ErrInvalidAccount
      else if acc_MerchantID a = [] then Err ErrInvalidAccount
      else if acc_Name a = [] then Err ErrInvalidAccount
      else if \<not> Currency_Valid (acc_Currency a) then Err MoneyErrUnknownCurrency
      else andThen (NormalBalance (acc_Type a)) (\<lambda>normal.
        if acc_NormalBalance a \<noteq> normal then Err ErrInvalidAccount else Ok ()))"

definition SignedDelta :: "Account \<Rightarrow> Direction \<Rightarrow> int \<Rightarrow> int" where
  "SignedDelta a d n = (if d = acc_NormalBalance a then n else wrap64 (- n))"

record Balance =
  bal_AccountID :: string
  bal_Currency :: string
  bal_Posted :: int
  bal_Pending :: int
  bal_Version :: int
  bal_UpdatedAt :: int

definition Available :: "Balance \<Rightarrow> int" where
  "Available b = (if bal_Pending b < 0 then wrap64 (bal_Posted b + bal_Pending b) else bal_Posted b)"

section \<open>Entries and transactions\<close>

record Entry =
  ent_ID :: int
  ent_TransactionID :: string
  ent_AccountID :: string
  ent_Direction :: Direction
  ent_Amount :: int
  ent_Currency :: string
  ent_Status :: Status
  ent_Seq :: int
  ent_BalanceAfter :: int
  ent_CreatedAt :: int

definition Entry_Money :: "Entry \<Rightarrow> money outcome" where
  "Entry_Money e = MustNew (ent_Amount e) (ent_Currency e)"

record Transaction =
  txn_ID :: string
  txn_MerchantID :: string
  txn_Status :: Status
  txn_Currency :: string
  txn_Description :: string
  txn_ReversesID :: string
  txn_ExternalRef :: string
  txn_Metadata :: metadata
  txn_CreatedAt :: int
  txn_PostedAt :: "int option"
  txn_Entries :: "Entry list"

definition IsPending :: "Transaction \<Rightarrow> bool" where
  "IsPending t \<longleftrightarrow> txn_Status t = StatusPending"

definition Total :: "Transaction \<Rightarrow> int" where
  "Total t = foldl (\<lambda>s e. if ent_Direction e = Debit then wrap64 (s + ent_Amount e) else s) 0 (txn_Entries t)"

section \<open>Pages\<close>

record Page =
  page_Limit :: int
  page_StartingAfter :: string

definition DefaultPageLimit :: int where "DefaultPageLimit = 100"

definition MaxPageLimit :: int where "MaxPageLimit = 1000"

definition Page_Normalize :: "Page \<Rightarrow> Page" where
  "Page_Normalize p =
     (if page_Limit p \<le> 0 then p\<lparr>page_Limit := DefaultPageLimit\<rparr>
      else if page_Limit p > MaxPageLimit then p\<lparr>page_Limit := MaxPageLimit\<rparr>
      else p)"

section \<open>Requested transactions\<close>

record EntrySpec =
  es_AccountID :: string
  es_Direction :: Direction
  es_Amount :: money

record TransactionSpec =
  ts_MerchantID :: string
  ts_Description :: string
  ts_ExternalRef :: string
  ts_Entries :: "EntrySpec list"
  ts_Pending :: bool
  ts_Metadata :: metadata

text \<open>The loop of \<open>Validate\<close>: index, currency of the first entry, running debits and credits.\<close>

fun validate_entries :: "nat \<Rightarrow> string \<Rightarrow> int \<Rightarrow> int \<Rightarrow> EntrySpec list \<Rightarrow> (int \<times> int) outcome" where
  "validate_entries i cur debits credits [] = Ok (debits, credits)"
| "validate_entries i cur debits credits (e # es) =
     (if es_AccountID e = [] then Err ErrInvalidAccount
      else if \<not> Direction_Valid (es_Direction e) then Err ErrInvalidDirection
      else let n = amount (es_Amount e); c = currency (es_Amount e)
      in if n \<le> 0 then Err ErrInvalidAmount
      else if i = 0 \<and> \<not> Currency_Valid c then Err MoneyErrUnknownCurrency
      else if i \<noteq> 0 \<and> c \<noteq> cur then Err ErrMultiCurrency
      else let cur' = (if i = 0 then c else cur)
      in if es_Direction e = Debit
         then (case addInt64 debits n of (s, ok) \<Rightarrow>
           if \<not> ok then Err MoneyErrOverflow else validate_entries (Suc i) cur' s credits es)
         else (case addInt64 credits n of (s, ok) \<Rightarrow>
           if \<not> ok then Err MoneyErrOverflow else validate_entries (Suc i) cur' debits s es))"

definition Spec_Validate :: "TransactionSpec \<Rightarrow> unit outcome" where
  "Spec_Validate s =
     (if ts_MerchantID s = [] then Err ErrInvalidAccount
      else if ts_Entries s = [] then Err ErrNoEntries
      else andThen (validate_entries 0 [] 0 0 (ts_Entries s)) (\<lambda>(debits, credits).
        if debits \<noteq> credits then Err ErrUnbalanced
        else if debits = 0 then Err ErrNoEntries
        else Ok ()))"

definition Spec_Currency :: "TransactionSpec \<Rightarrow> string" where
  "Spec_Currency s = (case ts_Entries s of [] \<Rightarrow> [] | e # _ \<Rightarrow> currency (es_Amount e))"

definition sortStrings :: "string list \<Rightarrow> string list" where
  "sortStrings xs = insertion_sort (<) xs"

definition AccountIDs :: "TransactionSpec \<Rightarrow> string list" where
  "AccountIDs s =
     sortStrings (fold (\<lambda>e ids. if es_AccountID e \<in> set ids then ids else ids @ [es_AccountID e]) (ts_Entries s) [])"

section \<open>The balance convention\<close>

lemma Debit_Credit [simp]: "Debit \<noteq> Credit" "Credit \<noteq> Debit"
  by (simp_all add: Debit_def Credit_def)

lemma Opposite_simps [simp]: "Opposite Debit = Credit" "Opposite Credit = Debit"
  by (simp_all add: Opposite_def)

lemma Direction_Valid_Opposite [simp]: "Direction_Valid (Opposite d)"
  by (simp add: Direction_Valid_def Opposite_def)

lemma Status_distinct [simp]:
  "StatusPending \<noteq> StatusPosted" "StatusPosted \<noteq> StatusPending"
  "StatusVoided \<noteq> StatusPending" "StatusPending \<noteq> StatusVoided"
  "StatusVoided \<noteq> StatusPosted" "StatusPosted \<noteq> StatusVoided"
  by (simp_all add: StatusPending_def StatusPosted_def StatusVoided_def)

lemma in64_neg_pos: "0 \<le> n \<Longrightarrow> in64 n \<Longrightarrow> in64 (- n)"
  by (simp add: in64_def)

text \<open>The debit-positive value of a posting, and of a list of postings.\<close>

definition debit_positive :: "Direction \<Rightarrow> int \<Rightarrow> int" where
  "debit_positive d n = (if d = Debit then n else - n)"

lemma SignedDelta_eq:
  "0 \<le> n \<Longrightarrow> in64 n \<Longrightarrow> SignedDelta a d n = (if d = acc_NormalBalance a then n else - n)"
  by (simp add: SignedDelta_def in64_neg_pos)

lemma Account_Validate_Ok:
  "Account_Validate a = Ok () \<longleftrightarrow>
     acc_ID a \<noteq> [] \<and> acc_MerchantID a \<noteq> [] \<and> acc_Name a \<noteq> [] \<and> Currency_Valid (acc_Currency a)
     \<and> NormalBalance (acc_Type a) = Ok (acc_NormalBalance a)"
  by (auto simp: Account_Validate_def)

lemma NormalBalance_Ok_cases:
  assumes "NormalBalance t = Ok d"
  obtains "d = Debit" "EquationSign t = 1" | "d = Credit" "EquationSign t = -1"
  using assms by (auto simp: NormalBalance_def EquationSign_def split: if_splits)

lemma EquationSign_SignedDelta:
  assumes "NormalBalance (acc_Type a) = Ok (acc_NormalBalance a)"
    and "Direction_Valid d" and "0 \<le> n" and "in64 n"
  shows "EquationSign (acc_Type a) * SignedDelta a d n = debit_positive d n"
  using assms(1)
  by (cases rule: NormalBalance_Ok_cases)
    (use assms(2-4) in \<open>auto simp: SignedDelta_eq debit_positive_def Direction_Valid_def\<close>)

section \<open>What a valid specification is\<close>

definition debit_sum :: "EntrySpec list \<Rightarrow> int" where
  "debit_sum es = sum_list (map (\<lambda>e. if es_Direction e = Debit then amount (es_Amount e) else 0) es)"

definition credit_sum :: "EntrySpec list \<Rightarrow> int" where
  "credit_sum es = sum_list (map (\<lambda>e. if es_Direction e = Debit then 0 else amount (es_Amount e)) es)"

definition entry_spec_ok :: "string \<Rightarrow> EntrySpec \<Rightarrow> bool" where
  "entry_spec_ok c e \<longleftrightarrow>
     es_AccountID e \<noteq> [] \<and> Direction_Valid (es_Direction e) \<and> 0 < amount (es_Amount e) \<and> currency (es_Amount e) = c"

lemma debit_credit_simps [simp]:
  "debit_sum [] = 0" "credit_sum [] = 0"
  "debit_sum (e # es) = (if es_Direction e = Debit then amount (es_Amount e) else 0) + debit_sum es"
  "credit_sum (e # es) = (if es_Direction e = Debit then 0 else amount (es_Amount e)) + credit_sum es"
  by (simp_all add: debit_sum_def credit_sum_def)

lemma side_sums_nonneg:
  "list_all (entry_spec_ok c) es \<Longrightarrow> 0 \<le> debit_sum es \<and> 0 \<le> credit_sum es"
  by (induction es) (auto simp: entry_spec_ok_def)

lemma validate_entries_Ok:
  assumes "0 < i" and "0 \<le> d" "in64 d" and "0 \<le> k" "in64 k"
    and "list_all (\<lambda>e. in64 (amount (es_Amount e))) es"
  shows "validate_entries i c d k es = Ok (d', k') \<longleftrightarrow>
    list_all (entry_spec_ok c) es \<and> d' = d + debit_sum es \<and> k' = k + credit_sum es \<and> in64 d' \<and> in64 k'"
  using assms
proof (induction es arbitrary: i d k)
  case Nil
  then show ?case by auto
next
  case (Cons e es)
  note mono = side_sums_nonneg [of c es]
  have over: "\<not> in64 (x + n + y) \<or> in64 (x + n)" if "0 \<le> x" "0 < n" "0 \<le> y" for x n y :: int
    using that by (auto simp: in64_def)
  show ?case
  proof (cases "entry_spec_ok c e")
    case True
    then show ?thesis
      using Cons mono over [of d "amount (es_Amount e)" "debit_sum es"]
        over [of k "amount (es_Amount e)" "credit_sum es"]
      by (auto simp: entry_spec_ok_def [of c e] addInt64_spec Let_def add.assoc)
  next
    case False
    then show ?thesis
      using Cons.prems by (auto simp: entry_spec_ok_def [of c e] Let_def)
  qed
qed

text \<open>
  The specification of \<open>Validate\<close>: the merchant is named, there is a posting, all postings
  name an account and a direction and have a positive amount in one known currency, and both
  sides have the same representable total.
\<close>

definition spec_ok :: "TransactionSpec \<Rightarrow> bool" where
  "spec_ok s \<longleftrightarrow>
     ts_MerchantID s \<noteq> [] \<and> ts_Entries s \<noteq> [] \<and> Currency_Valid (Spec_Currency s)
     \<and> list_all (entry_spec_ok (Spec_Currency s)) (ts_Entries s)
     \<and> debit_sum (ts_Entries s) = credit_sum (ts_Entries s)
     \<and> in64 (debit_sum (ts_Entries s))"

lemma Spec_Validate_spec_ok:
  assumes "list_all (\<lambda>e. in64 (amount (es_Amount e))) (ts_Entries s)"
  shows "Spec_Validate s = Ok () \<longleftrightarrow> spec_ok s"
proof (cases "ts_Entries s")
  case Nil
  then show ?thesis by (auto simp: Spec_Validate_def spec_ok_def)
next
  case (Cons e es)
  let ?c = "Spec_Currency s" and ?n = "amount (es_Amount e)"
  have c: "?c = currency (es_Amount e)" by (simp add: Spec_Currency_def Cons)
  have first: "validate_entries 0 [] 0 0 (e # es) = Ok (d, k) \<longleftrightarrow>
      Currency_Valid ?c \<and> entry_spec_ok ?c e \<and>
      validate_entries 1 ?c (if es_Direction e = Debit then ?n else 0) (if es_Direction e = Debit then 0 else ?n) es
        = Ok (d, k)" for d k
    using assms by (auto simp: Cons c entry_spec_ok_def Let_def addInt64_spec)
  have "validate_entries 0 [] 0 0 (e # es) = Ok (d, k) \<longleftrightarrow>
      Currency_Valid ?c \<and> list_all (entry_spec_ok ?c) (e # es) \<and> d = debit_sum (e # es) \<and> k = credit_sum (e # es)
      \<and> in64 d \<and> in64 k" for d k
  proof (cases "0 < ?n")
    case True
    then show ?thesis
      unfolding first using validate_entries_Ok [of 1 _ _ es ?c d k] assms by (auto simp: Cons)
  next
    case False
    then show ?thesis unfolding first by (auto simp: entry_spec_ok_def)
  qed
  moreover have "debit_sum (e # es) \<noteq> 0"
    if "list_all (entry_spec_ok ?c) (e # es)" "debit_sum (e # es) = credit_sum (e # es)"
    using that side_sums_nonneg [of ?c es] by (auto simp: entry_spec_ok_def split: if_splits)
  moreover have "Spec_Validate s = Ok () \<longleftrightarrow>
      ts_MerchantID s \<noteq> [] \<and> (\<exists>d k. validate_entries 0 [] 0 0 (e # es) = Ok (d, k) \<and> d = k \<and> d \<noteq> 0)"
    by (auto simp: Spec_Validate_def Cons simp del: validate_entries.simps split: if_splits)
  ultimately show ?thesis
    unfolding spec_ok_def Cons by (metis list.distinct(1))
qed

section \<open>Lock order\<close>

lemma distinct_account_ids:
  "distinct ids \<Longrightarrow>
     distinct (fold (\<lambda>e ids. if es_AccountID e \<in> set ids then ids else ids @ [es_AccountID e]) es ids)
     \<and> set (fold (\<lambda>e ids. if es_AccountID e \<in> set ids then ids else ids @ [es_AccountID e]) es ids)
       = set ids \<union> es_AccountID ` set es"
  by (induction es arbitrary: ids) (auto simp: insert_absorb)

lemma AccountIDs_strict: "sorted_wrt (<) (AccountIDs s) \<and> set (AccountIDs s) = es_AccountID ` set (ts_Entries s)"
  using distinct_account_ids [of "[]" "ts_Entries s"]
  by (simp add: AccountIDs_def sortStrings_def insertion_sort_eq_sort strict_sorted_iff)

text \<open>
  C9. \<open>Validate\<close> accepts a specification exactly when it satisfies the invariants I1 to I3:
  one known currency, positive amounts on valid sides of named accounts, and debits that equal
  credits as integers (the overflow checks exclude totals that only agree modulo 2^64).
\<close>

theorem Validate_iff_balanced:
  assumes "list_all (\<lambda>e. in64 (amount (es_Amount e))) (ts_Entries s)"
  shows "Spec_Validate s = Ok () \<longleftrightarrow>
    ts_MerchantID s \<noteq> [] \<and> ts_Entries s \<noteq> []
    \<and> (\<exists>c. Currency_Valid c \<and> (\<forall>e\<in>set (ts_Entries s).
          es_AccountID e \<noteq> [] \<and> Direction_Valid (es_Direction e)
          \<and> 0 < amount (es_Amount e) \<and> currency (es_Amount e) = c))
    \<and> debit_sum (ts_Entries s) = credit_sum (ts_Entries s)
    \<and> in64 (debit_sum (ts_Entries s))"
  unfolding Spec_Validate_spec_ok [OF assms] spec_ok_def list_all_iff entry_spec_ok_def
  by (cases "ts_Entries s") (auto simp: Spec_Currency_def)

definition sample_spec :: TransactionSpec where
  "sample_spec =
     \<lparr>ts_MerchantID = ''m'', ts_Description = [], ts_ExternalRef = [],
      ts_Entries =
        [\<lparr>es_AccountID = ''cash'', es_Direction = Debit, es_Amount = \<lparr>amount = 500, currency = ''USD''\<rparr>\<rparr>,
         \<lparr>es_AccountID = ''fees'', es_Direction = Credit, es_Amount = \<lparr>amount = 15, currency = ''USD''\<rparr>\<rparr>,
         \<lparr>es_AccountID = ''payable'', es_Direction = Credit, es_Amount = \<lparr>amount = 485, currency = ''USD''\<rparr>\<rparr>],
      ts_Pending = False, ts_Metadata = []\<rparr>"

lemma Validate_iff_balanced_witness: "Spec_Validate sample_spec = Ok ()"
  using Validate_iff_balanced [of sample_spec]
  by (simp add: sample_spec_def in64_def Direction_Valid_def Currency_Valid_def exponents_def)

text \<open>
  The accounts a specification touches are listed without repetition in strictly
  ascending order, so every caller that locks them acquires its locks in one total order.
\<close>

theorem AccountIDs_ascending:
  "sorted_wrt (<) (AccountIDs s) \<and> set (AccountIDs s) = es_AccountID ` set (ts_Entries s)"
  by (rule AccountIDs_strict)

end
