(* ===== verification/Repository.thy ===== *)
theory Repository
  imports Ledger_Types
begin

text \<open>
  The persistence seam of the ledger, \<^verbatim>\<open>repository.go\<close>: the operations the domain calls, as a
  record of functions over the store's state, and the contract the domain relies on, as a
  locale over an abstraction of the store to its \<open>books\<close> (accounts, balances, transaction
  rows and the entry log). A Go map that is only built and looked up is an association list
  here, whose order stands for one of the iteration orders Go may choose.
\<close>

section \<open>The interface\<close>

record LockedAccount =
  la_Account :: Account
  la_Balance :: Balance

record BalanceUpdate =
  upd_AccountID :: string
  upd_Posted :: int
  upd_Pending :: int
  upd_Version :: int

text \<open>What a call finds in its context: whether the context is done, and the wall clock.\<close>

record ambient =
  cancelled :: bool
  wall_now :: int

record 's Repository =
  repo_CreateAccount :: "ambient \<Rightarrow> Account \<Rightarrow> ('s, unit) opr"
  repo_GetAccount :: "ambient \<Rightarrow> string \<Rightarrow> ('s, Account) opr"
  repo_ListAccounts :: "ambient \<Rightarrow> string \<Rightarrow> ('s, Account list) opr"
  repo_LockAccounts :: "ambient \<Rightarrow> string list \<Rightarrow> ('s, (string \<times> LockedAccount) list) opr"
  repo_ApplyBalances :: "ambient \<Rightarrow> BalanceUpdate list \<Rightarrow> ('s, unit) opr"
  repo_GetBalance :: "ambient \<Rightarrow> string \<Rightarrow> ('s, Balance) opr"
  repo_InsertTransaction :: "ambient \<Rightarrow> Transaction \<Rightarrow> ('s, unit) opr"
  repo_SetTransactionStatus :: "ambient \<Rightarrow> string \<Rightarrow> Status \<Rightarrow> int option \<Rightarrow> ('s, unit) opr"
  repo_GetTransaction :: "ambient \<Rightarrow> string \<Rightarrow> ('s, Transaction) opr"
  repo_FindReversal :: "ambient \<Rightarrow> string \<Rightarrow> ('s, Transaction) opr"
  repo_TransactionsByRef :: "ambient \<Rightarrow> string \<Rightarrow> string \<Rightarrow> ('s, Transaction list) opr"
  repo_AppendEntries :: "ambient \<Rightarrow> Entry list \<Rightarrow> ('s, Entry list) opr"
  repo_ListEntries :: "ambient \<Rightarrow> string \<Rightarrow> Page \<Rightarrow> ('s, Entry list \<times> string) opr"
  repo_EntriesByTransaction :: "ambient \<Rightarrow> string \<Rightarrow> ('s, Entry list) opr"

section \<open>The books\<close>

record books =
  bk_accounts :: "string \<rightharpoonup> Account"
  bk_balances :: "string \<rightharpoonup> Balance"
  bk_txns :: "string \<rightharpoonup> Transaction"
  bk_log :: "Entry list"

definition books_create :: "int \<Rightarrow> Account \<Rightarrow> books \<Rightarrow> books" where
  "books_create at a B = B\<lparr>
     bk_accounts := (bk_accounts B)(acc_ID a \<mapsto> a),
     bk_balances := (bk_balances B)(acc_ID a \<mapsto>
       \<lparr>bal_AccountID = acc_ID a, bal_Currency = acc_Currency a, bal_Posted = 0, bal_Pending = 0,
        bal_Version = 0, bal_UpdatedAt = at\<rparr>)\<rparr>"

definition set_balance :: "int \<Rightarrow> BalanceUpdate \<Rightarrow> Balance \<Rightarrow> Balance" where
  "set_balance now u b =
     b\<lparr>bal_Posted := upd_Posted u, bal_Pending := upd_Pending u,
       bal_Version := wrap64 (upd_Version u + 1), bal_UpdatedAt := now\<rparr>"

definition books_balances :: "int \<Rightarrow> BalanceUpdate list \<Rightarrow> books \<Rightarrow> books" where
  "books_balances now us B = B\<lparr>
     bk_balances := fold (\<lambda>u m. case m (upd_AccountID u) of
        None \<Rightarrow> m | Some b \<Rightarrow> m(upd_AccountID u \<mapsto> set_balance now u b)) us (bk_balances B)\<rparr>"

definition books_insert :: "Transaction \<Rightarrow> books \<Rightarrow> books" where
  "books_insert t B = B\<lparr>bk_txns := (bk_txns B)(txn_ID t \<mapsto> t\<lparr>txn_Entries := []\<rparr>)\<rparr>"

definition books_append :: "Entry list \<Rightarrow> books \<Rightarrow> books" where
  "books_append es B = B\<lparr>bk_log := bk_log B @ es\<rparr>"

definition set_status :: "Status \<Rightarrow> int option \<Rightarrow> Transaction \<Rightarrow> Transaction" where
  "set_status st at t =
     (case at of None \<Rightarrow> t\<lparr>txn_Status := st\<rparr> | Some n \<Rightarrow> t\<lparr>txn_Status := st, txn_PostedAt := Some n\<rparr>)"

definition books_status :: "string \<Rightarrow> Status \<Rightarrow> int option \<Rightarrow> books \<Rightarrow> books" where
  "books_status i st at B = B\<lparr>bk_txns := (bk_txns B)(i := map_option (set_status st at) (bk_txns B i))\<rparr>"

definition entries_of :: "string \<Rightarrow> books \<Rightarrow> Entry list" where
  "entries_of i B = filter (\<lambda>e. ent_TransactionID e = i) (bk_log B)"

section \<open>The contract\<close>

text \<open>
  \<open>wf\<close> is the representation invariant of the store. The laws of \<open>repository\<close> say what a
  successful call did; both stores meet them. Accounts, rows and entries are written with the code
  of a known currency, the entries appended in one call belong to one transaction, a transaction comes back with
  its entries in any order, and the first
  balance of an account may carry any time. The extension \<open>total_repository\<close> adds that a call succeeds
  when its context is not done and what it names is there; a database that also refuses rows for
  reasons of its own does not promise that.
\<close>

locale repository =
  fixes R :: "'s Repository" and books :: "'s \<Rightarrow> books" and wf :: "'s \<Rightarrow> bool"
  assumes create_Ok:
      "wf s \<Longrightarrow> repo_CreateAccount R a acct s = (Ok u, s') \<Longrightarrow> Currency_Valid (acc_Currency acct) \<Longrightarrow>
         wf s' \<and> bk_accounts (books s) (acc_ID acct) = None \<and> (\<exists>at. books s' = books_create at acct (books s))"
    and lock_Ok:
      "wf s \<Longrightarrow> repo_LockAccounts R a ids s = (Ok locked, s') \<Longrightarrow> distinct ids \<Longrightarrow>
         s' = s \<and> distinct (map fst locked) \<and> fst ` set locked = set ids
         \<and> (\<forall>(i, la)\<in>set locked. bk_accounts (books s) i = Some (la_Account la) \<and> bk_balances (books s) i = Some (la_Balance la))"
    and apply_Ok:
      "wf s \<Longrightarrow> repo_ApplyBalances R a us s = (Ok u, s') \<Longrightarrow>
         wf s' \<and> books s' = books_balances (wall_now a) us (books s)"
    and insert_Ok:
      "wf s \<Longrightarrow> repo_InsertTransaction R a t s = (Ok u, s') \<Longrightarrow> Currency_Valid (txn_Currency t) \<Longrightarrow>
         wf s' \<and> bk_txns (books s) (txn_ID t) = None \<and> books s' = books_insert t (books s)"
    and status_Ok:
      "wf s \<Longrightarrow> repo_SetTransactionStatus R a i st at s = (Ok u, s') \<Longrightarrow>
         wf s' \<and> bk_txns (books s) i \<noteq> None \<and> books s' = books_status i st at (books s)"
    and get_txn_Ok:
      "wf s \<Longrightarrow> repo_GetTransaction R a i s = (Ok t, s') \<Longrightarrow>
         s' = s \<and> mset (txn_Entries t) = mset (entries_of i (books s))
         \<and> (\<exists>row. bk_txns (books s) i = Some row \<and> t = row\<lparr>txn_Entries := txn_Entries t\<rparr>)"
    and find_reversal:
      "wf s \<Longrightarrow> repo_FindReversal R a i s = (r, s') \<Longrightarrow>
         s' = s \<and> (\<forall>t. r = Ok t \<longrightarrow> (\<exists>row. bk_txns (books s) (txn_ID t) = Some row \<and> txn_ReversesID row = i))"
    and append_Ok:
      "wf s \<Longrightarrow> repo_AppendEntries R a es s = (Ok out, s') \<Longrightarrow> \<forall>e\<in>set es. Currency_Valid (ent_Currency e) \<and> ent_TransactionID e = i \<Longrightarrow>
         wf s' \<and> books s' = books_append out (books s)
         \<and> map (\<lambda>e. e\<lparr>ent_ID := 0\<rparr>) out = map (\<lambda>e. e\<lparr>ent_ID := 0\<rparr>) es"
    and list_accounts_state: "repo_ListAccounts R a m s = (accts, s') \<Longrightarrow> s' = s"
    and by_ref_state: "repo_TransactionsByRef R a m ref s = (txns, s') \<Longrightarrow> s' = s"

locale total_repository = repository +
  assumes lock_total:
      "wf s \<Longrightarrow> \<not> cancelled a \<Longrightarrow> distinct ids \<Longrightarrow> set ids \<subseteq> dom (bk_accounts (books s)) \<Longrightarrow>
         \<exists>locked. repo_LockAccounts R a ids s = (Ok locked, s)"
    and apply_total:
      "wf s \<Longrightarrow> \<not> cancelled a \<Longrightarrow> upd_AccountID ` set us \<subseteq> dom (bk_accounts (books s)) \<Longrightarrow>
         \<exists>s'. repo_ApplyBalances R a us s = (Ok (), s')"
    and insert_total:
      "wf s \<Longrightarrow> \<not> cancelled a \<Longrightarrow> bk_txns (books s) (txn_ID t) = None \<Longrightarrow>
         \<exists>s'. repo_InsertTransaction R a t s = (Ok (), s')"
    and status_total:
      "wf s \<Longrightarrow> \<not> cancelled a \<Longrightarrow> bk_txns (books s) i \<noteq> None \<Longrightarrow>
         \<exists>s'. repo_SetTransactionStatus R a i st at s = (Ok (), s')"
    and get_txn_total:
      "wf s \<Longrightarrow> \<not> cancelled a \<Longrightarrow> bk_txns (books s) i = Some row \<Longrightarrow>
         repo_GetTransaction R a i s = (Ok (row\<lparr>txn_Entries := entries_of i (books s)\<rparr>), s)"
    and find_reversal_total:
      "wf s \<Longrightarrow> \<not> cancelled a \<Longrightarrow> bk_txns (books s) j = Some row \<Longrightarrow> txn_ReversesID row = i \<Longrightarrow>
         \<exists>t. repo_FindReversal R a i s = (Ok t, s)"
    and append_total:
      "wf s \<Longrightarrow> \<not> cancelled a \<Longrightarrow> \<exists>out s'. repo_AppendEntries R a es s = (Ok out, s')"

end
