(* ===== verification/Ident.thy ===== *)
theory Ident
  imports Go_Strings "HOL-Library.Word"
begin

text \<open>
  Package \<^verbatim>\<open>internal/platform/id\<close>: prefixed ULIDs. The generator keeps the millisecond and
  the ten random bytes of the last identifier; an identifier is the Crockford base-32
  rendering of six timestamp bytes and ten random bytes. The lemmas show that identifiers of
  one generator come out in strictly increasing string order, whatever the clock does, and
  that \<open>Timestamp\<close> reads back the millisecond an identifier was issued in.
\<close>

unbundle bit_operations_syntax

section \<open>The generator\<close>

type_synonym byte = "8 word"

definition crockford :: string where
  "crockford = ''0123456789ABCDEFGHJKMNPQRSTVWXYZ''"

definition encodedLen :: nat where
  "encodedLen = 26"

definition PrefixAccount :: string where "PrefixAccount = ''acct''"
definition PrefixTransaction :: string where "PrefixTransaction = ''txn''"
definition PrefixPayment :: string where "PrefixPayment = ''pay''"
definition PrefixEvent :: string where "PrefixEvent = ''evt''"

record generator =
  lastMS :: int
  lastRand :: "byte list"

text \<open>The loop of \<open>increment\<close>, at indices below its first argument.\<close>

fun increment_from :: "nat \<Rightarrow> byte list \<Rightarrow> byte list \<times> bool" where
  "increment_from 0 b = (b, False)"
| "increment_from (Suc i) b =
     (let b' = b[i := b ! i + 1] in if b' ! i \<noteq> 0 then (b', True) else increment_from i b')"

definition increment :: "byte list \<Rightarrow> byte list \<times> bool" where
  "increment b = increment_from (length b) b"

text \<open>
  One character: five bits of the stream starting at \<open>5 * i - 2\<close>, where the two positions
  before the stream read as zero.
\<close>

definition base32_group :: "byte list \<Rightarrow> nat \<Rightarrow> byte" where
  "base32_group b i =
     fold (\<lambda>j v. let p = int i * 5 - 2 + int j
       in if p < 0 then v
          else if b ! nat (p div 8) AND push_bit (nat (7 - p mod 8)) 1 \<noteq> 0 then v OR push_bit (4 - j) 1
          else v) [0..<5] 0"

definition encodeBase32 :: "byte list \<Rightarrow> string" where
  "encodeBase32 b = map (\<lambda>i. crockford ! unat (base32_group b i)) [0..<encodedLen]"

text \<open>\<^verbatim>\<open>binary.BigEndian.PutUint64\<close>.\<close>

definition PutUint64 :: "int \<Rightarrow> byte list" where
  "PutUint64 x = map (\<lambda>k. word_of_int (x div 2 ^ (8 * (7 - k)))) [0..<8]"

definition ulid_bytes :: "generator \<Rightarrow> byte list" where
  "ulid_bytes g = take 6 (PutUint64 (u64 (lastMS g * 2 ^ 16))) @ lastRand g"

text \<open>
  The clock reading is in nanoseconds since the epoch; \<open>rnd\<close> is what \<^verbatim>\<open>crypto/rand\<close> would
  deliver now, \<open>None\<close> when it fails.
\<close>

definition encode :: "int \<Rightarrow> byte list option \<Rightarrow> (generator, string) opr" where
  "encode nanos rnd g =
     (let ms = u64 (nanos div 1000000)
      in if ms > lastMS g
         then (case rnd of
             None \<Rightarrow> (Panic, g\<lparr>lastMS := ms\<rparr>)
           | Some r \<Rightarrow> let g' = g\<lparr>lastMS := ms, lastRand := r\<rparr> in (Ok (encodeBase32 (ulid_bytes g')), g'))
         else (case increment (lastRand g) of
             (r, ok) \<Rightarrow> let g' = g\<lparr>lastRand := r\<rparr>
               in if ok then (Ok (encodeBase32 (ulid_bytes g')), g') else (Panic, g')))"

definition id_new :: "string \<Rightarrow> int \<Rightarrow> byte list option \<Rightarrow> (generator, string) opr" where
  "id_new prefix nanos rnd =
     (if prefix = [] then encode nanos rnd
      else seq (encode nanos rnd) (\<lambda>u. ret (Ok (prefix @ ''_'' @ u))))"

section \<open>Reading identifiers\<close>

fun IndexByte :: "string \<Rightarrow> char \<Rightarrow> int" where
  "IndexByte [] c = -1"
| "IndexByte (x # s) c = (if x = c then 0 else let k = IndexByte s c in if k < 0 then -1 else k + 1)"

definition id_Valid :: "string \<Rightarrow> string \<Rightarrow> bool" where
  "id_Valid s prefix =
     (let want = prefix @ ''_'';
          s' = (if prefix \<noteq> [] then drop (length want) s else s)
      in (prefix = [] \<or> has_prefix s want)
         \<and> length s' = encodedLen \<and> list_all (\<lambda>c. \<not> IndexByte crockford c < 0) s')"

definition after_last_underscore :: "string \<Rightarrow> string" where
  "after_last_underscore s = rev (takeWhile (\<lambda>c. c \<noteq> CHR ''_'') (rev s))"

fun decode_ms :: "int \<Rightarrow> string \<Rightarrow> int option" where
  "decode_ms ms [] = Some ms"
| "decode_ms ms (c # cs) =
     (let v = IndexByte crockford c in if v < 0 then None else decode_ms (u64 (ms * 2 ^ 5 + v)) cs)"

definition Timestamp :: "string \<Rightarrow> int outcome" where
  "Timestamp s0 =
     (let s = after_last_underscore s0
      in if length s \<noteq> encodedLen then Err (ErrOther ''id'')
         else (case decode_ms 0 (take 10 s) of
             None \<Rightarrow> Err (ErrOther ''id'')
           | Some ms \<Rightarrow> Ok (ms mod 2 ^ 48 * 1000000)))"

section \<open>The number behind an identifier\<close>

definition bytes_val :: "byte list \<Rightarrow> nat" where
  "bytes_val b = foldl (\<lambda>n w. n * 256 + unat w) 0 b"

lemma bytes_val_Nil [simp]: "bytes_val [] = 0"
  by (simp add: bytes_val_def)

lemma bytes_val_snoc: "bytes_val (b @ [w]) = bytes_val b * 256 + unat w"
  by (simp add: bytes_val_def)

lemma unat_byte: "unat (w :: byte) < 256"
  using unsigned_less [of w] by simp

lemma bytes_val_append: "bytes_val (a @ b) = bytes_val a * 256 ^ length b + bytes_val b"
proof (induction b rule: rev_induct)
  case (snoc w b)
  have "bytes_val ((a @ b) @ [w]) = (bytes_val a * 256 ^ length b + bytes_val b) * 256 + unat w"
    using snoc by (simp only: bytes_val_snoc)
  then show ?case by (simp add: bytes_val_snoc algebra_simps)
qed simp

lemma bytes_val_bound: "bytes_val b < 256 ^ length b"
proof (induction b rule: rev_induct)
  case (snoc w b)
  then show ?case using unat_byte [of w] by (simp add: bytes_val_snoc)
qed simp

lemma bit_bytes_val:
  "bit (bytes_val b) q \<longleftrightarrow> q < 8 * length b \<and> bit (b ! (length b - 1 - q div 8)) (q mod 8)"
proof (induction b arbitrary: q rule: rev_induct)
  case Nil
  then show ?case by simp
next
  case (snoc w b)
  have split: "bytes_val (b @ [w]) = push_bit 8 (bytes_val b) OR unat w"
  proof -
    have "bit (push_bit 8 (bytes_val b)) n \<Longrightarrow> \<not> bit (unat w) n" for n
      by (auto simp: bit_push_bit_iff bit_unsigned_iff dest: bit_imp_le_length)
    then have "push_bit 8 (bytes_val b) OR unat w = push_bit 8 (bytes_val b) + unat w"
      by (intro disjunctive_add [symmetric]) auto
    then show ?thesis by (simp add: bytes_val_snoc push_bit_eq_mult)
  qed
  show ?case
  proof (cases "q < 8")
    case True
    then show ?thesis by (simp add: split bit_or_iff bit_push_bit_iff bit_unsigned_iff)
  next
    case False
    then obtain r where q: "q = r + 8" by (metis add.commute le_Suc_ex not_less)
    have "\<not> bit (unat w) (r + 8)" by (auto simp: bit_unsigned_iff dest: bit_imp_le_length)
    then have "bit (bytes_val (b @ [w])) q \<longleftrightarrow> bit (bytes_val b) r"
      by (simp add: split q bit_or_iff bit_push_bit_iff)
    also have "\<dots> \<longleftrightarrow> r < 8 * length b \<and> bit (b ! (length b - 1 - r div 8)) (r mod 8)"
      by (rule snoc)
    also have "\<dots> \<longleftrightarrow> r < 8 * length b \<and> bit ((b @ [w]) ! (length b - Suc (r div 8))) (r mod 8)"
      by (rule conj_cong) (auto simp: nth_append)
    finally have "bit (bytes_val (b @ [w])) q \<longleftrightarrow> r < 8 * length b \<and> bit ((b @ [w]) ! (length b - Suc (r div 8))) (r mod 8)" .
    moreover have "q div 8 = Suc (r div 8)" "q mod 8 = r mod 8" by (simp_all add: q)
    ultimately show ?thesis by (simp add: q)
  qed
qed

text \<open>A character of the rendering is a base-32 digit of that number.\<close>

definition stream_bit :: "byte list \<Rightarrow> nat \<Rightarrow> nat \<Rightarrow> bool" where
  "stream_bit b i j \<longleftrightarrow> 2 \<le> 5 * i + j \<and> bit (b ! ((5 * i + j - 2) div 8)) (7 - (5 * i + j - 2) mod 8)"

lemma base32_group_step:
  "(let p = int i * 5 - 2 + int j
    in if p < 0 then v
       else if b ! nat (p div 8) AND push_bit (nat (7 - p mod 8)) 1 \<noteq> 0 then v OR push_bit (4 - j) 1
       else v) = (if stream_bit b i j then v OR push_bit (4 - j) 1 else (v :: byte))"
proof (cases "2 \<le> 5 * i + j")
  case True
  define p where "p = 5 * i + j - 2"
  have "int i * 5 - 2 + int j = int p" using True by (simp add: p_def)
  moreover have "nat (7 - int p mod 8) = 7 - p mod 8"
    by (metis int_ops(3) nat_int of_nat_diff_if of_nat_mod of_nat_numeral nat_diff_distrib' nat_numeral of_nat_0_le_iff zero_le_numeral)
  moreover have "nat (int p div 8) = p div 8" by (metis nat_int of_nat_numeral zdiv_int)
  moreover have "x AND 2 ^ n = 0 \<longleftrightarrow> \<not> bit x n" for x :: byte and n
    using bit_iff_and_push_bit_not_eq_0 [of x n] by simp
  ultimately show ?thesis
    using True by (simp add: stream_bit_def Let_def flip: p_def)
next
  case False
  then show ?thesis by (simp add: stream_bit_def Let_def)
qed

lemma bit_fold_or:
  "bit (fold (\<lambda>j v. if c j then v OR push_bit (4 - j) 1 else v) js (v :: byte)) k
     \<longleftrightarrow> bit v k \<or> (\<exists>j\<in>set js. c j \<and> k = 4 - j)"
  by (induction js arbitrary: v) (auto simp: bit_or_iff bit_exp_iff)

lemma bit_base32_group:
  "bit (base32_group b i) k \<longleftrightarrow> k < 5 \<and> stream_bit b i (4 - k)"
proof -
  have "bit (base32_group b i) k \<longleftrightarrow> (\<exists>j\<in>set [0..<5]. stream_bit b i j \<and> k = 4 - j)"
    unfolding base32_group_def base32_group_step using bit_fold_or [of "stream_bit b i" "[0..<5]" 0 k] by simp
  also have "\<dots> \<longleftrightarrow> k < 5 \<and> stream_bit b i (4 - k)"
  proof
    assume "k < 5 \<and> stream_bit b i (4 - k)"
    then show "\<exists>j\<in>set [0..<5]. stream_bit b i j \<and> k = 4 - j" by (intro bexI [of _ "4 - k"]) auto
  qed auto
  finally show ?thesis .
qed

lemma unat_base32_group:
  assumes "length b = 16" and "i < 26"
  shows "unat (base32_group b i) = bytes_val b div 32 ^ (25 - i) mod 32"
proof -
  have "bit (base32_group b i) k \<longleftrightarrow> k < 5 \<and> bit (bytes_val b) (5 * (25 - i) + k)" for k
  proof (cases "k < 5 \<and> 2 \<le> 5 * i + (4 - k)")
    case True
    define p where "p = 5 * i + (4 - k) - 2"
    have q: "5 * (25 - i) + k = 127 - p" and "p < 128" using True assms by (auto simp: p_def)
    have "127 - p = 8 * (15 - p div 8) + (7 - p mod 8)"
      using mult_div_mod_eq [of 8 p] \<open>p < 128\<close> mod_less_divisor [of 8 p] by linarith
    moreover have "7 - p mod 8 < 8" by simp
    ultimately have "(127 - p) div 8 = 15 - p div 8" "(127 - p) mod 8 = 7 - p mod 8"
      by (metis add.right_neutral div_less div_mult_self4 zero_neq_numeral, metis mod_less mod_mult_self4)
    moreover have "p div 8 \<le> 15" using \<open>p < 128\<close> by auto
    moreover have "stream_bit b i (4 - k) \<longleftrightarrow> bit (b ! (p div 8)) (7 - p mod 8)"
      unfolding stream_bit_def p_def [symmetric] using True by blast
    ultimately show ?thesis
      using True assms \<open>p < 128\<close> less_imp_diff_less [of 127 128 p] by (simp add: bit_base32_group bit_bytes_val q)
  next
    case False
    then show ?thesis using assms by (auto simp: bit_base32_group stream_bit_def bit_bytes_val)
  qed
  then have "unat (base32_group b i) = take_bit 5 (drop_bit (5 * (25 - i)) (bytes_val b))"
    by (intro bit_eqI) (auto simp: bit_unsigned_iff bit_take_bit_iff bit_drop_bit_eq)
  also have "\<dots> = bytes_val b div 32 ^ (25 - i) mod 32"
    by (simp add: take_bit_eq_mod drop_bit_eq_div power_mult)
  finally show ?thesis .
qed

text \<open>Fixed-length base-32 renderings compare as the numbers do.\<close>

definition base32 :: "nat \<Rightarrow> nat \<Rightarrow> string" where
  "base32 k n = map (\<lambda>i. crockford ! (n div 32 ^ (k - 1 - i) mod 32)) [0..<k]"

lemma encodeBase32_eq:
  assumes "length b = 16"
  shows "encodeBase32 b = base32 26 (bytes_val b)"
  unfolding encodeBase32_def base32_def encodedLen_def
  by (rule map_cong) (simp_all add: unat_base32_group [OF assms])

lemma base32_Suc: "base32 (Suc k) n = crockford ! (n div 32 ^ k mod 32) # base32 k n"
  unfolding base32_def upt_conv_Cons [OF zero_less_Suc] map_Suc_upt [symmetric]
  by (simp add: comp_def)

lemma base32_mod: "base32 k (n mod 32 ^ k) = base32 k n"
proof -
  have "n mod 32 ^ k div 32 ^ j mod 32 = n div 32 ^ j mod 32" if "j < k" for j
  proof -
    have "(32::nat) ^ Suc j dvd 32 ^ k" using that by (intro le_imp_power_dvd) simp
    then have "n mod 32 ^ k mod 32 ^ Suc j = n mod 32 ^ Suc j" by (rule mod_mod_cancel)
    moreover have "m div 32 ^ j mod 32 = m mod 32 ^ Suc j div 32 ^ j" for m :: nat
      by (simp add: mod_mult2_eq mult.commute [of 32])
    ultimately show ?thesis by metis
  qed
  then show ?thesis by (auto simp: base32_def)
qed

lemma crockford_mono: "i < j \<Longrightarrow> j < 32 \<Longrightarrow> crockford ! i < crockford ! j"
proof -
  have "sorted_wrt (<) crockford" by (simp add: crockford_def less_char_def)
  moreover have "length crockford = 32" by (simp add: crockford_def)
  ultimately show "i < j \<Longrightarrow> j < 32 \<Longrightarrow> crockford ! i < crockford ! j"
    by (simp add: sorted_wrt_nth_less)
qed

lemma base32_less:
  assumes "m < n" and "n < 32 ^ k"
  shows "base32 k m < base32 k n"
  using assms
proof (induction k arbitrary: m n)
  case (Suc k)
  let ?d = "\<lambda>x. x div 32 ^ k"
  have lt: "?d n < 32" "?d m < 32" using Suc.prems by (auto simp: less_mult_imp_div_less mult.commute)
  have le: "?d m \<le> ?d n" using Suc.prems by (simp add: div_le_mono)
  show ?case
  proof (cases "?d m = ?d n")
    case True
    then have "m mod 32 ^ k < n mod 32 ^ k"
      using Suc.prems(1) by (metis div_mult_mod_eq nat_add_left_cancel_less)
    then have "base32 k (m mod 32 ^ k) < base32 k (n mod 32 ^ k)" by (rule Suc.IH) simp
    then show ?thesis using True by (simp add: base32_Suc base32_mod)
  next
    case False
    then have "crockford ! (?d m) < crockford ! (?d n)" using le lt by (simp add: crockford_mono)
    then show ?thesis using lt by (simp add: base32_Suc)
  qed
qed simp

section \<open>Issue order\<close>

lemma increment_from_spec:
  assumes "i \<le> length b"
  shows "length (fst (increment_from i b)) = length b \<and>
    (snd (increment_from i b) \<longrightarrow>
      bytes_val (fst (increment_from i b)) = bytes_val b + 256 ^ (length b - i))"
  using assms
proof (induction i arbitrary: b)
  case (Suc i)
  let ?b = "b[i := b ! i + 1]"
  have b: "b = take i b @ b ! i # drop (Suc i) b" and b': "?b = take i b @ (b ! i + 1) # drop (Suc i) b"
    using Suc.prems by (simp_all add: id_take_nth_drop upd_conv_take_nth_drop)
  have val: "bytes_val (xs @ w # ys) = (bytes_val xs * 256 + unat w) * 256 ^ length ys + bytes_val ys"
    for xs ys and w :: byte
    using bytes_val_append [of "xs @ [w]" ys] by (simp add: bytes_val_snoc)
  have carry: "bytes_val ?b + 256 * 256 ^ (length b - Suc i) = bytes_val b + 256 ^ (length b - Suc i)"
    if "b ! i + 1 = 0"
  proof -
    have "b ! i = -1" using that by (simp add: add_eq_0_iff2)
    then have "unat (b ! i) = 255" by (simp add: unsigned_minus_1_eq_mask mask_eq_exp_minus_1)
    then show ?thesis using Suc.prems val that by (subst b, subst b') (simp add: algebra_simps)
  qed
  have step: "bytes_val ?b = bytes_val b + 256 ^ (length b - Suc i)" if "b ! i + 1 \<noteq> 0"
  proof -
    have "unat (b ! i + 1) = unat (b ! i) + 1" using that unatSuc [of "b ! i"] by (simp add: add.commute)
    then show ?thesis using Suc.prems val by (subst b, subst b') (simp add: algebra_simps)
  qed
  show ?case
  proof (cases "b ! i + 1 = 0")
    case True
    have "Suc (length b - Suc i) = length b - i" using Suc.prems by simp
    then have "256 * 256 ^ (length b - Suc i) = (256 :: nat) ^ (length b - i)"
      by (metis power_Suc)
    then show ?thesis using Suc.prems True Suc.IH [of ?b] carry [OF True] by (simp add: Let_def)
  next
    case False
    then show ?thesis using Suc.prems step by (simp add: Let_def)
  qed
qed simp

lemma bytes_val_digits:
  "bytes_val (map (\<lambda>k. word_of_int (x div 256 ^ (n - 1 - k)) :: byte) [0..<n]) = nat (x mod 256 ^ n)"
proof (induction n arbitrary: x)
  case (Suc n)
  have "map (\<lambda>k. word_of_int (x div 256 ^ (Suc n - 1 - k)) :: byte) [0..<n] =
      map (\<lambda>k. word_of_int (x div 256 div 256 ^ (n - 1 - k))) [0..<n]"
    by (auto simp: zdiv_zmult2_eq [symmetric] power_Suc [symmetric] Suc_diff_Suc simp del: power_Suc)
  then have init: "bytes_val (map (\<lambda>k. word_of_int (x div 256 ^ (Suc n - 1 - k)) :: byte) [0..<n]) =
      nat (x div 256 mod 256 ^ n)"
    using Suc [of "x div 256"] by (simp only:)
  have "bytes_val (map (\<lambda>k. word_of_int (x div 256 ^ (Suc n - 1 - k)) :: byte) [0..<Suc n]) =
      bytes_val (map (\<lambda>k. word_of_int (x div 256 ^ (Suc n - 1 - k)) :: byte) [0..<n]) * 256 + nat (x mod 256)"
    by (simp add: bytes_val_snoc unat_eq_nat_uint uint_word_of_int)
  then have "bytes_val (map (\<lambda>k. word_of_int (x div 256 ^ (Suc n - 1 - k)) :: byte) [0..<Suc n]) =
      nat (x div 256 mod 256 ^ n) * 256 + nat (x mod 256)"
    by (simp only: init)
  also have "\<dots> = nat (x div 256 mod 256 ^ n * 256 + x mod 256)"
    by (simp add: nat_add_distrib nat_mult_distrib)
  also have "x div 256 mod 256 ^ n * 256 + x mod 256 = x mod 256 ^ Suc n"
    by (simp add: zmod_zmult2_eq mult.commute)
  finally show ?case .
qed simp

text \<open>The well-formed generators: a clock before the year 10889 and ten bytes of randomness.\<close>

definition generator_ok :: "generator \<Rightarrow> bool" where
  "generator_ok g \<longleftrightarrow> 0 \<le> lastMS g \<and> lastMS g < 2 ^ 48 \<and> length (lastRand g) = 10"

definition clock_ok :: "int \<Rightarrow> byte list option \<Rightarrow> bool" where
  "clock_ok nanos rnd \<longleftrightarrow>
     0 \<le> nanos \<and> nanos < 2 ^ 48 * 1000000 \<and> (\<forall>r. rnd = Some r \<longrightarrow> length r = 10)"

definition ulid_number :: "generator \<Rightarrow> nat" where
  "ulid_number g = nat (lastMS g) * 256 ^ 10 + bytes_val (lastRand g)"

lemma ulid_bytes:
  assumes "generator_ok g"
  shows "length (ulid_bytes g) = 16" and "bytes_val (ulid_bytes g) = ulid_number g"
proof -
  have "lastMS g * 2 ^ 16 < 2 ^ 64" using assms by (simp add: generator_ok_def)
  then have u: "u64 (lastMS g * 2 ^ 16) = lastMS g * 2 ^ 16"
    using assms by (simp add: u64_def generator_ok_def)
  have "lastMS g * 2 ^ 16 div 2 ^ (8 * (7 - k)) = lastMS g div 256 ^ (6 - 1 - k)" if "k < 6" for k
  proof -
    have "8 * (7 - k) = 16 + 8 * (5 - k)" using that by simp
    then have "(2::int) ^ (8 * (7 - k)) = 2 ^ 16 * 256 ^ (5 - k)"
      by (simp only: power_add power_mult) simp
    then show ?thesis by simp
  qed
  then have "take 6 (PutUint64 (u64 (lastMS g * 2 ^ 16))) =
      map (\<lambda>k. word_of_int (lastMS g div 256 ^ (6 - 1 - k))) [0..<6]"
    unfolding u PutUint64_def take_map by (intro map_cong) (simp_all add: take_upt)
  with bytes_val_digits [of "lastMS g" 6] assms
  have "bytes_val (take 6 (PutUint64 (u64 (lastMS g * 2 ^ 16)))) = nat (lastMS g)"
    by (simp add: generator_ok_def)
  then show "bytes_val (ulid_bytes g) = ulid_number g"
    using assms by (simp add: ulid_bytes_def bytes_val_append ulid_number_def generator_ok_def)
  show "length (ulid_bytes g) = 16"
    using assms by (simp add: ulid_bytes_def PutUint64_def generator_ok_def)
qed

lemma ulid_number_bound: "generator_ok g \<Longrightarrow> ulid_number g < 2 ^ 128"
proof -
  assume g: "generator_ok g"
  then have "bytes_val (lastRand g) < 256 ^ 10" "nat (lastMS g) + 1 \<le> 2 ^ 48"
    using bytes_val_bound [of "lastRand g"] by (auto simp: generator_ok_def)
  then show ?thesis by (simp add: ulid_number_def)
qed

lemma encode_step:
  assumes "generator_ok g" and "clock_ok nanos rnd" and "encode nanos rnd g = (Ok u, g')"
  shows "generator_ok g'" and "u = base32 26 (ulid_number g')" and "ulid_number g < ulid_number g'"
    and "lastMS g' = max (lastMS g) (nanos div 1000000)"
proof -
  have nn: "0 \<le> nanos div 1000000" "nanos div 1000000 < 2 ^ 48"
    using assms(2) by (auto simp: clock_ok_def)
  then have ms: "u64 (nanos div 1000000) = nanos div 1000000" by (simp add: u64_def)
  have rb: "bytes_val (lastRand g) < 256 ^ 10"
    using assms(1) bytes_val_bound [of "lastRand g"] by (simp add: generator_ok_def)
  have *: "generator_ok g' \<and> u = encodeBase32 (ulid_bytes g') \<and> ulid_number g < ulid_number g'
      \<and> lastMS g' = max (lastMS g) (nanos div 1000000)"
  proof (cases "nanos div 1000000 > lastMS g")
    case True
    then obtain r where "rnd = Some r" "g' = g\<lparr>lastMS := nanos div 1000000, lastRand := r\<rparr>"
      "u = encodeBase32 (ulid_bytes g')"
      using assms(3) by (auto simp: encode_def ms Let_def split: option.splits)
    moreover have "nat (lastMS g) + 1 \<le> nat (nanos div 1000000)"
      using True assms(1) by (auto simp: generator_ok_def)
    then have "(nat (lastMS g) + 1) * 256 ^ 10 \<le> nat (nanos div 1000000) * 256 ^ 10"
      by (rule mult_le_mono1)
    ultimately show ?thesis
      using True nn assms(1,2) rb by (auto simp: generator_ok_def clock_ok_def ulid_number_def)
  next
    case False
    then have "g' = g\<lparr>lastRand := fst (increment (lastRand g))\<rparr>" "snd (increment (lastRand g))"
      "u = encodeBase32 (ulid_bytes g')"
      using assms(3) by (auto simp: encode_def ms Let_def split: prod.splits if_splits)
    then show ?thesis
      using False assms(1) increment_from_spec [of 10 "lastRand g"]
      by (auto simp: generator_ok_def increment_def ulid_number_def)
  qed
  then show "generator_ok g'" "ulid_number g < ulid_number g'" "lastMS g' = max (lastMS g) (nanos div 1000000)"
    by simp_all
  with * show "u = base32 26 (ulid_number g')"
    by (simp add: ulid_bytes encodeBase32_eq)
qed

text \<open>A run of the generator: successive calls with the readings the clock and the random source give.\<close>

fun issue :: "string \<Rightarrow> (int \<times> byte list option) list \<Rightarrow> (generator, string list) opr" where
  "issue prefix [] = ret (Ok [])"
| "issue prefix ((nanos, rnd) # rs) =
     seq (id_new prefix nanos rnd) (\<lambda>u. seq (issue prefix rs) (\<lambda>us. ret (Ok (u # us))))"

definition render_id :: "string \<Rightarrow> nat \<Rightarrow> string" where
  "render_id prefix n = (if prefix = [] then base32 26 n else prefix @ ''_'' @ base32 26 n)"

lemma id_new_step:
  assumes "generator_ok g" and "clock_ok nanos rnd" and "id_new prefix nanos rnd g = (Ok u, g')"
  shows "generator_ok g'" and "u = render_id prefix (ulid_number g')" and "ulid_number g < ulid_number g'"
    and "lastMS g' = max (lastMS g) (nanos div 1000000)"
proof -
  obtain v where enc: "encode nanos rnd g = (Ok v, g')" and u: "u = (if prefix = [] then v else prefix @ ''_'' @ v)"
    using assms(3) by (auto simp: id_new_def seq_eq_Ok split: if_splits)
  note st = encode_step [OF assms(1,2) enc]
  show "generator_ok g'" "ulid_number g < ulid_number g'" "lastMS g' = max (lastMS g) (nanos div 1000000)"
    by (fact st)+
  show "u = render_id prefix (ulid_number g')" by (simp add: u st(2) render_id_def)
qed

lemma append_same_prefix_less: "xs < ys \<Longrightarrow> zs @ xs < zs @ (ys :: string)"
  by (induction zs) auto

lemma render_id_less: "m < n \<Longrightarrow> n < 2 ^ 128 \<Longrightarrow> render_id prefix m < render_id prefix n"
proof -
  assume "m < n" "n < 2 ^ 128"
  moreover have "(2::nat) ^ 128 \<le> 32 ^ 26" 
  proof -
    have "(2::nat) ^ 128 \<le> 2 ^ (5 * 26)" by (rule power_increasing) simp_all
    also have "\<dots> = 32 ^ 26" by (subst power_mult) simp
    finally show ?thesis .
  qed
  ultimately have "base32 26 m < base32 26 n" using base32_less less_le_trans by blast
  then show "render_id prefix m < render_id prefix n"
    by (simp add: render_id_def append_same_prefix_less)
qed

lemma issue_increasing:
  assumes "generator_ok g" and "\<forall>(t, r)\<in>set rs. clock_ok t r" and "issue prefix rs g = (Ok us, g')"
  shows "\<exists>ns. us = map (render_id prefix) ns \<and> sorted_wrt (<) (ulid_number g # ns)
    \<and> (\<forall>n\<in>set ns. n < 2 ^ 128)"
  using assms
proof (induction prefix rs arbitrary: g us rule: issue.induct)
  case (1 prefix)
  then show ?case by simp
next
  case (2 prefix nanos rnd rs)
  obtain u v h where u: "id_new prefix nanos rnd g = (Ok u, h)" and v: "issue prefix rs h = (Ok v, g')"
    and us: "us = u # v"
    using 2(4) by (auto simp: seq_eq_Ok)
  have "clock_ok nanos rnd" using 2(3) by simp
  note h = id_new_step [OF 2(2) this u]
  obtain ns where "v = map (render_id prefix) ns" "sorted_wrt (<) (ulid_number h # ns)" "\<forall>n\<in>set ns. n < 2 ^ 128"
    using 2(1) [OF h(1) _ v] 2(3) by auto
  with h us ulid_number_bound [OF h(1)] show ?case
    by (intro exI [of _ "ulid_number h # ns"]) auto
qed

lemma length_base32 [simp]: "length (base32 k n) = k"
  by (simp add: base32_def)

lemma IndexByte_crockford: "d < 32 \<Longrightarrow> IndexByte crockford (crockford ! d) = int d"
proof -
  have "IndexByte s (s ! d) = int d" if "distinct s" "d < length s" for s d
    using that
  proof (induction s arbitrary: d)
    case (Cons x s)
    then show ?case by (cases d) (auto simp: Let_def)
  qed simp
  moreover have "distinct crockford" "length crockford = 32" by (simp_all add: crockford_def)
  ultimately show "d < 32 \<Longrightarrow> IndexByte crockford (crockford ! d) = int d" by metis
qed

lemma underscore_not_crockford: "d < 32 \<Longrightarrow> crockford ! d \<noteq> CHR ''_''"
proof -
  have "CHR ''_'' \<notin> set crockford" "length crockford = 32" by (simp_all add: crockford_def)
  then show "d < 32 \<Longrightarrow> crockford ! d \<noteq> CHR ''_''" by (metis nth_mem)
qed

lemma after_last_underscore_render: "after_last_underscore (render_id prefix n) = base32 26 n"
proof -
  have no: "\<forall>c\<in>set (rev (base32 26 n)). c \<noteq> CHR ''_''"
    by (auto simp: base32_def underscore_not_crockford)
  then have "takeWhile (\<lambda>c. c \<noteq> CHR ''_'') (rev (base32 26 n) @ t) =
      rev (base32 26 n) @ takeWhile (\<lambda>c. c \<noteq> CHR ''_'') t" for t
    by (intro takeWhile_append2) blast
  moreover have "takeWhile (\<lambda>c. c \<noteq> CHR ''_'') (rev (base32 26 n)) = rev (base32 26 n)"
    by (rule takeWhile_eq_all_conv [THEN iffD2, OF no])
  ultimately show ?thesis
    by (cases "prefix = []") (simp_all only: after_last_underscore_def render_id_def if_True if_False
        rev_append append_assoc append.simps rev.simps takeWhile.simps append_Nil2 rev_rev_ident simp_thms)
qed

lemma decode_ms_base32:
  assumes "0 \<le> ms" and "ms * 32 ^ k + int n < 2 ^ 64" and "n < 32 ^ k"
  shows "decode_ms ms (base32 k n) = Some (ms * 32 ^ k + int n)"
  using assms
proof (induction k arbitrary: ms n)
  case (Suc k)
  define d where "d = n div 32 ^ k"
  have d: "d < 32" using Suc.prems(3) by (simp add: d_def less_mult_imp_div_less mult.commute)
  have n: "int n = int d * 32 ^ k + int (n mod 32 ^ k)"
    unfolding d_def using div_mult_mod_eq [of "int n" "32 ^ k"] by (simp add: zdiv_int zmod_int)
  then have tot: "(ms * 2 ^ 5 + int d) * 32 ^ k + int (n mod 32 ^ k) = ms * 32 ^ Suc k + int n"
    by (simp add: algebra_simps)
  have "ms * 2 ^ 5 + int d \<le> (ms * 2 ^ 5 + int d) * 32 ^ k"
    using mult_left_mono [of 1 "32 ^ k" "ms * 2 ^ 5 + int d"] Suc.prems(1) by simp
  also have "\<dots> \<le> (ms * 2 ^ 5 + int d) * 32 ^ k + int (n mod 32 ^ k)" by simp
  also note tot
  also note Suc.prems(2)
  finally have "ms * 2 ^ 5 + int d < 2 ^ 64" .
  then have "u64 (ms * 2 ^ 5 + int d) = ms * 2 ^ 5 + int d"
    using Suc.prems(1) by (simp add: u64_def)
  moreover have "decode_ms (ms * 2 ^ 5 + int d) (base32 k (n mod 32 ^ k)) = Some (ms * 32 ^ Suc k + int n)"
    using Suc.IH [of "ms * 2 ^ 5 + int d" "n mod 32 ^ k"] Suc.prems tot by simp
  ultimately show ?case
    using d by (simp add: base32_Suc base32_mod IndexByte_crockford Let_def d_def [symmetric])
qed (simp add: base32_def)

lemma take_base32: "take 10 (base32 26 n) = base32 10 (n div 32 ^ 16)"
proof -
  have "n div 32 ^ (25 - i) = n div 32 ^ 16 div 32 ^ (9 - i)" if "i < 10" for i
  proof -
    have "25 - i = 16 + (9 - i)" using that by simp
    then show ?thesis by (metis div_mult2_eq power_add)
  qed
  then show ?thesis
    unfolding base32_def take_map take_upt [of 0 10 26, simplified] by (intro map_cong) simp_all
qed

section \<open>Properties of identifiers\<close>

text \<open>
  C26. Identifiers come out in strictly increasing string order: whatever readings the clock
  gives (also when it stands still or goes backwards) and whatever the random source
  delivers, the identifiers a generator issues for one prefix are strictly sorted as strings,
  hence pairwise different.
\<close>

theorem ids_strictly_increasing:
  assumes "generator_ok g" and "\<forall>(t, r)\<in>set rs. clock_ok t r" and "issue prefix rs g = (Ok us, g')"
  shows "sorted_wrt (<) us \<and> distinct us"
proof -
  obtain ns where ns: "us = map (render_id prefix) ns" "sorted_wrt (<) (ulid_number g # ns)" "\<forall>n\<in>set ns. n < 2 ^ 128"
    using issue_increasing [OF assms] by (elim exE conjE)
  have "render_id prefix x < render_id prefix y" if "x \<in> set ns" "y \<in> set ns" "x < y" for x y
    using ns(3) that by (blast intro: render_id_less)
  then have "sorted_wrt (<) us"
    using ns(2) sorted_wrt_mono_rel [of ns "(<)" "\<lambda>x y. render_id prefix x < render_id prefix y"]
    by (simp add: ns(1) sorted_wrt_map)
  then show ?thesis by (simp add: strict_sorted_iff)
qed

definition sample_generator :: generator where
  "sample_generator = \<lparr>lastMS = 0, lastRand = replicate 10 0\<rparr>"

definition sample_readings :: "(int \<times> byte list option) list" where
  "sample_readings = [(5000000, Some ((replicate 10 255)[9 := 254])), (3000000, None)]"

lemma ids_strictly_increasing_witness:
  "\<exists>us g'. issue ''txn'' sample_readings sample_generator = (Ok us, g') \<and> sorted_wrt (<) us \<and> distinct us"
proof -
  have "case fst (issue ''txn'' sample_readings sample_generator) of Ok us \<Rightarrow> True | _ \<Rightarrow> False"
    by code_simp
  then have "\<exists>us g'. issue ''txn'' sample_readings sample_generator = (Ok us, g')"
    by (cases "issue ''txn'' sample_readings sample_generator") (auto split: outcome.splits)
  moreover have "generator_ok sample_generator" "\<forall>(t, r)\<in>set sample_readings. clock_ok t r"
    by (simp_all add: sample_readings_def sample_generator_def generator_ok_def clock_ok_def)
  ultimately show ?thesis using ids_strictly_increasing by blast
qed

text \<open>
  C8. \<open>Timestamp\<close> recovers the creation time, in whole milliseconds, from any identifier the
  generator issues: the clock's reading, or the latest one seen before when the clock went back.
\<close>

theorem Timestamp_of_new:
  assumes "generator_ok g" and "clock_ok nanos rnd" and "id_new prefix nanos rnd g = (Ok u, g')"
  shows "Timestamp u = Ok (max (lastMS g) (nanos div 1000000) * 1000000)"
proof -
  note st = id_new_step [OF assms]
  have g': "0 \<le> lastMS g'" "lastMS g' < 2 ^ 48" "length (lastRand g') = 10"
    using st(1) by (simp_all add: generator_ok_def)
  have "ulid_number g' div 32 ^ 16 = nat (lastMS g')"
    using bytes_val_bound [of "lastRand g'"] g'(3) by (simp add: ulid_number_def)
  then have "decode_ms 0 (take 10 (base32 26 (ulid_number g'))) = Some (lastMS g')"
    using decode_ms_base32 [of 0 10 "nat (lastMS g')"] g' by (simp add: take_base32)
  then show ?thesis
    using g' st(4) by (simp add: Timestamp_def st(2) after_last_underscore_render encodedLen_def)
qed

lemma Timestamp_of_new_witness:
  "\<exists>u g'. id_new ''txn'' 5000000 (Some (replicate 10 7)) sample_generator = (Ok u, g')
    \<and> Timestamp u = Ok 5000000"
proof -
  have "\<exists>u g'. id_new ''txn'' 5000000 (Some (replicate 10 7)) sample_generator = (Ok u, g')"
    by (simp add: sample_generator_def id_new_def encode_def u64_def Let_def seq_def)
  moreover have "generator_ok sample_generator" "clock_ok 5000000 (Some (replicate 10 7))"
    by (simp_all add: sample_generator_def generator_ok_def clock_ok_def)
  ultimately show ?thesis
    using Timestamp_of_new [of sample_generator 5000000 "Some (replicate 10 7)" "''txn''"]
    by (fastforce simp: sample_generator_def)
qed

end
