(* ===== verification/Ledger_Service.thy ===== *)
theory Ledger_Service
  imports Repository Ident "HOL-Library.AList"
begin

text \<open>
  Package \<^verbatim>\<open>internal/ledger\<close>, file \<^verbatim>\<open>service.go\<close>: posting, capture, void and reversal, over
  any repository. The world of a call is the store's state, the identifier generator of the
  process and a step counter; the environment says, per step, what the clock, the random
  source and the context report. Definitions only; the lemmas are in \<open>Ledger_Books\<close>.
\<close>

section \<open>The world of a call\<close>

record 's world =
  w_db :: 's
  w_gen :: generator
  w_tick :: nat

record env =
  env_now :: "nat \<Rightarrow> int"
  env_rand :: "nat \<Rightarrow> byte list option"
  env_cancelled :: "nat \<Rightarrow> bool"

definition ambient_at :: "env \<Rightarrow> nat \<Rightarrow> ambient" where
  "ambient_at E k = \<lparr>cancelled = env_cancelled E k, wall_now = env_now E k\<rparr>"

definition call :: "env \<Rightarrow> (ambient \<Rightarrow> ('s, 'a) opr) \<Rightarrow> ('s world, 'a) opr" where
  "call E f w =
     (case f (ambient_at E (w_tick w)) (w_db w) of
        (r, db') \<Rightarrow> (r, w\<lparr>w_db := db', w_tick := Suc (w_tick w)\<rparr>))"

definition clock_now :: "env \<Rightarrow> ('s world, int) opr" where
  "clock_now E w = (Ok (env_now E (w_tick w)), w\<lparr>w_tick := Suc (w_tick w)\<rparr>)"

definition new_id :: "env \<Rightarrow> string \<Rightarrow> ('s world, string) opr" where
  "new_id E prefix w =
     (case id_new prefix (env_now E (w_tick w)) (env_rand E (w_tick w)) (w_gen w) of
        (r, g') \<Rightarrow> (r, w\<lparr>w_gen := g', w_tick := Suc (w_tick w)\<rparr>))"

text \<open>
  \<^verbatim>\<open>InTx\<close>: the store's state is kept only when the body succeeds. Identifiers already issued
  and time already passed are not taken back.
\<close>

definition InTx :: "('s world, 'a) opr \<Rightarrow> ('s world, 'a) opr" where
  "InTx m w = (case m w of (Ok x, w') \<Rightarrow> (Ok x, w') | (r, w') \<Rightarrow> (r, w'\<lparr>w_db := w_db w\<rparr>))"

lemma call_eq_Ok:
  "call E f w = (Ok x, w') \<longleftrightarrow>
     (\<exists>db. f (ambient_at E (w_tick w)) (w_db w) = (Ok x, db) \<and> w' = w\<lparr>w_db := db, w_tick := Suc (w_tick w)\<rparr>)"
  by (auto simp: call_def split: prod.splits)

lemma clock_now_eq [simp]: "clock_now E w = (Ok n, w') \<longleftrightarrow> n = env_now E (w_tick w) \<and> w' = w\<lparr>w_tick := Suc (w_tick w)\<rparr>"
  by (auto simp: clock_now_def)

lemma new_id_db: "new_id E p w = (r, w') \<Longrightarrow> w_db w' = w_db w"
  by (auto simp: new_id_def split: prod.splits)

lemma InTx_eq_Ok [simp]: "InTx m w = (Ok x, w') \<longleftrightarrow> m w = (Ok x, w')"
  by (auto simp: InTx_def split: prod.splits outcome.splits)

lemma InTx_rolls_back: "InTx m w = (r, w') \<Longrightarrow> \<forall>x. r \<noteq> Ok x \<Longrightarrow> w_db w' = w_db w"
  by (auto simp: InTx_def split: prod.splits outcome.splits)

lemma keeps_call [intro]: "(\<And>c. keeps P (f c)) \<Longrightarrow> keeps (\<lambda>w. P (w_db w)) (call E f)"
  by (simp add: keeps_def call_def split_beta)

lemma keeps_clock_now [intro]: "keeps (\<lambda>w. P (w_db w)) (clock_now E)"
  by (simp add: keeps_def clock_now_def)

lemma keeps_new_id [intro]: "keeps (\<lambda>w. P (w_db w)) (new_id E prefix)"
  by (simp add: keeps_def new_id_def split_beta)

lemma keeps_InTx [intro]: "keeps (\<lambda>w. P (w_db w)) m \<Longrightarrow> keeps (\<lambda>w. P (w_db w)) (InTx m)"
  by (fastforce simp: keeps_def InTx_def split: prod.splits outcome.splits)

section \<open>Accounts\<close>

definition zero_time :: int where
  "zero_time = - 62135596800 * 1000000000"

definition Service_CreateAccount :: "'s Repository \<Rightarrow> env \<Rightarrow> Account \<Rightarrow> ('s world, Account) opr" where
  "Service_CreateAccount R E a0 =
     seq (if acc_ID a0 = [] then seq (new_id E PrefixAccount) (\<lambda>i. ret (Ok (a0\<lparr>acc_ID := i\<rparr>))) else ret (Ok a0)) (\<lambda>a1.
     seq (if acc_NormalBalance a1 = []
          then ret (andThen (NormalBalance (acc_Type a1)) (\<lambda>normal. Ok (a1\<lparr>acc_NormalBalance := normal\<rparr>)))
          else ret (Ok a1)) (\<lambda>a2.
     seq (if acc_CreatedAt a2 = zero_time
          then seq (clock_now E) (\<lambda>now. ret (Ok (a2\<lparr>acc_CreatedAt := now\<rparr>)))
          else ret (Ok a2)) (\<lambda>a.
     seq (ret (Account_Validate a)) (\<lambda>_.
     seq (call E (\<lambda>c. repo_CreateAccount R c a)) (\<lambda>_. ret (Ok a))))))"

definition Service_GetAccount :: "'s Repository \<Rightarrow> env \<Rightarrow> string \<Rightarrow> ('s world, Account) opr" where
  "Service_GetAccount R E i = call E (\<lambda>c. repo_GetAccount R c i)"

definition Service_ListAccounts :: "'s Repository \<Rightarrow> env \<Rightarrow> string \<Rightarrow> ('s world, Account list) opr" where
  "Service_ListAccounts R E m = call E (\<lambda>c. repo_ListAccounts R c m)"

definition Service_TransactionsByRef :: "'s Repository \<Rightarrow> env \<Rightarrow> string \<Rightarrow> string \<Rightarrow> ('s world, Transaction list) opr" where
  "Service_TransactionsByRef R E m ref = call E (\<lambda>c. repo_TransactionsByRef R c m ref)"

definition Service_Balance :: "'s Repository \<Rightarrow> env \<Rightarrow> string \<Rightarrow> ('s world, Balance) opr" where
  "Service_Balance R E i = call E (\<lambda>c. repo_GetBalance R c i)"

definition Service_GetTransaction :: "'s Repository \<Rightarrow> env \<Rightarrow> string \<Rightarrow> ('s world, Transaction) opr" where
  "Service_GetTransaction R E i = call E (\<lambda>c. repo_GetTransaction R c i)"

definition Service_ListEntries :: "'s Repository \<Rightarrow> env \<Rightarrow> string \<Rightarrow> Page \<Rightarrow> ('s world, Entry list \<times> string) opr" where
  "Service_ListEntries R E i p =
     seq (call E (\<lambda>c. repo_GetAccount R c i)) (\<lambda>_.
       call E (\<lambda>c. repo_ListEntries R c i (Page_Normalize p)))"

section \<open>Applying a specification\<close>

definition statusFor :: "bool \<Rightarrow> Status" where
  "statusFor pending = (if pending then StatusPending else StatusPosted)"

text \<open>The zero \<^verbatim>\<open>Balance\<close> a missing map key reads as.\<close>

definition zero_balance :: Balance where
  "zero_balance = \<lparr>bal_AccountID = [], bal_Currency = [], bal_Posted = 0, bal_Pending = 0,
     bal_Version = 0, bal_UpdatedAt = zero_time\<rparr>"

definition move_balance :: "bool \<Rightarrow> int \<Rightarrow> Balance \<Rightarrow> Balance outcome" where
  "move_balance pending delta bal =
     (if pending
      then (case addInt64 (bal_Pending bal) delta of
              (n, ok) \<Rightarrow> if ok then Ok (bal\<lparr>bal_Pending := n\<rparr>) else Err MoneyErrOverflow)
      else (case addInt64 (bal_Posted bal) delta of
              (n, ok) \<Rightarrow> if ok then Ok (bal\<lparr>bal_Posted := n\<rparr>) else Err MoneyErrOverflow))"

text \<open>The loop over the postings; \<open>running\<close> holds the working balances.\<close>

fun apply_entries ::
  "bool \<Rightarrow> (string \<times> LockedAccount) list \<Rightarrow> string \<Rightarrow> int \<Rightarrow> nat \<Rightarrow> (string \<times> Balance) list
    \<Rightarrow> EntrySpec list \<Rightarrow> ((string \<times> Balance) list \<times> Entry list) outcome" where
  "apply_entries pending locked txnID at i running [] = Ok (running, [])"
| "apply_entries pending locked txnID at i running (es # rest) =
     (case map_of locked (es_AccountID es) of
        None \<Rightarrow> Err ErrAccountNotFound
      | Some la \<Rightarrow>
          if currency (es_Amount es) \<noteq> acc_Currency (la_Account la) then Err ErrAccountCurrency
          else (let bal0 = (case map_of running (es_AccountID es) of None \<Rightarrow> zero_balance | Some b \<Rightarrow> b)
            in
              andThen (move_balance pending (SignedDelta (la_Account la) (es_Direction es) (amount (es_Amount es))) bal0) (\<lambda>bal.
              andThen (apply_entries pending locked txnID at (Suc i) (AList.update (es_AccountID es) bal running) rest) (\<lambda>(running', entries).
              Ok (running',
                \<lparr>ent_ID = 0, ent_TransactionID = txnID, ent_AccountID = es_AccountID es,
                 ent_Direction = es_Direction es, ent_Amount = amount (es_Amount es),
                 ent_Currency = currency (es_Amount es), ent_Status = statusFor pending,
                 ent_Seq = wrap16 (int i), ent_BalanceAfter = bal_Posted bal, ent_CreatedAt = at\<rparr> # entries)))))"

text \<open>The check of I6 against the final balances, and the updates to write.\<close>

fun collect_updates :: "(string \<times> LockedAccount) list \<Rightarrow> (string \<times> Balance) list \<Rightarrow> BalanceUpdate list outcome" where
  "collect_updates locked [] = Ok []"
| "collect_updates locked ((i, bal) # rest) =
     (case map_of locked i of
        None \<Rightarrow> Panic
      | Some la \<Rightarrow>
          if \<not> acc_AllowNegative (la_Account la) \<and> Available bal < 0 then Err ErrInsufficientFunds
          else andThen (collect_updates locked rest) (\<lambda>us.
            Ok (\<lparr>upd_AccountID = i, upd_Posted = bal_Posted bal, upd_Pending = bal_Pending bal,
                 upd_Version = bal_Version bal\<rparr> # us)))"

definition sortUpdates :: "BalanceUpdate list \<Rightarrow> BalanceUpdate list" where
  "sortUpdates us = insertion_sort (\<lambda>a b. upd_AccountID a < upd_AccountID b) us"

definition apply_spec ::
  "TransactionSpec \<Rightarrow> (string \<times> LockedAccount) list \<Rightarrow> string \<Rightarrow> int \<Rightarrow> (Entry list \<times> BalanceUpdate list) outcome" where
  "apply_spec spec locked txnID at =
     andThen (apply_entries (ts_Pending spec) locked txnID at 0
         (map (\<lambda>(i, la). (i, la_Balance la)) locked) (ts_Entries spec)) (\<lambda>(running, entries).
     andThen (collect_updates locked running) (\<lambda>updates. Ok (entries, sortUpdates updates)))"

section \<open>Posting\<close>

text \<open>The row \<open>Post\<close> and \<open>Reverse\<close> build; only the latter names a reversed transaction.\<close>

definition transaction_row :: "TransactionSpec \<Rightarrow> string \<Rightarrow> string \<Rightarrow> int \<Rightarrow> Transaction" where
  "transaction_row spec reverses i now =
     \<lparr>txn_ID = i, txn_MerchantID = ts_MerchantID spec,
      txn_Status = (if ts_Pending spec then StatusPending else StatusPosted),
      txn_Currency = Spec_Currency spec, txn_Description = ts_Description spec, txn_ReversesID = reverses,
      txn_ExternalRef = ts_ExternalRef spec, txn_Metadata = ts_Metadata spec, txn_CreatedAt = now,
      txn_PostedAt = (if ts_Pending spec then None else Some now), txn_Entries = []\<rparr>"

text \<open>The common tail of \<open>Post\<close> and \<open>Reverse\<close>: apply, then write the row, the entries and the balances.\<close>

definition record_transaction ::
  "'s Repository \<Rightarrow> env \<Rightarrow> TransactionSpec \<Rightarrow> (string \<times> LockedAccount) list \<Rightarrow> Transaction \<Rightarrow> ('s world, Transaction) opr" where
  "record_transaction R E spec locked txn =
     seq (ret (apply_spec spec locked (txn_ID txn) (txn_CreatedAt txn))) (\<lambda>(entries, updates).
     seq (call E (\<lambda>c. repo_InsertTransaction R c txn)) (\<lambda>_.
     seq (call E (\<lambda>c. repo_AppendEntries R c entries)) (\<lambda>written.
     seq (call E (\<lambda>c. repo_ApplyBalances R c updates)) (\<lambda>_.
     ret (Ok (txn\<lparr>txn_Entries := written\<rparr>))))))"

definition Post :: "'s Repository \<Rightarrow> env \<Rightarrow> TransactionSpec \<Rightarrow> ('s world, Transaction) opr" where
  "Post R E spec =
     seq (ret (Spec_Validate spec)) (\<lambda>_.
     seq (call E (\<lambda>c. repo_LockAccounts R c (AccountIDs spec))) (\<lambda>locked.
     seq (new_id E PrefixTransaction) (\<lambda>i.
     seq (clock_now E) (\<lambda>now.
     record_transaction R E spec locked (transaction_row spec [] i now)))))"

section \<open>Capture, void, reversal\<close>

definition mirror_entries :: "Entry list \<Rightarrow> EntrySpec list outcome" where
  "mirror_entries es = map_outcome_list (\<lambda>e. andThen (Entry_Money e) (\<lambda>m.
     Ok \<lparr>es_AccountID = ent_AccountID e, es_Direction = Opposite (ent_Direction e), es_Amount = m\<rparr>)) es"

text \<open>The positions of the postings on one side, in order: \<open>debitIdx\<close> and \<open>creditIdx\<close>.\<close>

definition side_indices :: "bool \<Rightarrow> Entry list \<Rightarrow> nat list" where
  "side_indices debit es = filter (\<lambda>i. (ent_Direction (es ! i) = Debit) = debit) [0..<length es]"

definition zero_entry_spec :: EntrySpec where
  "zero_entry_spec = \<lparr>es_AccountID = [], es_Direction = [], es_Amount = \<lparr>amount = 0, currency = []\<rparr>\<rparr>"

definition fill_side :: "Direction \<Rightarrow> Entry list \<Rightarrow> nat list \<Rightarrow> money list \<Rightarrow> EntrySpec list \<Rightarrow> EntrySpec list" where
  "fill_side d es idxs parts out =
     fold (\<lambda>(i, p) out. out[i := \<lparr>es_AccountID = ent_AccountID (es ! i), es_Direction = d, es_Amount = p\<rparr>])
       (zip idxs parts) out"

definition scaleEntries :: "Entry list \<Rightarrow> int \<Rightarrow> int \<Rightarrow> EntrySpec list outcome" where
  "scaleEntries es capture authorized =
     (if authorized \<le> 0 then Err ErrInvalidAmount
      else if capture = authorized
      then map_outcome_list (\<lambda>e. andThen (Entry_Money e) (\<lambda>m.
             Ok \<lparr>es_AccountID = ent_AccountID e, es_Direction = ent_Direction e, es_Amount = m\<rparr>)) es
      else let debitIdx = side_indices True es;
               creditIdx = side_indices False es;
               cur = (if es = [] then [] else ent_Currency (last es))
        in andThen (MustNew capture cur) (\<lambda>total.
           andThen (Money_Allocate total (map (\<lambda>i. ent_Amount (es ! i)) debitIdx)) (\<lambda>debitParts.
           andThen (Money_Allocate total (map (\<lambda>i. ent_Amount (es ! i)) creditIdx)) (\<lambda>creditParts.
           let out = fill_side Credit es creditIdx creditParts
                 (fill_side Debit es debitIdx debitParts (replicate (length es) zero_entry_spec))
           in Ok (filter (\<lambda>e. amount (es_Amount e) \<noteq> 0) out)))))"

definition capture_amount :: "Transaction \<Rightarrow> money option \<Rightarrow> int outcome" where
  "capture_amount auth amt =
     (case amt of
        None \<Rightarrow> Ok (Total auth)
      | Some m \<Rightarrow>
          if currency m \<noteq> txn_Currency auth then Err ErrMultiCurrency
          else if amount m \<le> 0 then Err ErrInvalidAmount
          else if amount m > Total auth then Err ErrCaptureExceedsAuthorization
          else Ok (amount m))"

definition Service_Capture :: "'s Repository \<Rightarrow> env \<Rightarrow> string \<Rightarrow> money option \<Rightarrow> ('s world, Transaction) opr" where
  "Service_Capture R E txnID amt =
     seq (call E (\<lambda>c. repo_GetTransaction R c txnID)) (\<lambda>auth.
     if \<not> IsPending auth then ret (Err ErrNotPending)
     else if txn_Entries auth = [] then ret (Err ErrNoEntries)
     else seq (ret (capture_amount auth amt)) (\<lambda>capture.
     seq (ret (mirror_entries (txn_Entries auth))) (\<lambda>release.
     seq (Post R E
       \<lparr>ts_MerchantID = txn_MerchantID auth, ts_Description = ''release of authorization '' @ txn_ID auth,
        ts_ExternalRef = txn_ExternalRef auth, ts_Entries = release, ts_Pending = True,
        ts_Metadata = [(''releases'', JString (txn_ID auth))]\<rparr>) (\<lambda>_.
     seq (ret (scaleEntries (txn_Entries auth) capture (Total auth))) (\<lambda>postEntries.
     seq (Post R E
       \<lparr>ts_MerchantID = txn_MerchantID auth, ts_Description = ''capture of authorization '' @ txn_ID auth,
        ts_ExternalRef = txn_ExternalRef auth, ts_Entries = postEntries, ts_Pending = False,
        ts_Metadata = [(''captures'', JString (txn_ID auth))]\<rparr>) (\<lambda>captured.
     seq (clock_now E) (\<lambda>posted.
     seq (call E (\<lambda>c. repo_SetTransactionStatus R c (txn_ID auth) StatusPosted (Some posted))) (\<lambda>_.
     ret (Ok captured)))))))))"

definition Void :: "'s Repository \<Rightarrow> env \<Rightarrow> string \<Rightarrow> ('s world, Transaction) opr" where
  "Void R E txnID =
     seq (call E (\<lambda>c. repo_GetTransaction R c txnID)) (\<lambda>auth.
     if \<not> IsPending auth then ret (Err ErrNotPending)
     else seq (ret (mirror_entries (txn_Entries auth))) (\<lambda>release.
     seq (Post R E
       \<lparr>ts_MerchantID = txn_MerchantID auth, ts_Description = ''void of authorization '' @ txn_ID auth,
        ts_ExternalRef = txn_ExternalRef auth, ts_Entries = release, ts_Pending = True,
        ts_Metadata = [(''voids'', JString (txn_ID auth))]\<rparr>) (\<lambda>voided.
     seq (call E (\<lambda>c. repo_SetTransactionStatus R c (txn_ID auth) StatusVoided None)) (\<lambda>_.
     ret (Ok voided)))))"

text \<open>
  \<^verbatim>\<open>FindReversal\<close>'s error is discarded: any failure, also a context that is done, counts as no
  reversal found.
\<close>

definition attempt :: "('s, 'a) opr \<Rightarrow> ('s, 'a option) opr" where
  "attempt m s = (case m s of (Ok x, s') \<Rightarrow> (Ok (Some x), s') | (Err e, s') \<Rightarrow> (Ok None, s') | (Panic, s') \<Rightarrow> (Panic, s'))"

lemma keeps_attempt [intro]: "keeps P m \<Longrightarrow> keeps P (attempt m)"
  by (simp add: keeps_def attempt_def split_beta split: outcome.split)

definition reversal_spec :: "Transaction \<Rightarrow> string \<Rightarrow> EntrySpec list \<Rightarrow> TransactionSpec" where
  "reversal_spec orig reason mirror =
     \<lparr>ts_MerchantID = txn_MerchantID orig,
      ts_Description = ''reversal of '' @ txn_ID orig @ (if reason = [] then [] else '': '' @ reason),
      ts_ExternalRef = txn_ExternalRef orig, ts_Entries = mirror, ts_Pending = False,
      ts_Metadata = [(''reverses'', JString (txn_ID orig)), (''reason'', JString reason)]\<rparr>"

definition Reverse :: "'s Repository \<Rightarrow> env \<Rightarrow> string \<Rightarrow> string \<Rightarrow> ('s world, Transaction) opr" where
  "Reverse R E txnID reason =
     seq (call E (\<lambda>c. repo_GetTransaction R c txnID)) (\<lambda>orig.
     if txn_Status orig \<noteq> StatusPosted then ret (Err ErrNotPosted)
     else seq (attempt (call E (\<lambda>c. repo_FindReversal R c txnID))) (\<lambda>existing.
     if existing \<noteq> None then ret (Err ErrAlreadyReversed)
     else seq (ret (mirror_entries (txn_Entries orig))) (\<lambda>mirror.
     let spec = reversal_spec orig reason mirror
     in seq (ret (Spec_Validate spec)) (\<lambda>_.
     seq (call E (\<lambda>c. repo_LockAccounts R c (AccountIDs spec))) (\<lambda>locked.
     seq (new_id E PrefixTransaction) (\<lambda>i.
     seq (clock_now E) (\<lambda>now.
     record_transaction R E spec locked (transaction_row spec (txn_ID orig) i now))))))))"

end
