(* ===== verification/Ledger_Books.thy ===== *)
theory Ledger_Books
  imports Ledger_Service
begin

text \<open>
  What the ledger promises: the invariant of the books (materialized balances equal the
  balances derived from the entry log, every transaction balances, no overdraft on accounts
  that forbid it, the recorded running balances replay), the effect of \<open>Post\<close> on the books,
  and that the service operations keep the invariant over every repository that meets its
  contract.
\<close>

section \<open>Derived balances\<close>

definition delta :: "Account \<Rightarrow> Direction \<Rightarrow> int \<Rightarrow> int" where
  "delta a d n = (if d = acc_NormalBalance a then n else - n)"

definition net :: "Status \<Rightarrow> Account \<Rightarrow> Entry list \<Rightarrow> int" where
  "net st a es = sum_list (map (\<lambda>e.
     if ent_AccountID e = acc_ID a \<and> ent_Status e = st then delta a (ent_Direction e) (ent_Amount e) else 0) es)"

definition trial :: "string \<Rightarrow> Status \<Rightarrow> Entry list \<Rightarrow> int" where
  "trial c st es = sum_list (map (\<lambda>e.
     if ent_Currency e = c \<and> ent_Status e = st then debit_positive (ent_Direction e) (ent_Amount e) else 0) es)"

definition spec_entry :: "Entry \<Rightarrow> EntrySpec" where
  "spec_entry e = \<lparr>es_AccountID = ent_AccountID e, es_Direction = ent_Direction e,
     es_Amount = \<lparr>amount = ent_Amount e, currency = ent_Currency e\<rparr>\<rparr>"

lemma net_simps [simp]:
  "net st a [] = 0"
  "net st a (e # es) =
     (if ent_AccountID e = acc_ID a \<and> ent_Status e = st then delta a (ent_Direction e) (ent_Amount e) else 0) + net st a es"
  "net st a (es @ fs) = net st a es + net st a fs"
  by (simp_all add: net_def)

lemma trial_simps [simp]:
  "trial c st [] = 0"
  "trial c st (e # es) =
     (if ent_Currency e = c \<and> ent_Status e = st then debit_positive (ent_Direction e) (ent_Amount e) else 0) + trial c st es"
  "trial c st (es @ fs) = trial c st es + trial c st fs"
  by (simp_all add: trial_def)

lemma spec_entry_simps [simp]:
  "es_AccountID (spec_entry e) = ent_AccountID e" "es_Direction (spec_entry e) = ent_Direction e"
  "amount (es_Amount (spec_entry e)) = ent_Amount e" "currency (es_Amount (spec_entry e)) = ent_Currency e"
  by (simp_all add: spec_entry_def)

lemma net_mset: "mset es = mset fs \<Longrightarrow> net st a es = net st a fs"
  by (simp add: net_def flip: sum_mset_sum_list)

lemma net_ID [simp]: "net st a (map (\<lambda>e. e\<lparr>ent_ID := f e\<rparr>) es) = net st a es"
  by (induction es) simp_all

text \<open>The entries of one balanced transaction.\<close>

definition group_ok :: "string \<Rightarrow> Entry list \<Rightarrow> bool" where
  "group_ok c es \<longleftrightarrow>
     es \<noteq> [] \<and> Currency_Valid c \<and> list_all (entry_spec_ok c) (map spec_entry es)
     \<and> debit_sum (map spec_entry es) = credit_sum (map spec_entry es) \<and> in64 (debit_sum (map spec_entry es))"

lemma side_sums_mset:
  assumes "mset es = mset fs"
  shows "debit_sum es = debit_sum fs" and "credit_sum es = credit_sum fs"
  using assms by (simp_all add: debit_sum_def credit_sum_def flip: sum_mset_sum_list)

lemma group_ok_mset:
  assumes "mset es = mset fs"
  shows "group_ok c es \<longleftrightarrow> group_ok c fs"
proof -
  have "mset (map spec_entry es) = mset (map spec_entry fs)" using assms by simp
  note sums = side_sums_mset [OF this]
  have "set es = set fs" using assms by (rule mset_eq_setD)
  moreover have "es = [] \<longleftrightarrow> fs = []" using assms by auto
  ultimately show ?thesis by (simp add: group_ok_def sums list_all_iff)
qed

text \<open>
  A posting moves an account by at most the total of the opposite side, so never by more
  than the greatest \<open>int64\<close>.
\<close>

lemma net_bound:
  assumes "list_all (entry_spec_ok c) (map spec_entry es)"
  shows "- (if acc_NormalBalance a = Debit then credit_sum (map spec_entry es) else debit_sum (map spec_entry es)
      + (if acc_NormalBalance a = Credit then 0 else credit_sum (map spec_entry es))) \<le> net st a es"
  using assms
proof (induction es)
  case (Cons e es)
  then show ?case
    by (auto simp: entry_spec_ok_def [of c "spec_entry e"] delta_def Direction_Valid_def
        split: if_splits)
qed simp

lemma group_net_lower:
  assumes "group_ok c es" and "acc_NormalBalance a = Debit \<or> acc_NormalBalance a = Credit"
  shows "- MaxInt64 \<le> net st a es"
  using net_bound [of c es a st] assms by (auto simp: group_ok_def in64_def split: if_splits)

lemma trial_uniform:
  assumes "list_all (\<lambda>e. ent_Currency e = c \<and> ent_Status e = st) es"
  shows "trial c' st' es =
    (if c' = c \<and> st' = st then debit_sum (map spec_entry es) - credit_sum (map spec_entry es) else 0)"
  using assms by (induction es) (auto simp: debit_positive_def)

section \<open>The effect of applying a specification\<close>

lemma statusFor_cases [simp]: "statusFor True = StatusPending" "statusFor False = StatusPosted"
  by (simp_all add: statusFor_def)

lemma move_balance_Ok:
  assumes "move_balance p d b = Ok b'" and "in64 d" and "in64 (bal_Posted b)" and "in64 (bal_Pending b)"
  shows "bal_Posted b' = bal_Posted b + (if p then 0 else d)" and "bal_Pending b' = bal_Pending b + (if p then d else 0)"
    and "in64 (bal_Posted b')" and "in64 (bal_Pending b')" and "bal_Version b' = bal_Version b"
    and "bal_AccountID b' = bal_AccountID b"
  using assms by (auto simp: move_balance_def addInt64_spec split: if_splits prod.splits)

lemma SignedDelta_delta: "0 < n \<Longrightarrow> in64 n \<Longrightarrow> SignedDelta a d n = delta a d n"
  by (simp add: SignedDelta_eq delta_def)

lemma in64_delta: "0 < n \<Longrightarrow> in64 n \<Longrightarrow> in64 (delta a d n)"
  by (simp add: delta_def in64_neg_pos)

definition written_entry :: "bool \<Rightarrow> string \<Rightarrow> int \<Rightarrow> nat \<Rightarrow> EntrySpec \<Rightarrow> Balance \<Rightarrow> Entry" where
  "written_entry p txnID at i e b =
     \<lparr>ent_ID = 0, ent_TransactionID = txnID, ent_AccountID = es_AccountID e,
      ent_Direction = es_Direction e, ent_Amount = amount (es_Amount e),
      ent_Currency = currency (es_Amount e), ent_Status = statusFor p,
      ent_Seq = wrap16 (int i), ent_BalanceAfter = bal_Posted b, ent_CreatedAt = at\<rparr>"

definition covers :: "(string \<times> Balance) list \<Rightarrow> (string \<times> LockedAccount) list \<Rightarrow> bool" where
  "covers running locked \<longleftrightarrow> dom (map_of locked) \<subseteq> dom (map_of running)"

lemma covers_update: "covers running locked \<Longrightarrow> covers (AList.update i b running) locked"
  by (auto simp: covers_def AList.update_conv')

lemma apply_entries_ConsE:
  assumes "apply_entries p locked txnID at i running (e # rest) = Ok (running', out)" and "covers running locked"
  obtains la b0 b out' where "map_of locked (es_AccountID e) = Some la"
    and "currency (es_Amount e) = acc_Currency (la_Account la)"
    and "map_of running (es_AccountID e) = Some b0"
    and "move_balance p (SignedDelta (la_Account la) (es_Direction e) (amount (es_Amount e))) b0 = Ok b"
    and "apply_entries p locked txnID at (Suc i) (AList.update (es_AccountID e) b running) rest = Ok (running', out')"
    and "out = written_entry p txnID at i e b # out'"
proof -
  obtain la where la: "map_of locked (es_AccountID e) = Some la"
    using assms(1) by (cases "map_of locked (es_AccountID e)") auto
  moreover obtain b0 where "map_of running (es_AccountID e) = Some b0" using assms(2) la unfolding covers_def by blast
  ultimately show thesis
    using assms(1) that by (auto simp: written_entry_def Let_def split: if_splits)
qed

lemma apply_entries_out:
  assumes "apply_entries p locked txnID at i running es = Ok (running', out)" and "covers running locked"
  shows "map spec_entry out = es
    \<and> (\<forall>e\<in>set out. ent_TransactionID e = txnID \<and> ent_Status e = statusFor p
        \<and> (\<exists>la. map_of locked (ent_AccountID e) = Some la \<and> acc_Currency (la_Account la) = ent_Currency e))
    \<and> map fst running' = map fst running"
  using assms
proof (induction es arbitrary: i running out)
  case (Cons e es)
  from Cons.prems show ?case
  proof (rule apply_entries_ConsE)
    fix la b0 b out'
    assume *: "map_of locked (es_AccountID e) = Some la" "currency (es_Amount e) = acc_Currency (la_Account la)"
      "map_of running (es_AccountID e) = Some b0" "out = written_entry p txnID at i e b # out'"
      "apply_entries p locked txnID at (Suc i) (AList.update (es_AccountID e) b running) es = Ok (running', out')"
    have "es_AccountID e \<in> set (map fst running)" using *(3) by (force dest: map_of_SomeD)
    then have "map fst (AList.update (es_AccountID e) b running) = map fst running"
      by (simp only: AList.update_keys if_True)
    moreover have "spec_entry (written_entry p txnID at i e b) = e"
      by (simp add: written_entry_def spec_entry_def)
    ultimately show ?thesis
      using Cons.IH [OF *(5) covers_update [OF Cons.prems(2)]] * by (auto simp: written_entry_def)
  qed
qed simp

definition running_ok :: "(string \<times> Balance) list \<Rightarrow> bool" where
  "running_ok running \<longleftrightarrow> (\<forall>j b. map_of running j = Some b \<longrightarrow> in64 (bal_Posted b) \<and> in64 (bal_Pending b))"

definition locked_ok :: "(string \<times> LockedAccount) list \<Rightarrow> bool" where
  "locked_ok locked \<longleftrightarrow> (\<forall>j la. map_of locked j = Some la \<longrightarrow> acc_ID (la_Account la) = j
     \<and> in64 (bal_Posted (la_Balance la)) \<and> in64 (bal_Pending (la_Balance la)))"

definition posting_ok :: "string \<Rightarrow> EntrySpec \<Rightarrow> bool" where
  "posting_ok c e \<longleftrightarrow> entry_spec_ok c e \<and> in64 (amount (es_Amount e))"

text \<open>One turn of the loop: the moved balance, and what it leaves in the working balances.\<close>

lemma apply_step:
  assumes "locked_ok locked" and "running_ok running" and "posting_ok c e"
    and "map_of locked (es_AccountID e) = Some la" and "map_of running (es_AccountID e) = Some b0"
    and "move_balance p (SignedDelta (la_Account la) (es_Direction e) (amount (es_Amount e))) b0 = Ok b1"
  shows "running_ok (AList.update (es_AccountID e) b1 running)"
    and "bal_Posted b1 = bal_Posted b0 + net StatusPosted (la_Account la) [written_entry p txnID at i e b1]"
    and "bal_Pending b1 = bal_Pending b0 + net StatusPending (la_Account la) [written_entry p txnID at i e b1]"
    and "bal_Version b1 = bal_Version b0"
proof -
  have e: "0 < amount (es_Amount e)" "in64 (amount (es_Amount e))"
    using assms(3) by (auto simp: posting_ok_def entry_spec_ok_def)
  have b0: "in64 (bal_Posted b0)" "in64 (bal_Pending b0)"
    using assms(2,5) by (simp_all add: running_ok_def)
  note mv = move_balance_Ok [OF assms(6) [unfolded SignedDelta_delta [OF e]] in64_delta [OF e] b0]
  show "running_ok (AList.update (es_AccountID e) b1 running)"
    using assms(2) mv(3,4) by (simp add: running_ok_def AList.update_conv')
  have "acc_ID (la_Account la) = es_AccountID e" using assms(1,4) by (simp add: locked_ok_def)
  then show "bal_Posted b1 = bal_Posted b0 + net StatusPosted (la_Account la) [written_entry p txnID at i e b1]"
    "bal_Pending b1 = bal_Pending b0 + net StatusPending (la_Account la) [written_entry p txnID at i e b1]"
    using mv(1,2) by (cases p; simp add: written_entry_def)+
  show "bal_Version b1 = bal_Version b0" by (rule mv(5))
qed

lemma net_other:
  assumes "locked_ok locked" and "map_of locked j = Some la" and "es_AccountID e \<noteq> j"
  shows "net st (la_Account la) [written_entry p txnID at i e b] = 0"
  using assms by (auto simp: locked_ok_def written_entry_def)

lemma apply_entries_balances:
  assumes "apply_entries p locked txnID at i running es = Ok (running', out)"
    and "list_all (posting_ok c) es" and "locked_ok locked" and "running_ok running"
    and "map_of locked j = Some la" and "map_of running j = Some b" and "covers running locked"
  shows "running_ok running' \<and> (\<exists>b'. map_of running' j = Some b'
    \<and> bal_Posted b' = bal_Posted b + net StatusPosted (la_Account la) out
    \<and> bal_Pending b' = bal_Pending b + net StatusPending (la_Account la) out
    \<and> bal_Version b' = bal_Version b)"
  using assms
proof (induction es arbitrary: i running out b)
  case (Cons e es)
  from Cons.prems(1,7) show ?case
  proof (rule apply_entries_ConsE)
    fix la' b0 b1 out'
    assume lk: "map_of locked (es_AccountID e) = Some la'" and rn: "map_of running (es_AccountID e) = Some b0"
      and mv: "move_balance p (SignedDelta (la_Account la') (es_Direction e) (amount (es_Amount e))) b0 = Ok b1"
      and run: "apply_entries p locked txnID at (Suc i) (AList.update (es_AccountID e) b1 running) es = Ok (running', out')"
      and out: "out = written_entry p txnID at i e b1 # out'"
    have pe: "posting_ok c e" "list_all (posting_ok c) es" using Cons.prems(2) by simp_all
    note st1 = apply_step(1) [OF Cons.prems(3,4) pe(1) lk rn mv]
      and st = apply_step(2,3) [OF Cons.prems(3,4) pe(1) lk rn mv, of txnID at i]
        apply_step(4) [OF Cons.prems(3,4) pe(1) lk rn mv]
    let ?b = "if j = es_AccountID e then b1 else b"
    have "map_of (AList.update (es_AccountID e) b1 running) j = Some ?b"
      using Cons.prems(6) by (simp add: AList.update_conv')
    note IH = Cons.IH [OF run pe(2) Cons.prems(3) st1 Cons.prems(5) this covers_update [OF Cons.prems(7)]]
    have split: "net st' a out = net st' a [written_entry p txnID at i e b1] + net st' a out'" for st' a
      by (simp add: out)
    show ?thesis
    proof (cases "j = es_AccountID e")
      case True
      then have "la' = la" "b0 = b" using lk rn Cons.prems(5,6) by simp_all
      with IH st True show ?thesis unfolding split by (auto simp del: net_simps)
    next
      case False
      then have "net st' (la_Account la) [written_entry p txnID at i e b1] = 0" for st'
        using net_other [OF Cons.prems(3,5)] by metis
      with IH False show ?thesis unfolding split by (auto simp del: net_simps)
    qed
  qed
qed auto

text \<open>The recorded \<open>BalanceAfter\<close> of each posting is the account's posted balance at that point.\<close>

lemma apply_entries_chain:
  assumes "apply_entries p locked txnID at i running es = Ok (running', out)"
    and "list_all (posting_ok c) es" and "locked_ok locked" and "running_ok running"
    and "k < length out" and "map_of locked (ent_AccountID (out ! k)) = Some la"
    and "map_of running (ent_AccountID (out ! k)) = Some b" and "covers running locked"
  shows "ent_BalanceAfter (out ! k) = bal_Posted b + net StatusPosted (la_Account la) (take (Suc k) out)"
  using assms
proof (induction es arbitrary: i running out b k)
  case (Cons e es)
  from Cons.prems(1,8) show ?case
  proof (rule apply_entries_ConsE)
    fix la' b0 b1 out'
    assume lk: "map_of locked (es_AccountID e) = Some la'" and rn: "map_of running (es_AccountID e) = Some b0"
      and mv: "move_balance p (SignedDelta (la_Account la') (es_Direction e) (amount (es_Amount e))) b0 = Ok b1"
      and run: "apply_entries p locked txnID at (Suc i) (AList.update (es_AccountID e) b1 running) es = Ok (running', out')"
      and out: "out = written_entry p txnID at i e b1 # out'"
    have pe: "posting_ok c e" "list_all (posting_ok c) es" using Cons.prems(2) by simp_all
    note st1 = apply_step(1) [OF Cons.prems(3,4) pe(1) lk rn mv]
      and st = apply_step(2,3) [OF Cons.prems(3,4) pe(1) lk rn mv, of txnID at i]
        apply_step(4) [OF Cons.prems(3,4) pe(1) lk rn mv]
    show ?thesis
    proof (cases k)
      case 0
      then have "la' = la" "b0 = b" using Cons.prems(6,7) lk rn by (simp_all add: out written_entry_def)
      moreover have "out ! k = written_entry p txnID at i e b1" "take (Suc k) out = [written_entry p txnID at i e b1]"
        by (simp_all add: out 0)
      moreover have "ent_BalanceAfter (written_entry p txnID at i e b1) = bal_Posted b1"
        by (simp add: written_entry_def)
      ultimately show ?thesis using st(1) by (simp only:)
    next
      case (Suc k')
      let ?j = "ent_AccountID (out' ! k')"
      let ?b = "if ?j = es_AccountID e then b1 else b"
      have la: "map_of locked ?j = Some la" and b: "map_of running ?j = Some b"
        using Cons.prems(6,7) by (simp_all add: out Suc)
      have "map_of (AList.update (es_AccountID e) b1 running) ?j = Some ?b"
        using b by (simp add: AList.update_conv')
      with Cons.IH [OF run pe(2) Cons.prems(3) st1, of k' ?b] la Cons.prems(5) covers_update [OF Cons.prems(8)]
      have IH: "ent_BalanceAfter (out' ! k') = bal_Posted ?b + net StatusPosted (la_Account la) (take (Suc k') out')"
        by (simp add: out Suc)
      have split: "net StatusPosted (la_Account la) (take (Suc k) out) =
          net StatusPosted (la_Account la) [written_entry p txnID at i e b1] + net StatusPosted (la_Account la) (take (Suc k') out')"
        by (simp add: out Suc)
      show ?thesis
      proof (cases "?j = es_AccountID e")
        case True
        then have "la' = la" "b0 = b" using lk rn la b by simp_all
        with IH st(1) True show ?thesis unfolding split by (simp add: out Suc del: net_simps)
      next
        case False
        then have "net StatusPosted (la_Account la) [written_entry p txnID at i e b1] = 0"
          using net_other [OF Cons.prems(3) la] by metis
        with IH False show ?thesis unfolding split by (simp add: out Suc del: net_simps)
      qed
    qed
  qed
qed simp

lemma collect_updates_Ok:
  assumes "collect_updates locked running = Ok us"
  shows "us = map (\<lambda>(i, b). \<lparr>upd_AccountID = i, upd_Posted = bal_Posted b, upd_Pending = bal_Pending b,
      upd_Version = bal_Version b\<rparr>) running
    \<and> (\<forall>(i, b)\<in>set running. \<exists>la. map_of locked i = Some la \<and> (acc_AllowNegative (la_Account la) \<or> 0 \<le> Available b))"
  using assms
proof (induction running arbitrary: us)
  case (Cons ib rest)
  obtain i b where ib: "ib = (i, b)" by (cases ib)
  obtain la us' where "map_of locked i = Some la" "acc_AllowNegative (la_Account la) \<or> 0 \<le> Available b"
    "collect_updates locked rest = Ok us'"
    "us = \<lparr>upd_AccountID = i, upd_Posted = bal_Posted b, upd_Pending = bal_Pending b, upd_Version = bal_Version b\<rparr> # us'"
    using Cons.prems by (auto simp: ib split: option.splits if_splits)
  with Cons.IH show ?case by (auto simp: ib)
qed simp

definition typed_spec :: "TransactionSpec \<Rightarrow> bool" where
  "typed_spec s \<longleftrightarrow> list_all (\<lambda>e. in64 (amount (es_Amount e))) (ts_Entries s)"

definition avail :: "int \<Rightarrow> int \<Rightarrow> int" where
  "avail posted pending = (if pending < 0 then wrap64 (posted + pending) else posted)"

definition update_ok :: "(string \<times> LockedAccount) list \<Rightarrow> Entry list \<Rightarrow> BalanceUpdate \<Rightarrow> bool" where
  "update_ok locked es u \<longleftrightarrow> (\<exists>la. map_of locked (upd_AccountID u) = Some la
     \<and> upd_Posted u = bal_Posted (la_Balance la) + net StatusPosted (la_Account la) es
     \<and> upd_Pending u = bal_Pending (la_Balance la) + net StatusPending (la_Account la) es
     \<and> upd_Version u = bal_Version (la_Balance la)
     \<and> in64 (upd_Posted u) \<and> in64 (upd_Pending u)
     \<and> (acc_AllowNegative (la_Account la) \<or> 0 \<le> avail (upd_Posted u) (upd_Pending u)))"

lemma map_of_map_snd: "map_of (map (\<lambda>(i, x). (i, f x)) xs) j = map_option f (map_of xs j)"
  by (induction xs) auto

lemma apply_spec_Ok:
  assumes run: "apply_spec spec locked txnID at = Ok (es, us)"
    and "spec_ok spec" and "typed_spec spec" and lk: "locked_ok locked" and "distinct (map fst locked)"
  shows "map spec_entry es = ts_Entries spec"
    and "\<forall>e\<in>set es. ent_TransactionID e = txnID \<and> ent_Status e = statusFor (ts_Pending spec)
        \<and> (\<exists>la. map_of locked (ent_AccountID e) = Some la \<and> acc_Currency (la_Account la) = ent_Currency e)"
    and "distinct (map upd_AccountID us)" and "upd_AccountID ` set us = fst ` set locked"
    and "\<forall>u\<in>set us. update_ok locked es u"
    and "\<forall>k<length es. \<forall>la. map_of locked (ent_AccountID (es ! k)) = Some la \<longrightarrow>
        ent_BalanceAfter (es ! k) = bal_Posted (la_Balance la) + net StatusPosted (la_Account la) (take (Suc k) es)"
proof -
  let ?run0 = "map (\<lambda>(i, la). (i, la_Balance la)) locked"
  obtain running us' where ae: "apply_entries (ts_Pending spec) locked txnID at 0 ?run0 (ts_Entries spec) = Ok (running, es)"
    and cu: "collect_updates locked running = Ok us'" and us: "us = sortUpdates us'"
    using run by (auto simp: apply_spec_def)
  have po: "list_all (posting_ok (Spec_Currency spec)) (ts_Entries spec)"
    using assms(2,3) by (auto simp: spec_ok_def typed_spec_def posting_ok_def list_all_iff)
  have r0: "map_of ?run0 j = map_option la_Balance (map_of locked j)" for j by (rule map_of_map_snd)
  then have rok: "running_ok ?run0" using lk by (auto simp: running_ok_def locked_ok_def)
  have cov: "covers ?run0 locked" using r0 by (auto simp: covers_def)
  note out = apply_entries_out [OF ae cov]
  show "map spec_entry es = ts_Entries spec"
    "\<forall>e\<in>set es. ent_TransactionID e = txnID \<and> ent_Status e = statusFor (ts_Pending spec)
        \<and> (\<exists>la. map_of locked (ent_AccountID e) = Some la \<and> acc_Currency (la_Account la) = ent_Currency e)"
    using out by simp_all
  have fst0: "map fst ?run0 = map fst locked" by (simp add: comp_def split_def)
  then have keys: "map fst running = map fst locked" using out by (simp only:)
  note cu' = collect_updates_Ok [OF cu]
  have "mset us = mset us'" unfolding us sortUpdates_def
    by (rule mset_insertion_sort [where k = upd_AccountID]) simp
  then have us_set: "set us = set us'" and us_ids: "mset (map upd_AccountID us) = mset (map upd_AccountID us')"
    by (metis mset_eq_setD, simp)
  have ids': "map upd_AccountID us' = map fst running"
    using cu' by (simp add: comp_def split_def)
  show "distinct (map upd_AccountID us)"
    using us_ids ids' keys assms(5) by (metis mset_eq_imp_distinct_iff)
  show "upd_AccountID ` set us = fst ` set locked"
    using us_set ids' keys by (metis image_set)
  show "\<forall>u\<in>set us. update_ok locked es u"
  proof
    fix u
    assume "u \<in> set us"
    then obtain i b where ib: "(i, b) \<in> set running" and u: "u = \<lparr>upd_AccountID = i, upd_Posted = bal_Posted b,
        upd_Pending = bal_Pending b, upd_Version = bal_Version b\<rparr>"
      using us_set cu' by auto
    have rb: "map_of running i = Some b" using ib keys assms(5) by simp
    obtain la where la: "map_of locked i = Some la" and av: "acc_AllowNegative (la_Account la) \<or> 0 \<le> Available b"
      using cu' ib by auto
    have "map_of ?run0 i = Some (la_Balance la)" using r0 [of i] la by simp
    note bal = apply_entries_balances [OF ae po lk rok la this cov]
    then have "running_ok running" by simp
    then have "in64 (bal_Posted b)" "in64 (bal_Pending b)" using rb unfolding running_ok_def by blast+
    with bal la av rb show "update_ok locked es u"
      unfolding update_ok_def u avail_def Available_def by auto
  qed
  show "\<forall>k<length es. \<forall>la. map_of locked (ent_AccountID (es ! k)) = Some la \<longrightarrow>
      ent_BalanceAfter (es ! k) = bal_Posted (la_Balance la) + net StatusPosted (la_Account la) (take (Suc k) es)"
    using apply_entries_chain [OF ae po lk rok _ _ _ cov] r0 by simp
qed

section \<open>The invariant of the books\<close>

definition account_ok :: "string \<Rightarrow> Account \<Rightarrow> bool" where
  "account_ok i a \<longleftrightarrow> acc_ID a = i \<and> Account_Validate a = Ok ()"

text \<open>I7 and I6: the materialized balance is the derived one, and it is not overdrawn.\<close>

definition balance_ok :: "Entry list \<Rightarrow> Account \<Rightarrow> Balance \<Rightarrow> bool" where
  "balance_ok log a b \<longleftrightarrow>
     bal_Posted b = net StatusPosted a log \<and> bal_Pending b = net StatusPending a log
     \<and> in64 (bal_Posted b) \<and> in64 (bal_Pending b)
     \<and> (acc_AllowNegative a \<or> 0 \<le> bal_Posted b \<and> 0 \<le> bal_Posted b + bal_Pending b)"

definition entry_ok :: "books \<Rightarrow> Entry \<Rightarrow> bool" where
  "entry_ok B e \<longleftrightarrow>
     (\<exists>a. bk_accounts B (ent_AccountID e) = Some a \<and> acc_Currency a = ent_Currency e)
     \<and> ent_TransactionID e \<in> dom (bk_txns B)
     \<and> (ent_Status e = StatusPending \<or> ent_Status e = StatusPosted)"

text \<open>I1 to I3 for the entries of a transaction, with the row they belong to.\<close>

definition txn_ok :: "books \<Rightarrow> string \<Rightarrow> Transaction \<Rightarrow> bool" where
  "txn_ok B i t \<longleftrightarrow>
     txn_ID t = i \<and> txn_Entries t = [] \<and> txn_MerchantID t \<noteq> [] \<and> group_ok (txn_Currency t) (entries_of i B)
     \<and> (IsPending t \<longrightarrow> (\<forall>e\<in>set (entries_of i B). ent_Status e = StatusPending))"

text \<open>Replaying the log reproduces every recorded running balance.\<close>

definition replay_ok :: "books \<Rightarrow> bool" where
  "replay_ok B \<longleftrightarrow> (\<forall>k<length (bk_log B). \<forall>a.
     bk_accounts B (ent_AccountID (bk_log B ! k)) = Some a \<longrightarrow>
       ent_BalanceAfter (bk_log B ! k) = net StatusPosted a (take (Suc k) (bk_log B)))"

definition books_ok :: "books \<Rightarrow> bool" where
  "books_ok B \<longleftrightarrow>
     (\<forall>i a. bk_accounts B i = Some a \<longrightarrow> account_ok i a)
     \<and> dom (bk_balances B) = dom (bk_accounts B)
     \<and> (\<forall>i a b. bk_accounts B i = Some a \<longrightarrow> bk_balances B i = Some b \<longrightarrow> balance_ok (bk_log B) a b)
     \<and> (\<forall>e\<in>set (bk_log B). entry_ok B e)
     \<and> (\<forall>i t. bk_txns B i = Some t \<longrightarrow> txn_ok B i t)
     \<and> (\<forall>c st. trial c st (bk_log B) = 0)
     \<and> replay_ok B"

lemma books_okD:
  assumes "books_ok B"
  shows "bk_accounts B i = Some a \<Longrightarrow> account_ok i a"
    and "dom (bk_balances B) = dom (bk_accounts B)"
    and "bk_accounts B i = Some a \<Longrightarrow> bk_balances B i = Some b \<Longrightarrow> balance_ok (bk_log B) a b"
    and "e \<in> set (bk_log B) \<Longrightarrow> entry_ok B e"
    and "bk_txns B i = Some t \<Longrightarrow> txn_ok B i t"
    and "trial c st (bk_log B) = 0"
    and "replay_ok B"
  using assms by (auto simp: books_ok_def)

definition empty_books :: books where
  "empty_books = \<lparr>bk_accounts = Map.empty, bk_balances = Map.empty, bk_txns = Map.empty, bk_log = []\<rparr>"

lemma books_ok_empty: "books_ok empty_books"
  by (simp add: books_ok_def empty_books_def replay_ok_def)

text \<open>
  What posting a specification does to the books: one new row, the entries of the
  specification appended to the log, and every balance moved by exactly its net.
\<close>

definition posts :: "TransactionSpec \<Rightarrow> Transaction \<Rightarrow> books \<Rightarrow> books \<Rightarrow> bool" where
  "posts spec t B B' \<longleftrightarrow>
     bk_accounts B' = bk_accounts B
     \<and> bk_txns B (txn_ID t) = None
     \<and> bk_txns B' = (bk_txns B)(txn_ID t \<mapsto> t\<lparr>txn_Entries := []\<rparr>)
     \<and> bk_log B' = bk_log B @ txn_Entries t
     \<and> map spec_entry (txn_Entries t) = ts_Entries spec
     \<and> (\<forall>e\<in>set (txn_Entries t). ent_TransactionID e = txn_ID t \<and> ent_Status e = statusFor (ts_Pending spec)
          \<and> (\<exists>a. bk_accounts B (ent_AccountID e) = Some a \<and> acc_Currency a = ent_Currency e))
     \<and> dom (bk_balances B') = dom (bk_balances B)
     \<and> (\<forall>i a b. bk_accounts B i = Some a \<longrightarrow> bk_balances B i = Some b \<longrightarrow>
          (\<exists>b'. bk_balances B' i = Some b'
            \<and> bal_Posted b' = bal_Posted b + net StatusPosted a (txn_Entries t)
            \<and> bal_Pending b' = bal_Pending b + net StatusPending a (txn_Entries t)
            \<and> in64 (bal_Posted b') \<and> in64 (bal_Pending b')
            \<and> (i \<in> ent_AccountID ` set (txn_Entries t) \<and> \<not> acc_AllowNegative a \<longrightarrow> 0 \<le> Available b')))
     \<and> (\<forall>k<length (txn_Entries t). \<forall>a b.
          bk_accounts B (ent_AccountID (txn_Entries t ! k)) = Some a \<longrightarrow>
          bk_balances B (ent_AccountID (txn_Entries t ! k)) = Some b \<longrightarrow>
          ent_BalanceAfter (txn_Entries t ! k) = bal_Posted b + net StatusPosted a (take (Suc k) (txn_Entries t)))"

lemma net_untouched: "acc_ID a \<notin> ent_AccountID ` set es \<Longrightarrow> net st a es = 0"
  by (induction es) auto

lemma net_other_status: "\<forall>e\<in>set es. ent_Status e = st' \<Longrightarrow> st \<noteq> st' \<Longrightarrow> net st a es = 0"
  by (induction es) auto

text \<open>
  The funds check is made on a 64-bit sum; it is exact, because the balance it starts from is
  not overdrawn and a posting moves it by at most the greatest \<open>int64\<close>.
\<close>

lemma available_exact:
  fixes P Q P' Q' :: int
  assumes "0 \<le> P" "0 \<le> P + Q" and "in64 P'" "in64 Q'" and "- MaxInt64 \<le> (P' + Q') - (P + Q)"
    and "P' = P \<or> Q' = Q" and "0 \<le> avail P' Q'"
  shows "0 \<le> P' \<and> 0 \<le> P' + Q'"
proof (cases "Q' < 0")
  case True
  then have "in64 (P' + Q')" using assms by (auto simp: in64_def)
  with True assms show ?thesis by (auto simp: avail_def)
next
  case False
  with assms show ?thesis by (auto simp: avail_def)
qed

lemma Available_avail: "Available b = avail (bal_Posted b) (bal_Pending b)"
  by (simp add: Available_def avail_def)

lemma account_ok_normal: "account_ok i a \<Longrightarrow> acc_NormalBalance a = Debit \<or> acc_NormalBalance a = Credit"
  by (auto simp: account_ok_def Account_Validate_Ok NormalBalance_def split: if_splits)

lemma posts_group:
  assumes "posts spec t B B'" and "spec_ok spec"
  shows "group_ok (Spec_Currency spec) (txn_Entries t)"
proof -
  have "map spec_entry (txn_Entries t) = ts_Entries spec" using assms(1) by (simp add: posts_def)
  then show ?thesis using assms(2) by (auto simp: group_ok_def spec_ok_def)
qed

lemma posts_balance_ok:
  assumes "posts spec t B B'" and "spec_ok spec" and ok: "books_ok B"
    and a: "bk_accounts B' i = Some a" and b': "bk_balances B' i = Some b'"
  shows "balance_ok (bk_log B') a b'"
proof -
  let ?es = "txn_Entries t"
  have a0: "bk_accounts B i = Some a" using a assms(1) by (simp add: posts_def)
  then obtain b where b: "bk_balances B i = Some b" using books_okD(2) [OF ok] by blast
  have log: "bk_log B' = bk_log B @ ?es" using assms(1) by (simp add: posts_def)
  have st: "\<forall>e\<in>set ?es. ent_Status e = statusFor (ts_Pending spec)" using assms(1) by (simp add: posts_def)
  have new: "bal_Posted b' = bal_Posted b + net StatusPosted a ?es"
    "bal_Pending b' = bal_Pending b + net StatusPending a ?es"
    "in64 (bal_Posted b')" "in64 (bal_Pending b')"
    "i \<in> ent_AccountID ` set ?es \<Longrightarrow> \<not> acc_AllowNegative a \<Longrightarrow> 0 \<le> Available b'"
    using assms(1) a0 b b' unfolding posts_def by fastforce+
  have old: "balance_ok (bk_log B) a b" using books_okD(3) [OF ok a0 b] .
  have aok: "account_ok i a" using books_okD(1) [OF ok a0] .
  have one: "net StatusPosted a ?es = 0 \<or> net StatusPending a ?es = 0"
    using net_other_status [OF st] by (cases "ts_Pending spec") simp_all
  have low: "- MaxInt64 \<le> net st a ?es" for st
    using group_net_lower [OF posts_group [OF assms(1,2)] account_ok_normal [OF aok]] .
  have "0 \<le> bal_Posted b' \<and> 0 \<le> bal_Posted b' + bal_Pending b'" if neg: "\<not> acc_AllowNegative a"
  proof (cases "i \<in> ent_AccountID ` set ?es")
    case True
    then have "0 \<le> avail (bal_Posted b') (bal_Pending b')" using new(5) neg Available_avail by simp
    then show ?thesis
      using old neg one low [of StatusPosted] low [of StatusPending] new(1-4)
      by (intro available_exact [of "bal_Posted b" "bal_Pending b"]) (auto simp: balance_ok_def)
  next
    case False
    then have "net st a ?es = 0" for st using aok by (simp add: net_untouched account_ok_def)
    then show ?thesis using old neg new(1,2) by (simp add: balance_ok_def)
  qed
  then show ?thesis using new(1-4) old by (auto simp: balance_ok_def log)
qed

lemma posts_entry_ok:
  assumes "posts spec t B B'" and "books_ok B" and "e \<in> set (bk_log B')"
  shows "entry_ok B' e"
proof (cases "e \<in> set (bk_log B)")
  case True
  then show ?thesis using books_okD(4) [OF assms(2) True] assms(1) by (auto simp: entry_ok_def posts_def)
next
  case False
  then have "e \<in> set (txn_Entries t)" using assms(1,3) by (auto simp: posts_def)
  then show ?thesis using assms(1) by (cases "ts_Pending spec") (auto simp: entry_ok_def posts_def)
qed

lemma posts_entries_of:
  assumes "posts spec t B B'" and "books_ok B"
  shows "entries_of (txn_ID t) B' = txn_Entries t" and "i \<noteq> txn_ID t \<Longrightarrow> entries_of i B' = entries_of i B"
proof -
  have log: "bk_log B' = bk_log B @ txn_Entries t" and new: "\<forall>e\<in>set (txn_Entries t). ent_TransactionID e = txn_ID t"
    and fresh: "txn_ID t \<notin> dom (bk_txns B)"
    using assms(1) by (auto simp: posts_def)
  have "\<forall>e\<in>set (bk_log B). ent_TransactionID e \<noteq> txn_ID t"
    using books_okD(4) [OF assms(2)] fresh unfolding entry_ok_def by metis
  then show "entries_of (txn_ID t) B' = txn_Entries t" "i \<noteq> txn_ID t \<Longrightarrow> entries_of i B' = entries_of i B"
    using new by (auto simp: entries_of_def log filter_empty_conv filter_id_conv)
qed

lemma posts_txn_ok:
  assumes "posts spec t B B'" and "spec_ok spec" and "books_ok B"
    and "txn_Currency t = Spec_Currency spec" and "txn_MerchantID t = ts_MerchantID spec"
    and "txn_Status t = statusFor (ts_Pending spec)"
    and "bk_txns B' i = Some row"
  shows "txn_ok B' i row"
proof (cases "i = txn_ID t")
  case True
  then show ?thesis
    using assms posts_group [OF assms(1,2)] posts_entries_of [OF assms(1,3)]
    by (cases "ts_Pending spec") (auto simp: txn_ok_def posts_def spec_ok_def IsPending_def)
next
  case False
  then have "bk_txns B i = Some row" using assms(1,7) by (auto simp: posts_def)
  then have "txn_ok B i row" by (rule books_okD(5) [OF assms(3)])
  with False show ?thesis using posts_entries_of(2) [OF assms(1,3)] by (simp add: txn_ok_def)
qed

lemma posts_trial:
  assumes "posts spec t B B'" and "spec_ok spec" and "books_ok B"
  shows "trial c st (bk_log B') = 0"
proof -
  have g: "group_ok (Spec_Currency spec) (txn_Entries t)" by (rule posts_group [OF assms(1,2)])
  then have "list_all (\<lambda>e. ent_Currency e = Spec_Currency spec \<and> ent_Status e = statusFor (ts_Pending spec)) (txn_Entries t)"
    using assms(1) by (auto simp: posts_def group_ok_def list_all_iff entry_spec_ok_def)
  from trial_uniform [OF this, of c st] have "trial c st (txn_Entries t) = 0"
    using g by (simp add: group_ok_def)
  then show ?thesis using books_okD(6) [OF assms(3)] assms(1) by (simp add: posts_def)
qed

lemma posts_replay:
  assumes "posts spec t B B'" and "books_ok B"
  shows "replay_ok B'"
  unfolding replay_ok_def
proof (intro allI impI)
  fix k a
  let ?n = "length (bk_log B)" and ?es = "txn_Entries t"
  have log: "bk_log B' = bk_log B @ ?es" and acc: "bk_accounts B' = bk_accounts B" using assms(1) by (auto simp: posts_def)
  assume k: "k < length (bk_log B')" and a: "bk_accounts B' (ent_AccountID (bk_log B' ! k)) = Some a"
  show "ent_BalanceAfter (bk_log B' ! k) = net StatusPosted a (take (Suc k) (bk_log B'))"
  proof (cases "k < ?n")
    case True
    then show ?thesis
      using books_okD(7) [OF assms(2)] a by (simp add: replay_ok_def log nth_append acc)
  next
    case False
    then have nth: "bk_log B' ! k = ?es ! (k - ?n)" and len: "k - ?n < length ?es"
      using k by (auto simp: log nth_append)
    let ?i = "ent_AccountID (?es ! (k - ?n))"
    have a0: "bk_accounts B ?i = Some a" using a by (simp add: nth acc)
    then obtain b where b: "bk_balances B ?i = Some b" using books_okD(2) [OF assms(2)] by blast
    have "ent_BalanceAfter (?es ! (k - ?n)) = bal_Posted b + net StatusPosted a (take (Suc (k - ?n)) ?es)"
      using assms(1) len a0 b by (simp add: posts_def)
    moreover have "bal_Posted b = net StatusPosted a (bk_log B)"
      using books_okD(3) [OF assms(2) a0 b] by (simp add: balance_ok_def)
    ultimately show ?thesis using False nth by (simp add: log Suc_diff_le)
  qed
qed

lemma posts_books_ok:
  assumes "posts spec t B B'" and "spec_ok spec" and "books_ok B"
    and "txn_Currency t = Spec_Currency spec" and "txn_MerchantID t = ts_MerchantID spec"
    and "txn_Status t = statusFor (ts_Pending spec)"
  shows "books_ok B'"
proof -
  have same: "bk_accounts B' = bk_accounts B" "dom (bk_balances B') = dom (bk_balances B)"
    using assms(1) by (auto simp: posts_def)
  show ?thesis
    unfolding books_ok_def
  proof (intro conjI allI impI ballI)
    show "account_ok i a" if "bk_accounts B' i = Some a" for i a
      using books_okD(1) [OF assms(3)] that same(1) by simp
    show "dom (bk_balances B') = dom (bk_accounts B')"
      using books_okD(2) [OF assms(3)] same by simp
    show "balance_ok (bk_log B') a b" if "bk_accounts B' i = Some a" "bk_balances B' i = Some b" for i a b
      using posts_balance_ok [OF assms(1-3) that] .
    show "entry_ok B' e" if "e \<in> set (bk_log B')" for e
      using posts_entry_ok [OF assms(1,3) that] .
    show "txn_ok B' i row" if "bk_txns B' i = Some row" for i row
      using posts_txn_ok [OF assms that] .
    show "trial c st (bk_log B') = 0" for c st by (rule posts_trial [OF assms(1-3)])
    show "replay_ok B'" by (rule posts_replay [OF assms(1,3)])
  qed
qed

text \<open>Opening an account and changing a row's status keep the invariant.\<close>

lemma books_ok_status:
  assumes "books_ok B" and "st \<noteq> StatusPending"
  shows "books_ok (books_status i st at B)"
proof -
  have "txn_ok (books_status i st at B) j row" if row: "bk_txns (books_status i st at B) j = Some row" for j row
  proof -
    obtain t where t: "bk_txns B j = Some t" and row: "row = t \<or> row = set_status st at t"
      using row by (auto simp: books_status_def split: if_splits)
    then have "txn_ok B j t" using books_okD(5) [OF assms(1)] by blast
    with row assms(2) show ?thesis
      by (auto simp: txn_ok_def books_status_def entries_of_def set_status_def IsPending_def split: option.splits)
  qed
  moreover have "dom (bk_txns (books_status i st at B)) = dom (bk_txns B)"
    by (auto simp: books_status_def)
  ultimately show ?thesis
    using assms by (auto simp: books_ok_def entry_ok_def replay_ok_def books_status_def)
qed

lemma books_ok_create:
  assumes "books_ok B" and "bk_accounts B (acc_ID a) = None" and "Account_Validate a = Ok ()"
  shows "books_ok (books_create at a B)"
proof -
  have unused: "acc_ID a \<notin> ent_AccountID ` set (bk_log B)"
    using books_okD(4) [OF assms(1)] assms(2) unfolding entry_ok_def by force
  have "balance_ok (bk_log B) a' b" if "bk_accounts (books_create at a B) i = Some a'" "bk_balances (books_create at a B) i = Some b" for i a' b
  proof (cases "i = acc_ID a")
    case True
    then show ?thesis using that net_untouched [OF unused] by (auto simp: books_create_def balance_ok_def)
  next
    case False
    then show ?thesis using that books_okD(3) [OF assms(1), of i a' b] by (simp add: books_create_def)
  qed
  moreover have "entry_ok (books_create at a B) e" if "e \<in> set (bk_log B)" for e
    using books_okD(4) [OF assms(1) that] assms(2) by (auto simp: entry_ok_def books_create_def)
  moreover have "replay_ok (books_create at a B)"
  proof -
    have "ent_AccountID (bk_log B ! k) \<noteq> acc_ID a" if "k < length (bk_log B)" for k
      using unused nth_mem [OF that] by (metis imageI)
    then show ?thesis using books_okD(7) [OF assms(1)] by (simp add: replay_ok_def books_create_def)
  qed
  ultimately show ?thesis
    using assms by (auto simp: books_ok_def account_ok_def txn_ok_def entries_of_def books_create_def)
qed

section \<open>The service over a repository\<close>

lemma seq_ret_eq: "seq (ret r) f s = (case r of Ok x \<Rightarrow> f x s | Err e \<Rightarrow> (Err e, s) | Panic \<Rightarrow> (Panic, s))"
  by (cases r) (simp_all add: seq_def)

lemma fold_balances:
  assumes "distinct (map upd_AccountID us)"
  shows "fold (\<lambda>u m. case m (upd_AccountID u) of
      None \<Rightarrow> m | Some b \<Rightarrow> m(upd_AccountID u \<mapsto> set_balance now u b)) us m i =
    (case List.find (\<lambda>u. upd_AccountID u = i) us of
       None \<Rightarrow> m i | Some u \<Rightarrow> map_option (set_balance now u) (m i))"
  using assms
proof (induction us arbitrary: m)
  case (Cons u us)
  have "List.find (\<lambda>u'. upd_AccountID u' = i) us = None" if "upd_AccountID u = i"
    using Cons.prems that by (auto simp: find_None_iff) (metis imageI)
  with Cons show ?case by (auto split: option.splits)
qed simp

text \<open>Entries that agree except for the identifiers the store assigned.\<close>

lemma same_but_ID:
  assumes "map (\<lambda>e. e\<lparr>ent_ID := 0\<rparr>) out = map (\<lambda>e. e\<lparr>ent_ID := 0\<rparr>) es"
    and "\<And>e. f (e\<lparr>ent_ID := 0\<rparr>) = f e"
  shows "map f out = map f es"
proof -
  have "map f (map (\<lambda>e. e\<lparr>ent_ID := 0\<rparr>) out) = map f (map (\<lambda>e. e\<lparr>ent_ID := 0\<rparr>) es)" using assms(1) by simp
  then show ?thesis using assms(2) by (simp add: comp_def)
qed

lemma same_but_ID_net:
  assumes "map (\<lambda>e. e\<lparr>ent_ID := 0\<rparr>) out = map (\<lambda>e. e\<lparr>ent_ID := 0\<rparr>) es"
  shows "net st a out = net st a es" and "net st a (take n out) = net st a (take n es)"
proof -
  let ?f = "\<lambda>e. if ent_AccountID e = acc_ID a \<and> ent_Status e = st then delta a (ent_Direction e) (ent_Amount e) else 0"
  have "map ?f out = map ?f es" by (rule same_but_ID [OF assms]) simp
  then show "net st a out = net st a es" "net st a (take n out) = net st a (take n es)"
    unfolding net_def take_map [symmetric] by simp_all
qed

lemma posts_of_apply:
  assumes ap: "apply_spec spec locked (txn_ID txn) at = Ok (es, us)" and sp: "spec_ok spec" "typed_spec spec"
    and lok: "locked_ok locked" and dist: "distinct (map fst locked)" and keys: "fst ` set locked = set (AccountIDs spec)"
    and lk: "\<And>i la. map_of locked i = Some la \<Longrightarrow>
      bk_accounts B i = Some (la_Account la) \<and> bk_balances B i = Some (la_Balance la)"
    and ok: "books_ok B" and fresh: "bk_txns B (txn_ID txn) = None"
    and same: "map (\<lambda>e. e\<lparr>ent_ID := 0\<rparr>) out = map (\<lambda>e. e\<lparr>ent_ID := 0\<rparr>) es"
  shows "posts spec (txn\<lparr>txn_Entries := out\<rparr>) B (books_balances now us (books_append out (books_insert txn B)))"
    (is "posts spec ?t B ?B'")
proof -
  note ap' = apply_spec_Ok [OF ap sp lok dist]
  note nets = same_but_ID_net [OF same]
  have specs: "map spec_entry out = ts_Entries spec"
    using same_but_ID [OF same, of spec_entry] ap'(1) by (simp add: spec_entry_def)
  let ?f = "\<lambda>e. (ent_TransactionID e, ent_Status e, ent_AccountID e, ent_Currency e)"
  have "map ?f out = map ?f es" by (rule same_but_ID [OF same]) simp
  then have "?f ` set out = ?f ` set es" by (simp only: set_map [symmetric])
  then have fields: "\<exists>e'\<in>set es. ent_TransactionID e = ent_TransactionID e' \<and> ent_Status e = ent_Status e'
      \<and> ent_AccountID e = ent_AccountID e' \<and> ent_Currency e = ent_Currency e'" if "e \<in> set out" for e
    using imageI [OF that, of ?f] by auto
  have entries: "ent_TransactionID e = txn_ID txn \<and> ent_Status e = statusFor (ts_Pending spec)
      \<and> (\<exists>a. bk_accounts B (ent_AccountID e) = Some a \<and> acc_Currency a = ent_Currency e)" if "e \<in> set out" for e
    using fields [OF that] ap'(2) lk by metis
  have touched: "ent_AccountID ` set out = fst ` set locked"
  proof -
    have "ent_AccountID ` set out = es_AccountID ` set (map spec_entry out)" by (simp add: image_image)
    also have "\<dots> = set (AccountIDs spec)" using AccountIDs_strict [of spec] by (simp add: specs)
    finally show ?thesis by (simp add: keys)
  qed
  have bal: "bk_balances ?B' i = (case List.find (\<lambda>u. upd_AccountID u = i) us of
      None \<Rightarrow> bk_balances B i | Some u \<Rightarrow> map_option (set_balance now u) (bk_balances B i))" for i
    by (simp add: books_balances_def books_append_def books_insert_def fold_balances [OF ap'(3)])
  have moved: "\<exists>b'. bk_balances ?B' i = Some b'
      \<and> bal_Posted b' = bal_Posted b + net StatusPosted a out \<and> bal_Pending b' = bal_Pending b + net StatusPending a out
      \<and> in64 (bal_Posted b') \<and> in64 (bal_Pending b')
      \<and> (i \<in> ent_AccountID ` set out \<and> \<not> acc_AllowNegative a \<longrightarrow> 0 \<le> Available b')"
    if ab: "bk_accounts B i = Some a" "bk_balances B i = Some b" for i a b
  proof (cases "List.find (\<lambda>u. upd_AccountID u = i) us")
    case None
    then have "i \<notin> upd_AccountID ` set us" by (auto simp: find_None_iff)
    then have "i \<notin> ent_AccountID ` set out" using ap'(4) touched by simp
    moreover have "acc_ID a = i" "in64 (bal_Posted b)" "in64 (bal_Pending b)"
      using books_okD(1) [OF ok ab(1)] books_okD(3) [OF ok ab] unfolding account_ok_def balance_ok_def by blast+
    ultimately show ?thesis using bal [of i] None ab by (simp add: net_untouched)
  next
    case (Some u)
    then have "u \<in> set us" "upd_AccountID u = i" by (auto simp: find_Some_iff)
    then obtain la where "map_of locked i = Some la"
      "upd_Posted u = bal_Posted (la_Balance la) + net StatusPosted (la_Account la) es"
      "upd_Pending u = bal_Pending (la_Balance la) + net StatusPending (la_Account la) es"
      "in64 (upd_Posted u)" "in64 (upd_Pending u)"
      "acc_AllowNegative (la_Account la) \<or> 0 \<le> avail (upd_Posted u) (upd_Pending u)"
      using ap'(5) by (auto simp: update_ok_def)
    moreover from this lk ab have "la_Account la = a" "la_Balance la = b" by force+
    ultimately show ?thesis
      using bal [of i] Some ab by (auto simp: set_balance_def Available_avail nets)
  qed
  have "map ent_AccountID out = map ent_AccountID es" "map ent_BalanceAfter out = map ent_BalanceAfter es"
    by (rule same_but_ID [OF same], simp)+
  then have at: "ent_AccountID (out ! k) = ent_AccountID (es ! k)" "ent_BalanceAfter (out ! k) = ent_BalanceAfter (es ! k)"
    "k < length es" if "k < length out" for k
    using that by (metis length_map nth_map)+
  have chain: "ent_BalanceAfter (out ! k) = bal_Posted b + net StatusPosted a (take (Suc k) out)"
    if "k < length out" "bk_accounts B (ent_AccountID (out ! k)) = Some a" "bk_balances B (ent_AccountID (out ! k)) = Some b" for k a b
  proof -
    have "ent_AccountID (out ! k) \<in> fst ` set locked" using touched that(1) nth_mem by blast
    then obtain la where la: "map_of locked (ent_AccountID (out ! k)) = Some la"
      by (metis domD dom_map_of_conv_image_fst)
    then have "la_Account la = a" "la_Balance la = b" using lk [OF la] that by simp_all
    with la ap'(6) at [OF that(1)] show ?thesis by (auto simp: nets)
  qed
  have "dom (bk_balances ?B') = dom (bk_balances B)"
    using bal by (auto simp: dom_def split: option.splits)
  then show ?thesis
    unfolding posts_def using fresh specs entries moved chain
    by (auto simp: books_balances_def books_append_def books_insert_def simp del: fold_simps)
qed

lemma transaction_row_books_ok:
  assumes "posts spec t B B'" and "spec_ok spec" and "books_ok B"
    and "t = (transaction_row spec rev_id i now)\<lparr>txn_Entries := txn_Entries t\<rparr>"
  shows "books_ok B'"
proof (rule posts_books_ok [OF assms(1-3)])
  show "txn_Currency t = Spec_Currency spec" "txn_MerchantID t = ts_MerchantID spec"
    "txn_Status t = statusFor (ts_Pending spec)"
    by (subst assms(4), simp add: transaction_row_def statusFor_def)+
qed

lemma spec_currencies:
  assumes "map spec_entry es = ts_Entries spec" and "spec_ok spec"
  shows "\<forall>e\<in>set es. Currency_Valid (ent_Currency e)"
proof
  fix e
  assume "e \<in> set es"
  then have "spec_entry e \<in> set (ts_Entries spec)" unfolding assms(1) [symmetric] by simp
  then show "Currency_Valid (ent_Currency e)" using assms(2) by (auto simp: spec_ok_def list_all_iff entry_spec_ok_def)
qed

context repository
begin

lemma locked_ok_books:
  assumes "wf s" and "books_ok (books s)" and "repo_LockAccounts R a ids s = (Ok locked, s')" and "distinct ids"
  shows "s' = s" and "locked_ok locked" and "distinct (map fst locked)" and "fst ` set locked = set ids"
    and "map_of locked i = Some la \<Longrightarrow>
      bk_accounts (books s) i = Some (la_Account la) \<and> bk_balances (books s) i = Some (la_Balance la)"
proof -
  note l = lock_Ok [OF assms(1,3,4)]
  then show "s' = s" "distinct (map fst locked)" "fst ` set locked = set ids" by simp_all
  show *: "bk_accounts (books s) i = Some (la_Account la) \<and> bk_balances (books s) i = Some (la_Balance la)"
    if "map_of locked i = Some la" for i la
    using l that by (auto dest: map_of_SomeD)
  show "locked_ok locked"
    unfolding locked_ok_def
    using * books_okD(1,3) [OF assms(2)] by (fastforce simp: account_ok_def balance_ok_def)
qed

text \<open>The writing half of a posting, from the locked accounts to the new books.\<close>

lemma record_transaction_posts:
  assumes "record_transaction R E spec locked txn w = (Ok t, w')"
    and "wf (w_db w)" and ok: "books_ok (books (w_db w))" and "spec_ok spec" and "typed_spec spec"
    and lok: "locked_ok locked" and dist: "distinct (map fst locked)" and "fst ` set locked = set (AccountIDs spec)"
    and cur: "Currency_Valid (txn_Currency txn)"
    and lk: "\<And>i la. map_of locked i = Some la \<Longrightarrow>
      bk_accounts (books (w_db w)) i = Some (la_Account la) \<and> bk_balances (books (w_db w)) i = Some (la_Balance la)"
  shows "wf (w_db w') \<and> posts spec t (books (w_db w)) (books (w_db w')) \<and> t = txn\<lparr>txn_Entries := txn_Entries t\<rparr>"
proof -
  let ?B = "books (w_db w)"
  obtain es us where ap: "apply_spec spec locked (txn_ID txn) (txn_CreatedAt txn) = Ok (es, us)"
    using assms(1) by (cases "apply_spec spec locked (txn_ID txn) (txn_CreatedAt txn)")
      (auto simp: record_transaction_def seq_ret_eq)
  obtain s1 s2 s3 out k where
    i: "repo_InsertTransaction R (ambient_at E (w_tick w)) txn (w_db w) = (Ok (), s1)" and
    e: "repo_AppendEntries R (ambient_at E (Suc (w_tick w))) es s1 = (Ok out, s2)" and
    b: "repo_ApplyBalances R (ambient_at E k) us s2 = (Ok (), s3)" and
    t: "t = txn\<lparr>txn_Entries := out\<rparr>" and w': "w_db w' = s3"
    using assms(1) by (auto simp: record_transaction_def seq_ret_eq ap seq_eq_Ok call_eq_Ok)
  have s1: "wf s1" "bk_txns ?B (txn_ID txn) = None" "books s1 = books_insert txn ?B"
    using insert_Ok [OF assms(2) i cur] by simp_all
  have "map spec_entry es = ts_Entries spec" using apply_spec_Ok(1) [OF ap assms(4,5) lok dist] .
  then have "\<forall>e\<in>set es. Currency_Valid (ent_Currency e)" by (rule spec_currencies [OF _ assms(4)])
  then have valid: "\<forall>e\<in>set es. Currency_Valid (ent_Currency e) \<and> ent_TransactionID e = txn_ID txn"
    using apply_spec_Ok(2) [OF ap assms(4,5) lok dist] by blast
  have s2: "wf s2" "books s2 = books_append out (books s1)"
    and same: "map (\<lambda>e. e\<lparr>ent_ID := 0\<rparr>) out = map (\<lambda>e. e\<lparr>ent_ID := 0\<rparr>) es"
    using append_Ok [OF s1(1) e valid] by simp_all
  have s3: "wf s3" "books s3 = books_balances (wall_now (ambient_at E k)) us (books s2)"
    using apply_Ok [OF s2(1) b] by simp_all
  have "posts spec (txn\<lparr>txn_Entries := out\<rparr>) ?B (books s3)"
    using posts_of_apply [OF ap assms(4-8) lk ok s1(2) same] s1(3) s2(2) s3(2) by simp
  then show ?thesis using s3(1) t w' by simp
qed

text \<open>The two callers of \<open>record_transaction\<close> share everything after validation.\<close>

lemma locked_posting:
  assumes run: "seq (call E (\<lambda>c. repo_LockAccounts R c (AccountIDs spec))) (\<lambda>locked.
      seq (new_id E PrefixTransaction) (\<lambda>i. seq (clock_now E) (\<lambda>now.
      record_transaction R E spec locked (transaction_row spec rev_id i now)))) w = (Ok t, w')"
    and w: "wf (w_db w)" "books_ok (books (w_db w))" and sp: "spec_ok spec" "typed_spec spec"
  shows "wf (w_db w') \<and> posts spec t (books (w_db w)) (books (w_db w'))
    \<and> (\<exists>i now. t = (transaction_row spec rev_id i now)\<lparr>txn_Entries := txn_Entries t\<rparr>)"
proof -
  have dist: "distinct (AccountIDs spec)" using AccountIDs_strict by (simp add: strict_sorted_iff)
  obtain locked w0 i w1 where lk: "call E (\<lambda>c. repo_LockAccounts R c (AccountIDs spec)) w = (Ok locked, w0)"
    and i: "new_id E PrefixTransaction w0 = (Ok i, w1)"
    and rt: "record_transaction R E spec locked (transaction_row spec rev_id i (env_now E (w_tick w1)))
      (w1\<lparr>w_tick := Suc (w_tick w1)\<rparr>) = (Ok t, w')"
    using run by (auto simp: seq_eq_Ok)
  obtain db where db: "repo_LockAccounts R (ambient_at E (w_tick w)) (AccountIDs spec) (w_db w) = (Ok locked, db)"
    and w0: "w_db w0 = db"
    using lk by (auto simp: call_eq_Ok)
  note l = locked_ok_books [OF w db dist]
  have cur: "Currency_Valid (txn_Currency (transaction_row spec rev_id i (env_now E (w_tick w1))))"
    using sp(1) by (simp add: transaction_row_def spec_ok_def)
  have same: "w_db w1 = w_db w" using new_id_db [OF i] l(1) w0 by simp
  show ?thesis
    using record_transaction_posts [OF rt _ _ sp l(2-4) cur] l(5) same w by auto
qed

text \<open>\<open>Post\<close> implements the abstract posting: a new row, the entries, the moved balances.\<close>

lemma Post_posts:
  assumes "Post R E spec w = (Ok t, w')" and "wf (w_db w)" and "books_ok (books (w_db w))" and "typed_spec spec"
  shows "wf (w_db w') \<and> spec_ok spec \<and> posts spec t (books (w_db w)) (books (w_db w'))
    \<and> (\<exists>i now. t = (transaction_row spec [] i now)\<lparr>txn_Entries := txn_Entries t\<rparr>)"
proof -
  have v: "Spec_Validate spec = Ok ()"
    using assms(1) by (cases "Spec_Validate spec") (auto simp: Post_def seq_ret_eq)
  then have sp: "spec_ok spec" using Spec_Validate_spec_ok assms(4) by (simp add: typed_spec_def)
  show ?thesis
    using locked_posting [OF _ assms(2,3) sp assms(4)] assms(1) sp unfolding Post_def v seq_ret by blast
qed

lemma Post_books_ok:
  assumes "Post R E spec w = (Ok t, w')" and "wf (w_db w)" and "books_ok (books (w_db w))" and "typed_spec spec"
  shows "wf (w_db w')" and "books_ok (books (w_db w'))"
  using Post_posts [OF assms] transaction_row_books_ok [OF _ _ assms(3)] by blast+

end

section \<open>Mirrored and scaled entries\<close>

lemma Entry_Money_ok: "Currency_Valid (ent_Currency e) \<Longrightarrow> Entry_Money e = Ok (es_Amount (spec_entry e))"
  by (simp add: Entry_Money_def MustNew_def Money_New_def spec_entry_def)

definition mirrored :: "Entry \<Rightarrow> EntrySpec" where
  "mirrored e = (spec_entry e)\<lparr>es_Direction := Opposite (ent_Direction e)\<rparr>"

lemma group_entry:
  assumes "group_ok c es" and "e \<in> set es"
  shows "entry_spec_ok c (spec_entry e)" and "ent_Currency e = c" and "Currency_Valid (ent_Currency e)"
    and "0 < ent_Amount e" and "in64 (ent_Amount e)" and "Direction_Valid (ent_Direction e)"
proof -
  show sp: "entry_spec_ok c (spec_entry e)" using assms by (auto simp: group_ok_def list_all_iff)
  then show "ent_Currency e = c" "Currency_Valid (ent_Currency e)" "0 < ent_Amount e" "Direction_Valid (ent_Direction e)"
    using assms(1) by (auto simp: entry_spec_ok_def group_ok_def)
  have "ent_Amount e \<le> debit_sum (map spec_entry es) + credit_sum (map spec_entry es)
      \<and> (ent_Direction e = Debit \<longrightarrow> ent_Amount e \<le> debit_sum (map spec_entry es))
      \<and> (ent_Direction e \<noteq> Debit \<longrightarrow> ent_Amount e \<le> credit_sum (map spec_entry es))"
    if "list_all (entry_spec_ok c) (map spec_entry es)" "e \<in> set es" for es
    using that
  proof (induction es)
    case (Cons x es)
    have "0 \<le> debit_sum (map spec_entry es)" "0 \<le> credit_sum (map spec_entry es)"
      using side_sums_nonneg Cons.prems by auto
    moreover have "0 < ent_Amount x" using Cons.prems by (auto simp: entry_spec_ok_def)
    ultimately show ?case using Cons by (cases "e = x") auto
  qed simp
  from this [of es] assms have "ent_Amount e \<le> debit_sum (map spec_entry es)" by (auto simp: group_ok_def)
  then show "in64 (ent_Amount e)" using assms(1) \<open>0 < ent_Amount e\<close> by (auto simp: group_ok_def in64_def)
qed

lemma mirror_entries_ok:
  assumes "group_ok c es"
  shows "mirror_entries es = Ok (map mirrored es)"
  unfolding mirror_entries_def
  by (rule map_outcome_list_total)
    (simp add: Entry_Money_ok group_entry(3) [OF assms] mirrored_def spec_entry_def)

lemma mirrored_sums:
  assumes "\<forall>e\<in>set es. Direction_Valid (ent_Direction e)"
  shows "debit_sum (map mirrored es) = credit_sum (map spec_entry es)"
    and "credit_sum (map mirrored es) = debit_sum (map spec_entry es)"
  using assms by (induction es) (auto simp: mirrored_def spec_entry_def Direction_Valid_def Opposite_def)

definition mirror_spec_of :: "TransactionSpec \<Rightarrow> Transaction \<Rightarrow> bool" where
  "mirror_spec_of spec t \<longleftrightarrow> ts_Entries spec = map mirrored (txn_Entries t) \<and> ts_MerchantID spec = txn_MerchantID t"

lemma typed_mirror:
  assumes "group_ok c (txn_Entries t)" and "mirror_spec_of spec t"
  shows "typed_spec spec"
  using assms group_entry(5) [OF assms(1)]
  by (auto simp: typed_spec_def mirror_spec_of_def list_all_iff mirrored_def)

lemma Total_debits:
  assumes "group_ok c (txn_Entries t)"
  shows "Total t = debit_sum (map spec_entry (txn_Entries t))"
proof -
  have "foldl (\<lambda>s e. if ent_Direction e = Debit then wrap64 (s + ent_Amount e) else s) x es = x + debit_sum (map spec_entry es)"
    if "list_all (entry_spec_ok c) (map spec_entry es)" "0 \<le> x" "in64 (x + debit_sum (map spec_entry es))" for es x
    using that
  proof (induction es arbitrary: x)
    case (Cons e es)
    have "0 \<le> debit_sum (map spec_entry es)" "0 < ent_Amount e"
      using Cons.prems side_sums_nonneg [of c "map spec_entry es"] by (auto simp: entry_spec_ok_def [of c "spec_entry e"])
    then have "ent_Direction e = Debit \<Longrightarrow> wrap64 (x + ent_Amount e) = x + ent_Amount e"
      using Cons.prems by (intro wrap64_id) (auto simp: in64_def)
    then show ?case using Cons \<open>0 < ent_Amount e\<close> by (auto simp: add.assoc)
  qed simp
  moreover have "list_all (entry_spec_ok c) (map spec_entry (txn_Entries t))"
    "in64 (debit_sum (map spec_entry (txn_Entries t)))"
    using assms unfolding group_ok_def by blast+
  ultimately show ?thesis unfolding Total_def by simp
qed

text \<open>Writing the allocated parts of one side into their positions.\<close>

lemma fill_side_nth:
  assumes "distinct idxs" and "length parts = length idxs" and "\<forall>i\<in>set idxs. i < length out"
  shows "length (fill_side d es idxs parts out) = length out"
    and "i \<notin> set idxs \<Longrightarrow> fill_side d es idxs parts out ! i = out ! i"
    and "k < length idxs \<Longrightarrow> fill_side d es idxs parts out ! (idxs ! k) =
      \<lparr>es_AccountID = ent_AccountID (es ! (idxs ! k)), es_Direction = d, es_Amount = parts ! k\<rparr>"
proof -
  have step: "fill_side d es (j # js) (p # ps) out =
      fill_side d es js ps (out[j := \<lparr>es_AccountID = ent_AccountID (es ! j), es_Direction = d, es_Amount = p\<rparr>])" for j js p ps out
    by (simp add: fill_side_def)
  have *: "length (fill_side d es idxs parts out) = length out
      \<and> (\<forall>i. i \<notin> set idxs \<longrightarrow> fill_side d es idxs parts out ! i = out ! i)
      \<and> (\<forall>k<length idxs. fill_side d es idxs parts out ! (idxs ! k) =
        \<lparr>es_AccountID = ent_AccountID (es ! (idxs ! k)), es_Direction = d, es_Amount = parts ! k\<rparr>)"
    using assms
  proof (induction idxs arbitrary: parts out)
    case Nil
    then show ?case by (simp add: fill_side_def)
  next
    case (Cons j js)
    obtain p ps where ps: "parts = p # ps" "length ps = length js" using Cons.prems(2) by (cases parts) auto
    let ?out = "out[j := \<lparr>es_AccountID = ent_AccountID (es ! j), es_Direction = d, es_Amount = p\<rparr>]"
    have IH: "length (fill_side d es js ps ?out) = length ?out"
      "\<forall>i. i \<notin> set js \<longrightarrow> fill_side d es js ps ?out ! i = ?out ! i"
      "\<forall>k<length js. fill_side d es js ps ?out ! (js ! k) =
        \<lparr>es_AccountID = ent_AccountID (es ! (js ! k)), es_Direction = d, es_Amount = ps ! k\<rparr>"
      using Cons.IH [of ps ?out] Cons.prems ps(2) by auto
    show ?case
      unfolding ps(1) step
      using IH Cons.prems by (auto simp: nth_Cons nth_list_update split: nat.splits)
  qed
  show "length (fill_side d es idxs parts out) = length out" using * by blast
  show "i \<notin> set idxs \<Longrightarrow> fill_side d es idxs parts out ! i = out ! i" using * by blast
  show "k < length idxs \<Longrightarrow> fill_side d es idxs parts out ! (idxs ! k) =
      \<lparr>es_AccountID = ent_AccountID (es ! (idxs ! k)), es_Direction = d, es_Amount = parts ! k\<rparr>" using * by blast
qed

lemma Allocate_positive:
  assumes "0 < n" "in64 n" and "\<forall>r\<in>set ratios. 0 < r \<and> in64 r" and "0 < sum_list ratios" "in64 (sum_list ratios)"
  shows "\<exists>parts. Money_Allocate \<lparr>amount = n, currency = c\<rparr> ratios = Ok parts \<and> length parts = length ratios
    \<and> (\<forall>p\<in>set parts. currency p = c \<and> 0 \<le> amount p) \<and> sum_list (map amount parts) = n"
proof -
  have nn: "\<forall>r\<in>set ratios. 0 \<le> r" using assms(3) by auto
  have "ValidateRatios ratios = Ok (sum_list ratios)"
    using ValidateRatios_Ok [of ratios "sum_list ratios"] assms nn by blast
  then obtain B where B: "allocation_bonus n ratios B"
    and run: "Money_Allocate \<lparr>amount = n, currency = c\<rparr> ratios =
      Ok (map (\<lambda>p. \<lparr>amount = p, currency = c\<rparr>) (allocation n ratios B))"
    using Money_Allocate_spec [of "\<lparr>amount = n, currency = c\<rparr>" ratios] assms by auto
  have "\<forall>p\<in>set (allocation n ratios B). 0 \<le> p"
    using assms(1) share_bounds(1) [OF nn assms(4)] by (auto simp: allocation_def)
  moreover have "length (allocation n ratios B) = length ratios" by (simp add: allocation_def)
  moreover have "sum_list (map amount (map (\<lambda>p. \<lparr>amount = p, currency = c\<rparr>) xs)) = sum_list xs" for xs
    by (induction xs) simp_all
  ultimately show ?thesis unfolding run using sum_allocation [OF assms(4) B] by auto
qed

lemma side_indices_props:
  "distinct (side_indices b es)" "set (side_indices b es) = {i. i < length es \<and> (ent_Direction (es ! i) = Debit) = b}"
  by (auto simp: side_indices_def)

lemma sum_nth_filter:
  "sum_list (map f (filter P [0..<length xs])) = sum_list (map (\<lambda>i. if P i then f i else (0::int)) [0..<length xs])"
  by (rule sum_list_map_filter')

lemma sum_list_upt: "sum_list (map g xs) = sum_list (map (\<lambda>i. g (xs ! i)) [0..<length xs])"
  by (rule arg_cong [where f = sum_list], rule nth_equalityI) simp_all

lemma side_ratio_sums:
  shows "sum_list (map (\<lambda>i. ent_Amount (es ! i)) (side_indices True es)) = debit_sum (map spec_entry es)"
    and "sum_list (map (\<lambda>i. ent_Amount (es ! i)) (side_indices False es)) = credit_sum (map spec_entry es)"
proof -
  have "debit_sum (map spec_entry es) = sum_list (map (\<lambda>e. if ent_Direction e = Debit then ent_Amount e else 0) es)"
    "credit_sum (map spec_entry es) = sum_list (map (\<lambda>e. if ent_Direction e \<noteq> Debit then ent_Amount e else 0) es)"
    by (induction es) simp_all
  then show "sum_list (map (\<lambda>i. ent_Amount (es ! i)) (side_indices True es)) = debit_sum (map spec_entry es)"
    "sum_list (map (\<lambda>i. ent_Amount (es ! i)) (side_indices False es)) = credit_sum (map spec_entry es)"
    unfolding side_indices_def sum_nth_filter by (simp_all add: sum_list_upt [of _ es] cong: if_cong)
qed

text \<open>The sums of a list of postings whose sides sit at given positions.\<close>

lemma sum_at_positions:
  assumes "\<And>k. k < length idxs \<Longrightarrow> g (out ! (idxs ! k)) = (h (parts ! k) :: int)" and "length parts = length idxs"
  shows "sum_list (map (\<lambda>i. g (out ! i)) idxs) = sum_list (map h parts)"
proof -
  have "map (\<lambda>i. g (out ! i)) idxs = map h parts"
    using assms by (intro nth_equalityI) simp_all
  then show ?thesis by simp
qed

lemma drop_zero_sums:
  "debit_sum (filter (\<lambda>e. amount (es_Amount e) \<noteq> 0) es) = debit_sum es"
  "credit_sum (filter (\<lambda>e. amount (es_Amount e) \<noteq> 0) es) = credit_sum es"
  by (induction es) auto

lemma positions_sums:
  assumes "length out = length es" and "\<And>i. i < length es \<Longrightarrow> (es_Direction (out ! i) = Debit) = (ent_Direction (es ! i) = Debit)"
  shows "debit_sum out = sum_list (map (\<lambda>i. amount (es_Amount (out ! i))) (side_indices True es))"
    and "credit_sum out = sum_list (map (\<lambda>i. amount (es_Amount (out ! i))) (side_indices False es))"
proof -
  have nth: "sum_list (map g out) = sum_list (map (\<lambda>i. g (out ! i)) [0..<length es])" for g :: "EntrySpec \<Rightarrow> int"
    using sum_list_upt [of g out] assms(1) by simp
  show "debit_sum out = sum_list (map (\<lambda>i. amount (es_Amount (out ! i))) (side_indices True es))"
    unfolding side_indices_def debit_sum_def sum_nth_filter nth
    by (rule arg_cong [where f = sum_list]) (use assms(2) in auto)
  show "credit_sum out = sum_list (map (\<lambda>i. amount (es_Amount (out ! i))) (side_indices False es))"
    unfolding side_indices_def credit_sum_def sum_nth_filter nth
    by (rule arg_cong [where f = sum_list]) (use assms(2) in auto)
qed

text \<open>Both sides written: every position holds a posting on the account and side of the original.\<close>

lemma fill_both:
  fixes es :: "Entry list"
  defines "dI \<equiv> side_indices True es" and "cI \<equiv> side_indices False es"
  assumes dP: "length dP = length dI" and cP: "length cP = length cI"
  defines "out \<equiv> fill_side Credit es cI cP (fill_side Debit es dI dP (replicate (length es) zero_entry_spec))"
  shows "length out = length es"
    and "k < length cI \<Longrightarrow> out ! (cI ! k) =
      \<lparr>es_AccountID = ent_AccountID (es ! (cI ! k)), es_Direction = Credit, es_Amount = cP ! k\<rparr>"
    and "k < length dI \<Longrightarrow> out ! (dI ! k) =
      \<lparr>es_AccountID = ent_AccountID (es ! (dI ! k)), es_Direction = Debit, es_Amount = dP ! k\<rparr>"
proof -
  let ?mid = "fill_side Debit es dI dP (replicate (length es) zero_entry_spec)"
  have di: "distinct dI" "distinct cI" and idx: "\<forall>i\<in>set dI. i < length es" "\<forall>i\<in>set cI. i < length es"
    by (simp_all add: dI_def cI_def side_indices_props)
  note m = fill_side_nth [OF di(1) dP, where out = "replicate (length es) zero_entry_spec" and d = Debit and es = es]
  have mid: "length ?mid = length es" using m(1) idx by simp
  note o = fill_side_nth [OF di(2) cP, where out = ?mid and d = Credit and es = es, folded out_def]
  show "length out = length es" using o(1) idx mid by simp
  show "k < length cI \<Longrightarrow> out ! (cI ! k) =
      \<lparr>es_AccountID = ent_AccountID (es ! (cI ! k)), es_Direction = Credit, es_Amount = cP ! k\<rparr>"
    using o(3) idx mid by simp
  assume k: "k < length dI"
  have "dI ! k \<notin> set cI" using nth_mem [OF k] by (simp add: dI_def cI_def side_indices_props)
  then have "out ! (dI ! k) = ?mid ! (dI ! k)" using o(2) idx mid by simp
  then show "out ! (dI ! k) = \<lparr>es_AccountID = ent_AccountID (es ! (dI ! k)), es_Direction = Debit, es_Amount = dP ! k\<rparr>"
    using m(3) [OF _ k] idx by simp
qed

lemma fill_both_at:
  fixes es :: "Entry list"
  defines "dI \<equiv> side_indices True es" and "cI \<equiv> side_indices False es"
  assumes dP: "length dP = length dI" "\<forall>p\<in>set dP. currency p = c \<and> 0 \<le> amount p"
    and cP: "length cP = length cI" "\<forall>p\<in>set cP. currency p = c \<and> 0 \<le> amount p"
  defines "out \<equiv> fill_side Credit es cI cP (fill_side Debit es dI dP (replicate (length es) zero_entry_spec))"
  assumes "i < length es"
  shows "es_AccountID (out ! i) = ent_AccountID (es ! i) \<and> Direction_Valid (es_Direction (out ! i))
      \<and> (es_Direction (out ! i) = Debit) = (ent_Direction (es ! i) = Debit)
      \<and> currency (es_Amount (out ! i)) = c \<and> 0 \<le> amount (es_Amount (out ! i))"
proof (cases "ent_Direction (es ! i) = Debit")
  case True
  then have "i \<in> set dI" using assms(8) by (simp add: dI_def side_indices_props)
  then obtain k where "k < length dI" "dI ! k = i" by (auto simp: in_set_conv_nth)
  with fill_both(3) [OF dP(1) [unfolded dI_def] cP(1) [unfolded cI_def], of k] dP True show ?thesis
    by (auto simp: Direction_Valid_def out_def dI_def cI_def)
next
  case False
  then have "i \<in> set cI" using assms(8) by (simp add: cI_def side_indices_props)
  then obtain k where "k < length cI" "cI ! k = i" by (auto simp: in_set_conv_nth)
  with fill_both(2) [OF dP(1) [unfolded dI_def] cP(1) [unfolded cI_def], of k] cP False show ?thesis
    by (auto simp: Direction_Valid_def out_def dI_def cI_def)
qed

text \<open>
  A partial capture in the shape of the authorization: each side adds up to the captured
  amount, every posting kept is positive, on an account and a side of the original.
\<close>

lemma scaleEntries_balanced:
  assumes g: "group_ok c es" and cap: "0 < capture" "capture \<le> debit_sum (map spec_entry es)"
  shows "\<exists>ps. scaleEntries es capture (debit_sum (map spec_entry es)) = Ok ps
    \<and> list_all (entry_spec_ok c) ps \<and> debit_sum ps = capture \<and> credit_sum ps = capture"
proof (cases "capture = debit_sum (map spec_entry es)")
  case True
  have "map_outcome_list (\<lambda>e. andThen (Entry_Money e) (\<lambda>m.
      Ok \<lparr>es_AccountID = ent_AccountID e, es_Direction = ent_Direction e, es_Amount = m\<rparr>)) es = Ok (map spec_entry es)"
    by (rule map_outcome_list_total) (simp add: Entry_Money_ok group_entry(3) [OF g] spec_entry_def)
  then show ?thesis using True cap g by (simp add: scaleEntries_def group_ok_def)
next
  case False
  let ?A = "debit_sum (map spec_entry es)"
  let ?dI = "side_indices True es" and ?cI = "side_indices False es"
  let ?total = "\<lparr>amount = capture, currency = c\<rparr>"
  have A: "0 < ?A" "in64 ?A" "credit_sum (map spec_entry es) = ?A" using cap g by (auto simp: group_ok_def)
  have ratios: "\<forall>r\<in>set (map (\<lambda>i. ent_Amount (es ! i)) (side_indices b es)). 0 < r \<and> in64 r" for b
    using group_entry(4,5) [OF g] by (auto simp: side_indices_def)
  have sums: "0 < sum_list (map (\<lambda>i. ent_Amount (es ! i)) (side_indices b es))"
    "in64 (sum_list (map (\<lambda>i. ent_Amount (es ! i)) (side_indices b es)))" for b
    using A side_ratio_sums [of es] by (cases b; simp)+
  have c64: "in64 capture" using cap A by (simp add: in64_def)
  obtain dP where dP: "Money_Allocate ?total (map (\<lambda>i. ent_Amount (es ! i)) ?dI) = Ok dP" "length dP = length ?dI"
    "\<forall>p\<in>set dP. currency p = c \<and> 0 \<le> amount p" "sum_list (map amount dP) = capture"
    using Allocate_positive [OF cap(1) c64 ratios [of True] sums [of True], of c] by auto
  obtain cP where cP: "Money_Allocate ?total (map (\<lambda>i. ent_Amount (es ! i)) ?cI) = Ok cP" "length cP = length ?cI"
    "\<forall>p\<in>set cP. currency p = c \<and> 0 \<le> amount p" "sum_list (map amount cP) = capture"
    using Allocate_positive [OF cap(1) c64 ratios [of False] sums [of False], of c] by auto
  define out where "out = fill_side Credit es ?cI cP (fill_side Debit es ?dI dP (replicate (length es) zero_entry_spec))"
  note fb = fill_both [OF dP(2) cP(2), folded out_def]
  note at = fill_both_at [OF dP(2,3) cP(2,3), folded out_def]
  let ?kept = "filter (\<lambda>e. amount (es_Amount e) \<noteq> 0) out"
  have sides: "debit_sum ?kept = capture" "credit_sum ?kept = capture"
    unfolding drop_zero_sums
    using positions_sums [OF fb(1)] at sum_at_positions [of ?dI "\<lambda>e. amount (es_Amount e)" out amount dP]
      sum_at_positions [of ?cI "\<lambda>e. amount (es_Amount e)" out amount cP] fb(2,3) dP(2,4) cP(2,4) by simp_all
  have "entry_spec_ok c e" if "e \<in> set ?kept" for e
  proof -
    from that obtain i where i: "i < length es" "e = out ! i" "amount (es_Amount e) \<noteq> 0"
      using fb(1) by (auto simp: in_set_conv_nth)
    have "ent_AccountID (es ! i) \<noteq> []" using group_entry(1) [OF g nth_mem [OF i(1)]] by (simp add: entry_spec_ok_def)
    with at [OF i(1)] i(2,3) show ?thesis by (simp add: entry_spec_ok_def)
  qed
  moreover have "MustNew capture (if es = [] then [] else ent_Currency (last es)) = Ok ?total"
    using g group_entry(2,3) [OF g last_in_set] by (auto simp: group_ok_def MustNew_def Money_New_def)
  then have "scaleEntries es capture ?A = Ok ?kept"
    using A(1) False dP(1) cP(1) by (simp add: scaleEntries_def Let_def out_def)
  ultimately show ?thesis using sides by (auto simp: list_all_iff)
qed

end
