(* ===== verification/Cursor.thy ===== *)
theory Cursor
  imports Ledger_Types Ident
begin

text \<open>
  Package \<^verbatim>\<open>internal/ledger\<close>, file \<^verbatim>\<open>cursor.go\<close>: opaque pagination tokens, with the unpadded
  URL alphabet of \<^verbatim>\<open>encoding/base64\<close> they are wrapped in. Decoding is Go's lenient one: line
  breaks are skipped and unused trailing bits are ignored.
\<close>

section \<open>Unpadded base64\<close>

definition b64_alphabet :: string where
  "b64_alphabet = ''ABCDEFGHIJKLMNOPQRSTUVWXYZabcdefghijklmnopqrstuvwxyz0123456789-_''"

abbreviation byte_val :: "char \<Rightarrow> nat" where
  "byte_val c \<equiv> of_char c"

fun EncodeToString :: "string \<Rightarrow> string" where
  "EncodeToString [] = []"
| "EncodeToString [a] =
     [b64_alphabet ! (byte_val a div 4), b64_alphabet ! (byte_val a mod 4 * 16)]"
| "EncodeToString [a, b] =
     [b64_alphabet ! (byte_val a div 4), b64_alphabet ! (byte_val a mod 4 * 16 + byte_val b div 16),
      b64_alphabet ! (byte_val b mod 16 * 4)]"
| "EncodeToString (a # b # c # s) =
     b64_alphabet ! (byte_val a div 4) # b64_alphabet ! (byte_val a mod 4 * 16 + byte_val b div 16)
     # b64_alphabet ! (byte_val b mod 16 * 4 + byte_val c div 64) # b64_alphabet ! (byte_val c mod 64)
     # EncodeToString s"

definition b64_value :: "char \<Rightarrow> nat option" where
  "b64_value c = (let k = IndexByte b64_alphabet c in if k < 0 then None else Some (nat k))"

fun decode_groups :: "nat list \<Rightarrow> string option" where
  "decode_groups [] = Some []"
| "decode_groups [w] = None"
| "decode_groups [w, x] = Some [char_of (w * 4 + x div 16)]"
| "decode_groups [w, x, y] = Some [char_of (w * 4 + x div 16), char_of (x mod 16 * 16 + y div 4)]"
| "decode_groups (w # x # y # z # r) =
     map_option (\<lambda>s. char_of (w * 4 + x div 16) # char_of (x mod 16 * 16 + y div 4) # char_of (y mod 4 * 64 + z) # s)
       (decode_groups r)"

definition DecodeString :: "string \<Rightarrow> string option" where
  "DecodeString s =
     (let vs = map b64_value (filter (\<lambda>c. byte_val c \<noteq> 10 \<and> byte_val c \<noteq> 13) s)
      in if None \<in> set vs then None else decode_groups (map the vs))"

section \<open>Cursors\<close>

record Cursor =
  cur_CreatedAt :: int
  cur_ID :: int

definition Cursor_String :: "Cursor \<Rightarrow> string" where
  "Cursor_String c = EncodeToString (FormatInt (wrap64 (cur_CreatedAt c)) @ '':'' @ FormatInt (cur_ID c))"

definition ParseCursor :: "string \<Rightarrow> Cursor outcome" where
  "ParseCursor s =
     (if s = [] then Err ErrInvalidCursor
      else case DecodeString s of
        None \<Rightarrow> Err ErrInvalidCursor
      | Some raw \<Rightarrow>
          (case Cut CHR '':'' raw of
             (nanos, idPart, ok) \<Rightarrow>
               if \<not> ok then Err ErrInvalidCursor
               else case ParseInt nanos of
                 None \<Rightarrow> Err ErrInvalidCursor
               | Some n \<Rightarrow> (case ParseInt idPart of
                   None \<Rightarrow> Err ErrInvalidCursor
                 | Some entryID \<Rightarrow> Ok \<lparr>cur_CreatedAt = n, cur_ID = entryID\<rparr>)))"

definition CursorFor :: "Entry \<Rightarrow> Cursor" where
  "CursorFor e = \<lparr>cur_CreatedAt = ent_CreatedAt e, cur_ID = ent_ID e\<rparr>"

section \<open>Round trips\<close>

lemma IndexByte_nth: "distinct s \<Longrightarrow> d < length s \<Longrightarrow> IndexByte s (s ! d) = int d"
proof (induction s arbitrary: d)
  case (Cons x s)
  then show ?case by (cases d) (auto simp: Let_def)
qed simp

lemma b64_alphabet_props:
  "distinct b64_alphabet" "length b64_alphabet = 64"
  "\<forall>c\<in>set b64_alphabet. byte_val c \<noteq> 10 \<and> byte_val c \<noteq> 13"
  by (simp_all add: b64_alphabet_def)

lemma b64_value_nth [simp]: "n < 64 \<Longrightarrow> b64_value (b64_alphabet ! n) = Some n"
  using IndexByte_nth [OF b64_alphabet_props(1)] b64_alphabet_props(2) by (simp add: b64_value_def)

lemma b64_not_newline [simp]:
  "n < 64 \<Longrightarrow> byte_val (b64_alphabet ! n) \<noteq> 10" "n < 64 \<Longrightarrow> byte_val (b64_alphabet ! n) \<noteq> 13"
  using b64_alphabet_props(2,3) nth_mem [of n b64_alphabet] by auto

lemma byte_val_bound: "byte_val c < 256"
  by (metis nat_of_char_less_256)

definition b64_codes :: "string \<Rightarrow> nat option list" where
  "b64_codes s = map b64_value (filter (\<lambda>c. byte_val c \<noteq> 10 \<and> byte_val c \<noteq> 13) s)"

lemma b64_codes_Cons [simp]: "n < 64 \<Longrightarrow> b64_codes (b64_alphabet ! n # s) = Some n # b64_codes s"
  by (simp add: b64_codes_def)

lemma b64_codes_Nil [simp]: "b64_codes [] = []"
  by (simp add: b64_codes_def)

lemma byte_pieces:
  "byte_val a div 4 < 64" "byte_val a mod 4 * 16 + byte_val b div 16 < 64" "byte_val a mod 4 * 16 < 64"
  "byte_val b mod 16 * 4 + byte_val c div 64 < 64" "byte_val b mod 16 * 4 < 64" "byte_val c mod 64 < 64"
  using byte_val_bound [of a] byte_val_bound [of b] byte_val_bound [of c] by linarith+

lemma byte_joins:
  "byte_val b div 16 div 16 = 0" "byte_val c div 64 div 4 = 0"
  "byte_val b div 16 mod 16 = byte_val b div 16" "byte_val c div 64 mod 4 = byte_val c div 64"
proof -
  have "byte_val b div 16 < 16" "byte_val c div 64 < 4"
    using byte_val_bound [of b] byte_val_bound [of c] by linarith+
  then show "byte_val b div 16 div 16 = 0" "byte_val c div 64 div 4 = 0"
    "byte_val b div 16 mod 16 = byte_val b div 16" "byte_val c div 64 mod 4 = byte_val c div 64"
    by simp_all
qed

lemma Decode_Encode: "DecodeString (EncodeToString s) = Some s"
proof -
  have "None \<notin> set (b64_codes (EncodeToString s)) \<and> decode_groups (map the (b64_codes (EncodeToString s))) = Some s"
    by (induction s rule: EncodeToString.induct)
      (simp_all add: byte_pieces byte_joins)
  then show ?thesis by (simp add: DecodeString_def b64_codes_def Let_def)
qed

lemma FormatInt_no_colon: "CHR '':'' \<notin> set (FormatInt i)"
proof -
  have "CHR '':'' \<notin> set (FormatUint n)" for n
    using FormatUint_digits [of n] by (auto simp: list_all_iff is_digit_iff)
  then show ?thesis by (auto simp: FormatInt_def)
qed

lemma Encode_nonempty: "s \<noteq> [] \<Longrightarrow> EncodeToString s \<noteq> []"
  by (cases s rule: EncodeToString.cases) auto

lemma ParseCursor_String:
  assumes "in64 (cur_ID c)"
  shows "ParseCursor (Cursor_String c) = Ok \<lparr>cur_CreatedAt = wrap64 (cur_CreatedAt c), cur_ID = cur_ID c\<rparr>"
proof -
  let ?a = "FormatInt (wrap64 (cur_CreatedAt c))" and ?b = "FormatInt (cur_ID c)"
  have "Cut CHR '':'' (?a @ CHR '':'' # ?b) = (?a, ?b, True)"
    using FormatInt_no_colon by (rule Cut_append)
  moreover have "EncodeToString (?a @ CHR '':'' # ?b) \<noteq> []" by (rule Encode_nonempty) simp
  ultimately show ?thesis
    using assms by (simp add: ParseCursor_def Cursor_String_def Decode_Encode ParseInt_FormatInt)
qed

text \<open>
  A cursor handed out by the ledger is read back as the position it names: parsing the
  token of any cursor with a representable instant and identifier returns that cursor.
\<close>

theorem Cursor_roundtrip:
  assumes "in64 (cur_CreatedAt c)" and "in64 (cur_ID c)"
  shows "ParseCursor (Cursor_String c) = Ok c"
  using ParseCursor_String [OF assms(2)] assms(1) by simp

lemma Cursor_roundtrip_witness:
  "ParseCursor (Cursor_String \<lparr>cur_CreatedAt = 1700000000000000000, cur_ID = 42\<rparr>)
    = Ok \<lparr>cur_CreatedAt = 1700000000000000000, cur_ID = 42\<rparr>"
  using Cursor_roundtrip [of "\<lparr>cur_CreatedAt = 1700000000000000000, cur_ID = 42\<rparr>"] by (simp add: in64_def)

end
