(* ===== verification/Memory_Store.thy ===== *)
theory Memory_Store
  imports Ledger_Books Cursor
begin

text \<open>
  Package \<^verbatim>\<open>internal/ledger/memory\<close>: the in-memory repository, all of its methods, and the
  proof that it meets the repository contract of the ledger (the interpretation \<open>mem\<close>). The
  maps of the store are association lists; what Go leaves to the iteration order of a map is
  the order of the list. The mutex makes each method one atomic step.
\<close>

section \<open>The store\<close>

record Store =
  st_accounts :: "(string \<times> Account) list"
  st_byName :: "(string \<times> string) list"
  st_balances :: "(string \<times> Balance) list"
  st_transactions :: "(string \<times> Transaction) list"
  st_entries :: "Entry list"
  st_byAccount :: "(string \<times> nat list) list"
  st_nextEntryID :: int

definition Store_New :: Store where
  "Store_New = \<lparr>st_accounts = [], st_byName = [], st_balances = [], st_transactions = [],
     st_entries = [], st_byAccount = [], st_nextEntryID = 1\<rparr>"

definition nameKey :: "string \<Rightarrow> string \<Rightarrow> string" where
  "nameKey merchantID name = merchantID @ [char_of (0::nat)] @ name"

text \<open>Every method first looks at its context.\<close>

definition guarded :: "ambient \<Rightarrow> ('s, 'a) opr \<Rightarrow> ('s, 'a) opr" where
  "guarded c m = (if cancelled c then ret (Err ErrContext) else m)"

definition sortAccounts :: "Account list \<Rightarrow> Account list" where
  "sortAccounts as = insertion_sort (\<lambda>x y. acc_ID x < acc_ID y) as"

definition sortTransactions :: "Transaction list \<Rightarrow> Transaction list" where
  "sortTransactions ts = insertion_sort (\<lambda>cur prev.
     \<not> (txn_CreatedAt prev < txn_CreatedAt cur
        \<or> txn_CreatedAt prev = txn_CreatedAt cur \<and> txn_ID prev \<le> txn_ID cur)) ts"

section \<open>Accounts and balances\<close>

definition Mem_CreateAccount :: "ambient \<Rightarrow> Account \<Rightarrow> (Store, unit) opr" where
  "Mem_CreateAccount c a = guarded c (\<lambda>s.
     if map_of (st_accounts s) (acc_ID a) \<noteq> None then (Err ErrAccountExists, s)
     else let key = nameKey (acc_MerchantID a) (acc_Name a)
       in if map_of (st_byName s) key \<noteq> None then (Err ErrAccountExists, s)
          else (Ok (), s\<lparr>
            st_accounts := AList.update (acc_ID a) a (st_accounts s),
            st_byName := AList.update key (acc_ID a) (st_byName s),
            st_balances := AList.update (acc_ID a)
              \<lparr>bal_AccountID = acc_ID a, bal_Currency = acc_Currency a, bal_Posted = 0, bal_Pending = 0,
               bal_Version = 0, bal_UpdatedAt = acc_CreatedAt a\<rparr> (st_balances s)\<rparr>))"

definition Mem_GetAccount :: "ambient \<Rightarrow> string \<Rightarrow> (Store, Account) opr" where
  "Mem_GetAccount c i = guarded c (\<lambda>s.
     case map_of (st_accounts s) i of None \<Rightarrow> (Err ErrAccountNotFound, s) | Some a \<Rightarrow> (Ok a, s))"

definition Mem_ListAccounts :: "ambient \<Rightarrow> string \<Rightarrow> (Store, Account list) opr" where
  "Mem_ListAccounts c merchantID = guarded c (\<lambda>s.
     (Ok (sortAccounts (filter (\<lambda>a. acc_MerchantID a = merchantID) (map snd (st_accounts s)))), s))"

fun lock_loop :: "Store \<Rightarrow> string list \<Rightarrow> (string \<times> LockedAccount) list \<Rightarrow> (string \<times> LockedAccount) list outcome" where
  "lock_loop s [] out = Ok out"
| "lock_loop s (i # ids) out =
     (case map_of (st_accounts s) i of
        None \<Rightarrow> Err ErrAccountNotFound
      | Some a \<Rightarrow> lock_loop s ids (AList.update i
          \<lparr>la_Account = a, la_Balance = (case map_of (st_balances s) i of None \<Rightarrow> zero_balance | Some b \<Rightarrow> b)\<rparr> out))"

definition Mem_LockAccounts :: "ambient \<Rightarrow> string list \<Rightarrow> (Store, (string \<times> LockedAccount) list) opr" where
  "Mem_LockAccounts c ids = guarded c (\<lambda>s. (lock_loop s ids [], s))"

fun apply_loop :: "int \<Rightarrow> BalanceUpdate list \<Rightarrow> (Store, unit) opr" where
  "apply_loop now [] s = (Ok (), s)"
| "apply_loop now (u # us) s =
     (case map_of (st_balances s) (upd_AccountID u) of
        None \<Rightarrow> (Err ErrAccountNotFound, s)
      | Some b \<Rightarrow> apply_loop now us (s\<lparr>st_balances := AList.update (upd_AccountID u)
          (b\<lparr>bal_Posted := upd_Posted u, bal_Pending := upd_Pending u,
             bal_Version := wrap64 (upd_Version u + 1), bal_UpdatedAt := now\<rparr>) (st_balances s)\<rparr>))"

definition Mem_ApplyBalances :: "ambient \<Rightarrow> BalanceUpdate list \<Rightarrow> (Store, unit) opr" where
  "Mem_ApplyBalances c us = guarded c (apply_loop (wall_now c) us)"

definition Mem_GetBalance :: "ambient \<Rightarrow> string \<Rightarrow> (Store, Balance) opr" where
  "Mem_GetBalance c i = guarded c (\<lambda>s.
     case map_of (st_balances s) i of None \<Rightarrow> (Err ErrAccountNotFound, s) | Some b \<Rightarrow> (Ok b, s))"

section \<open>Transactions\<close>

definition Mem_InsertTransaction :: "ambient \<Rightarrow> Transaction \<Rightarrow> (Store, unit) opr" where
  "Mem_InsertTransaction c t = guarded c (\<lambda>s.
     if map_of (st_transactions s) (txn_ID t) \<noteq> None then (Err (ErrOther ''transaction exists''), s)
     else (Ok (), s\<lparr>st_transactions := AList.update (txn_ID t) (t\<lparr>txn_Entries := []\<rparr>) (st_transactions s)\<rparr>))"

definition Mem_SetTransactionStatus :: "ambient \<Rightarrow> string \<Rightarrow> Status \<Rightarrow> int option \<Rightarrow> (Store, unit) opr" where
  "Mem_SetTransactionStatus c i st postedAt = guarded c (\<lambda>s.
     case map_of (st_transactions s) i of
       None \<Rightarrow> (Err ErrTransactionNotFound, s)
     | Some t \<Rightarrow> let t1 = t\<lparr>txn_Status := st\<rparr>;
                    t2 = (case postedAt of None \<Rightarrow> t1 | Some at \<Rightarrow> t1\<lparr>txn_PostedAt := Some at\<rparr>)
         in (Ok (), s\<lparr>st_transactions := AList.update i t2 (st_transactions s)\<rparr>))"

definition with_entries :: "Store \<Rightarrow> string \<Rightarrow> Transaction \<Rightarrow> Transaction" where
  "with_entries s i t = t\<lparr>txn_Entries := txn_Entries t @ filter (\<lambda>e. ent_TransactionID e = i) (st_entries s)\<rparr>"

definition Mem_GetTransaction :: "ambient \<Rightarrow> string \<Rightarrow> (Store, Transaction) opr" where
  "Mem_GetTransaction c i = guarded c (\<lambda>s.
     case map_of (st_transactions s) i of
       None \<Rightarrow> (Err ErrTransactionNotFound, s)
     | Some t \<Rightarrow> (Ok (with_entries s i t), s))"

definition Mem_FindReversal :: "ambient \<Rightarrow> string \<Rightarrow> (Store, Transaction) opr" where
  "Mem_FindReversal c reversesID = guarded c (\<lambda>s.
     case List.find (\<lambda>t. txn_ReversesID t = reversesID) (map snd (st_transactions s)) of
       None \<Rightarrow> (Err ErrTransactionNotFound, s)
     | Some t \<Rightarrow> (Ok t, s))"

definition Mem_TransactionsByRef :: "ambient \<Rightarrow> string \<Rightarrow> string \<Rightarrow> (Store, Transaction list) opr" where
  "Mem_TransactionsByRef c merchantID externalRef = guarded c (\<lambda>s.
     if externalRef = [] then (Ok [], s)
     else (Ok (sortTransactions (map (\<lambda>t. with_entries s (txn_ID t) t)
            (filter (\<lambda>t. txn_MerchantID t = merchantID \<and> txn_ExternalRef t = externalRef)
              (map snd (st_transactions s))))), s))"

section \<open>Entries\<close>

fun append_loop :: "Entry list \<Rightarrow> Store \<Rightarrow> Entry list \<times> Store" where
  "append_loop [] s = ([], s)"
| "append_loop (e # es) s =
     (let e' = e\<lparr>ent_ID := st_nextEntryID s\<rparr>;
          idx = (case map_of (st_byAccount s) (ent_AccountID e) of None \<Rightarrow> [] | Some ks \<Rightarrow> ks);
          s' = s\<lparr>st_nextEntryID := wrap64 (st_nextEntryID s + 1),
                 st_byAccount := AList.update (ent_AccountID e) (idx @ [length (st_entries s)]) (st_byAccount s),
                 st_entries := st_entries s @ [e']\<rparr>
      in case append_loop es s' of (out, s'') \<Rightarrow> (e' # out, s''))"

definition Mem_AppendEntries :: "ambient \<Rightarrow> Entry list \<Rightarrow> (Store, Entry list) opr" where
  "Mem_AppendEntries c es = guarded c (\<lambda>s. case append_loop es s of (out, s') \<Rightarrow> (Ok out, s'))"

text \<open>The backward walk of \<open>ListEntries\<close> over an account's entries, newest first.\<close>

fun page_loop :: "Cursor option \<Rightarrow> int \<Rightarrow> Entry list \<Rightarrow> Entry list \<Rightarrow> Entry list \<times> string" where
  "page_loop after limit out [] = (out, [])"
| "page_loop after limit out (e # es) =
     (if (case after of None \<Rightarrow> False | Some cur \<Rightarrow> ent_ID e \<ge> cur_ID cur) then page_loop after limit out es
      else if int (length out) = limit then (out, Cursor_String (CursorFor (last out)))
      else page_loop after limit (out @ [e]) es)"

definition account_entries :: "Store \<Rightarrow> string \<Rightarrow> Entry list" where
  "account_entries s i =
     map (\<lambda>k. st_entries s ! k) (case map_of (st_byAccount s) i of None \<Rightarrow> [] | Some ks \<Rightarrow> ks)"

definition Mem_ListEntries :: "ambient \<Rightarrow> string \<Rightarrow> Page \<Rightarrow> (Store, Entry list \<times> string) opr" where
  "Mem_ListEntries c i p0 = guarded c (\<lambda>s.
     let p = Page_Normalize p0
     in (andThen (if page_StartingAfter p \<noteq> [] then andThen (ParseCursor (page_StartingAfter p)) (\<lambda>cur. Ok (Some cur)) else Ok None)
          (\<lambda>after. Ok (page_loop after (page_Limit p) [] (rev (account_entries s i)))), s))"

definition Mem_EntriesByTransaction :: "ambient \<Rightarrow> string \<Rightarrow> (Store, Entry list) opr" where
  "Mem_EntriesByTransaction c i = guarded c (\<lambda>s. (Ok (filter (\<lambda>e. ent_TransactionID e = i) (st_entries s)), s))"

section \<open>Helpers that recompute balances\<close>

definition AllEntries :: "Store \<Rightarrow> Entry list" where
  "AllEntries s = st_entries s"

definition AllAccounts :: "Store \<Rightarrow> Account list" where
  "AllAccounts s = sortAccounts (map snd (st_accounts s))"

definition derived_sum :: "Status \<Rightarrow> Account \<Rightarrow> Entry list \<Rightarrow> int" where
  "derived_sum st a es = foldl (\<lambda>sum e.
     if ent_Status e \<noteq> st then sum else wrap64 (sum + SignedDelta a (ent_Direction e) (ent_Amount e))) 0 es"

definition DerivedBalance :: "Store \<Rightarrow> string \<Rightarrow> int" where
  "DerivedBalance s i =
     (case map_of (st_accounts s) i of None \<Rightarrow> 0 | Some a \<Rightarrow> derived_sum StatusPosted a (account_entries s i))"

definition DerivedPending :: "Store \<Rightarrow> string \<Rightarrow> int" where
  "DerivedPending s i =
     (case map_of (st_accounts s) i of None \<Rightarrow> 0 | Some a \<Rightarrow> derived_sum StatusPending a (account_entries s i))"

definition memory_repo :: "Store Repository" where
  "memory_repo = \<lparr>
     repo_CreateAccount = Mem_CreateAccount, repo_GetAccount = Mem_GetAccount,
     repo_ListAccounts = Mem_ListAccounts, repo_LockAccounts = Mem_LockAccounts,
     repo_ApplyBalances = Mem_ApplyBalances, repo_GetBalance = Mem_GetBalance,
     repo_InsertTransaction = Mem_InsertTransaction, repo_SetTransactionStatus = Mem_SetTransactionStatus,
     repo_GetTransaction = Mem_GetTransaction, repo_FindReversal = Mem_FindReversal,
     repo_TransactionsByRef = Mem_TransactionsByRef, repo_AppendEntries = Mem_AppendEntries,
     repo_ListEntries = Mem_ListEntries, repo_EntriesByTransaction = Mem_EntriesByTransaction\<rparr>"

section \<open>Abstraction and representation invariant\<close>

definition books_of :: "Store \<Rightarrow> books" where
  "books_of s = \<lparr>bk_accounts = map_of (st_accounts s), bk_balances = map_of (st_balances s),
     bk_txns = map_of (st_transactions s), bk_log = st_entries s\<rparr>"

definition index_ok :: "Store \<Rightarrow> bool" where
  "index_ok s \<longleftrightarrow> (\<forall>i. (case map_of (st_byAccount s) i of None \<Rightarrow> [] | Some ks \<Rightarrow> ks)
     = filter (\<lambda>k. ent_AccountID (st_entries s ! k) = i) [0..<length (st_entries s)])"

definition numbering_ok :: "Store \<Rightarrow> bool" where
  "numbering_ok s \<longleftrightarrow>
     st_nextEntryID s = wrap64 (int (length (st_entries s)) + 1)
     \<and> (\<forall>k<length (st_entries s). ent_ID (st_entries s ! k) = wrap64 (int k + 1))"

definition store_ok :: "Store \<Rightarrow> bool" where
  "store_ok s \<longleftrightarrow>
     distinct (map fst (st_transactions s)) \<and> distinct (map fst (st_accounts s))
     \<and> dom (map_of (st_balances s)) = dom (map_of (st_accounts s))
     \<and> (\<forall>i t. map_of (st_transactions s) i = Some t \<longrightarrow> txn_ID t = i \<and> txn_Entries t = [])
     \<and> index_ok s \<and> numbering_ok s"

lemma store_ok_New: "store_ok Store_New"
  by (simp add: store_ok_def Store_New_def index_ok_def numbering_ok_def in64_def)

lemma books_of_New: "books_of Store_New = empty_books"
  by (simp add: books_of_def Store_New_def empty_books_def)

lemma guarded_Ok [simp]: "guarded c m s = (Ok x, s') \<longleftrightarrow> \<not> cancelled c \<and> m s = (Ok x, s')"
  by (auto simp: guarded_def)

lemma guarded_run [simp]: "\<not> cancelled c \<Longrightarrow> guarded c m = m"
  by (simp add: guarded_def)

section \<open>The store meets the repository contract\<close>

lemma lock_loop_Ok:
  assumes "lock_loop s ids out = Ok locked" and "distinct ids" and "set ids \<inter> fst ` set out = {}"
    and "dom (map_of (st_balances s)) = dom (map_of (st_accounts s))"
    and "\<forall>(i, la)\<in>set out. map_of (st_accounts s) i = Some (la_Account la) \<and> map_of (st_balances s) i = Some (la_Balance la)"
  shows "map fst locked = map fst out @ ids
    \<and> (\<forall>(i, la)\<in>set locked. map_of (st_accounts s) i = Some (la_Account la) \<and> map_of (st_balances s) i = Some (la_Balance la))"
  using assms
proof (induction s ids out rule: lock_loop.induct)
  case (2 s i ids out)
  obtain a where a: "map_of (st_accounts s) i = Some a" using "2.prems"(1) by (cases "map_of (st_accounts s) i") auto
  obtain b where b: "map_of (st_balances s) i = Some b" using a "2.prems"(4) by blast
  have "AList.update i v out = out @ [(i, v)]" for v
    using "2.prems"(3) by (induction out) auto
  with 2 a b show ?case by (auto simp: a b)
qed auto

lemma lock_loop_total:
  "set ids \<subseteq> dom (map_of (st_accounts s)) \<Longrightarrow> \<exists>locked. lock_loop s ids out = Ok locked"
  by (induction ids arbitrary: out) auto

lemma store_ok_balances:
  "store_ok s \<Longrightarrow> dom (map_of bs) = dom (map_of (st_balances s)) \<Longrightarrow> store_ok (s\<lparr>st_balances := bs\<rparr>)"
  by (simp add: store_ok_def index_ok_def numbering_ok_def)

lemma apply_loop_Ok:
  assumes "apply_loop now us s = (Ok u, s')" and "store_ok s"
  shows "store_ok s' \<and> books_of s' = books_balances now us (books_of s)"
  using assms
proof (induction now us s rule: apply_loop.induct)
  case (1 now s)
  then show ?case by (simp add: books_balances_def)
next
  case (2 now v us s)
  obtain b where b: "map_of (st_balances s) (upd_AccountID v) = Some b"
    using "2.prems"(1) by (cases "map_of (st_balances s) (upd_AccountID v)") auto
  let ?s = "s\<lparr>st_balances := AList.update (upd_AccountID v) (set_balance now v b) (st_balances s)\<rparr>"
  have "store_ok ?s" using "2.prems"(2) b by (intro store_ok_balances) (auto simp: AList.update_conv')
  moreover have "apply_loop now us ?s = (Ok u, s')" using "2.prems"(1) b by (simp add: set_balance_def)
  ultimately have "store_ok s' \<and> books_of s' = books_balances now us (books_of ?s)"
    using "2.IH" [OF b] by (simp add: set_balance_def)
  then show ?case using b by (simp add: books_balances_def books_of_def AList.update_conv')
qed

lemma apply_loop_total:
  "upd_AccountID ` set us \<subseteq> dom (map_of (st_balances s)) \<Longrightarrow> \<exists>s'. apply_loop now us s = (Ok (), s')"
proof (induction us arbitrary: s)
  case (Cons u us)
  then obtain b where b: "map_of (st_balances s) (upd_AccountID u) = Some b" by auto
  let ?s = "s\<lparr>st_balances := AList.update (upd_AccountID u) (b\<lparr>bal_Posted := upd_Posted u, bal_Pending := upd_Pending u,
    bal_Version := wrap64 (upd_Version u + 1), bal_UpdatedAt := now\<rparr>) (st_balances s)\<rparr>"
  have "upd_AccountID ` set us \<subseteq> dom (map_of (st_balances ?s))"
    using Cons.prems by (auto simp: AList.update_conv')
  from Cons.IH [OF this] b show ?case by simp
qed simp

lemma index_ok_snoc:
  assumes "index_ok s" and "ent_AccountID e = i"
  shows "index_ok (s\<lparr>st_nextEntryID := n,
    st_byAccount := AList.update i ((case map_of (st_byAccount s) i of None \<Rightarrow> [] | Some ks \<Rightarrow> ks) @ [length (st_entries s)]) (st_byAccount s),
    st_entries := st_entries s @ [e]\<rparr>)"
proof -
  have "filter (\<lambda>k. ent_AccountID ((st_entries s @ [e]) ! k) = j) [0..<length (st_entries s)] =
      filter (\<lambda>k. ent_AccountID (st_entries s ! k) = j) [0..<length (st_entries s)]" for j
    by (rule filter_cong) (auto simp: nth_append)
  then show ?thesis using assms by (auto simp: index_ok_def AList.update_conv')
qed

lemma numbering_ok_snoc:
  assumes "numbering_ok s"
  shows "numbering_ok (s\<lparr>st_nextEntryID := wrap64 (st_nextEntryID s + 1), st_byAccount := f,
    st_entries := st_entries s @ [e\<lparr>ent_ID := st_nextEntryID s\<rparr>]\<rparr>)"
  using assms by (auto simp: numbering_ok_def nth_append less_Suc_eq wrap64_add_right add.commute)

lemma append_loop_Ok:
  assumes "append_loop es s = (out, s')" and "store_ok s"
  shows "store_ok s' \<and> books_of s' = books_append out (books_of s)
    \<and> map (\<lambda>e. e\<lparr>ent_ID := 0\<rparr>) out = map (\<lambda>e. e\<lparr>ent_ID := 0\<rparr>) es"
  using assms
proof (induction es arbitrary: s out)
  case Nil
  then show ?case by (simp add: books_append_def)
next
  case (Cons e es)
  let ?e = "e\<lparr>ent_ID := st_nextEntryID s\<rparr>"
  let ?s = "s\<lparr>st_nextEntryID := wrap64 (st_nextEntryID s + 1),
    st_byAccount := AList.update (ent_AccountID e)
      ((case map_of (st_byAccount s) (ent_AccountID e) of None \<Rightarrow> [] | Some ks \<Rightarrow> ks) @ [length (st_entries s)]) (st_byAccount s),
    st_entries := st_entries s @ [?e]\<rparr>"
  obtain out' where out: "append_loop es ?s = (out', s')" "out = ?e # out'"
    using Cons.prems(1) by (auto simp: Let_def split: prod.splits)
  have "index_ok ?s" using index_ok_snoc [of s ?e] Cons.prems(2) by (simp add: store_ok_def)
  moreover have "numbering_ok ?s" using numbering_ok_snoc Cons.prems(2) unfolding store_ok_def by blast
  ultimately have "store_ok ?s" using Cons.prems(2) by (simp add: store_ok_def)
  from Cons.IH [OF out(1) this] show ?case
    by (simp add: out(2) books_append_def books_of_def)
qed

lemma store_ok_account:
  "store_ok s \<Longrightarrow> store_ok (s\<lparr>st_accounts := AList.update i a (st_accounts s), st_byName := n,
     st_balances := AList.update i b (st_balances s)\<rparr>)"
  by (simp add: store_ok_def AList.update_conv' AList.distinct_update index_ok_def numbering_ok_def)

lemma store_ok_txns:
  assumes "store_ok s" and "txn_ID t = i" and "txn_Entries t = []"
  shows "store_ok (s\<lparr>st_transactions := AList.update i t (st_transactions s)\<rparr>)"
  using assms by (auto simp: store_ok_def AList.update_conv' AList.distinct_update index_ok_def numbering_ok_def)

lemma map_of_find:
  assumes "distinct (map fst xs)" and "List.find P (map snd xs) = Some t"
  shows "\<exists>i. map_of xs i = Some t \<and> P t"
proof -
  have "t \<in> set (map snd xs)" "P t" using assms(2) by (auto simp: find_Some_iff)
  then show ?thesis using assms(1) by force
qed

lemma find_of_map:
  assumes "map_of xs j = Some t" and "P t"
  shows "\<exists>t'. List.find P (map snd xs) = Some t'"
proof -
  have "t \<in> set (map snd xs)" using assms(1) by (force dest: map_of_SomeD)
  then show ?thesis using assms(2) find_None_iff [of P "map snd xs"] by (metis option.exhaust)
qed

interpretation mem: repository memory_repo books_of store_ok
proof (unfold_locales, goal_cases)
  case (1 s a acct u s')
  then show ?case
    by (auto simp: memory_repo_def Mem_CreateAccount_def Let_def books_of_def books_create_def
        AList.update_conv' split: if_splits intro!: store_ok_account)
next
  case (2 s a ids locked s')
  then have run: "lock_loop s ids [] = Ok locked" "s' = s" by (auto simp: memory_repo_def Mem_LockAccounts_def)
  have "dom (map_of (st_balances s)) = dom (map_of (st_accounts s))" using 2(1) by (simp add: store_ok_def)
  with lock_loop_Ok [OF run(1) 2(3)] have l: "map fst locked = ids"
    "\<forall>(i, la)\<in>set locked. map_of (st_accounts s) i = Some (la_Account la) \<and> map_of (st_balances s) i = Some (la_Balance la)"
    by simp_all
  have "fst ` set locked = set ids" using l(1) by (simp flip: set_map)
  with l run 2(3) show ?case by (simp add: books_of_def)
next
  case (3 s a us u s')
  then show ?case
    using apply_loop_Ok by (auto simp: memory_repo_def Mem_ApplyBalances_def)
next
  case (4 s a t u s')
  then show ?case
    by (auto simp: memory_repo_def Mem_InsertTransaction_def books_of_def books_insert_def AList.update_conv'
        split: if_splits intro!: store_ok_txns)
next
  case (5 s a i st at u s')
  then obtain t where t: "map_of (st_transactions s) i = Some t"
    by (auto simp: memory_repo_def Mem_SetTransactionStatus_def split: option.splits)
  have s': "s' = s\<lparr>st_transactions := AList.update i (set_status st at t) (st_transactions s)\<rparr>"
    using 5 t by (auto simp: memory_repo_def Mem_SetTransactionStatus_def set_status_def Let_def split: option.splits)
  have "txn_ID (set_status st at t) = i" "txn_Entries (set_status st at t) = []"
    using 5(1) t by (auto simp: store_ok_def set_status_def split: option.splits)
  then show ?case
    using store_ok_txns [OF 5(1)] t by (auto simp: s' books_of_def books_status_def AList.update_conv')
next
  case (6 s a i t s')
  then have "s' = s \<and> (\<exists>row. bk_txns (books_of s) i = Some row \<and> t = row\<lparr>txn_Entries := entries_of i (books_of s)\<rparr>)"
    by (auto simp: memory_repo_def Mem_GetTransaction_def books_of_def with_entries_def entries_of_def store_ok_def
        split: option.splits)
  then show ?case by auto
next
  case (7 s a i r s')
  then have "s' = s" by (auto simp: memory_repo_def Mem_FindReversal_def guarded_def split: if_splits option.splits)
  moreover have "\<exists>row. map_of (st_transactions s) (txn_ID t) = Some row \<and> txn_ReversesID row = i" if "r = Ok t" for t
  proof -
    have "List.find (\<lambda>t. txn_ReversesID t = i) (map snd (st_transactions s)) = Some t"
      using 7 that by (auto simp: memory_repo_def Mem_FindReversal_def split: option.splits)
    then obtain j where "map_of (st_transactions s) j = Some t" "txn_ReversesID t = i"
      using map_of_find [of "st_transactions s" "\<lambda>t. txn_ReversesID t = i" t] 7(1) by (auto simp: store_ok_def)
    then show ?thesis using 7(1) by (auto simp: store_ok_def)
  qed
  ultimately show ?case by (auto simp: books_of_def)
next
  case (8 s a es out s')
  then show ?case
    using append_loop_Ok by (auto simp: memory_repo_def Mem_AppendEntries_def split: prod.splits)
next
  case (9 a m s r s')
  then show ?case by (auto simp: memory_repo_def Mem_ListAccounts_def guarded_def split: if_splits)
next
  case (10 a m ref s r s')
  then show ?case by (auto simp: memory_repo_def Mem_TransactionsByRef_def guarded_def split: if_splits)
qed

interpretation mem: total_repository memory_repo books_of store_ok
proof (unfold_locales, goal_cases)
  case (1 s a ids)
  then show ?case
    using lock_loop_total [of ids s "[]"] by (auto simp: memory_repo_def Mem_LockAccounts_def books_of_def)
next
  case (2 s a us)
  then show ?case
    using apply_loop_total [of us s] by (auto simp: memory_repo_def Mem_ApplyBalances_def books_of_def store_ok_def)
next
  case (3 s a t)
  then show ?case by (auto simp: memory_repo_def Mem_InsertTransaction_def books_of_def)
next
  case (4 s a i st at)
  then show ?case by (auto simp: memory_repo_def Mem_SetTransactionStatus_def books_of_def Let_def)
next
  case (5 s a i row)
  then show ?case
    by (auto simp: memory_repo_def Mem_GetTransaction_def books_of_def with_entries_def entries_of_def store_ok_def)
next
  case (6 s a j row i)
  then show ?case
    using find_of_map [of "st_transactions s" j row "\<lambda>t. txn_ReversesID t = i"]
    by (auto simp: memory_repo_def Mem_FindReversal_def books_of_def)
next
  case (7 s a es)
  then show ?case by (auto simp: memory_repo_def Mem_AppendEntries_def split: prod.splits)
qed

end
