(* ===== verification/Ledger_Laws.thy ===== *)
theory Ledger_Laws
  imports Ledger_Books Memory_Store
begin

text \<open>
  The correctness of the ledger service: what void, capture and reversal do to the books, over
  any repository; runs of the service and the invariant of all states they reach; and the
  properties of the service over the in-memory store, through the interpretation \<open>mem\<close>.
\<close>

section \<open>Releasing and undoing\<close>

text \<open>The movement of an account over entries of any status.\<close>

definition net_any :: "Account \<Rightarrow> Entry list \<Rightarrow> int" where
  "net_any a es = sum_list (map (\<lambda>e.
     if ent_AccountID e = acc_ID a then delta a (ent_Direction e) (ent_Amount e) else 0) es)"

lemma net_any_uniform: "\<forall>e\<in>set es. ent_Status e = st \<Longrightarrow> net_any a es = net st a es"
  by (induction es) (auto simp: net_any_def)

lemma net_any_mset: "mset es = mset fs \<Longrightarrow> net_any a es = net_any a fs"
  by (simp add: net_any_def flip: sum_mset_sum_list)

lemma net_mirror:
  assumes "map spec_entry out = map mirrored es" and "\<forall>e\<in>set out. ent_Status e = st"
    and "\<forall>e\<in>set es. Direction_Valid (ent_Direction e)"
    and "acc_NormalBalance a = Debit \<or> acc_NormalBalance a = Credit"
  shows "net st a out = - net_any a es"
  using assms(1-3)
proof (induction es arbitrary: out)
  case Nil
  then show ?case by (simp add: net_any_def)
next
  case (Cons e es)
  then obtain x xs where out: "out = x # xs" "spec_entry x = mirrored e" "map spec_entry xs = map mirrored es"
    by (cases out) auto
  then have x: "ent_AccountID x = ent_AccountID e" "ent_Direction x = Opposite (ent_Direction e)" "ent_Amount x = ent_Amount e"
    by (auto simp: spec_entry_def mirrored_def)
  have "delta a (Opposite (ent_Direction e)) n = - delta a (ent_Direction e) n" for n
    using Cons.prems(3) assms(4) by (auto simp: delta_def Direction_Valid_def)
  moreover have "net st a xs = - net_any a es" using Cons out by simp
  ultimately show ?case using x Cons.prems(2) by (simp add: out(1) net_any_def)
qed

text \<open>How a list of changes moves the balances of all accounts.\<close>

definition moves :: "(Account \<Rightarrow> int) \<Rightarrow> (Account \<Rightarrow> int) \<Rightarrow> books \<Rightarrow> books \<Rightarrow> bool" where
  "moves dposted dpending B B' \<longleftrightarrow>
     bk_accounts B' = bk_accounts B
     \<and> (\<forall>i a b. bk_accounts B i = Some a \<longrightarrow> bk_balances B i = Some b \<longrightarrow>
          (\<exists>b'. bk_balances B' i = Some b' \<and> bal_Posted b' = bal_Posted b + dposted a
             \<and> bal_Pending b' = bal_Pending b + dpending a))"

lemma posts_moves:
  "posts spec t B B' \<Longrightarrow> moves (\<lambda>a. net StatusPosted a (txn_Entries t)) (\<lambda>a. net StatusPending a (txn_Entries t)) B B'"
  unfolding posts_def moves_def by fastforce

lemma moves_status: "moves p q B B' \<Longrightarrow> moves p q B (books_status i st at B')"
  by (simp add: moves_def books_status_def)

lemma moves_trans: "moves p q B C \<Longrightarrow> moves p' q' C D \<Longrightarrow> moves (\<lambda>a. p a + p' a) (\<lambda>a. q a + q' a) B D"
  unfolding moves_def by fastforce

lemma moves_cong:
  assumes "moves p q B B'" and "\<And>i a. bk_accounts B i = Some a \<Longrightarrow> p a = p' a \<and> q a = q' a"
  shows "moves p' q' B B'"
  using assms unfolding moves_def by metis

lemma posts_mirror_moves:
  assumes "posts spec t B B'" and "ts_Entries spec = map mirrored es" and "group_ok c es" and "books_ok B"
  shows "moves (\<lambda>a. if ts_Pending spec then 0 else - net_any a es) (\<lambda>a. if ts_Pending spec then - net_any a es else 0) B B'"
proof (rule moves_cong [OF posts_moves [OF assms(1)]])
  fix i a
  assume a: "bk_accounts B i = Some a"
  have st: "\<forall>e\<in>set (txn_Entries t). ent_Status e = statusFor (ts_Pending spec)"
    and sp: "map spec_entry (txn_Entries t) = map mirrored es"
    using assms(1,2) by (auto simp: posts_def)
  have normal: "acc_NormalBalance a = Debit \<or> acc_NormalBalance a = Credit"
    using account_ok_normal books_okD(1) [OF assms(4) a] by blast
  have "net (statusFor (ts_Pending spec)) a (txn_Entries t) = - net_any a es"
    using net_mirror [OF sp st _ normal] group_entry(6) [OF assms(3)] by blast
  moreover have "st \<noteq> statusFor (ts_Pending spec) \<Longrightarrow> net st a (txn_Entries t) = 0" for st
    using net_other_status [OF st] by blast
  ultimately show "net StatusPosted a (txn_Entries t) = (if ts_Pending spec then 0 else - net_any a es)
      \<and> net StatusPending a (txn_Entries t) = (if ts_Pending spec then - net_any a es else 0)"
    by (cases "ts_Pending spec") simp_all
qed

lemma amounts_le_sums:
  assumes "list_all (entry_spec_ok c) es" and "e \<in> set es"
  shows "0 < amount (es_Amount e) \<and> (amount (es_Amount e) \<le> debit_sum es \<or> amount (es_Amount e) \<le> credit_sum es)"
  using assms
proof (induction es)
  case (Cons x es)
  have "0 \<le> debit_sum es" "0 \<le> credit_sum es" "0 < amount (es_Amount x)"
    using side_sums_nonneg [of c es] Cons.prems by (auto simp: entry_spec_ok_def [of c x])
  then show ?case using Cons by (cases "e = x") auto
qed simp

lemma typed_of_sums:
  assumes "list_all (entry_spec_ok c) (ts_Entries spec)" and "debit_sum (ts_Entries spec) = n"
    and "credit_sum (ts_Entries spec) = n" and "in64 n"
  shows "typed_spec spec"
  unfolding typed_spec_def list_all_iff
proof
  fix e
  assume "e \<in> set (ts_Entries spec)"
  from amounts_le_sums [OF assms(1) this] assms(2-4) show "in64 (amount (es_Amount e))" by (auto simp: in64_def)
qed

lemma group_positive:
  assumes "group_ok c es"
  shows "0 < debit_sum (map spec_entry es)"
proof -
  obtain e rest where e: "es = e # rest" using assms by (cases es) (auto simp: group_ok_def)
  have "0 \<le> debit_sum (map spec_entry rest)" "0 \<le> credit_sum (map spec_entry rest)" "0 < ent_Amount e"
    using assms side_sums_nonneg [of c "map spec_entry rest"] group_entry(4) [OF assms, of e] by (auto simp: e group_ok_def)
  moreover have "debit_sum (map spec_entry (e # rest)) = credit_sum (map spec_entry (e # rest))"
    using assms by (simp add: e group_ok_def)
  ultimately show ?thesis unfolding e by (auto split: if_splits)
qed

lemma capture_amount_bounds:
  assumes "capture_amount auth amt = Ok n" and "group_ok c (txn_Entries auth)"
  shows "0 < n" and "n \<le> debit_sum (map spec_entry (txn_Entries auth))" and "in64 n"
proof -
  have tot: "Total auth = debit_sum (map spec_entry (txn_Entries auth))" by (rule Total_debits [OF assms(2)])
  with assms(1) group_positive [OF assms(2)] show n: "0 < n" "n \<le> debit_sum (map spec_entry (txn_Entries auth))"
    by (auto simp: capture_amount_def split: option.splits if_splits)
  moreover have "in64 (debit_sum (map spec_entry (txn_Entries auth)))" using assms(2) unfolding group_ok_def by blast
  ultimately show "in64 n" by (auto simp: in64_def)
qed

text \<open>The amount of a capture does not depend on the order the entries come back in.\<close>

lemma capture_amount_mset:
  assumes "group_ok c (txn_Entries t)" and "mset (txn_Entries t) = mset es"
  shows "capture_amount (t\<lparr>txn_Entries := es\<rparr>) amt = capture_amount t amt"
proof -
  have sums: "debit_sum (map spec_entry es) = debit_sum (map spec_entry (txn_Entries t))"
    by (rule side_sums_mset(1)) (simp add: assms(2))
  have g: "group_ok c (txn_Entries (t\<lparr>txn_Entries := es\<rparr>))" using assms(1) group_ok_mset [OF assms(2)] by simp
  have "Total (t\<lparr>txn_Entries := es\<rparr>) = Total t"
    unfolding Total_debits [OF g] Total_debits [OF assms(1)] using sums by simp
  then show ?thesis by (simp add: capture_amount_def split: option.split)
qed

lemma transaction_status_entries: "t = row\<lparr>txn_Entries := es\<rparr> \<Longrightarrow> txn_Status row = txn_Status t"
  by simp

section \<open>Void, capture and reversal over any repository\<close>

context repository
begin

lemma get_transaction_Ok:
  assumes "call E (\<lambda>c. repo_GetTransaction R c i) w = (Ok t, w')" and "wf (w_db w)" and "books_ok (books (w_db w))"
  shows "w_db w' = w_db w" and "\<exists>row. bk_txns (books (w_db w)) i = Some row \<and> t = row\<lparr>txn_Entries := txn_Entries t\<rparr>"
    and "group_ok (txn_Currency t) (txn_Entries t)" and "txn_ID t = i" and "txn_MerchantID t \<noteq> []"
    and "mset (txn_Entries t) = mset (entries_of i (books (w_db w)))"
proof -
  obtain db where g: "repo_GetTransaction R (ambient_at E (w_tick w)) i (w_db w) = (Ok t, db)" and w': "w_db w' = db"
    using assms(1) by (auto simp: call_eq_Ok)
  from get_txn_Ok [OF assms(2) g] obtain row where row: "db = w_db w" "bk_txns (books (w_db w)) i = Some row"
    "t = row\<lparr>txn_Entries := txn_Entries t\<rparr>" "mset (txn_Entries t) = mset (entries_of i (books (w_db w)))" by blast
  then show "w_db w' = w_db w"
    "\<exists>row. bk_txns (books (w_db w)) i = Some row \<and> t = row\<lparr>txn_Entries := txn_Entries t\<rparr>"
    "mset (txn_Entries t) = mset (entries_of i (books (w_db w)))"
    using w' by auto
  have "txn_ok (books (w_db w)) i row" by (rule books_okD(5) [OF assms(3) row(2)])
  moreover have "txn_Currency t = txn_Currency row" "txn_ID t = txn_ID row" "txn_MerchantID t = txn_MerchantID row"
    by (subst row(3), simp)+
  ultimately show "group_ok (txn_Currency t) (txn_Entries t)" "txn_ID t = i" "txn_MerchantID t \<noteq> []"
    by (simp_all add: txn_ok_def group_ok_mset [OF row(4)])
qed

lemma set_status_Ok:
  assumes "call E (\<lambda>c. repo_SetTransactionStatus R c i st at) w = (Ok u, w')" and "wf (w_db w)"
  shows "wf (w_db w')" and "books (w_db w') = books_status i st at (books (w_db w))"
  using assms status_Ok by (auto simp: call_eq_Ok)

text \<open>A posting that mirrors a transaction of the books.\<close>

lemma Post_mirror:
  assumes "Post R E spec w = (Ok t, w')" and "wf (w_db w)" and "books_ok (books (w_db w))"
    and "ts_Entries spec = map mirrored es" and "group_ok c es"
  shows "wf (w_db w')" and "books_ok (books (w_db w'))"
    and "moves (\<lambda>a. if ts_Pending spec then 0 else - net_any a es)
      (\<lambda>a. if ts_Pending spec then - net_any a es else 0) (books (w_db w)) (books (w_db w'))"
    and "posts spec t (books (w_db w)) (books (w_db w'))"
proof -
  have ty: "typed_spec spec"
    using assms(4) group_entry(5) [OF assms(5)] by (auto simp: typed_spec_def list_all_iff mirrored_def)
  note p = Post_posts [OF assms(1-3) ty]
  show "wf (w_db w')" "books_ok (books (w_db w'))" by (rule Post_books_ok [OF assms(1-3) ty])+
  show "posts spec t (books (w_db w)) (books (w_db w'))" using p by simp
  then show "moves (\<lambda>a. if ts_Pending spec then 0 else - net_any a es)
      (\<lambda>a. if ts_Pending spec then - net_any a es else 0) (books (w_db w)) (books (w_db w'))"
    using posts_mirror_moves assms(3-5) by blast
qed

text \<open>The authorization a void or a capture works on, with its hold.\<close>

lemma pending_hold:
  assumes "books_ok B" and "bk_txns B i = Some row" and "IsPending row"
  shows "net_any x (entries_of i B) = net StatusPending x (entries_of i B)"
  using books_okD(5) [OF assms(1,2)] assms(3) by (intro net_any_uniform) (simp add: txn_ok_def)

lemma Void_effect:
  assumes "Void R E i w = (Ok t, w')" and w: "wf (w_db w)" "books_ok (books (w_db w))"
  shows "wf (w_db w') \<and> books_ok (books (w_db w'))
    \<and> (\<exists>row. bk_txns (books (w_db w)) i = Some row \<and> IsPending row)
    \<and> moves (\<lambda>a. 0) (\<lambda>a. - net StatusPending a (entries_of i (books (w_db w)))) (books (w_db w)) (books (w_db w'))
    \<and> (\<exists>row'. bk_txns (books (w_db w')) i = Some row' \<and> txn_Status row' = StatusVoided)"
proof -
  let ?B = "books (w_db w)"
  obtain auth w1 where g: "call E (\<lambda>c. repo_GetTransaction R c i) w = (Ok auth, w1)" and pend: "IsPending auth"
    using assms(1) by (auto simp: Void_def seq_eq_Ok split: if_splits)
  note a = get_transaction_Ok [OF g w]
  have m: "mirror_entries (txn_Entries auth) = Ok (map mirrored (txn_Entries auth))"
    by (rule mirror_entries_ok [OF a(3)])
  define spec where "spec = \<lparr>ts_MerchantID = txn_MerchantID auth, ts_Description = ''void of authorization '' @ txn_ID auth,
      ts_ExternalRef = txn_ExternalRef auth, ts_Entries = map mirrored (txn_Entries auth), ts_Pending = True,
      ts_Metadata = [(''voids'', JString (txn_ID auth))]\<rparr>"
  obtain w2 where po: "Post R E spec w1 = (Ok t, w2)"
    and st: "call E (\<lambda>c. repo_SetTransactionStatus R c (txn_ID auth) StatusVoided None) w2 = (Ok (), w')"
    using assms(1) g pend by (auto simp: Void_def seq_eq_Ok m spec_def)
  have w1: "wf (w_db w1)" "books_ok (books (w_db w1))" using w a(1) by simp_all
  note p = Post_mirror [OF po w1 _ a(3), unfolded spec_def, simplified, folded spec_def]
  note s = set_status_Ok [OF st p(1)]
  obtain row where row: "bk_txns ?B i = Some row" "auth = row\<lparr>txn_Entries := txn_Entries auth\<rparr>" using a(2) by blast
  have rp: "IsPending row" using pend by (subst (asm) row(2)) (simp add: IsPending_def)
  have "net_any x (txn_Entries auth) = net StatusPending x (entries_of i ?B)" for x
    using pending_hold [OF w(2) row(1) rp] net_any_mset [OF a(6)] by metis
  with p(3) have "moves (\<lambda>a. 0) (\<lambda>a. - net StatusPending a (entries_of i ?B)) ?B (books (w_db w2))"
    using a(1) by simp
  then have "moves (\<lambda>a. 0) (\<lambda>a. - net StatusPending a (entries_of i ?B)) ?B (books (w_db w'))"
    unfolding s(2) by (rule moves_status)
  moreover have "bk_txns (books (w_db w2)) i \<noteq> None"
    using p(4) row(1) a(1) by (auto simp: posts_def)
  then have "\<exists>row'. bk_txns (books (w_db w')) i = Some row' \<and> txn_Status row' = StatusVoided"
    unfolding s(2) a(4) by (auto simp: books_status_def set_status_def)
  moreover have "books_ok (books (w_db w'))" unfolding s(2) by (rule books_ok_status [OF p(2)]) simp
  ultimately show ?thesis using s(1) row(1) rp by blast
qed

lemma Capture_effect:
  assumes "Service_Capture R E i amt w = (Ok t, w')" and w: "wf (w_db w)" "books_ok (books (w_db w))"
  shows "wf (w_db w') \<and> books_ok (books (w_db w'))
    \<and> (\<exists>row n. bk_txns (books (w_db w)) i = Some row \<and> IsPending row
        \<and> capture_amount (row\<lparr>txn_Entries := entries_of i (books (w_db w))\<rparr>) amt = Ok n
        \<and> debit_sum (map spec_entry (txn_Entries t)) = n \<and> credit_sum (map spec_entry (txn_Entries t)) = n)
    \<and> moves (\<lambda>a. net StatusPosted a (txn_Entries t)) (\<lambda>a. - net StatusPending a (entries_of i (books (w_db w))))
        (books (w_db w)) (books (w_db w'))
    \<and> (\<exists>row'. bk_txns (books (w_db w')) i = Some row' \<and> txn_Status row' = StatusPosted)"
proof -
  let ?B = "books (w_db w)"
  obtain auth w1 n where g: "call E (\<lambda>c. repo_GetTransaction R c i) w = (Ok auth, w1)" and pend: "IsPending auth"
    and ne: "txn_Entries auth \<noteq> []" and n: "capture_amount auth amt = Ok n"
    using assms(1) by (auto simp: Service_Capture_def seq_eq_Ok split: if_splits)
  note a = get_transaction_Ok [OF g w]
  have m: "mirror_entries (txn_Entries auth) = Ok (map mirrored (txn_Entries auth))"
    by (rule mirror_entries_ok [OF a(3)])
  note nb = capture_amount_bounds [OF n a(3)]
  obtain ps where ps: "scaleEntries (txn_Entries auth) n (Total auth) = Ok ps" "list_all (entry_spec_ok (txn_Currency auth)) ps"
    "debit_sum ps = n" "credit_sum ps = n"
    using scaleEntries_balanced [OF a(3) nb(1,2)] Total_debits [OF a(3)] by auto
  define rel where "rel = \<lparr>ts_MerchantID = txn_MerchantID auth, ts_Description = ''release of authorization '' @ txn_ID auth,
      ts_ExternalRef = txn_ExternalRef auth, ts_Entries = map mirrored (txn_Entries auth), ts_Pending = True,
      ts_Metadata = [(''releases'', JString (txn_ID auth))]\<rparr>"
  define cap where "cap = \<lparr>ts_MerchantID = txn_MerchantID auth, ts_Description = ''capture of authorization '' @ txn_ID auth,
      ts_ExternalRef = txn_ExternalRef auth, ts_Entries = ps, ts_Pending = False,
      ts_Metadata = [(''captures'', JString (txn_ID auth))]\<rparr>"
  obtain r w2 w3 where rp: "Post R E rel w1 = (Ok r, w2)" and cp: "Post R E cap w2 = (Ok t, w3)"
    and st: "call E (\<lambda>c. repo_SetTransactionStatus R c (txn_ID auth) StatusPosted (Some (env_now E (w_tick w3))))
      (w3\<lparr>w_tick := Suc (w_tick w3)\<rparr>) = (Ok (), w')"
    using assms(1) g pend ne unfolding Service_Capture_def
    by (auto simp: seq_eq_Ok m n ps(1) rel_def [symmetric] cap_def [symmetric] simp del: append.simps)
  let ?at = "env_now E (w_tick w3)"
  have w1: "wf (w_db w1)" "books_ok (books (w_db w1))" using w a(1) by simp_all
  note p = Post_mirror [OF rp w1 _ a(3), unfolded rel_def, simplified, folded rel_def]
  have ty: "typed_spec cap" by (rule typed_of_sums [of _ cap n]) (use ps nb in \<open>simp_all add: cap_def\<close>)
  note q = Post_posts [OF cp p(1,2) ty] Post_books_ok [OF cp p(1,2) ty]
  have s: "wf (w_db w')" "books (w_db w') = books_status i StatusPosted (Some ?at) (books (w_db w3))"
    using set_status_Ok [OF st] q(2) a(4) by simp_all
  obtain row where row: "bk_txns ?B i = Some row" "auth = row\<lparr>txn_Entries := txn_Entries auth\<rparr>" using a(2) by blast
  have rp': "IsPending row" using pend by (subst (asm) row(2)) (simp add: IsPending_def)
  have same: "capture_amount (row\<lparr>txn_Entries := entries_of i ?B\<rparr>) amt = Ok n"
  proof -
    have "row\<lparr>txn_Entries := entries_of i ?B\<rparr> = auth\<lparr>txn_Entries := entries_of i ?B\<rparr>" by (subst row(2)) simp
    then show ?thesis using capture_amount_mset [OF a(3) a(6)] n by simp
  qed
  have "moves (\<lambda>a. 0) (\<lambda>a. - net_any a (txn_Entries auth)) ?B (books (w_db w2))" using p(3) a(1) by simp
  moreover have "moves (\<lambda>a. net StatusPosted a (txn_Entries t)) (\<lambda>a. net StatusPending a (txn_Entries t))
      (books (w_db w2)) (books (w_db w3))" using q(1) posts_moves by blast
  moreover have "net StatusPending x (txn_Entries t) = 0" for x
    using q(1) by (intro net_other_status [of _ StatusPosted]) (auto simp: posts_def cap_def)
  ultimately have "moves (\<lambda>a. net StatusPosted a (txn_Entries t)) (\<lambda>a. - net StatusPending a (entries_of i ?B)) ?B (books (w_db w3))"
    using moves_trans [of "\<lambda>a. 0"] pending_hold [OF w(2) row(1) rp'] net_any_mset [OF a(6)] by fastforce
  then have "moves (\<lambda>a. net StatusPosted a (txn_Entries t)) (\<lambda>a. - net StatusPending a (entries_of i ?B)) ?B (books (w_db w'))"
    unfolding s(2) by (rule moves_status)
  moreover have "bk_txns (books (w_db w3)) i \<noteq> None"
    using p(4) q(1) row(1) a(1) by (auto simp: posts_def)
  then have "\<exists>row'. bk_txns (books (w_db w')) i = Some row' \<and> txn_Status row' = StatusPosted"
    unfolding s(2) by (auto simp: books_status_def set_status_def)
  moreover have "books_ok (books (w_db w'))" unfolding s(2) by (rule books_ok_status [OF q(3)]) simp
  moreover have "map spec_entry (txn_Entries t) = ps" using q(1) by (simp add: posts_def cap_def)
  ultimately show ?thesis using s(1) row(1) rp' same ps(3,4) by auto
qed

lemma Reverse_effect:
  assumes "Reverse R E i reason w = (Ok t, w')" and w: "wf (w_db w)" "books_ok (books (w_db w))"
  shows "wf (w_db w') \<and> books_ok (books (w_db w'))
    \<and> (\<exists>row. bk_txns (books (w_db w)) i = Some row \<and> txn_Status row = StatusPosted)
    \<and> moves (\<lambda>a. - net_any a (entries_of i (books (w_db w)))) (\<lambda>a. 0) (books (w_db w)) (books (w_db w'))
    \<and> txn_ReversesID t = i \<and> bk_txns (books (w_db w')) (txn_ID t) = Some (t\<lparr>txn_Entries := []\<rparr>)"
proof -
  let ?B = "books (w_db w)"
  obtain orig w1 ex w2 where g: "call E (\<lambda>c. repo_GetTransaction R c i) w = (Ok orig, w1)"
    and posted: "txn_Status orig = StatusPosted"
    and ex: "attempt (call E (\<lambda>c. repo_FindReversal R c i)) w1 = (Ok ex, w2)"
    using assms(1) by (auto simp: Reverse_def seq_eq_Ok split: if_splits)
  note a = get_transaction_Ok [OF g w]
  have m: "mirror_entries (txn_Entries orig) = Ok (map mirrored (txn_Entries orig))"
    by (rule mirror_entries_ok [OF a(3)])
  define spec where "spec = reversal_spec orig reason (map mirrored (txn_Entries orig))"
  have spec: "ts_Entries spec = map mirrored (txn_Entries orig)" "ts_Pending spec = False"
    by (simp_all add: spec_def reversal_spec_def)
  have db2: "w_db w2 = w_db w1"
    using ex find_reversal [of "w_db w1"] w a(1)
    by (auto simp: attempt_def call_def split: prod.splits outcome.splits)
  have run: "seq (ret (Spec_Validate spec)) (\<lambda>_. seq (call E (\<lambda>c. repo_LockAccounts R c (AccountIDs spec))) (\<lambda>locked.
      seq (new_id E PrefixTransaction) (\<lambda>k. seq (clock_now E) (\<lambda>now.
      record_transaction R E spec locked (transaction_row spec (txn_ID orig) k now))))) w2 = (Ok t, w')"
    using assms(1) g posted ex by (auto simp: Reverse_def seq_eq_Ok m spec_def [symmetric] Let_def split: if_splits)
  then have v: "Spec_Validate spec = Ok ()" by (cases "Spec_Validate spec") (auto simp: seq_ret_eq)
  have ty: "typed_spec spec"
    using group_entry(5) [OF a(3)] by (auto simp: typed_spec_def list_all_iff mirrored_def spec)
  have sp: "spec_ok spec" using v Spec_Validate_spec_ok ty by (simp add: typed_spec_def)
  have w2: "wf (w_db w2)" "books_ok (books (w_db w2))" using w a(1) db2 by simp_all
  have "wf (w_db w') \<and> posts spec t (books (w_db w2)) (books (w_db w'))
    \<and> (\<exists>k now. t = (transaction_row spec (txn_ID orig) k now)\<lparr>txn_Entries := txn_Entries t\<rparr>)"
    by (rule locked_posting [OF _ w2 sp ty]) (use run v in \<open>simp add: seq_ret_eq\<close>)
  then obtain k now where wf': "wf (w_db w')" and po: "posts spec t ?B (books (w_db w'))"
    and t: "t = (transaction_row spec (txn_ID orig) k now)\<lparr>txn_Entries := txn_Entries t\<rparr>"
    using db2 a(1) by auto
  have "moves (\<lambda>x. - net_any x (entries_of i ?B)) (\<lambda>x. 0) ?B (books (w_db w'))"
    using posts_mirror_moves [OF po spec(1) a(3) w(2)] by (simp add: spec(2) net_any_mset [OF a(6)])
  moreover have "txn_ReversesID t = i" by (subst t) (simp add: transaction_row_def a(4))
  moreover have "bk_txns (books (w_db w')) (txn_ID t) = Some (t\<lparr>txn_Entries := []\<rparr>)"
    using po by (simp add: posts_def)
  moreover have "\<exists>row. bk_txns ?B i = Some row \<and> txn_Status row = StatusPosted"
    using a(2) posted by (metis transaction_status_entries)
  ultimately show ?thesis using wf' transaction_row_books_ok [OF po sp w(2) t] by blast
qed

lemma CreateAccount_books_ok:
  assumes "Service_CreateAccount R E a0 w = (Ok a, w')" and w: "wf (w_db w)" "books_ok (books (w_db w))"
  shows "wf (w_db w') \<and> books_ok (books (w_db w')) \<and> (\<exists>at. books (w_db w') = books_create at a (books (w_db w)))
    \<and> Account_Validate a = Ok () \<and> bk_accounts (books (w_db w)) (acc_ID a) = None \<and> acc_MerchantID a = acc_MerchantID a0"
proof -
  obtain a1 v1 a2 v2 v3 u x where
    1: "(if acc_ID a0 = [] then seq (new_id E PrefixAccount) (\<lambda>i. ret (Ok (a0\<lparr>acc_ID := i\<rparr>))) else ret (Ok a0)) w = (Ok a1, v1)" and
    2: "(if acc_NormalBalance a1 = []
        then ret (andThen (NormalBalance (acc_Type a1)) (\<lambda>normal. Ok (a1\<lparr>acc_NormalBalance := normal\<rparr>))) else ret (Ok a1)) v1 = (Ok a2, v2)" and
    3: "(if acc_CreatedAt a2 = zero_time then seq (clock_now E) (\<lambda>now. ret (Ok (a2\<lparr>acc_CreatedAt := now\<rparr>))) else ret (Ok a2)) v2 = (Ok a, v3)" and
    u: "Account_Validate a = Ok u" and x: "call E (\<lambda>c. repo_CreateAccount R c a) v3 = (Ok x, w')"
    using assms(1) unfolding Service_CreateAccount_def seq_eq_Ok ret_eq_Ok outcome.inject by blast
  have v: "Account_Validate a = Ok ()" using u by simp
  have "acc_MerchantID a1 = acc_MerchantID a0" using 1 by (auto simp: seq_eq_Ok split: if_splits)
  moreover have "acc_MerchantID a2 = acc_MerchantID a1" using 2 by (auto split: if_splits)
  moreover have "acc_MerchantID a = acc_MerchantID a2" using 3 by (auto simp: seq_eq_Ok split: if_splits)
  ultimately have merchant: "acc_MerchantID a = acc_MerchantID a0" by simp
  have "w_db v1 = w_db w" using 1 by (auto simp: seq_eq_Ok split: if_splits dest: new_id_db)
  moreover have "w_db v2 = w_db v1" using 2 by (auto split: if_splits)
  moreover have "w_db v3 = w_db v2" using 3 by (auto simp: seq_eq_Ok split: if_splits)
  ultimately obtain k where c: "repo_CreateAccount R (ambient_at E k) a (w_db w) = (Ok (), w_db w')"
    using x by (auto simp: call_eq_Ok)
  have "Currency_Valid (acc_Currency a)" using v by (simp add: Account_Validate_Ok)
  then have "wf (w_db w') \<and> bk_accounts (books (w_db w)) (acc_ID a) = None \<and> (\<exists>at. books (w_db w') = books_create at a (books (w_db w)))"
    by (rule create_Ok [OF w(1) c])
  then show ?thesis using books_ok_create [OF w(2) _ v] v merchant by auto
qed

end

section \<open>Runs of the service\<close>

datatype command =
    CmdCreateAccount Account
  | CmdPost TransactionSpec
  | CmdCapture string "money option"
  | CmdVoid string
  | CmdReverse string string

text \<open>A request of the right Go types: amounts are \<open>int64\<close>.\<close>

fun typed_command :: "command \<Rightarrow> bool" where
  "typed_command (CmdPost spec) = typed_spec spec"
| "typed_command _ = True"

fun run_command :: "'s Repository \<Rightarrow> env \<Rightarrow> command \<Rightarrow> ('s world, unit) opr" where
  "run_command R E (CmdCreateAccount a) = seq (Service_CreateAccount R E a) (\<lambda>_. ret (Ok ()))"
| "run_command R E (CmdPost spec) = seq (Post R E spec) (\<lambda>_. ret (Ok ()))"
| "run_command R E (CmdCapture i amt) = seq (Service_Capture R E i amt) (\<lambda>_. ret (Ok ()))"
| "run_command R E (CmdVoid i) = seq (Void R E i) (\<lambda>_. ret (Ok ()))"
| "run_command R E (CmdReverse i reason) = seq (Reverse R E i reason) (\<lambda>_. ret (Ok ()))"

text \<open>A run: commands one after the other, each in its own database transaction, succeeding or not.\<close>

inductive ledger_run :: "'s Repository \<Rightarrow> env \<Rightarrow> 's world \<Rightarrow> 's world \<Rightarrow> bool" for R E where
  start: "ledger_run R E w w"
| step: "ledger_run R E w w' \<Longrightarrow> typed_command c \<Longrightarrow> InTx (run_command R E c) w' = (r, w'') \<Longrightarrow> ledger_run R E w w''"

lemma InTx_cases:
  assumes "InTx m w = (r, w')"
  obtains (commit) x where "r = Ok x" "m w = (Ok x, w')" | (rollback) "\<forall>x. r \<noteq> Ok x" "w_db w' = w_db w"
  using assms by (auto simp: InTx_def split: prod.splits outcome.splits)

context repository
begin

lemma run_command_ok:
  assumes "run_command R E c w = (Ok u, w')" and "typed_command c" and "wf (w_db w)" "books_ok (books (w_db w))"
  shows "wf (w_db w') \<and> books_ok (books (w_db w'))"
proof (cases c)
  case (CmdPost spec)
  then show ?thesis using assms Post_books_ok by (auto simp: seq_eq_Ok)
qed (use assms CreateAccount_books_ok Capture_effect Void_effect Reverse_effect in \<open>fastforce simp: seq_eq_Ok\<close>)+

theorem run_invariant:
  assumes "ledger_run R E w w'" and "wf (w_db w)" and "books_ok (books (w_db w))"
  shows "wf (w_db w') \<and> books_ok (books (w_db w'))"
  using assms
proof (induction rule: ledger_run.induct)
  case (step w w' c r w'')
  from step.hyps(3) show ?case
  proof (cases rule: InTx_cases)
    case commit
    then show ?thesis using run_command_ok step by blast
  next
    case rollback
    then show ?thesis using step by simp
  qed
qed simp

end

section \<open>The ledger over the in-memory store\<close>

definition new_world :: "generator \<Rightarrow> Store world" where
  "new_world g = \<lparr>w_db = Store_New, w_gen = g, w_tick = 0\<rparr>"

abbreviation reachable :: "env \<Rightarrow> generator \<Rightarrow> Store world \<Rightarrow> bool" where
  "reachable E g w \<equiv> ledger_run memory_repo E (new_world g) w"

lemma reachable_ok:
  assumes "reachable E g w"
  shows "store_ok (w_db w)" and "books_ok (books_of (w_db w))"
  using mem.run_invariant [OF assms]
  by (simp_all add: new_world_def store_ok_New books_of_New books_ok_empty)

lemma account_entries_filter:
  assumes "store_ok s"
  shows "account_entries s i = filter (\<lambda>e. ent_AccountID e = i) (st_entries s)"
proof -
  have "account_entries s i =
      map (\<lambda>k. st_entries s ! k) (filter (\<lambda>k. ent_AccountID (st_entries s ! k) = i) [0..<length (st_entries s)])"
    using assms unfolding store_ok_def index_ok_def account_entries_def by simp
  also have "\<dots> = filter (\<lambda>e. ent_AccountID e = i) (map (\<lambda>k. st_entries s ! k) [0..<length (st_entries s)])"
    by (simp add: filter_map comp_def)
  finally show ?thesis by (simp add: map_nth)
qed

lemma derived_sum_net:
  assumes "\<forall>e\<in>set es. 0 < ent_Amount e \<and> in64 (ent_Amount e)"
  shows "derived_sum st a (filter (\<lambda>e. ent_AccountID e = acc_ID a) es) = wrap64 (net st a es)"
proof -
  have "foldl (\<lambda>sum e. if ent_Status e \<noteq> st then sum else wrap64 (sum + SignedDelta a (ent_Direction e) (ent_Amount e)))
      (wrap64 x) (filter (\<lambda>e. ent_AccountID e = acc_ID a) es) = wrap64 (x + net st a es)" for x
    using assms
    by (induction es arbitrary: x) (auto simp: SignedDelta_delta wrap64_add add.assoc)
  from this [of 0] show ?thesis by (simp add: derived_sum_def)
qed

lemma log_amounts:
  assumes "books_ok B" and "e \<in> set (bk_log B)"
  shows "0 < ent_Amount e" and "in64 (ent_Amount e)" and "Direction_Valid (ent_Direction e)"
proof -
  have "ent_TransactionID e \<in> dom (bk_txns B)" using books_okD(4) [OF assms] by (simp add: entry_ok_def)
  then obtain t where "bk_txns B (ent_TransactionID e) = Some t" by blast
  then have "group_ok (txn_Currency t) (entries_of (ent_TransactionID e) B)"
    using books_okD(5) [OF assms(1)] by (auto simp: txn_ok_def)
  moreover have "e \<in> set (entries_of (ent_TransactionID e) B)" using assms(2) by (simp add: entries_of_def)
  ultimately show "0 < ent_Amount e" "in64 (ent_Amount e)" "Direction_Valid (ent_Direction e)"
    using group_entry by blast+
qed

lemma store_derived:
  assumes "store_ok s" and "books_ok (books_of s)" and "map_of (st_accounts s) i = Some a"
  shows "derived_sum st a (account_entries s i) = wrap64 (net st a (st_entries s))"
proof -
  have "acc_ID a = i" using books_okD(1) [OF assms(2)] assms(3) by (auto simp: books_of_def account_ok_def)
  then show ?thesis
    using derived_sum_net [of "st_entries s" st a] log_amounts(1,2) [OF assms(2)]
    by (simp add: account_entries_filter [OF assms(1)] books_of_def)
qed

section \<open>A sample run\<close>

definition run_all :: "'s Repository \<Rightarrow> env \<Rightarrow> command list \<Rightarrow> 's world \<Rightarrow> 's world" where
  "run_all R E cs w = fold (\<lambda>c w. snd (InTx (run_command R E c) w)) cs w"

lemma run_all_ledger_run: "list_all typed_command cs \<Longrightarrow> ledger_run R E w (run_all R E cs w)"
proof (induction cs rule: rev_induct)
  case Nil
  then show ?case by (simp add: run_all_def ledger_run.start)
next
  case (snoc c cs)
  then have "ledger_run R E w (run_all R E cs w)" "typed_command c" by simp_all
  then show ?case
    using ledger_run.step [of R E w "run_all R E cs w" c] by (simp add: run_all_def) (metis prod.collapse)
qed

definition succeeds :: "'a outcome \<times> 's \<Rightarrow> bool" where
  "succeeds p = (case fst p of Ok _ \<Rightarrow> True | _ \<Rightarrow> False)"

lemma succeedsE:
  assumes "succeeds p"
  obtains x s where "p = (Ok x, s)"
  using assms by (cases p) (auto simp: succeeds_def split: outcome.splits)

definition txn_at :: "nat \<Rightarrow> Store world \<Rightarrow> string" where
  "txn_at k w = fst (st_transactions (w_db w) ! k)"

definition sample_env :: env where
  "sample_env = \<lparr>env_now = (\<lambda>k. 1000000), env_rand = (\<lambda>k. Some (replicate 10 0)), env_cancelled = (\<lambda>k. False)\<rparr>"

definition sample_account :: "string \<Rightarrow> AccountType \<Rightarrow> bool \<Rightarrow> Account" where
  "sample_account i ty neg = \<lparr>acc_ID = i, acc_MerchantID = ''m'', acc_Name = i, acc_Type = ty, acc_NormalBalance = [],
     acc_Currency = ''USD'', acc_AllowNegative = neg, acc_Metadata = [], acc_CreatedAt = 1\<rparr>"

definition sample_accounts :: "bool \<Rightarrow> command list" where
  "sample_accounts neg = [CmdCreateAccount (sample_account ''a'' Asset neg), CmdCreateAccount (sample_account ''b'' Liability neg)]"

definition sample_posting :: "bool \<Rightarrow> TransactionSpec" where
  "sample_posting pending = \<lparr>ts_MerchantID = ''m'', ts_Description = [], ts_ExternalRef = [],
      ts_Entries = [\<lparr>es_AccountID = ''a'', es_Direction = Debit, es_Amount = \<lparr>amount = 5, currency = ''USD''\<rparr>\<rparr>,
         \<lparr>es_AccountID = ''b'', es_Direction = Credit, es_Amount = \<lparr>amount = 5, currency = ''USD''\<rparr>\<rparr>],
      ts_Pending = pending, ts_Metadata = []\<rparr>"

lemma typed_sample: "typed_spec (sample_posting pending)" "list_all typed_command (sample_accounts neg)"
  by (simp_all add: typed_spec_def sample_posting_def sample_accounts_def in64_def)

text \<open>The books after one posting, \<open>sample_world False\<close>, or after one authorization, \<open>sample_world True\<close>.\<close>

definition sample_world :: "bool \<Rightarrow> Store world" where
  "sample_world pending =
     run_all memory_repo sample_env (sample_accounts False @ [CmdPost (sample_posting pending)]) (new_world sample_generator)"

lemma sample_reachable: "reachable sample_env sample_generator (sample_world pending)"
  unfolding sample_world_def by (rule run_all_ledger_run) (simp add: typed_sample)

lemma materialized_derived:
  assumes ok: "store_ok (w_db w)" "books_ok (books_of (w_db w))" and "Mem_GetBalance c i (w_db w) = (Ok b, s')"
  shows "bal_Posted b = DerivedBalance (w_db w) i \<and> bal_Pending b = DerivedPending (w_db w) i"
proof -
  have b: "map_of (st_balances (w_db w)) i = Some b"
    using assms(3) by (auto simp: Mem_GetBalance_def split: option.splits)
  then obtain a where a: "map_of (st_accounts (w_db w)) i = Some a" using ok(1) by (force simp: store_ok_def)
  have "balance_ok (st_entries (w_db w)) a b"
    using books_okD(3) [OF ok(2), of i a b] a b by (simp add: books_of_def)
  then show ?thesis
    using store_derived [OF ok a] by (auto simp: DerivedBalance_def DerivedPending_def a balance_ok_def)
qed



text \<open>
  C2. The trial balance: in every reachable state the debits and the credits of each
  currency, over all entries ever written, are equal, for the posted and for the pending
  entries separately.
\<close>

theorem trial_balance_zero:
  assumes "reachable E g w"
  shows "sum_list (map (\<lambda>e. if ent_Currency e = c \<and> ent_Status e = st then
      (if ent_Direction e = Debit then ent_Amount e else - ent_Amount e) else 0) (AllEntries (w_db w))) = 0"
  using books_okD(6) [OF reachable_ok(2) [OF assms], of c st]
  unfolding trial_def AllEntries_def books_of_def debit_positive_def by simp

lemma trial_balance_zero_witness:
  "length (AllEntries (w_db (sample_world False))) = 2 \<and>
    sum_list (map (\<lambda>e. if ent_Currency e = ''USD'' \<and> ent_Status e = StatusPosted then
      (if ent_Direction e = Debit then ent_Amount e else - ent_Amount e) else 0) (AllEntries (w_db (sample_world False)))) = 0"
proof
  show "length (AllEntries (w_db (sample_world False))) = 2" by code_simp
qed (rule trial_balance_zero [OF sample_reachable])

text \<open>
  C3. Invariant I6: in every reachable state an account that does not allow negative balances
  has a non-negative posted balance, also after all its outstanding holds. The statement is
  over the integers: the 64-bit sum the code compares with zero cannot have wrapped.
\<close>

theorem no_overdraft:
  assumes "reachable E g w" and "Mem_GetAccount c i (w_db w) = (Ok a, s1)" and "\<not> acc_AllowNegative a"
    and "Mem_GetBalance c i (w_db w) = (Ok b, s2)"
  shows "0 \<le> bal_Posted b \<and> 0 \<le> bal_Posted b + bal_Pending b"
proof -
  have "bk_accounts (books_of (w_db w)) i = Some a" "bk_balances (books_of (w_db w)) i = Some b"
    using assms(2,4) by (auto simp: Mem_GetAccount_def Mem_GetBalance_def books_of_def split: option.splits)
  then have "balance_ok (bk_log (books_of (w_db w))) a b"
    using books_okD(3) [OF reachable_ok(2) [OF assms(1)], of i a b] by blast
  then show ?thesis using assms(3) unfolding balance_ok_def by blast
qed

lemma no_overdraft_witness:
  "\<exists>a b s1 s2. Mem_GetAccount \<lparr>cancelled = False, wall_now = 0\<rparr> ''b'' (w_db (sample_world False)) = (Ok a, s1)
    \<and> \<not> acc_AllowNegative a
    \<and> Mem_GetBalance \<lparr>cancelled = False, wall_now = 0\<rparr> ''b'' (w_db (sample_world False)) = (Ok b, s2)
    \<and> 0 \<le> bal_Posted b \<and> 0 \<le> bal_Posted b + bal_Pending b"
proof -
  let ?c = "\<lparr>cancelled = False, wall_now = 0\<rparr>"
  have "map_option acc_AllowNegative (map_of (st_accounts (w_db (sample_world False))) ''b'') = Some False"
    "map_option bal_Posted (map_of (st_balances (w_db (sample_world False))) ''b'') = Some 5" by code_simp+
  then obtain a b where "map_of (st_accounts (w_db (sample_world False))) ''b'' = Some a" "\<not> acc_AllowNegative a"
    "map_of (st_balances (w_db (sample_world False))) ''b'' = Some b" by auto
  then have get: "Mem_GetAccount ?c ''b'' (w_db (sample_world False)) = (Ok a, w_db (sample_world False))" "\<not> acc_AllowNegative a"
    "Mem_GetBalance ?c ''b'' (w_db (sample_world False)) = (Ok b, w_db (sample_world False))"
    by (simp_all add: Mem_GetAccount_def Mem_GetBalance_def)
  from no_overdraft [OF sample_reachable this] get show ?thesis by blast
qed

text \<open>Summing the movements of all accounts of a currency gives the trial balance of the currency.\<close>

lemma sum_pick:
  fixes f :: "Account \<Rightarrow> int"
  assumes "distinct (map acc_ID as)" and "a \<in> set as"
  shows "sum_list (map (\<lambda>x. if acc_ID x = acc_ID a then f x else 0) as) = f a"
  using assms
proof (induction as)
  case (Cons x as)
  show ?case
  proof (cases "x = a")
    case True
    have "map (\<lambda>x. if acc_ID x = acc_ID a then f x else 0) as = map (\<lambda>x. 0) as"
      using Cons.prems True by (intro map_cong refl) (simp, metis image_eqI)
    then have "sum_list (map (\<lambda>x. if acc_ID x = acc_ID a then f x else 0) as) = 0"
      by (simp only: sum_list_0)
    then show ?thesis using True by simp
  next
    case False
    then have "a \<in> set as" using Cons.prems by simp
    then have "acc_ID x \<noteq> acc_ID a" using Cons.prems by (metis distinct.simps(2) image_eqI list.simps(9) set_map)
    then show ?thesis using Cons \<open>a \<in> set as\<close> by simp
  qed
qed simp

lemma equation_sum:
  assumes "distinct (map acc_ID as)" and "\<forall>a\<in>set as. NormalBalance (acc_Type a) = Ok (acc_NormalBalance a)"
    and "\<forall>e\<in>set es. 0 < ent_Amount e \<and> in64 (ent_Amount e) \<and> Direction_Valid (ent_Direction e)
      \<and> (\<exists>a\<in>set as. acc_ID a = ent_AccountID e \<and> acc_Currency a = ent_Currency e)"
  shows "sum_list (map (\<lambda>a. if acc_Currency a = c then EquationSign (acc_Type a) * net st a es else 0) as) = trial c st es"
  using assms(3)
proof (induction es)
  case Nil
  then show ?case by (simp add: sum_list_0 cong: if_cong)
next
  case (Cons e es)
  obtain a where a: "a \<in> set as" "acc_ID a = ent_AccountID e" "acc_Currency a = ent_Currency e"
    using Cons.prems by auto
  let ?g = "\<lambda>x. if acc_Currency x = c \<and> ent_Status e = st
    then EquationSign (acc_Type x) * delta x (ent_Direction e) (ent_Amount e) else 0"
  have "EquationSign (acc_Type a) * delta a (ent_Direction e) (ent_Amount e) = debit_positive (ent_Direction e) (ent_Amount e)"
    using EquationSign_SignedDelta [of a "ent_Direction e" "ent_Amount e"] assms(2) a(1) Cons.prems
    by (simp add: SignedDelta_delta)
  then have one: "sum_list (map (\<lambda>x. if acc_ID x = acc_ID a then ?g x else 0) as) =
      (if ent_Currency e = c \<and> ent_Status e = st then debit_positive (ent_Direction e) (ent_Amount e) else 0)"
    using sum_pick [OF assms(1) a(1), of ?g] a(3) by simp
  have "sum_list (map (\<lambda>x. if acc_Currency x = c then EquationSign (acc_Type x) * net st x (e # es) else 0) as) =
      sum_list (map (\<lambda>x. (if acc_ID x = acc_ID a then ?g x else 0)
        + (if acc_Currency x = c then EquationSign (acc_Type x) * net st x es else 0)) as)"
    using a(2) by (intro arg_cong [where f = sum_list] map_cong) (auto simp: distrib_left)
  also have "\<dots> = (if ent_Currency e = c \<and> ent_Status e = st then debit_positive (ent_Direction e) (ent_Amount e) else 0) + trial c st es"
    using Cons one by (simp only: sum_list_addf) simp
  finally show ?case by simp
qed

text \<open>Over any list of all the accounts, the equation follows from the invariant of the books.\<close>

lemma books_equation:
  assumes ok: "books_ok B" and dist: "distinct (map acc_ID as)"
    and sound: "\<forall>a\<in>set as. bk_accounts B (acc_ID a) = Some a" and all: "\<And>i a. bk_accounts B i = Some a \<Longrightarrow> a \<in> set as"
  shows "sum_list (map (\<lambda>a. if acc_Currency a = c then EquationSign (acc_Type a) * net StatusPosted a (bk_log B) else 0) as) = 0"
proof -
  have valid: "\<forall>a\<in>set as. NormalBalance (acc_Type a) = Ok (acc_NormalBalance a)"
    using sound books_okD(1) [OF ok] by (force simp: account_ok_def Account_Validate_Ok)
  have "\<forall>e\<in>set (bk_log B). 0 < ent_Amount e \<and> in64 (ent_Amount e) \<and> Direction_Valid (ent_Direction e)
      \<and> (\<exists>a\<in>set as. acc_ID a = ent_AccountID e \<and> acc_Currency a = ent_Currency e)"
  proof
    fix e
    assume e: "e \<in> set (bk_log B)"
    then obtain a where a: "bk_accounts B (ent_AccountID e) = Some a" "acc_Currency a = ent_Currency e"
      using books_okD(4) [OF ok] by (auto simp: entry_ok_def)
    moreover have "a \<in> set as" "acc_ID a = ent_AccountID e" using all [OF a(1)] books_okD(1) [OF ok a(1)] by (simp_all add: account_ok_def)
    ultimately show "0 < ent_Amount e \<and> in64 (ent_Amount e) \<and> Direction_Valid (ent_Direction e)
        \<and> (\<exists>a\<in>set as. acc_ID a = ent_AccountID e \<and> acc_Currency a = ent_Currency e)"
      using log_amounts [OF ok e] by blast
  qed
  from equation_sum [OF dist valid this] books_okD(6) [OF ok] show ?thesis by simp
qed

lemma books_posted:
  assumes "books_ok B" and "bk_accounts B i = Some a" and "bk_balances B i = Some b"
  shows "bal_Posted b = net StatusPosted a (bk_log B)" and "in64 (bal_Posted b)"
  using books_okD(3) [OF assms] unfolding balance_ok_def by blast+

definition posted_of :: "Store \<Rightarrow> string \<Rightarrow> int" where
  "posted_of s i = (case map_of (st_balances s) i of None \<Rightarrow> 0 | Some b \<Rightarrow> bal_Posted b)"

text \<open>
  C14. Invariant I9, the accounting equation: in every reachable state, over all accounts of
  a currency, assets and expenses minus liabilities, equity and revenue are zero.
\<close>

theorem accounting_equation:
  assumes "reachable E g w"
  shows "sum_list (map (\<lambda>a. if acc_Currency a = c then EquationSign (acc_Type a) * posted_of (w_db w) (acc_ID a) else 0)
    (AllAccounts (w_db w))) = 0"
proof -
  let ?s = "w_db w" and ?B = "books_of (w_db w)" and ?as = "AllAccounts (w_db w)"
  note ok = reachable_ok [OF assms]
  have same: "mset ?as = mset (map snd (st_accounts ?s))"
    unfolding AllAccounts_def sortAccounts_def by (rule mset_insertion_sort [where k = acc_ID]) simp
  have set_as: "set ?as = snd ` set (st_accounts ?s)" using mset_eq_setD [OF same] by simp
  have "mset (map acc_ID ?as) = mset (map acc_ID (map snd (st_accounts ?s)))" by (simp only: mset_map [of acc_ID] same)
  moreover have acc: "bk_accounts ?B i = Some a \<and> acc_ID a = i" if "(i, a) \<in> set (st_accounts ?s)" for i a
    using that ok books_okD(1) [OF ok(2), of i a] by (simp add: store_ok_def books_of_def account_ok_def)
  then have "map acc_ID (map snd (st_accounts ?s)) = map fst (st_accounts ?s)" by (auto simp: map_eq_conv split_beta)
  ultimately have dist: "distinct (map acc_ID ?as)"
    using ok(1) by (metis mset_eq_imp_distinct_iff store_ok_def)
  have sound: "\<forall>a\<in>set ?as. bk_accounts ?B (acc_ID a) = Some a" using acc by (auto simp: set_as)
  have all: "a \<in> set ?as" if "bk_accounts ?B i = Some a" for i a
    using that by (force simp: set_as books_of_def dest: map_of_SomeD)
  have "posted_of ?s (acc_ID a) = net StatusPosted a (bk_log ?B)" if "a \<in> set ?as" for a
  proof -
    have a: "bk_accounts ?B (acc_ID a) = Some a" using sound that by blast
    then obtain b where b: "bk_balances ?B (acc_ID a) = Some b" using books_okD(2) [OF ok(2)] by blast
    from books_posted(1) [OF ok(2) a b] b show ?thesis by (simp add: posted_of_def books_of_def)
  qed
  then have "map (\<lambda>a. if acc_Currency a = c then EquationSign (acc_Type a) * posted_of ?s (acc_ID a) else 0) ?as
      = map (\<lambda>a. if acc_Currency a = c then EquationSign (acc_Type a) * net StatusPosted a (bk_log ?B) else 0) ?as"
    by (intro map_cong refl) simp
  then show ?thesis by (simp only: books_equation [OF ok(2) dist sound all])
qed

lemma accounting_equation_witness:
  "map acc_ID (AllAccounts (w_db (sample_world False))) = [''a'', ''b''] \<and>
    sum_list (map (\<lambda>a. if acc_Currency a = ''USD'' then EquationSign (acc_Type a) * posted_of (w_db (sample_world False)) (acc_ID a) else 0)
    (AllAccounts (w_db (sample_world False)))) = 0"
proof
  show "map acc_ID (AllAccounts (w_db (sample_world False))) = [''a'', ''b'']" by code_simp
qed (rule accounting_equation [OF sample_reachable])

end
