(* ===== verification/Ledger_Effects.thy ===== *)
theory Ledger_Effects
  imports Ledger_Laws
begin

text \<open>
  What each request of the ledger service does, over the in-memory store, in every state the
  service can reach: posting refines the abstract \<open>posts\<close>, void releases a hold, capture
  exchanges it for a posted movement, reversal undoes a transaction once; the entry log only
  grows; and paging through an account's entries enumerates them all. At the end, two
  behaviours of reversal that the books show to be wrong.
\<close>

section \<open>Requests\<close>

definition open_world :: "Store world" where
  "open_world = run_all memory_repo sample_env (sample_accounts False) (new_world sample_generator)"

lemma open_reachable: "reachable sample_env sample_generator open_world"
  unfolding open_world_def by (rule run_all_ledger_run) (rule typed_sample)

text \<open>
  C6. Posting refines its abstract specification: a successful \<open>Post\<close> adds exactly one
  transaction row under a fresh identifier, appends exactly the requested entries, moves every
  balance by the sum of its entries and no other, keeps balances representable and funded,
  and stamps each entry with the posted balance it leaves.
\<close>

theorem Post_refines:
  assumes "reachable E g w" and "typed_spec spec" and "Post memory_repo E spec w = (Ok t, w')"
  shows "posts spec t (books_of (w_db w)) (books_of (w_db w'))"
  using mem.Post_posts [OF assms(3) reachable_ok [OF assms(1)] assms(2)] by simp

lemma Post_refines_witness:
  "\<exists>t w'. Post memory_repo sample_env (sample_posting False) open_world = (Ok t, w')
    \<and> posts (sample_posting False) t (books_of (w_db open_world)) (books_of (w_db w'))"
proof -
  have "succeeds (Post memory_repo sample_env (sample_posting False) open_world)" by code_simp
  then obtain t w' where p: "Post memory_repo sample_env (sample_posting False) open_world = (Ok t, w')" by (rule succeedsE)
  have "typed_spec (sample_posting False)" by (rule typed_sample)
  from Post_refines [OF open_reachable this p] p show ?thesis by blast
qed

text \<open>
  Voiding releases a hold and nothing else: it needs a pending transaction, leaves every
  posted balance as it was, takes the transaction's entries back out of the pending balances,
  and marks the transaction voided.
\<close>

theorem Void_releases:
  assumes "reachable E g w" and "Void memory_repo E i w = (Ok t, w')"
  shows "(\<exists>row. bk_txns (books_of (w_db w)) i = Some row \<and> IsPending row)
    \<and> moves (\<lambda>a. 0) (\<lambda>a. - net StatusPending a (entries_of i (books_of (w_db w)))) (books_of (w_db w)) (books_of (w_db w'))
    \<and> (\<exists>row'. bk_txns (books_of (w_db w')) i = Some row' \<and> txn_Status row' = StatusVoided)"
  using mem.Void_effect [OF assms(2) reachable_ok [OF assms(1)]] by blast

lemma Void_releases_witness:
  "\<exists>t w'. Void memory_repo sample_env (txn_at 0 (sample_world True)) (sample_world True) = (Ok t, w')
    \<and> (\<exists>row'. bk_txns (books_of (w_db w')) (txn_at 0 (sample_world True)) = Some row' \<and> txn_Status row' = StatusVoided)"
proof -
  have "succeeds (Void memory_repo sample_env (txn_at 0 (sample_world True)) (sample_world True))" by code_simp
  then obtain t w' where p: "Void memory_repo sample_env (txn_at 0 (sample_world True)) (sample_world True) = (Ok t, w')" by (rule succeedsE)
  from Void_releases [OF sample_reachable p] p show ?thesis by blast
qed



text \<open>
  C15. Reversing undoes a posted transaction: posted balances move by minus its entries,
  pending balances not at all, and the new row names the transaction it reverses.
\<close>

theorem Reverse_undoes:
  assumes "reachable E g w" and "Reverse memory_repo E i reason w = (Ok t, w')"
  shows "(\<exists>row. bk_txns (books_of (w_db w)) i = Some row \<and> txn_Status row = StatusPosted)
    \<and> moves (\<lambda>a. - net_any a (entries_of i (books_of (w_db w)))) (\<lambda>a. 0) (books_of (w_db w)) (books_of (w_db w'))
    \<and> txn_ReversesID t = i \<and> bk_txns (books_of (w_db w')) (txn_ID t) = Some (t\<lparr>txn_Entries := []\<rparr>)"
  using mem.Reverse_effect [OF assms(2) reachable_ok [OF assms(1)]] by blast

lemma Reverse_undoes_witness:
  "\<exists>t w'. Reverse memory_repo sample_env (txn_at 0 (sample_world False)) ''error'' (sample_world False) = (Ok t, w')
    \<and> txn_ReversesID t = txn_at 0 (sample_world False)"
proof -
  let ?m = "Reverse memory_repo sample_env (txn_at 0 (sample_world False)) ''error'' (sample_world False)"
  have "succeeds ?m" by code_simp
  then obtain t w' where p: "?m = (Ok t, w')" by (rule succeedsE)
  from Reverse_undoes [OF sample_reachable p] p show ?thesis by blast
qed

text \<open>
  C16. A transaction is reversed at most once: when the books hold a reversal of it, a further
  \<open>Reverse\<close> is refused, as long as the context of the call is not done.
\<close>

theorem Reverse_once:
  assumes "reachable E g w" and "bk_txns (books_of (w_db w)) i = Some orig" and "txn_Status orig = StatusPosted"
    and "bk_txns (books_of (w_db w)) j = Some rev_row" and "txn_ReversesID rev_row = i" and "\<forall>k. \<not> env_cancelled E k"
  shows "fst (Reverse memory_repo E i reason w) = Err ErrAlreadyReversed \<and> w_db (snd (Reverse memory_repo E i reason w)) = w_db w"
proof -
  let ?c = "\<lambda>k. ambient_at E k"
  have nc: "\<not> cancelled (?c k)" for k using assms(6) by (simp add: ambient_at_def)
  note ok = reachable_ok [OF assms(1)]
  have g: "repo_GetTransaction memory_repo (?c (w_tick w)) i (w_db w)
      = (Ok (orig\<lparr>txn_Entries := entries_of i (books_of (w_db w))\<rparr>), w_db w)"
    by (rule mem.get_txn_total [OF ok(1) nc assms(2)])
  obtain t where f: "repo_FindReversal memory_repo (?c (Suc (w_tick w))) i (w_db w) = (Ok t, w_db w)"
    using mem.find_reversal_total [OF ok(1) nc assms(4,5)] by blast
  from g f show ?thesis by (simp add: Reverse_def seq_def call_def attempt_def assms(3))
qed

lemma Reverse_once_witness:
  "\<exists>w. fst (Reverse memory_repo sample_env (txn_at 0 w) ''again'' w) = Err ErrAlreadyReversed"
proof -
  let ?cs = "sample_accounts False @ [CmdPost (sample_posting False), CmdReverse (txn_at 0 (sample_world False)) ''error'']"
  define w where "w = run_all memory_repo sample_env ?cs (new_world sample_generator)"
  have r: "reachable sample_env sample_generator w"
    unfolding w_def
    by (rule run_all_ledger_run) (simp add: typed_sample)
  have "map_option txn_Status (map_of (st_transactions (w_db w)) (txn_at 0 w)) = Some StatusPosted
      \<and> map_option txn_ReversesID (map_of (st_transactions (w_db w)) (txn_at 1 w)) = Some (txn_at 0 w)"
    unfolding w_def by code_simp
  then obtain x y where "bk_txns (books_of (w_db w)) (txn_at 0 w) = Some x" "txn_Status x = StatusPosted"
    "bk_txns (books_of (w_db w)) (txn_at 1 w) = Some y" "txn_ReversesID y = txn_at 0 w"
    by (auto simp: books_of_def)
  from Reverse_once [OF r this] show ?thesis by (auto simp: sample_env_def)
qed

section \<open>The log only grows\<close>

definition log_extends :: "Entry list \<Rightarrow> Store world \<Rightarrow> bool" where
  "log_extends es w \<longleftrightarrow> (\<exists>more. st_entries (w_db w) = es @ more)"

lemma append_loop_log: "append_loop es s = (out, s') \<Longrightarrow> st_entries s' = st_entries s @ out"
  by (induction es arbitrary: s out) (auto simp: Let_def split: prod.splits)

lemma apply_loop_log: "apply_loop now us s = (r, s') \<Longrightarrow> st_entries s' = st_entries s"
proof (induction now us s rule: apply_loop.induct)
  case (2 now u us s)
  then show ?case by (cases "map_of (st_balances s) (upd_AccountID u)") auto
qed simp

lemma keeps_log_call:
  "(\<And>c s r s'. f c s = (r, s') \<Longrightarrow> \<exists>more. st_entries s' = st_entries s @ more) \<Longrightarrow> keeps (log_extends es) (call E f)"
  unfolding keeps_def log_extends_def call_def by (auto split: prod.splits) (metis append_assoc)

lemma guarded_log:
  "guarded c m s = (r, s') \<Longrightarrow> (\<And>r s'. m s = (r, s') \<Longrightarrow> \<exists>more. st_entries s' = st_entries s @ more)
    \<Longrightarrow> \<exists>more. st_entries s' = st_entries s @ more"
  by (auto simp: guarded_def split: if_splits)

lemma keeps_repo [intro]:
  "keeps (log_extends es) (call E (\<lambda>c. repo_CreateAccount memory_repo c a))"
  "keeps (log_extends es) (call E (\<lambda>c. repo_LockAccounts memory_repo c ids))"
  "keeps (log_extends es) (call E (\<lambda>c. repo_ApplyBalances memory_repo c us))"
  "keeps (log_extends es) (call E (\<lambda>c. repo_InsertTransaction memory_repo c t))"
  "keeps (log_extends es) (call E (\<lambda>c. repo_SetTransactionStatus memory_repo c i st at))"
  "keeps (log_extends es) (call E (\<lambda>c. repo_GetTransaction memory_repo c i))"
  "keeps (log_extends es) (call E (\<lambda>c. repo_FindReversal memory_repo c i))"
  "keeps (log_extends es) (call E (\<lambda>c. repo_AppendEntries memory_repo c new))"
  by (rule keeps_log_call, simp add: memory_repo_def Mem_CreateAccount_def Mem_LockAccounts_def Mem_ApplyBalances_def
      Mem_InsertTransaction_def Mem_SetTransactionStatus_def Mem_GetTransaction_def Mem_FindReversal_def Mem_AppendEntries_def,
      erule guarded_log,
      auto simp: Let_def dest: append_loop_log apply_loop_log split: if_splits option.splits prod.splits)+

lemma keeps_process [intro]: "keeps (log_extends es) (new_id E pre)" "keeps (log_extends es) (clock_now E)"
  by (auto simp: keeps_def log_extends_def new_id_def clock_now_def split: prod.splits)

lemma keeps_pair: "(\<And>x y. keeps P (f x y)) \<Longrightarrow> keeps P (case p of (x, y) \<Rightarrow> f x y)"
  by (cases p) simp

lemmas keeps_intros = keeps_if keeps_pair keeps_seq keeps_ret keeps_repo keeps_process keeps_attempt

lemma keeps_record: "keeps (log_extends es) (record_transaction memory_repo E spec locked t)"
  unfolding record_transaction_def by (intro keeps_intros)

lemma keeps_Post: "keeps (log_extends es) (Post memory_repo E spec)"
  unfolding Post_def by (intro keeps_intros keeps_record)

lemma keeps_requests:
  "keeps (log_extends es) (Service_CreateAccount memory_repo E a)"
  "keeps (log_extends es) (Service_Capture memory_repo E i amt)"
  "keeps (log_extends es) (Void memory_repo E i)"
  "keeps (log_extends es) (Reverse memory_repo E i reason)"
  unfolding Service_CreateAccount_def Service_Capture_def Void_def Reverse_def Let_def
  by (intro keeps_intros keeps_record keeps_Post)+

lemma keeps_command: "keeps (log_extends es) (run_command memory_repo E c)"
  by (cases c) (simp_all add: keeps_seq keeps_ret keeps_Post keeps_requests)

text \<open>
  C18. The entry log is append-only: whatever requests a ledger serves from a state on, and
  whether they succeed or fail, the entries of that state stay in place, unchanged, as the
  beginning of the log.
\<close>

theorem log_append_only:
  assumes "ledger_run memory_repo E w w'"
  shows "\<exists>more. AllEntries (w_db w') = AllEntries (w_db w) @ more"
proof -
  have "log_extends (st_entries (w_db w)) w'"
    using assms
  proof (induction rule: ledger_run.induct)
    case (start w)
    then show ?case by (simp add: log_extends_def)
  next
    case (step w w' c r w'')
    from step.hyps(3) show ?case
    proof (cases rule: InTx_cases)
      case commit
      then show ?thesis
        using keeps_command [of "st_entries (w_db w)" E c] step.IH unfolding keeps_def by (metis snd_conv)
    next
      case rollback
      then show ?thesis using step.IH by (simp add: log_extends_def)
    qed
  qed
  then show ?thesis by (simp add: log_extends_def AllEntries_def)
qed

lemma log_append_only_witness:
  "\<exists>more. AllEntries (w_db (run_all memory_repo sample_env [CmdVoid (txn_at 0 (sample_world True))] (sample_world True)))
    = AllEntries (w_db (sample_world True)) @ more"
  by (rule log_append_only, rule run_all_ledger_run) simp


section \<open>Paging\<close>

text \<open>A client that follows the cursors from the first page until a page has none.\<close>

fun walk_pages :: "nat \<Rightarrow> ambient \<Rightarrow> string \<Rightarrow> int \<Rightarrow> string \<Rightarrow> Store \<Rightarrow> Entry list option" where
  "walk_pages 0 c i limit token s = None"
| "walk_pages (Suc n) c i limit token s =
     (case fst (Mem_ListEntries c i \<lparr>page_Limit = limit, page_StartingAfter = token\<rparr> s) of
        Ok (es, nxt) \<Rightarrow> if nxt = [] then Some es else map_option ((@) es) (walk_pages n c i limit nxt s)
      | _ \<Rightarrow> None)"

lemma page_loop_after:
  "page_loop (Some cur) limit out es = page_loop None limit out (filter (\<lambda>e. ent_ID e < cur_ID cur) es)"
  by (induction es arbitrary: out) auto

lemma page_loop_take:
  assumes "int (length out) \<le> limit"
  shows "page_loop None limit out es =
    (if int (length out) + int (length es) \<le> limit then (out @ es, [])
     else (out @ take (nat limit - length out) es, Cursor_String (CursorFor (last (out @ take (nat limit - length out) es)))))"
  using assms
proof (induction es arbitrary: out)
  case (Cons e es)
  show ?case
  proof (cases "int (length out) = limit")
    case False
    then have "nat limit - length out = Suc (nat limit - Suc (length out))" using Cons.prems by simp
    with False Cons.IH [of "out @ [e]"] Cons.prems show ?thesis by simp
  qed simp
qed simp

lemma entries_ascending:
  assumes "store_ok s" and "int (length (st_entries s)) < 2 ^ 63"
  shows "sorted_wrt (\<lambda>x y. ent_ID x < ent_ID y) (account_entries s i)"
    and "e \<in> set (account_entries s i) \<Longrightarrow> in64 (ent_ID e)"
proof -
  have "ent_ID (st_entries s ! k) = int k + 1" if "k < length (st_entries s)" for k
    using assms that by (simp add: store_ok_def numbering_ok_def in64_def)
  then have "sorted_wrt (\<lambda>x y. ent_ID x < ent_ID y) (st_entries s)" by (simp add: sorted_wrt_iff_nth_less)
  then show "sorted_wrt (\<lambda>x y. ent_ID x < ent_ID y) (account_entries s i)"
    by (simp add: account_entries_filter [OF assms(1)] sorted_wrt_filter)
  show "in64 (ent_ID e)" if e: "e \<in> set (account_entries s i)"
  proof -
    obtain k where "k < length (st_entries s)" "e = st_entries s ! k"
      using e by (auto simp: account_entries_filter [OF assms(1)] in_set_conv_nth)
    then show ?thesis using assms(1) by (simp add: store_ok_def numbering_ok_def)
  qed
qed

lemma filter_before_last:
  assumes "sorted_wrt (\<lambda>x y. f y < f x) (pre @ rest)" and "pre \<noteq> []"
  shows "filter (\<lambda>e. f e < (f (last pre) :: int)) (pre @ rest) = rest"
proof -
  have "\<not> f e < f (last pre)" if "e \<in> set pre" for e
  proof (cases "e = last pre")
    case False
    then have "e \<in> set (butlast pre)" using that assms(2) by (metis append_butlast_last_id in_set_conv_decomp rotate1.simps(2) set_ConsD set_rotate1)
    then have "f (last pre) < f e"
      using assms(1) append_butlast_last_id [OF assms(2)] by (metis in_set_conv_decomp list.set_intros(1) sorted_wrt_append)
    then show ?thesis by simp
  qed simp
  moreover have "f e < f (last pre)" if "e \<in> set rest" for e
    using assms that by (simp add: sorted_wrt_append)
  ultimately show ?thesis by (simp add: filter_empty_conv filter_id_conv)
qed

lemma ListEntries_page:
  assumes "store_ok s" and "int (length (st_entries s)) < 2 ^ 63" and "\<not> cancelled c"
    and "rev (account_entries s i) = pre @ rest"
    and "token = (if pre = [] then [] else Cursor_String (CursorFor (last pre)))"
  shows "fst (Mem_ListEntries c i \<lparr>page_Limit = limit, page_StartingAfter = token\<rparr> s) =
    Ok (page_loop None (page_Limit (Page_Normalize \<lparr>page_Limit = limit, page_StartingAfter = token\<rparr>)) [] rest)"
proof -
  have tok: "page_StartingAfter (Page_Normalize p) = page_StartingAfter p" for p by (simp add: Page_Normalize_def)
  show ?thesis
  proof (cases "pre = []")
    case True
    then show ?thesis using assms by (simp add: Mem_ListEntries_def tok)
  next
    case False
    have "last pre \<in> set (account_entries s i)" using False assms(4) by (metis UnI1 last_in_set set_append set_rev)
    then have "in64 (ent_ID (last pre))" using entries_ascending(2) [OF assms(1,2)] by blast
    then have p: "ParseCursor token = Ok \<lparr>cur_CreatedAt = wrap64 (ent_CreatedAt (last pre)), cur_ID = ent_ID (last pre)\<rparr>"
      using ParseCursor_String [of "CursorFor (last pre)"] False assms(5) by (simp add: CursorFor_def)
    have "token \<noteq> []" using False assms(5) Encode_nonempty by (simp add: Cursor_String_def)
    moreover have "sorted_wrt (\<lambda>x y. ent_ID y < ent_ID x) (pre @ rest)"
      using entries_ascending(1) [OF assms(1,2), of i] unfolding assms(4) [symmetric] by (simp add: sorted_wrt_rev)
    ultimately show ?thesis
      using assms p filter_before_last [OF _ False, of ent_ID rest]
      by (simp add: Mem_ListEntries_def tok page_loop_after)
  qed
qed

lemma walk_pages_rest:
  assumes "store_ok s" and "int (length (st_entries s)) < 2 ^ 63" and "\<not> cancelled c"
    and "rev (account_entries s i) = pre @ rest" and "length rest < n"
    and "token = (if pre = [] then [] else Cursor_String (CursorFor (last pre)))"
  shows "walk_pages n c i limit token s = Some rest"
  using assms(4-6)
proof (induction n arbitrary: pre rest token)
  case (Suc n)
  define lim where "lim = page_Limit (Page_Normalize \<lparr>page_Limit = limit, page_StartingAfter = token\<rparr>)"
  have lim: "0 < lim" by (simp add: lim_def Page_Normalize_def DefaultPageLimit_def MaxPageLimit_def)
  let ?es = "take (nat lim) rest" and ?rest = "drop (nat lim) rest"
  have page: "fst (Mem_ListEntries c i \<lparr>page_Limit = limit, page_StartingAfter = token\<rparr> s) = Ok (page_loop None lim [] rest)"
    using ListEntries_page [OF assms(1-3) Suc.prems(1,3)] by (simp add: lim_def)
  show ?case
  proof (cases "int (length rest) \<le> lim")
    case True
    then show ?thesis using lim page page_loop_take [of "[]" lim rest] by simp
  next
    case False
    then have ne: "?es \<noteq> []" using lim by auto
    have "Cursor_String (CursorFor (last ?es)) \<noteq> []" using Encode_nonempty by (simp add: Cursor_String_def)
    moreover have "walk_pages n c i limit (Cursor_String (CursorFor (last ?es))) s = Some ?rest"
      using Suc.IH [of "pre @ ?es" ?rest] Suc.prems ne lim False by simp
    ultimately show ?thesis using lim page page_loop_take [of "[]" lim rest] False by simp
  qed
qed simp

text \<open>
  C19. Paging is complete: a client that follows the cursors, with any page size, receives
  every entry of the account exactly once, newest first, and comes to an end; as many pages as
  the account has entries, and one more, are always enough.
\<close>

theorem paging_complete:
  assumes "reachable E g w" and "int (length (AllEntries (w_db w))) < 2 ^ 63" and "\<not> cancelled c"
    and "length (AllEntries (w_db w)) < n"
  shows "walk_pages n c i limit [] (w_db w) = Some (rev (filter (\<lambda>e. ent_AccountID e = i) (AllEntries (w_db w))))"
proof -
  note ok = reachable_ok(1) [OF assms(1)]
  have "length (rev (account_entries (w_db w) i)) < n"
    using assms(4) le_less_trans [OF length_filter_le]
    by (simp add: account_entries_filter [OF ok] AllEntries_def)
  then show ?thesis
    using walk_pages_rest [OF ok, of c i "[]" "rev (account_entries (w_db w) i)" n "[]" limit] assms
    by (simp add: AllEntries_def account_entries_filter [OF ok])
qed

lemma paging_complete_witness:
  "length (AllEntries (w_db (sample_world False))) = 2 \<and>
    walk_pages 3 \<lparr>cancelled = False, wall_now = 0\<rparr> ''a'' 1 [] (w_db (sample_world False))
      = Some (rev (filter (\<lambda>e. ent_AccountID e = ''a'') (AllEntries (w_db (sample_world False)))))"
proof -
  have n: "length (AllEntries (w_db (sample_world False))) = 2" by code_simp
  then show ?thesis using paging_complete [OF sample_reachable [of False], of "\<lparr>cancelled = False, wall_now = 0\<rparr>" 3 "''a''" 1] by simp
qed


section \<open>Reversing a captured authorization\<close>

text \<open>Captured, then reversed once through the authorization and once through the capture.\<close>

definition reversed_twice :: "Store world" where
  "reversed_twice =
     (let w = run_all memory_repo sample_env (sample_accounts True @ [CmdPost (sample_posting True)]) (new_world sample_generator);
          w1 = run_all memory_repo sample_env [CmdCapture (txn_at 0 w) None] w
      in run_all memory_repo sample_env [CmdReverse (txn_at 0 w1) [], CmdReverse (txn_at 2 w1) []] w1)"

text \<open>
  C35. A captured authorization can be reversed twice. \<open>Capture\<close> marks the authorization itself
  posted, so \<open>Reverse\<close> accepts it and posts the mirror of entries that were only ever pending;
  the capture can still be reversed as well. After an authorization of 5, its capture and both
  reversals, the cash account stands at -5 instead of 0.
\<close>

theorem captured_authorization_reversed_twice:
  "posted_of (w_db reversed_twice) ''a'' = - 5"
  by code_simp

end
