(* ===== verification/Fees.thy ===== *)
theory Fees
  imports Money_Laws
begin

text \<open>
  Package \<^verbatim>\<open>internal/payments\<close>, file \<^verbatim>\<open>fees.go\<close>: the fee schedule, the split of a charge into
  fee and net, and the part of the fee that a refund returns. The lemmas give the closed form of
  both: round half up, and the telescoping of the fees returned by successive refunds.
\<close>

section \<open>The schedule\<close>

record FeeSchedule =
  fee_Bps :: int
  fee_Fixed :: int

definition Fees_Validate :: "FeeSchedule \<Rightarrow> unit outcome" where
  "Fees_Validate f =
     (if fee_Bps f < 0 \<or> fee_Bps f > 10000 then Err ErrInvalidFeeSchedule
      else if fee_Fixed f < 0 then Err ErrInvalidFeeSchedule
      else Ok ())"

definition Compute :: "FeeSchedule \<Rightarrow> money \<Rightarrow> (money \<times> money) outcome" where
  "Compute f amt =
     andThen (Fees_Validate f) (\<lambda>_.
     if amount amt \<le> 0 then Err ErrAmountRequired
     else andThen (Money_New (fee_Fixed f) (currency amt)) (\<lambda>fixed.
       andThen (andThen (Money_MulBps amt (fee_Bps f)) (\<lambda>pct. Money_Add pct fixed)) (\<lambda>fee.
       andThen (Money_Cmp fee amt) (\<lambda>cmp.
       if cmp \<ge> 0 then Err ErrFeeExceedsAmount
       else andThen (Money_Sub amt fee) (\<lambda>net. Ok (fee, net))))))"

definition feeForRefunded :: "money \<Rightarrow> int \<Rightarrow> int \<Rightarrow> int outcome" where
  "feeForRefunded percentageFee charged refunded =
     (if refunded \<le> 0 then Ok 0
      else if refunded \<ge> charged then Ok (amount percentageFee)
      else andThen (Money_Allocate percentageFee [refunded, wrap64 (charged - refunded)]) (\<lambda>parts.
        Ok (amount (parts ! 0))))"

definition RefundFee :: "FeeSchedule \<Rightarrow> money \<Rightarrow> money \<Rightarrow> money \<Rightarrow> bool \<Rightarrow> money outcome" where
  "RefundFee f charged alreadyRefunded refundAmount refundPercentage =
     (let zero = Money_Zero (currency charged)
      in if \<not> refundPercentage then Ok zero
      else if amount charged \<le> 0 then Err ErrAmountRequired
      else let total = wrap64 (amount alreadyRefunded + amount refundAmount)
        in if total > amount charged then Err ErrRefundExceedsPayment
        else andThen (Money_MulBps charged (fee_Bps f)) (\<lambda>percentageFee.
          if Money_IsZero percentageFee then Ok zero
          else andThen (feeForRefunded percentageFee (amount charged) total) (\<lambda>owedNow.
            andThen (feeForRefunded percentageFee (amount charged) (amount alreadyRefunded)) (\<lambda>owedBefore.
            Money_New (wrap64 (owedNow - owedBefore)) (currency charged)))))"

section \<open>Closed forms\<close>

text \<open>The percentage component, and the part of a fee that falls on \<open>r\<close> of \<open>c\<close>, both half up.\<close>

definition percentage :: "int \<Rightarrow> int \<Rightarrow> int" where
  "percentage bps n = (n * bps + 5000) div 10000"

definition rounded_share :: "int \<Rightarrow> int \<Rightarrow> int \<Rightarrow> int" where
  "rounded_share fee r c = (2 * fee * r + c) div (2 * c)"

lemma fee_rate_MulBps:
  assumes "in64 (amount m)" and "0 \<le> amount m" and "0 \<le> bps" and "bps \<le> 10000"
  shows "Money_MulBps m bps = Ok \<lparr>amount = percentage bps (amount m), currency = currency m\<rparr>"
proof -
  have "0 \<le> amount m div 10000 * bps" using assms by (simp add: pos_imp_zdiv_nonneg_iff)
  then have "MinInt64 \<le> amount m div 10000 * bps" by simp
  then show ?thesis using Money_MulBps_fee_rate [OF assms(1,3,4)] by (simp add: percentage_def)
qed

lemma percentage_bounds:
  assumes "0 \<le> n" and "0 \<le> bps" and "bps \<le> 10000"
  shows "0 \<le> percentage bps n" and "percentage bps n \<le> n"
proof -
  have "n * bps \<le> n * 10000" using assms by (intro mult_left_mono) simp_all
  then have "(n * bps + 5000) div 10000 \<le> (n * 10000 + 5000) div 10000" by (intro zdiv_mono1) simp_all
  also have "\<dots> = n" by simp
  finally show "percentage bps n \<le> n" by (simp add: percentage_def)
  show "0 \<le> percentage bps n" using assms by (simp add: percentage_def pos_imp_zdiv_nonneg_iff)
qed

lemma rounded_share_ends: "0 < c \<Longrightarrow> rounded_share fee 0 c = 0" "0 < c \<Longrightarrow> rounded_share fee c c = fee"
  "0 < c \<Longrightarrow> rounded_share 0 r c = 0"
proof -
  assume c: "0 < c"
  then show "rounded_share fee 0 c = 0" "rounded_share 0 r c = 0" by (simp_all add: rounded_share_def div_pos_pos_trivial)
  have "(c + fee * (2 * c)) div (2 * c) = fee + c div (2 * c)" using c by (intro div_mult_self1) simp
  then show "rounded_share fee c c = fee" using c by (simp add: rounded_share_def div_pos_pos_trivial algebra_simps)
qed

lemma rounded_share_mono: "0 < c \<Longrightarrow> 0 \<le> fee \<Longrightarrow> r \<le> r' \<Longrightarrow> rounded_share fee r c \<le> rounded_share fee r' c"
  unfolding rounded_share_def by (intro zdiv_mono1 add_right_mono mult_left_mono) simp_all

lemma rounded_share_step:
  assumes "0 < c" and "fee \<le> c" and "0 \<le> k"
  shows "rounded_share fee (r + k) c \<le> rounded_share fee r c + k"
proof -
  have "fee * k \<le> c * k" using assms by (intro mult_right_mono)
  then have "2 * fee * (r + k) + c \<le> 2 * fee * r + c + k * (2 * c)" by (simp add: algebra_simps)
  then have "rounded_share fee (r + k) c \<le> (2 * fee * r + c + k * (2 * c)) div (2 * c)"
    unfolding rounded_share_def using assms(1) by (intro zdiv_mono1) simp_all
  also have "\<dots> = k + (2 * fee * r + c) div (2 * c)" using assms(1) by (intro div_mult_self1) simp
  finally show ?thesis by (simp add: rounded_share_def)
qed

text \<open>An allocation over two ratios rounds the first share half up.\<close>

lemma two_fractions:
  assumes "0 < (c :: int)"
  shows "fee * r mod c + fee * (c - r) mod c \<in> {0, c}"
proof -
  have "(fee * r mod c + fee * (c - r) mod c) mod c = (fee * r + fee * (c - r)) mod c" by (simp add: mod_add_eq)
  also have "fee * r + fee * (c - r) = fee * c" by (simp add: algebra_simps)
  finally have "c dvd (fee * r mod c + fee * (c - r) mod c)" by (simp add: dvd_eq_mod_eq_0)
  then obtain k where k: "fee * r mod c + fee * (c - r) mod c = c * k" by (elim dvdE)
  moreover have "0 \<le> fee * r mod c" "fee * r mod c < c" "0 \<le> fee * (c - r) mod c" "fee * (c - r) mod c < c"
    using assms by simp_all
  ultimately have "0 \<le> c * k" "c * k < c * 2" by linarith+
  then have "0 \<le> k" "k < 2" using assms by (simp_all add: zero_le_mult_iff mult_less_cancel_left)
  then have "k = 0 \<or> k = 1" by linarith
  with k show ?thesis by auto
qed

lemma rounded_share_split:
  assumes "0 < c"
  shows "rounded_share fee r c = fee * r div c + of_bool (c \<le> 2 * (fee * r mod c))"
proof -
  define q f where "q = fee * r div c" and "f = fee * r mod c"
  have f: "0 \<le> f" "f < c" and x: "fee * r = q * c + f" using assms by (simp_all add: q_def f_def)
  have "2 * fee * r + c = (2 * f + c) + q * (2 * c)" using x by (simp add: algebra_simps)
  then have "rounded_share fee r c = ((2 * f + c) + q * (2 * c)) div (2 * c)" by (simp only: rounded_share_def)
  also have "\<dots> = q + (2 * f + c) div (2 * c)" using assms by (intro div_mult_self1) simp
  also have "(2 * f + c) div (2 * c) = of_bool (c \<le> 2 * f)"
  proof (cases "c \<le> 2 * f")
    case True
    then have "(2 * f + c) div (2 * c) = 1 + (2 * f - c) div (2 * c)"
      using assms div_mult_self1 [of "2 * c" "2 * f - c" 1] by (simp add: add.commute)
    also have "(2 * f - c) div (2 * c) = 0" using True f by (intro div_pos_pos_trivial) simp_all
    finally show ?thesis using True by simp
  next
    case False
    then show ?thesis using f assms by (simp add: div_pos_pos_trivial)
  qed
  finally show ?thesis by (simp add: q_def f_def)
qed

lemma two_part_allocation:
  assumes "0 < a" and "0 < r" and "r < c" and "allocation_bonus a [r, c - r] B"
  shows "allocation a [r, c - r] B ! 0 = rounded_share a r c"
proof -
  let ?f0 = "a * r mod c" and ?f1 = "a * (c - r) mod c"
  have c: "0 < c" using assms by simp
  have B: "B \<subseteq> {0, 1}" and card: "int (card B) * c = ?f0 + ?f1"
    and less: "\<forall>i\<in>B. \<forall>j<2. j \<notin> B \<longrightarrow> allocate_less [?f0, ?f1] True i j"
    using assms by (auto simp: allocation_bonus_def fraction_def lessThan_Suc numeral_2_eq_2 upt_rec)
  have "0 \<in> B \<longleftrightarrow> c \<le> 2 * ?f0"
  proof (cases "?f0 + ?f1 = 0")
    case True
    then have "B = {}" using card c B finite_subset [OF B] by simp
    moreover have "?f0 = 0" using True c pos_mod_sign [OF c, of "a * r"] pos_mod_sign [OF c, of "a * (c - r)"] by linarith
    ultimately show ?thesis using c by simp
  next
    case False
    then have s: "?f0 + ?f1 = c" using two_fractions [OF c] by blast
    then have "card B = 1" using card c by simp
    then obtain x where "B = {x}" by (auto simp: card_1_singleton_iff)
    with B consider "B = {0}" | "B = {1}" by auto
    then show ?thesis
    proof cases
      case 1
      then have "allocate_less [?f0, ?f1] True 0 1" using less by auto
      then show ?thesis using 1 s by (auto simp: allocate_less_def split: if_splits)
    next
      case 2
      then have "allocate_less [?f0, ?f1] True 1 0" using less by auto
      then show ?thesis using 2 s by (auto simp: allocate_less_def split: if_splits)
    qed
  qed
  then show ?thesis
    using assms by (simp add: allocation_def share_def rounded_share_split [OF c] numeral_2_eq_2)
qed

lemma feeForRefunded_eq:
  assumes "0 < a" and "in64 a" and "0 < c" and "in64 c" and "0 \<le> r" and "r \<le> c"
  shows "feeForRefunded \<lparr>amount = a, currency = cur\<rparr> c r = Ok (rounded_share a r c)"
proof (cases "0 < r \<and> r < c")
  case True
  let ?m = "\<lparr>amount = a, currency = cur\<rparr>"
  have i: "in64 (c - r)" "in64 r" using assms True by (auto simp: in64_def)
  then have ty: "\<forall>x\<in>set [r, c - r]. in64 x" by simp
  have v: "ValidateRatios [r, c - r] = Ok c" using ValidateRatios_Ok [OF ty, of c] True assms by simp
  obtain B where B: "allocation_bonus a [r, c - r] B"
    and run: "Money_Allocate ?m [r, c - r] = Ok (map (\<lambda>p. \<lparr>amount = p, currency = cur\<rparr>) (allocation a [r, c - r] B))"
    using Money_Allocate_spec [OF _ ty v, of ?m] assms(2) by auto
  have "length (allocation a [r, c - r] B) = 2" by (simp add: allocation_def)
  then show ?thesis
    using True run two_part_allocation [OF assms(1) _ _ B] i(1) by (simp add: feeForRefunded_def)
next
  case False
  then have "r = 0 \<or> r = c" using assms by linarith
  then show ?thesis using rounded_share_ends assms by (auto simp: feeForRefunded_def)
qed

section \<open>Properties\<close>

lemma Compute_closed:
  assumes "Fees_Validate f = Ok ()" and "money_ok m" and "0 < amount m" and "in64 (fee_Fixed f)"
  shows "Compute f m =
    (let fee = percentage (fee_Bps f) (amount m) + fee_Fixed f
     in if \<not> in64 fee then Err MoneyErrOverflow
        else if amount m \<le> fee then Err ErrFeeExceedsAmount
        else Ok (\<lparr>amount = fee, currency = currency m\<rparr>, \<lparr>amount = amount m - fee, currency = currency m\<rparr>))"
proof -
  have v: "0 \<le> fee_Bps f" "fee_Bps f \<le> 10000" "0 \<le> fee_Fixed f"
    using assms(1) by (auto simp: Fees_Validate_def split: if_splits)
  let ?p = "percentage (fee_Bps f) (amount m)"
  have m: "in64 (amount m)" "Currency_Valid (currency m)" using assms(2) by (simp_all add: money_ok_def)
  have p: "0 \<le> ?p" "?p \<le> amount m" using percentage_bounds v assms(3) by simp_all
  then have p64: "in64 ?p" using m(1) by (auto simp: in64_def)
  have "Money_MulBps m (fee_Bps f) = Ok \<lparr>amount = ?p, currency = currency m\<rparr>"
    using fee_rate_MulBps [OF m(1) _ v(1,2)] assms(3) by simp
  then have run: "Compute f m = andThen (Money_Add \<lparr>amount = ?p, currency = currency m\<rparr> \<lparr>amount = fee_Fixed f, currency = currency m\<rparr>)
      (\<lambda>fee. andThen (Money_Cmp fee m) (\<lambda>cmp. if cmp \<ge> 0 then Err ErrFeeExceedsAmount
        else andThen (Money_Sub m fee) (\<lambda>net. Ok (fee, net))))"
    using assms m(2) by (simp add: Compute_def Money_New_def)
  show ?thesis
  proof (cases "in64 (?p + fee_Fixed f)")
    case True
    have "in64 (amount m - (?p + fee_Fixed f))" if "?p + fee_Fixed f < amount m"
      using that m(1) p(1) v(3) by (auto simp: in64_def)
    then show ?thesis
      using True m(1) p64 assms(4) by (simp add: run Money_Add_spec Money_Cmp_def Money_Sub_spec Let_def)
  next
    case False
    then show ?thesis using m(1) p64 assms(4) by (simp add: run Money_Add_spec Let_def)
  qed
qed

text \<open>
  C23. \<open>Compute\<close> is decided by one exact number, the percentage rounded half up plus the fixed
  part: when it does not fit it reports overflow, when it reaches the amount it refuses the
  charge, and otherwise it returns that fee and the rest as the net. For no valid schedule and
  no positive amount of a known currency does it panic.
\<close>

theorem Compute_exact:
  assumes "Fees_Validate f = Ok ()" and "money_ok m" and "0 < amount m" and "in64 (fee_Fixed f)"
  shows "Compute f m =
    (let fee = percentage (fee_Bps f) (amount m) + fee_Fixed f
     in if \<not> in64 fee then Err MoneyErrOverflow
        else if amount m \<le> fee then Err ErrFeeExceedsAmount
        else Ok (\<lparr>amount = fee, currency = currency m\<rparr>, \<lparr>amount = amount m - fee, currency = currency m\<rparr>))"
  by (rule Compute_closed [OF assms])

lemma Compute_exact_witness:
  "Compute \<lparr>fee_Bps = 290, fee_Fixed = 30\<rparr> \<lparr>amount = 10000, currency = ''USD''\<rparr>
    = Ok (\<lparr>amount = 320, currency = ''USD''\<rparr>, \<lparr>amount = 9680, currency = ''USD''\<rparr>)"
  using Compute_exact [of "\<lparr>fee_Bps = 290, fee_Fixed = 30\<rparr>" "\<lparr>amount = 10000, currency = ''USD''\<rparr>"]
  by (simp add: Fees_Validate_def money_ok_def Currency_Valid_def exponents_def percentage_def in64_def Let_def)

lemma RefundFee_eq:
  assumes "0 \<le> fee_Bps f" and "fee_Bps f \<le> 10000" and "money_ok charged" and "0 < amount charged"
    and "0 \<le> amount before" and "0 \<le> amount r" and "amount before + amount r \<le> amount charged"
  shows "RefundFee f charged before r True = Ok \<lparr>amount =
      rounded_share (percentage (fee_Bps f) (amount charged)) (amount before + amount r) (amount charged)
      - rounded_share (percentage (fee_Bps f) (amount charged)) (amount before) (amount charged), currency = currency charged\<rparr>"
proof -
  let ?c = "amount charged" and ?p = "percentage (fee_Bps f) (amount charged)" and ?t = "amount before + amount r"
  have c: "in64 ?c" "Currency_Valid (currency charged)" using assms(3) by (simp_all add: money_ok_def)
  have t: "in64 ?t" using assms(4-7) c(1) by (auto simp: in64_def)
  have p: "0 \<le> ?p" "?p \<le> ?c" using percentage_bounds assms by simp_all
  then have p64: "in64 ?p" using c(1) by (auto simp: in64_def)
  have run: "Money_MulBps charged (fee_Bps f) = Ok \<lparr>amount = ?p, currency = currency charged\<rparr>"
    using fee_rate_MulBps [OF c(1) _ assms(1,2)] assms(4) by simp
  show ?thesis
  proof (cases "?p = 0")
    case True
    then show ?thesis using assms t run by (simp add: RefundFee_def Let_def Money_IsZero_def Money_Zero_def rounded_share_ends)
  next
    case False
    then have pos: "0 < ?p" using p by simp
    have m: "rounded_share ?p x ?c \<le> rounded_share ?p y ?c" if "x \<le> y" for x y
      using rounded_share_mono [OF assms(4) p(1) that] .
    have "0 \<le> rounded_share ?p (amount before) ?c" "rounded_share ?p ?t ?c \<le> ?p"
      using m [of 0 "amount before"] m [of ?t ?c] rounded_share_ends [OF assms(4)] assms by simp_all
    moreover have "rounded_share ?p (amount before) ?c \<le> rounded_share ?p ?t ?c" using m assms(6) by simp
    ultimately have "in64 (rounded_share ?p ?t ?c - rounded_share ?p (amount before) ?c)"
      using p64 by (auto simp: in64_def)
    then show ?thesis
      using assms t run False c feeForRefunded_eq [OF pos p64 assms(4) c(1)]
      by (simp add: RefundFee_def Let_def Money_IsZero_def Money_New_def)
  qed
qed

lemma RefundFee_range:
  assumes "Fees_Validate f = Ok ()" and "money_ok charged" and "0 < amount charged"
    and "0 \<le> amount before" and "0 \<le> amount r" and "amount before + amount r \<le> amount charged"
  shows "\<exists>fee. RefundFee f charged before r pct = Ok \<lparr>amount = fee, currency = currency charged\<rparr> \<and> 0 \<le> fee \<and> fee \<le> amount r"
proof (cases pct)
  case True
  have v: "0 \<le> fee_Bps f" "fee_Bps f \<le> 10000" using assms(1) by (auto simp: Fees_Validate_def split: if_splits)
  let ?p = "percentage (fee_Bps f) (amount charged)" and ?c = "amount charged"
  have p: "0 \<le> ?p" "?p \<le> ?c" using percentage_bounds v assms by simp_all
  have "rounded_share ?p (amount before) ?c \<le> rounded_share ?p (amount before + amount r) ?c"
    using rounded_share_mono [OF assms(3) p(1)] assms(5) by simp
  moreover have "rounded_share ?p (amount before + amount r) ?c \<le> rounded_share ?p (amount before) ?c + amount r"
    using rounded_share_step [OF assms(3) p(2) assms(5)] .
  ultimately show ?thesis using RefundFee_eq [OF v assms(2-6)] True by simp
next
  case False
  then show ?thesis using assms by (simp add: RefundFee_def Money_Zero_def)
qed

text \<open>
  A refund never returns more fee than it refunds, and never a negative fee: the two
  debits of a refund posting, the returned fee and the rest, are both between zero and the
  refunded amount.
\<close>

theorem RefundFee_bounds:
  assumes "Fees_Validate f = Ok ()" and "money_ok charged" and "0 < amount charged"
    and "0 \<le> amount before" and "0 \<le> amount r" and "amount before + amount r \<le> amount charged"
  shows "\<exists>fee. RefundFee f charged before r pct = Ok \<lparr>amount = fee, currency = currency charged\<rparr> \<and> 0 \<le> fee \<and> fee \<le> amount r"
  by (rule RefundFee_range [OF assms])

lemma RefundFee_bounds_witness:
  "\<exists>fee. RefundFee \<lparr>fee_Bps = 290, fee_Fixed = 30\<rparr> \<lparr>amount = 10000, currency = ''USD''\<rparr> \<lparr>amount = 3333, currency = ''USD''\<rparr>
      \<lparr>amount = 3334, currency = ''USD''\<rparr> True = Ok \<lparr>amount = fee, currency = ''USD''\<rparr> \<and> 0 \<le> fee \<and> fee \<le> 3334"
  using RefundFee_bounds [of "\<lparr>fee_Bps = 290, fee_Fixed = 30\<rparr>" "\<lparr>amount = 10000, currency = ''USD''\<rparr>"
      "\<lparr>amount = 3333, currency = ''USD''\<rparr>" "\<lparr>amount = 3334, currency = ''USD''\<rparr>" True]
  by (simp add: Fees_Validate_def money_ok_def Currency_Valid_def exponents_def in64_def)

text \<open>Refunding a payment in pieces: the fee each piece returns.\<close>

fun returned_fees :: "FeeSchedule \<Rightarrow> money \<Rightarrow> int \<Rightarrow> int list \<Rightarrow> int list outcome" where
  "returned_fees f charged before [] = Ok []"
| "returned_fees f charged before (r # rs) =
     andThen (RefundFee f charged \<lparr>amount = before, currency = currency charged\<rparr> \<lparr>amount = r, currency = currency charged\<rparr> True) (\<lambda>fee.
     andThen (returned_fees f charged (before + r) rs) (\<lambda>fees. Ok (amount fee # fees)))"

lemma returned_fees_sum:
  assumes "0 \<le> fee_Bps f" and "fee_Bps f \<le> 10000" and "money_ok charged" and "0 < amount charged"
    and "0 \<le> before" and "\<forall>r\<in>set rs. 0 < r" and "before + sum_list rs \<le> amount charged"
  shows "\<exists>fees. returned_fees f charged before rs = Ok fees \<and> sum_list fees =
    rounded_share (percentage (fee_Bps f) (amount charged)) (before + sum_list rs) (amount charged)
    - rounded_share (percentage (fee_Bps f) (amount charged)) before (amount charged)"
  using assms(5-7)
proof (induction rs arbitrary: before)
  case (Cons r rs)
  have "0 \<le> sum_list rs" using Cons.prems(2) by (intro sum_list_nonneg) (simp add: less_imp_le)
  then show ?case
    using Cons.IH [of "before + r"] Cons.prems
      RefundFee_eq [OF assms(1-4), of "\<lparr>amount = before, currency = currency charged\<rparr>" "\<lparr>amount = r, currency = currency charged\<rparr>"]
    by (auto simp: add.assoc)
qed simp

text \<open>
  C23. However a payment is refunded in pieces, the fees returned add up to exactly the
  percentage fee of the charge once all of it is refunded: no rounding crumb is created or
  lost, in whatever number of refunds and amounts.
\<close>

theorem RefundFee_telescopes:
  assumes "Fees_Validate f = Ok ()" and "money_ok charged" and "0 < amount charged"
    and "\<forall>r\<in>set rs. 0 < r" and "sum_list rs = amount charged"
  shows "\<exists>fees. returned_fees f charged 0 rs = Ok fees \<and> length fees = length rs
    \<and> Money_MulBps charged (fee_Bps f) = Ok \<lparr>amount = sum_list fees, currency = currency charged\<rparr>"
proof -
  have v: "0 \<le> fee_Bps f" "fee_Bps f \<le> 10000" using assms(1) by (auto simp: Fees_Validate_def split: if_splits)
  have len: "length fees = length rs" if "returned_fees f charged b rs = Ok fees" for b fees
    using that by (induction rs arbitrary: b fees) auto
  obtain fees where "returned_fees f charged 0 rs = Ok fees" "sum_list fees = percentage (fee_Bps f) (amount charged)"
    using returned_fees_sum [OF v assms(2,3), of 0 rs] assms rounded_share_ends by auto
  then show ?thesis using len fee_rate_MulBps [of charged] assms v by (auto simp: money_ok_def)
qed

lemma RefundFee_telescopes_witness:
  "\<exists>fees. returned_fees \<lparr>fee_Bps = 290, fee_Fixed = 30\<rparr> \<lparr>amount = 10000, currency = ''USD''\<rparr> 0 [3333, 3333, 3334] = Ok fees
    \<and> length fees = 3 \<and> Money_MulBps \<lparr>amount = 10000, currency = ''USD''\<rparr> 290 = Ok \<lparr>amount = sum_list fees, currency = ''USD''\<rparr>"
proof -
  let ?f = "\<lparr>fee_Bps = 290, fee_Fixed = 30\<rparr>" and ?m = "\<lparr>amount = 10000, currency = ''USD''\<rparr>"
  have "Fees_Validate ?f = Ok ()" "money_ok ?m"
    by (simp_all add: Fees_Validate_def money_ok_def Currency_Valid_def exponents_def in64_def)
  moreover have "0 < amount ?m" "\<forall>r\<in>set [3333, 3333, 3334]. (0::int) < r" "sum_list [3333, 3333, 3334] = amount ?m"
    by simp_all
  ultimately have "\<exists>fees. returned_fees ?f ?m 0 [3333, 3333, 3334] = Ok fees \<and> length fees = length [3333, 3333, 3334 :: int]
      \<and> Money_MulBps ?m (fee_Bps ?f) = Ok \<lparr>amount = sum_list fees, currency = currency ?m\<rparr>"
    by (rule RefundFee_telescopes)
  then obtain fees where "returned_fees ?f ?m 0 [3333, 3333, 3334] = Ok fees" "length fees = length [3333, 3333, 3334 :: int]"
    "Money_MulBps ?m (fee_Bps ?f) = Ok \<lparr>amount = sum_list fees, currency = currency ?m\<rparr>" by blast
  moreover from this(2,3) have "length fees = 3" "Money_MulBps ?m 290 = Ok \<lparr>amount = sum_list fees, currency = ''USD''\<rparr>"
    by simp_all
  ultimately show ?thesis by blast
qed

end
