(* ===== verification/Payments.thy ===== *)
theory Payments
  imports Ledger_Service Fees
begin

text \<open>
  Package \<^verbatim>\<open>internal/payments\<close>: the chart of accounts of a merchant (\<^verbatim>\<open>chart.go\<close>) and the
  payments service (\<^verbatim>\<open>payments.go\<close>), charge, capture, cancel, refund and the view of a payment
  derived from its ledger transactions, over the ledger service on any repository. Definitions
  only; the lemmas are in \<open>Payment_Laws\<close>.
\<close>

section \<open>The chart of accounts\<close>

definition AccountClearing :: string where "AccountClearing = ''platform_clearing''"

definition AccountPayable :: string where "AccountPayable = ''merchant_payable''"

definition AccountFeeRevenue :: string where "AccountFeeRevenue = ''fee_revenue''"

definition AccountHolds :: string where "AccountHolds = ''authorization_holds''"

record Chart =
  ch_Clearing :: string
  ch_Payable :: string
  ch_FeeRevenue :: string
  ch_Holds :: string
  ch_Currency :: string

record chartSpec =
  cs_name :: string
  cs_typ :: AccountType
  cs_allowNegative :: bool

definition chartSpecs :: "chartSpec list" where
  "chartSpecs =
     [\<lparr>cs_name = AccountClearing, cs_typ = Asset, cs_allowNegative = True\<rparr>,
      \<lparr>cs_name = AccountPayable, cs_typ = Liability, cs_allowNegative = True\<rparr>,
      \<lparr>cs_name = AccountFeeRevenue, cs_typ = Revenue, cs_allowNegative = True\<rparr>,
      \<lparr>cs_name = AccountHolds, cs_typ = Liability, cs_allowNegative = True\<rparr>]"

definition AccountName :: "string \<Rightarrow> string \<Rightarrow> string" where
  "AccountName base cur = base @ '':'' @ cur"

definition set_chart :: "string \<Rightarrow> string \<Rightarrow> Chart \<Rightarrow> Chart" where
  "set_chart name accountID chart =
     (if name = AccountClearing then chart\<lparr>ch_Clearing := accountID\<rparr>
      else if name = AccountPayable then chart\<lparr>ch_Payable := accountID\<rparr>
      else if name = AccountFeeRevenue then chart\<lparr>ch_FeeRevenue := accountID\<rparr>
      else if name = AccountHolds then chart\<lparr>ch_Holds := accountID\<rparr>
      else chart)"

text \<open>The account \<^verbatim>\<open>EnsureChart\<close> asks the ledger to create.\<close>

definition chart_account :: "string \<Rightarrow> string \<Rightarrow> chartSpec \<Rightarrow> Account" where
  "chart_account merchantID cur spec =
     \<lparr>acc_ID = [], acc_MerchantID = merchantID, acc_Name = AccountName (cs_name spec) cur, acc_Type = cs_typ spec,
      acc_NormalBalance = [], acc_Currency = cur, acc_AllowNegative = cs_allowNegative spec, acc_Metadata = [],
      acc_CreatedAt = zero_time\<rparr>"

fun chart_loop ::
  "'s Repository \<Rightarrow> env \<Rightarrow> string \<Rightarrow> string \<Rightarrow> (string \<times> Account) list \<Rightarrow> chartSpec list \<Rightarrow> Chart \<Rightarrow> ('s world, Chart) opr" where
  "chart_loop R E merchantID cur byName [] chart = ret (Ok chart)"
| "chart_loop R E merchantID cur byName (spec # specs) chart =
     seq (case map_of byName (AccountName (cs_name spec) cur) of
            Some account \<Rightarrow> ret (Ok account)
          | None \<Rightarrow> Service_CreateAccount R E (chart_account merchantID cur spec)) (\<lambda>account.
     chart_loop R E merchantID cur byName specs (set_chart (cs_name spec) (acc_ID account) chart))"

definition EnsureChart :: "'s Repository \<Rightarrow> env \<Rightarrow> string \<Rightarrow> string \<Rightarrow> ('s world, Chart) opr" where
  "EnsureChart R E merchantID cur =
     (if \<not> Currency_Valid cur then ret (Err MoneyErrUnknownCurrency)
      else seq (Service_ListAccounts R E merchantID) (\<lambda>existing.
        chart_loop R E merchantID cur (rev (map (\<lambda>a. (acc_Name a, a)) existing)) chartSpecs
          \<lparr>ch_Clearing = [], ch_Payable = [], ch_FeeRevenue = [], ch_Holds = [], ch_Currency = cur\<rparr>))"

definition Chart_Valid :: "Chart \<Rightarrow> bool" where
  "Chart_Valid c \<longleftrightarrow> ch_Clearing c \<noteq> [] \<and> ch_Payable c \<noteq> [] \<and> ch_FeeRevenue c \<noteq> [] \<and> ch_Holds c \<noteq> []"

section \<open>Payments\<close>

type_synonym State = string

definition StateRequiresCapture :: State where "StateRequiresCapture = ''requires_capture''"

definition StateSucceeded :: State where "StateSucceeded = ''succeeded''"

definition StatePartiallyRefunded :: State where "StatePartiallyRefunded = ''partially_refunded''"

definition StateRefunded :: State where "StateRefunded = ''refunded''"

definition StateCanceled :: State where "StateCanceled = ''canceled''"

definition metaRole :: string where "metaRole = ''payment_role''"

definition roleCharge :: string where "roleCharge = ''charge''"

definition roleAuthorize :: string where "roleAuthorize = ''authorization''"

definition roleCapture :: string where "roleCapture = ''capture''"

definition roleVoid :: string where "roleVoid = ''void''"

definition roleRefund :: string where "roleRefund = ''refund''"

definition metaFeeAccount :: string where "metaFeeAccount = ''fee_account_id''"

record Payment =
  pay_ID :: string
  pay_MerchantID :: string
  pay_State :: State
  pay_Currency :: string
  pay_Amount :: money
  pay_Fee :: money
  pay_Net :: money
  pay_Refunded :: money
  pay_AuthorizationID :: string
  pay_ChargeID :: string
  pay_RefundIDs :: "string list"
  pay_CreatedAt :: int

definition Refundable :: "Payment \<Rightarrow> money outcome" where
  "Refundable p =
     (let remaining = wrap64 (amount (pay_Amount p) - amount (pay_Refunded p))
      in MustNew (if remaining < 0 then 0 else remaining) (pay_Currency p))"

text \<open>The configuration of the service; its ledger is the repository the operations run on.\<close>

record Payments_Service =
  svc_fees :: FeeSchedule
  svc_refundPercentageFee :: bool

definition Payments_NewService :: "FeeSchedule \<Rightarrow> bool \<Rightarrow> Payments_Service outcome" where
  "Payments_NewService fees pct =
     andThen (Fees_Validate fees) (\<lambda>_. Ok \<lparr>svc_fees = fees, svc_refundPercentageFee = pct\<rparr>)"

section \<open>Reading a payment\<close>

definition meta_string :: "string \<Rightarrow> Transaction \<Rightarrow> string option" where
  "meta_string k t = (case map_of (txn_Metadata t) k of Some (JString v) \<Rightarrow> Some v | _ \<Rightarrow> None)"

definition isFeeEntry :: "Transaction \<Rightarrow> Entry \<Rightarrow> bool" where
  "isFeeEntry t e = (case meta_string metaFeeAccount t of Some want \<Rightarrow> ent_AccountID e = want | None \<Rightarrow> False)"

fun split_totals :: "Direction \<Rightarrow> Transaction \<Rightarrow> Entry list \<Rightarrow> int \<times> int \<Rightarrow> int \<times> int" where
  "split_totals d t [] acc = acc"
| "split_totals d t (e # es) (fee, net) =
     split_totals d t es
       (if ent_Direction e \<noteq> d then (fee, net)
        else if isFeeEntry t e then (wrap64 (fee + ent_Amount e), net)
        else (fee, wrap64 (net + ent_Amount e)))"

definition splitChargeTotals :: "Transaction \<Rightarrow> int \<times> int" where
  "splitChargeTotals t = split_totals Credit t (txn_Entries t) (0, 0)"

definition splitRefundTotals :: "Transaction \<Rightarrow> int \<times> int" where
  "splitRefundTotals t = split_totals Debit t (txn_Entries t) (0, 0)"

record derivation =
  dv_amount :: int
  dv_fee :: int
  dv_net :: int
  dv_refunded :: int
  dv_authorize :: "Transaction option"
  dv_charge :: "Transaction option"
  dv_voided :: bool
  dv_refundIDs :: "string list"

definition derive_role :: "Transaction \<Rightarrow> derivation \<Rightarrow> derivation" where
  "derive_role t d =
     (let role = (case meta_string metaRole t of Some r \<Rightarrow> r | None \<Rightarrow> [])
      in if role = roleAuthorize then d\<lparr>dv_authorize := Some t, dv_amount := Total t\<rparr>
      else if role = roleCharge \<or> role = roleCapture
      then (case splitChargeTotals t of (fee, net) \<Rightarrow>
        d\<lparr>dv_charge := Some t, dv_amount := Total t, dv_fee := fee, dv_net := net\<rparr>)
      else if role = roleRefund
      then (case splitRefundTotals t of (fee, net) \<Rightarrow>
        d\<lparr>dv_refunded := wrap64 (dv_refunded d + Total t), dv_fee := wrap64 (dv_fee d - fee),
          dv_net := wrap64 (dv_net d - net), dv_refundIDs := dv_refundIDs d @ [txn_ID t]\<rparr>)
      else if role = roleVoid then d\<lparr>dv_voided := True\<rparr>
      else d)"

definition derive_step :: "Transaction \<Rightarrow> derivation \<Rightarrow> derivation" where
  "derive_step t d =
     (let d' = derive_role t d in if txn_Status t = StatusVoided then d'\<lparr>dv_voided := True\<rparr> else d')"

definition derive_start :: derivation where
  "derive_start = \<lparr>dv_amount = 0, dv_fee = 0, dv_net = 0, dv_refunded = 0, dv_authorize = None, dv_charge = None,
     dv_voided = False, dv_refundIDs = []\<rparr>"

definition payment_state :: "derivation \<Rightarrow> State" where
  "payment_state d =
     (if dv_charge d = None \<and> dv_voided d then StateCanceled
      else if dv_charge d = None then StateRequiresCapture
      else if dv_refunded d \<ge> dv_amount d \<and> dv_amount d > 0 then StateRefunded
      else if dv_refunded d > 0 then StatePartiallyRefunded
      else StateSucceeded)"

definition derive :: "string \<Rightarrow> string \<Rightarrow> Transaction list \<Rightarrow> Payment outcome" where
  "derive paymentID merchantID txns =
     (case txns of
        [] \<Rightarrow> Panic
      | t0 # _ \<Rightarrow>
          let d = fold derive_step txns derive_start; cur = txn_Currency t0
          in andThen (MustNew (dv_amount d) cur) (\<lambda>amt.
             andThen (MustNew (dv_fee d) cur) (\<lambda>fee.
             andThen (MustNew (dv_net d) cur) (\<lambda>net.
             andThen (MustNew (dv_refunded d) cur) (\<lambda>refunded.
             Ok \<lparr>pay_ID = paymentID, pay_MerchantID = merchantID, pay_State = payment_state d, pay_Currency = cur,
                 pay_Amount = amt, pay_Fee = fee, pay_Net = net, pay_Refunded = refunded,
                 pay_AuthorizationID = (case dv_authorize d of None \<Rightarrow> [] | Some t \<Rightarrow> txn_ID t),
                 pay_ChargeID = (case dv_charge d of None \<Rightarrow> [] | Some t \<Rightarrow> txn_ID t),
                 pay_RefundIDs = dv_refundIDs d, pay_CreatedAt = txn_CreatedAt t0\<rparr>)))))"

definition Payments_Get :: "'s Repository \<Rightarrow> env \<Rightarrow> string \<Rightarrow> string \<Rightarrow> ('s world, Payment) opr" where
  "Payments_Get R E merchantID paymentID =
     seq (Service_TransactionsByRef R E merchantID paymentID) (\<lambda>txns.
     if txns = [] then ret (Err ErrPaymentNotFound) else ret (derive paymentID merchantID txns))"

section \<open>Charging\<close>

definition descriptionOr :: "string \<Rightarrow> string \<Rightarrow> string" where
  "descriptionOr given fallback = (if given \<noteq> [] then given else fallback)"

definition mergeMetadata :: "metadata \<Rightarrow> metadata \<Rightarrow> metadata" where
  "mergeMetadata base extra = fold (\<lambda>(k, v) out. AList.update k v out) extra
     (fold (\<lambda>(k, v) out. AList.update k v out) base [])"

record ChargeRequest =
  cr_MerchantID :: string
  cr_Amount :: money
  cr_Capture :: bool
  cr_Description :: string
  cr_Metadata :: metadata

text \<open>The three postings of a charge or a capture.\<close>

definition charge_entries :: "Chart \<Rightarrow> money \<Rightarrow> money \<Rightarrow> money \<Rightarrow> EntrySpec list" where
  "charge_entries chart amt net fee =
     [\<lparr>es_AccountID = ch_Clearing chart, es_Direction = Debit, es_Amount = amt\<rparr>,
      \<lparr>es_AccountID = ch_Payable chart, es_Direction = Credit, es_Amount = net\<rparr>,
      \<lparr>es_AccountID = ch_FeeRevenue chart, es_Direction = Credit, es_Amount = fee\<rparr>]"

definition charge_spec :: "ChargeRequest \<Rightarrow> Chart \<Rightarrow> money \<Rightarrow> money \<Rightarrow> string \<Rightarrow> TransactionSpec" where
  "charge_spec req chart fee net paymentID =
     (let md = mergeMetadata (cr_Metadata req) [(metaRole, JString roleCharge), (metaFeeAccount, JString (ch_FeeRevenue chart))]
      in if cr_Capture req
         then \<lparr>ts_MerchantID = cr_MerchantID req, ts_Description = descriptionOr (cr_Description req) ''charge'',
               ts_ExternalRef = paymentID, ts_Entries = charge_entries chart (cr_Amount req) net fee,
               ts_Pending = False, ts_Metadata = md\<rparr>
         else \<lparr>ts_MerchantID = cr_MerchantID req, ts_Description = descriptionOr (cr_Description req) ''authorization'',
               ts_ExternalRef = paymentID,
               ts_Entries =
                 [\<lparr>es_AccountID = ch_Clearing chart, es_Direction = Debit, es_Amount = cr_Amount req\<rparr>,
                  \<lparr>es_AccountID = ch_Holds chart, es_Direction = Credit, es_Amount = cr_Amount req\<rparr>],
               ts_Pending = True, ts_Metadata = AList.update metaRole (JString roleAuthorize) md\<rparr>)"

definition Charge :: "'s Repository \<Rightarrow> env \<Rightarrow> Payments_Service \<Rightarrow> ChargeRequest \<Rightarrow> ('s world, Payment) opr" where
  "Charge R E svc req =
     (if amount (cr_Amount req) \<le> 0 then ret (Err ErrAmountRequired)
      else seq (EnsureChart R E (cr_MerchantID req) (currency (cr_Amount req))) (\<lambda>chart.
        seq (ret (Compute (svc_fees svc) (cr_Amount req))) (\<lambda>(fee, net).
        seq (new_id E PrefixPayment) (\<lambda>paymentID.
        seq (Post R E (charge_spec req chart fee net paymentID)) (\<lambda>_.
        Payments_Get R E (cr_MerchantID req) paymentID)))))"

section \<open>Capture and cancel\<close>

definition payment_capture_amount :: "Payment \<Rightarrow> money option \<Rightarrow> money outcome" where
  "payment_capture_amount payment amt =
     (case amt of
        None \<Rightarrow> Ok (pay_Amount payment)
      | Some m \<Rightarrow>
          if currency m \<noteq> pay_Currency payment then Err ErrMultiCurrency
          else if amount m \<le> 0 then Err ErrAmountRequired
          else if amount m > amount (pay_Amount payment) then Err ErrCaptureExceedsAuthorization
          else Ok m)"

definition capture_spec :: "string \<Rightarrow> string \<Rightarrow> string \<Rightarrow> Chart \<Rightarrow> money \<Rightarrow> money \<Rightarrow> money \<Rightarrow> TransactionSpec" where
  "capture_spec merchantID paymentID authID chart capture fee net =
     \<lparr>ts_MerchantID = merchantID, ts_Description = ''capture of '' @ paymentID, ts_ExternalRef = paymentID,
      ts_Entries = charge_entries chart capture net fee, ts_Pending = False,
      ts_Metadata = [(metaRole, JString roleCapture), (metaFeeAccount, JString (ch_FeeRevenue chart)),
        (''captures'', JString authID)]\<rparr>"

definition Payments_Capture ::
  "'s Repository \<Rightarrow> env \<Rightarrow> Payments_Service \<Rightarrow> string \<Rightarrow> string \<Rightarrow> money option \<Rightarrow> ('s world, Payment) opr" where
  "Payments_Capture R E svc merchantID paymentID amt =
     seq (Payments_Get R E merchantID paymentID) (\<lambda>payment.
     if pay_State payment \<noteq> StateRequiresCapture then ret (Err ErrNotCapturable)
     else seq (ret (payment_capture_amount payment amt)) (\<lambda>capture.
     seq (EnsureChart R E merchantID (pay_Currency payment)) (\<lambda>chart.
     seq (ret (Compute (svc_fees svc) capture)) (\<lambda>(fee, net).
     seq (Void R E (pay_AuthorizationID payment)) (\<lambda>_.
     seq (Post R E (capture_spec merchantID paymentID (pay_AuthorizationID payment) chart capture fee net)) (\<lambda>_.
     Payments_Get R E merchantID paymentID))))))"

definition Cancel :: "'s Repository \<Rightarrow> env \<Rightarrow> string \<Rightarrow> string \<Rightarrow> ('s world, Payment) opr" where
  "Cancel R E merchantID paymentID =
     seq (Payments_Get R E merchantID paymentID) (\<lambda>payment.
     if pay_State payment \<noteq> StateRequiresCapture then ret (Err ErrNotCapturable)
     else seq (Void R E (pay_AuthorizationID payment)) (\<lambda>_. Payments_Get R E merchantID paymentID))"

section \<open>Refund\<close>

record RefundRequest =
  rr_MerchantID :: string
  rr_PaymentID :: string
  rr_Amount :: "money option"
  rr_Reason :: string
  rr_Metadata :: metadata

definition refund_amount :: "Payment \<Rightarrow> money option \<Rightarrow> money outcome" where
  "refund_amount payment amt =
     andThen (Refundable payment) (\<lambda>refundable.
     andThen (case amt of
        None \<Rightarrow> Ok refundable
      | Some m \<Rightarrow>
          if currency m \<noteq> pay_Currency payment then Err ErrMultiCurrency
          else if amount m \<le> 0 then Err ErrAmountRequired
          else Ok m) (\<lambda>refund.
     if amount refund > amount refundable then Err ErrRefundExceedsPayment
     else if Money_IsZero refund then Err ErrNotRefundable
     else Ok refund))"

definition refund_entries :: "Chart \<Rightarrow> money \<Rightarrow> money \<Rightarrow> money \<Rightarrow> EntrySpec list" where
  "refund_entries chart refund fromPayable returnedFee =
     \<lparr>es_AccountID = ch_Clearing chart, es_Direction = Credit, es_Amount = refund\<rparr>
     # (if Money_IsZero fromPayable then []
        else [\<lparr>es_AccountID = ch_Payable chart, es_Direction = Debit, es_Amount = fromPayable\<rparr>])
     @ (if Money_IsZero returnedFee then []
        else [\<lparr>es_AccountID = ch_FeeRevenue chart, es_Direction = Debit, es_Amount = returnedFee\<rparr>])"

definition refund_spec :: "RefundRequest \<Rightarrow> Chart \<Rightarrow> money \<Rightarrow> money \<Rightarrow> money \<Rightarrow> TransactionSpec" where
  "refund_spec req chart refund fromPayable returnedFee =
     \<lparr>ts_MerchantID = rr_MerchantID req, ts_Description = ''refund of '' @ rr_PaymentID req, ts_ExternalRef = rr_PaymentID req,
      ts_Entries = refund_entries chart refund fromPayable returnedFee, ts_Pending = False,
      ts_Metadata = mergeMetadata (rr_Metadata req)
        [(metaRole, JString roleRefund), (metaFeeAccount, JString (ch_FeeRevenue chart)),
         (''refunds'', JString (rr_PaymentID req)), (''reason'', JString (rr_Reason req))]\<rparr>"

definition Refund :: "'s Repository \<Rightarrow> env \<Rightarrow> Payments_Service \<Rightarrow> RefundRequest \<Rightarrow> ('s world, Payment) opr" where
  "Refund R E svc req =
     seq (Payments_Get R E (rr_MerchantID req) (rr_PaymentID req)) (\<lambda>payment.
     if \<not> (pay_State payment = StateSucceeded \<or> pay_State payment = StatePartiallyRefunded) then ret (Err ErrNotRefundable)
     else seq (ret (refund_amount payment (rr_Amount req))) (\<lambda>refund.
     seq (EnsureChart R E (rr_MerchantID req) (pay_Currency payment)) (\<lambda>chart.
     seq (ret (RefundFee (svc_fees svc) (pay_Amount payment) (pay_Refunded payment) refund (svc_refundPercentageFee svc))) (\<lambda>returnedFee.
     seq (ret (Money_Sub refund returnedFee)) (\<lambda>fromPayable.
     seq (Post R E (refund_spec req chart refund fromPayable returnedFee)) (\<lambda>_.
     Payments_Get R E (rr_MerchantID req) (rr_PaymentID req)))))))"

end
