(* ===== verification/Payment_Laws.thy ===== *)
theory Payment_Laws
  imports Ledger_Laws Payments
begin

text \<open>
  The correctness of payments. Every payment operation is a composition of ledger operations,
  so the invariants of the books survive any mix of payment and ledger requests; the postings a
  charge or a refund builds are the ones the ledger accepts; and the public view of a payment,
  derived from its transactions, accounts for every unit of the charge.
\<close>

section \<open>Payments keep the books\<close>

lemma Total_in64: "in64 (Total t)"
proof -
  have "in64 x \<Longrightarrow> in64 (foldl (\<lambda>s e. if ent_Direction e = Debit then wrap64 (s + ent_Amount e) else s) x es)" for x es
    by (induction es arbitrary: x) auto
  from this [of 0 "txn_Entries t"] show ?thesis by (simp add: Total_def)
qed

lemma split_totals_in64:
  "in64 fee \<Longrightarrow> in64 nt \<Longrightarrow> split_totals d t es (fee, nt) = (fee', nt') \<Longrightarrow> in64 fee' \<and> in64 nt'"
proof (induction es arbitrary: fee nt)
  case (Cons e es)
  show ?case
    by (rule Cons.IH [of "if ent_Direction e = d \<and> isFeeEntry t e then wrap64 (fee + ent_Amount e) else fee"
          "if ent_Direction e = d \<and> \<not> isFeeEntry t e then wrap64 (nt + ent_Amount e) else nt"])
      (use Cons.prems in \<open>auto split: if_splits\<close>)
qed simp

definition derivation_in64 :: "derivation \<Rightarrow> bool" where
  "derivation_in64 d \<longleftrightarrow> in64 (dv_amount d) \<and> in64 (dv_fee d) \<and> in64 (dv_net d) \<and> in64 (dv_refunded d)"

lemma derive_step_in64: "derivation_in64 d \<Longrightarrow> derivation_in64 (derive_step t d)"
  using split_totals_in64 [of 0 0]
  by (auto simp: derivation_in64_def derive_step_def derive_role_def Let_def Total_in64 splitChargeTotals_def
      splitRefundTotals_def split: prod.splits)

lemma derive_in64:
  assumes "derive pid m ts = Ok p"
  shows "in64 (amount (pay_Amount p))" and "in64 (amount (pay_Refunded p))"
proof -
  have "derivation_in64 d \<Longrightarrow> derivation_in64 (fold derive_step ts d)" for d
    by (induction ts arbitrary: d) (simp_all add: derive_step_in64)
  then have "derivation_in64 (fold derive_step ts derive_start)" by (simp add: derivation_in64_def derive_start_def)
  with assms show "in64 (amount (pay_Amount p))" "in64 (amount (pay_Refunded p))"
    by (auto simp: derive_def MustNew_def Money_New_def derivation_in64_def Let_def split: list.splits if_splits)
qed

lemma Money_results_in64:
  "Money_Add m q = Ok r \<Longrightarrow> in64 (amount r)" "Money_Sub m q = Ok r \<Longrightarrow> in64 (amount r)"
  by (auto simp: Money_Add_def Money_Sub_def Let_def split: if_splits)

lemma Compute_in64: "Compute f m = Ok (fee, nt) \<Longrightarrow> in64 (amount fee) \<and> in64 (amount nt)"
  by (auto simp: Compute_def Money_results_in64 split: if_splits)

lemma RefundFee_in64: "RefundFee f c b r pct = Ok fee \<Longrightarrow> in64 (amount fee)"
  by (auto simp: RefundFee_def Money_New_def Money_Zero_def Let_def split: if_splits)

lemma Refundable_Ok:
  "Refundable p = Ok m \<longleftrightarrow> Currency_Valid (pay_Currency p)
    \<and> m = \<lparr>amount = max 0 (wrap64 (amount (pay_Amount p) - amount (pay_Refunded p))), currency = pay_Currency p\<rparr>"
  by (auto simp: Refundable_def MustNew_def Money_New_def Let_def max_def)

lemma refund_amount_Ok:
  assumes "refund_amount p amt = Ok r"
  shows "amount r \<le> max 0 (wrap64 (amount (pay_Amount p) - amount (pay_Refunded p)))" and "currency r = pay_Currency p"
    and "0 < amount r" and "Currency_Valid (pay_Currency p)"
    and "amt = Some r \<or> amount r = max 0 (wrap64 (amount (pay_Amount p) - amount (pay_Refunded p)))"
proof -
  define n where "n = max 0 (wrap64 (amount (pay_Amount p) - amount (pay_Refunded p)))"
  have "0 \<le> n" by (simp add: n_def)
  with assms show "amount r \<le> max 0 (wrap64 (amount (pay_Amount p) - amount (pay_Refunded p)))" "currency r = pay_Currency p"
    "0 < amount r" "Currency_Valid (pay_Currency p)"
    "amt = Some r \<or> amount r = max 0 (wrap64 (amount (pay_Amount p) - amount (pay_Refunded p)))"
    unfolding n_def [symmetric]
    by (auto simp: refund_amount_def Refundable_Ok n_def [symmetric] Money_IsZero_def split: option.splits if_splits)
qed

lemma refund_amount_in64:
  assumes "refund_amount p amt = Ok r" and "\<And>m. amt = Some m \<Longrightarrow> in64 (amount m)"
  shows "in64 (amount r)"
proof -
  have "in64 (max 0 (wrap64 x))" for x using in64_wrap64 [of x] by (simp add: max_def)
  then show ?thesis using refund_amount_Ok(5) [OF assms(1)] assms(2) by metis
qed

lemma typed_entries: "typed_spec s \<longleftrightarrow> (\<forall>e\<in>set (ts_Entries s). in64 (amount (es_Amount e)))"
  by (simp add: typed_spec_def list_all_iff)

context repository
begin

definition sound :: "'s world \<Rightarrow> bool" where
  "sound w \<longleftrightarrow> wf (w_db w) \<and> books_ok (books (w_db w))"

lemma sound_same: "sound w \<Longrightarrow> w_db w' = w_db w \<Longrightarrow> sound w'"
  by (simp add: sound_def)

lemma ListAccounts_state: "Service_ListAccounts R E m w = (Ok x, w') \<Longrightarrow> w_db w' = w_db w"
  using list_accounts_state by (auto simp: Service_ListAccounts_def call_eq_Ok)

lemma Get_state: "Payments_Get R E m i w = (Ok p, w') \<Longrightarrow> w_db w' = w_db w"
  using by_ref_state by (auto simp: Payments_Get_def Service_TransactionsByRef_def seq_eq_Ok call_eq_Ok split: if_splits)

lemma Get_in64:
  assumes "Payments_Get R E m i w = (Ok p, w')"
  shows "in64 (amount (pay_Amount p))" and "in64 (amount (pay_Refunded p))"
  using assms derive_in64 by (auto simp: Payments_Get_def seq_eq_Ok split: if_splits)

lemma CreateAccount_sound: "Service_CreateAccount R E a0 w = (Ok a, w') \<Longrightarrow> sound w \<Longrightarrow> sound w'"
  unfolding sound_def using CreateAccount_books_ok by blast

lemma chart_loop_sound:
  "chart_loop R E m cur byName specs chart w = (Ok c, w') \<Longrightarrow> sound w \<Longrightarrow> sound w'"
proof (induction specs arbitrary: chart w)
  case (Cons s specs)
  then obtain a w1 where
    a: "(case map_of byName (AccountName (cs_name s) cur) of Some a \<Rightarrow> ret (Ok a)
      | None \<Rightarrow> Service_CreateAccount R E (chart_account m cur s)) w = (Ok a, w1)"
    and rest: "chart_loop R E m cur byName specs (set_chart (cs_name s) (acc_ID a) chart) w1 = (Ok c, w')"
    by (auto simp: seq_eq_Ok)
  have "sound w1"
    using a Cons.prems(2) CreateAccount_sound by (auto split: option.splits)
  then show ?case using Cons.IH rest by blast
qed simp

lemma EnsureChart_sound:
  assumes "EnsureChart R E m cur w = (Ok c, w')" and "sound w"
  shows "sound w'"
proof -
  obtain as w1 byName chart where l: "Service_ListAccounts R E m w = (Ok as, w1)"
    and c: "chart_loop R E m cur byName chartSpecs chart w1 = (Ok c, w')"
    using assms(1) unfolding EnsureChart_def by (auto simp: seq_eq_Ok simp del: chart_loop.simps split: if_splits)
  show ?thesis by (rule chart_loop_sound [OF c sound_same [OF assms(2) ListAccounts_state [OF l]]])
qed

lemma Post_sound: "Post R E spec w = (Ok t, w') \<Longrightarrow> typed_spec spec \<Longrightarrow> sound w \<Longrightarrow> sound w'"
  using Post_books_ok by (auto simp: sound_def)

lemma Void_sound: "Void R E i w = (Ok t, w') \<Longrightarrow> sound w \<Longrightarrow> sound w'"
  using Void_effect by (auto simp: sound_def)

lemma Charge_sound:
  assumes "Charge R E svc req w = (Ok p, w')" and "in64 (amount (cr_Amount req))" and "sound w"
  shows "sound w'"
proof -
  obtain chart fee nt i t w1 w2 w3 where
    c: "EnsureChart R E (cr_MerchantID req) (currency (cr_Amount req)) w = (Ok chart, w1)"
    and f: "Compute (svc_fees svc) (cr_Amount req) = Ok (fee, nt)" and i: "new_id E PrefixPayment w1 = (Ok i, w2)"
    and p: "Post R E (charge_spec req chart fee nt i) w2 = (Ok t, w3)"
    and g: "Payments_Get R E (cr_MerchantID req) i w3 = (Ok p, w')"
    using assms(1) by (auto simp: Charge_def seq_eq_Ok split: if_splits prod.splits)
  have "typed_spec (charge_spec req chart fee nt i)"
    using Compute_in64 [OF f] assms(2) by (auto simp: typed_entries charge_spec_def charge_entries_def Let_def)
  then have "sound w3" using p EnsureChart_sound [OF c assms(3)] i Post_sound sound_same by (metis new_id_db)
  then show ?thesis using Get_state [OF g] sound_same by blast
qed

lemma Capture_sound:
  assumes "Payments_Capture R E svc m i amt w = (Ok p, w')" and "\<And>x. amt = Some x \<Longrightarrow> in64 (amount x)" and "sound w"
  shows "sound w'"
proof -
  obtain p0 n chart fee nt v t w1 w2 w3 w4 where
    g: "Payments_Get R E m i w = (Ok p0, w1)" and n: "payment_capture_amount p0 amt = Ok n"
    and c: "EnsureChart R E m (pay_Currency p0) w1 = (Ok chart, w2)" and f: "Compute (svc_fees svc) n = Ok (fee, nt)"
    and v: "Void R E (pay_AuthorizationID p0) w2 = (Ok v, w3)"
    and p: "Post R E (capture_spec m i (pay_AuthorizationID p0) chart n fee nt) w3 = (Ok t, w4)"
    and g': "Payments_Get R E m i w4 = (Ok p, w')"
    using assms(1) by (auto simp: Payments_Capture_def seq_eq_Ok split: if_splits prod.splits)
  have "in64 (amount n)"
    using n Get_in64 [OF g] assms(2) by (auto simp: payment_capture_amount_def split: option.splits if_splits)
  then have "typed_spec (capture_spec m i (pay_AuthorizationID p0) chart n fee nt)"
    using Compute_in64 [OF f] by (simp add: typed_entries capture_spec_def charge_entries_def)
  moreover have "sound w3" using Void_sound [OF v] EnsureChart_sound [OF c] Get_state [OF g] assms(3) sound_same by blast
  ultimately have "sound w4" using Post_sound [OF p] by blast
  then show ?thesis using Get_state [OF g'] sound_same by blast
qed

lemma Cancel_void:
  assumes "Cancel R E m i w = (Ok p, w')"
  obtains j v w1 w2 where "w_db w1 = w_db w" and "Void R E j w1 = (Ok v, w2)" and "w_db w' = w_db w2"
proof -
  obtain p0 w1 v w2 where "Payments_Get R E m i w = (Ok p0, w1)" "Void R E (pay_AuthorizationID p0) w1 = (Ok v, w2)"
    "Payments_Get R E m i w2 = (Ok p, w')"
    using assms by (auto simp: Cancel_def seq_eq_Ok split: if_splits)
  then show thesis using that Get_state by blast
qed

lemma Cancel_sound: "Cancel R E m i w = (Ok p, w') \<Longrightarrow> sound w \<Longrightarrow> sound w'"
  by (erule Cancel_void) (metis Void_sound sound_same)

lemma Refund_sound:
  assumes "Refund R E svc req w = (Ok p, w')" and "\<And>x. rr_Amount req = Some x \<Longrightarrow> in64 (amount x)" and "sound w"
  shows "sound w'"
proof -
  obtain p0 n chart fee rest t w1 w2 w3 where
    g: "Payments_Get R E (rr_MerchantID req) (rr_PaymentID req) w = (Ok p0, w1)"
    and n: "refund_amount p0 (rr_Amount req) = Ok n"
    and c: "EnsureChart R E (rr_MerchantID req) (pay_Currency p0) w1 = (Ok chart, w2)"
    and f: "RefundFee (svc_fees svc) (pay_Amount p0) (pay_Refunded p0) n (svc_refundPercentageFee svc) = Ok fee"
    and r: "Money_Sub n fee = Ok rest"
    and p: "Post R E (refund_spec req chart n rest fee) w2 = (Ok t, w3)"
    and g': "Payments_Get R E (rr_MerchantID req) (rr_PaymentID req) w3 = (Ok p, w')"
    using assms(1) by (auto simp: Refund_def seq_eq_Ok split: if_splits)
  have "typed_spec (refund_spec req chart n rest fee)"
    using refund_amount_in64 [OF n assms(2)] RefundFee_in64 [OF f] Money_results_in64(2) [OF r]
    by (auto simp: typed_entries refund_spec_def refund_entries_def)
  moreover have "sound w2" using EnsureChart_sound [OF c] Get_state [OF g] assms(3) sound_same by blast
  ultimately have "sound w3" using Post_sound [OF p] by blast
  then show ?thesis using Get_state [OF g'] sound_same by blast
qed

end

section \<open>Runs of payment and ledger requests\<close>

datatype request =
    ReqLedger command
  | ReqCharge ChargeRequest
  | ReqCapture string string "money option"
  | ReqCancel string string
  | ReqRefund RefundRequest

text \<open>Requests of the right Go types: amounts are \<open>int64\<close>.\<close>

fun typed_request :: "request \<Rightarrow> bool" where
  "typed_request (ReqLedger c) = typed_command c"
| "typed_request (ReqCharge req) = in64 (amount (cr_Amount req))"
| "typed_request (ReqCapture m i amt) = (case amt of None \<Rightarrow> True | Some x \<Rightarrow> in64 (amount x))"
| "typed_request (ReqCancel m i) = True"
| "typed_request (ReqRefund req) = (case rr_Amount req of None \<Rightarrow> True | Some x \<Rightarrow> in64 (amount x))"

fun run_request :: "'s Repository \<Rightarrow> env \<Rightarrow> Payments_Service \<Rightarrow> request \<Rightarrow> ('s world, unit) opr" where
  "run_request R E svc (ReqLedger c) = run_command R E c"
| "run_request R E svc (ReqCharge req) = seq (Charge R E svc req) (\<lambda>_. ret (Ok ()))"
| "run_request R E svc (ReqCapture m i amt) = seq (Payments_Capture R E svc m i amt) (\<lambda>_. ret (Ok ()))"
| "run_request R E svc (ReqCancel m i) = seq (Cancel R E m i) (\<lambda>_. ret (Ok ()))"
| "run_request R E svc (ReqRefund req) = seq (Refund R E svc req) (\<lambda>_. ret (Ok ()))"

inductive payment_run :: "'s Repository \<Rightarrow> env \<Rightarrow> Payments_Service \<Rightarrow> 's world \<Rightarrow> 's world \<Rightarrow> bool" for R E svc where
  start: "payment_run R E svc w w"
| step: "payment_run R E svc w w' \<Longrightarrow> typed_request q \<Longrightarrow> InTx (run_request R E svc q) w' = (r, w'')
    \<Longrightarrow> payment_run R E svc w w''"

context repository
begin

lemma run_request_sound:
  assumes "run_request R E svc q w = (Ok u, w')" and "typed_request q" and "sound w"
  shows "sound w'"
proof (cases q)
  case (ReqLedger c)
  then show ?thesis using assms run_command_ok by (auto simp: sound_def)
next
  case (ReqCharge req)
  then show ?thesis using assms Charge_sound by (auto simp: seq_eq_Ok)
next
  case (ReqCapture m i amt)
  then show ?thesis using assms Capture_sound by (fastforce simp: seq_eq_Ok split: option.splits)
next
  case (ReqCancel m i)
  then show ?thesis using assms Cancel_sound by (auto simp: seq_eq_Ok)
next
  case (ReqRefund req)
  then show ?thesis using assms Refund_sound by (fastforce simp: seq_eq_Ok split: option.splits)
qed

theorem payment_run_sound:
  assumes "payment_run R E svc w w'" and "sound w"
  shows "sound w'"
  using assms
proof (induction rule: payment_run.induct)
  case (step w w' q r w'')
  from step.hyps(3) show ?case
    by (cases rule: InTx_cases) (use step run_request_sound sound_same in blast)+
qed

end

abbreviation payment_reachable :: "env \<Rightarrow> Payments_Service \<Rightarrow> generator \<Rightarrow> Store world \<Rightarrow> bool" where
  "payment_reachable E svc g w \<equiv> payment_run memory_repo E svc (new_world g) w"

lemma payment_reachable_ok:
  assumes "payment_reachable E svc g w"
  shows "store_ok (w_db w)" and "books_ok (books_of (w_db w))"
  using mem.payment_run_sound [OF assms]
  by (simp_all add: mem.sound_def new_world_def store_ok_New books_of_New books_ok_empty)

lemma ledger_run_payment_run: "ledger_run R E w w' \<Longrightarrow> payment_run R E svc w w'"
proof (induction rule: ledger_run.induct)
  case (step w w' c r w'')
  then show ?case using payment_run.step [of R E svc w w' "ReqLedger c" r w''] by simp
qed (rule payment_run.start)


definition sample_svc :: Payments_Service where
  "sample_svc = \<lparr>svc_fees = \<lparr>fee_Bps = 290, fee_Fixed = 30\<rparr>, svc_refundPercentageFee = True\<rparr>"


text \<open>
  Cancelling an authorization posts nothing: it changes no posted balance of any account.
\<close>

theorem Cancel_posts_nothing:
  assumes "payment_reachable E svc g w" and "Cancel memory_repo E m i w = (Ok p, w')"
  shows "posted_of (w_db w') j = posted_of (w_db w) j"
proof -
  note ok = payment_reachable_ok [OF assms(1)]
  from assms(2) obtain k v w1 w2 where w1: "w_db w1 = w_db w" and v: "Void memory_repo E k w1 = (Ok v, w2)" and w2: "w_db w' = w_db w2"
    by (rule mem.Cancel_void)
  have eff: "store_ok (w_db w2) \<and> moves (\<lambda>a. 0) (\<lambda>a. - net StatusPending a (entries_of k (books_of (w_db w1)))) (books_of (w_db w1)) (books_of (w_db w2))"
    using mem.Void_effect [OF v] ok w1 by metis
  have d: "dom (map_of (st_balances s)) = dom (map_of (st_accounts s))" if "store_ok s" for s
    using that by (simp add: store_ok_def)
  show ?thesis
  proof (cases "map_of (st_balances (w_db w)) j")
    case None
    have "map_of (st_accounts (w_db w2)) = map_of (st_accounts (w_db w))"
      using eff w1 by (simp add: moves_def books_of_def)
    then have "map_of (st_balances (w_db w2)) j = None" using None d [OF ok(1)] d eff by (metis domIff)
    then show ?thesis using None w2 by (simp add: posted_of_def)
  next
    case (Some b)
    then obtain a where "map_of (st_accounts (w_db w)) j = Some a" using d [OF ok(1)] by blast
    then have "bk_accounts (books_of (w_db w1)) j = Some a" "bk_balances (books_of (w_db w1)) j = Some b"
      using w1 Some by (simp_all add: books_of_def)
    then obtain b' where "bk_balances (books_of (w_db w2)) j = Some b'" "bal_Posted b' = bal_Posted b + 0"
      using eff unfolding moves_def by blast
    then have "map_of (st_balances (w_db w2)) j = Some b'" "bal_Posted b' = bal_Posted b" by (simp_all add: books_of_def)
    then show ?thesis using Some w2 by (simp add: posted_of_def)
  qed
qed

definition authorized_world :: "Store world" where
  "authorized_world = run_all memory_repo sample_env (sample_accounts False @
     [CmdPost ((sample_posting True)\<lparr>ts_ExternalRef := ''p'', ts_Metadata := [(metaRole, JString roleAuthorize)]\<rparr>)])
     (new_world sample_generator)"

lemma Cancel_posts_nothing_witness:
  "\<exists>p w'. Cancel memory_repo sample_env ''m'' ''p'' authorized_world = (Ok p, w')
    \<and> posted_of (w_db w') ''a'' = posted_of (w_db authorized_world) ''a''"
proof -
  have "typed_spec ((sample_posting True)\<lparr>ts_ExternalRef := x, ts_Metadata := y\<rparr>)" for x y
    using typed_sample(1) [of True] by (simp add: typed_spec_def)
  then have "reachable sample_env sample_generator authorized_world"
    unfolding authorized_world_def by (intro run_all_ledger_run) (simp add: typed_sample)
  then have r: "payment_reachable sample_env sample_svc sample_generator authorized_world" by (rule ledger_run_payment_run)
  have "succeeds (Cancel memory_repo sample_env ''m'' ''p'' authorized_world)" by code_simp
  then obtain p w' where c: "Cancel memory_repo sample_env ''m'' ''p'' authorized_world = (Ok p, w')" by (rule succeedsE)
  from Cancel_posts_nothing [OF r c] c show ?thesis by blast
qed

section \<open>The postings of a charge and of a refund\<close>

lemma Compute_sum:
  assumes "Compute f m = Ok (fee, nt)" and "money_ok m" and "in64 (fee_Fixed f)"
  shows "0 < amount m" and "0 \<le> amount fee" and "amount fee < amount m" and "amount nt = amount m - amount fee"
    and "currency fee = currency m" and "currency nt = currency m"
proof -
  have v: "Fees_Validate f = Ok ()" and pos: "0 < amount m"
    using assms(1) by (auto simp: Compute_def split: if_splits)
  then have r: "0 \<le> fee_Bps f" "fee_Bps f \<le> 10000" "0 \<le> fee_Fixed f"
    by (auto simp: Fees_Validate_def split: if_splits)
  define p where "p = percentage (fee_Bps f) (amount m) + fee_Fixed f"
  have p: "0 \<le> p" using percentage_bounds(1) [of "amount m" "fee_Bps f"] r pos by (simp add: p_def)
  have "Ok (fee, nt) = (if \<not> in64 p then Err MoneyErrOverflow else if amount m \<le> p then Err ErrFeeExceedsAmount
      else Ok (\<lparr>amount = p, currency = currency m\<rparr>, \<lparr>amount = amount m - p, currency = currency m\<rparr>))"
    using Compute_closed [OF v assms(2) pos assms(3)] assms(1) by (simp add: p_def [symmetric] Let_def)
  then have "fee = \<lparr>amount = p, currency = currency m\<rparr>" "nt = \<lparr>amount = amount m - p, currency = currency m\<rparr>" "p < amount m"
    by (auto split: if_splits)
  with pos p show "0 < amount m" "0 \<le> amount fee" "amount fee < amount m" "amount nt = amount m - amount fee"
    "currency fee = currency m" "currency nt = currency m" by simp_all
qed

text \<open>
  C21. The posting of a charge is one the ledger accepts, unless the fee is zero. For every
  request with an amount of a known currency and every fee and net that \<open>Compute\<close> returns, an
  authorization always validates, and so does a charge with a positive fee; a charge whose fee
  rounds to zero always fails, because its third entry has amount zero.
\<close>

theorem charge_spec_valid:
  assumes "Compute f (cr_Amount req) = Ok (fee, nt)" and "money_ok (cr_Amount req)" and "in64 (fee_Fixed f)"
    and "cr_MerchantID req \<noteq> []" and "Chart_Valid chart"
  shows "Spec_Validate (charge_spec req chart fee nt i) =
    (if cr_Capture req \<and> amount fee = 0 then Err ErrInvalidAmount else Ok ())"
proof -
  note c = Compute_sum [OF assms(1-3)]
  have m: "in64 (amount (cr_Amount req))" "Currency_Valid (currency (cr_Amount req))" using assms(2) by (simp_all add: money_ok_def)
  have "in64 (amount (cr_Amount req) - amount fee)" using c m(1) by (auto simp: in64_def)
  moreover have "in64 (amount fee)" using c m(1) by (auto simp: in64_def)
  ultimately show ?thesis
    using assms(4,5) c m
    by (simp add: Spec_Validate_def charge_spec_def charge_entries_def Let_def Chart_Valid_def Direction_Valid_def addInt64_spec)
qed

definition sample_charge :: ChargeRequest where
  "sample_charge = \<lparr>cr_MerchantID = ''m'', cr_Amount = \<lparr>amount = 10, currency = ''USD''\<rparr>, cr_Capture = True,
     cr_Description = [], cr_Metadata = []\<rparr>"

definition sample_chart :: Chart where
  "sample_chart = \<lparr>ch_Clearing = ''c'', ch_Payable = ''p'', ch_FeeRevenue = ''f'', ch_Holds = ''h'', ch_Currency = ''USD''\<rparr>"

lemma charge_spec_valid_witness:
  "\<exists>fee nt. Compute \<lparr>fee_Bps = 290, fee_Fixed = 0\<rparr> (cr_Amount sample_charge) = Ok (fee, nt) \<and> amount fee = 0
    \<and> Spec_Validate (charge_spec sample_charge sample_chart fee nt ''pay_1'') = Err ErrInvalidAmount"
proof -
  let ?z = "\<lparr>amount = 0, currency = ''USD''\<rparr>" and ?m = "\<lparr>amount = 10, currency = ''USD''\<rparr>"
  have m: "money_ok ?m" by (simp add: money_ok_def Currency_Valid_def exponents_def in64_def)
  have c: "Compute \<lparr>fee_Bps = 290, fee_Fixed = 0\<rparr> ?m = Ok (?z, ?m)"
    using Compute_closed [of "\<lparr>fee_Bps = 290, fee_Fixed = 0\<rparr>" ?m] m
    by (simp add: Fees_Validate_def percentage_def Let_def)
  have "Chart_Valid sample_chart" by (simp add: Chart_Valid_def sample_chart_def)
  then have "Spec_Validate (charge_spec sample_charge sample_chart ?z ?m ''pay_1'') = Err ErrInvalidAmount"
    using charge_spec_valid [of "\<lparr>fee_Bps = 290, fee_Fixed = 0\<rparr>" sample_charge ?z ?m sample_chart "''pay_1''"] c m
    by (simp add: sample_charge_def)
  with c show ?thesis by (auto simp: sample_charge_def)
qed

text \<open>
  C21. A refund never exceeds what is left of the payment, and its posting always validates:
  for every payment whose refunds so far are within its amount, the amount accepted is
  positive and at most the rest, the fee it returns and the remainder are representable, and
  the resulting two or three entries balance.
\<close>

theorem refund_spec_valid:
  assumes "refund_amount p (rr_Amount req) = Ok n" and "Fees_Validate f = Ok ()"
    and "money_ok (pay_Amount p)" and "currency (pay_Amount p) = pay_Currency p"
    and "0 \<le> amount (pay_Refunded p)" and "amount (pay_Refunded p) \<le> amount (pay_Amount p)"
    and "rr_MerchantID req \<noteq> []" and "Chart_Valid chart"
  shows "0 < amount n \<and> amount n \<le> amount (pay_Amount p) - amount (pay_Refunded p)
    \<and> (\<exists>fee rest. RefundFee f (pay_Amount p) (pay_Refunded p) n pct = Ok fee \<and> Money_Sub n fee = Ok rest
      \<and> amount fee + amount rest = amount n
      \<and> Spec_Validate (refund_spec req chart n rest fee) = Ok ())"
proof -
  let ?left = "amount (pay_Amount p) - amount (pay_Refunded p)"
  have a: "in64 (amount (pay_Amount p))" "Currency_Valid (pay_Currency p)" using assms(3,4) by (auto simp: money_ok_def)
  have l: "in64 ?left" "0 \<le> ?left" using a(1) assms(5,6) by (auto simp: in64_def)
  note n = refund_amount_Ok [OF assms(1)]
  have n1: "amount n \<le> ?left" using n(1) l by simp
  have n64: "in64 (amount n)" using n1 n(3) l by (auto simp: in64_def)
  have pos: "0 < amount (pay_Amount p)" "0 \<le> amount n" "amount (pay_Refunded p) + amount n \<le> amount (pay_Amount p)"
    using n1 n(3) assms(5) by linarith+
  have v: "0 \<le> fee_Bps f" "fee_Bps f \<le> 10000" using assms(2) by (auto simp: Fees_Validate_def split: if_splits)
  obtain k where k: "RefundFee f (pay_Amount p) (pay_Refunded p) n pct = Ok \<lparr>amount = k, currency = pay_Currency p\<rparr>"
    "0 \<le> k" "k \<le> amount n"
    using RefundFee_range [OF assms(2,3) pos(1) assms(5) pos(2,3), of pct] assms(4) by auto
  let ?fee = "\<lparr>amount = k, currency = pay_Currency p\<rparr>" and ?rest = "\<lparr>amount = amount n - k, currency = pay_Currency p\<rparr>"
  have k64: "in64 k" "in64 (amount n - k)" using k(2,3) n64 by (auto simp: in64_def)
  have sub: "Money_Sub n ?fee = Ok ?rest" using n(2) n64 k64 by (simp add: Money_Sub_spec)
  have "Spec_Validate (refund_spec req chart n ?rest ?fee) = Ok ()"
  proof -
    have "amount n - k = 0 \<or> 0 < amount n - k" "k = 0 \<or> 0 < k" using k by linarith+
    then show ?thesis
      using assms(7,8) n n64 k64 a(2) k(2,3)
      by (auto simp: Spec_Validate_def refund_spec_def refund_entries_def Money_IsZero_def Let_def Chart_Valid_def
          Direction_Valid_def addInt64_spec)
  qed
  with k sub n1 n(3) show ?thesis by fastforce
qed

definition sample_payment :: Payment where
  "sample_payment = \<lparr>pay_ID = ''pay_1'', pay_MerchantID = ''m'', pay_State = StatePartiallyRefunded, pay_Currency = ''USD'',
     pay_Amount = \<lparr>amount = 10000, currency = ''USD''\<rparr>, pay_Fee = \<lparr>amount = 223, currency = ''USD''\<rparr>,
     pay_Net = \<lparr>amount = 6444, currency = ''USD''\<rparr>, pay_Refunded = \<lparr>amount = 3333, currency = ''USD''\<rparr>,
     pay_AuthorizationID = [], pay_ChargeID = ''t'', pay_RefundIDs = [''r''], pay_CreatedAt = 0\<rparr>"

definition sample_refund :: RefundRequest where
  "sample_refund = \<lparr>rr_MerchantID = ''m'', rr_PaymentID = ''pay_1'', rr_Amount = None, rr_Reason = [], rr_Metadata = []\<rparr>"

lemma refund_spec_valid_witness:
  "\<exists>fee rest. RefundFee \<lparr>fee_Bps = 290, fee_Fixed = 30\<rparr> (pay_Amount sample_payment) (pay_Refunded sample_payment)
      \<lparr>amount = 6667, currency = ''USD''\<rparr> True = Ok fee
    \<and> Spec_Validate (refund_spec sample_refund sample_chart \<lparr>amount = 6667, currency = ''USD''\<rparr> rest fee) = Ok ()"
proof -
  let ?n = "\<lparr>amount = 6667, currency = ''USD''\<rparr>" and ?f = "\<lparr>fee_Bps = 290, fee_Fixed = 30\<rparr>"
  have cur: "Currency_Valid ''USD''" by (simp add: Currency_Valid_def exponents_def)
  then have "refund_amount sample_payment (rr_Amount sample_refund) = Ok ?n"
    by (simp add: refund_amount_def Refundable_def sample_payment_def sample_refund_def MustNew_def Money_New_def
        Money_IsZero_def in64_def)
  moreover have "Fees_Validate ?f = Ok ()" "Chart_Valid sample_chart" "rr_MerchantID sample_refund \<noteq> []"
    by (simp_all add: Fees_Validate_def Chart_Valid_def sample_chart_def sample_refund_def)
  moreover have "money_ok (pay_Amount sample_payment)" "currency (pay_Amount sample_payment) = pay_Currency sample_payment"
    "0 \<le> amount (pay_Refunded sample_payment)" "amount (pay_Refunded sample_payment) \<le> amount (pay_Amount sample_payment)"
    using cur by (simp_all add: money_ok_def sample_payment_def in64_def)
  ultimately show ?thesis using refund_spec_valid [of sample_payment sample_refund ?n ?f sample_chart True] by blast
qed

section \<open>The view of a payment\<close>

definition side_sum :: "(Entry \<Rightarrow> bool) \<Rightarrow> Entry list \<Rightarrow> int" where
  "side_sum P es = sum_list (map (\<lambda>e. if P e then ent_Amount e else 0) es)"

lemma side_sum_simps [simp]:
  "side_sum P [] = 0" "side_sum P (e # es) = (if P e then ent_Amount e else 0) + side_sum P es"
  by (simp_all add: side_sum_def)

lemma side_sum_nonneg: "\<forall>e\<in>set es. 0 < ent_Amount e \<Longrightarrow> 0 \<le> side_sum P es"
  by (induction es) auto

lemma split_totals_eq:
  assumes "\<forall>e\<in>set es. 0 < ent_Amount e" and "0 \<le> f" and "0 \<le> n"
    and "in64 (f + n + side_sum (\<lambda>e. ent_Direction e = d) es)"
  shows "split_totals d t es (f, n) = (f + side_sum (\<lambda>e. ent_Direction e = d \<and> isFeeEntry t e) es,
    n + side_sum (\<lambda>e. ent_Direction e = d \<and> \<not> isFeeEntry t e) es)"
  using assms
proof (induction es arbitrary: f n)
  case (Cons e es)
  have "0 \<le> side_sum (\<lambda>e. ent_Direction e = d) es" using Cons.prems(1) by (intro side_sum_nonneg) simp
  then have "ent_Direction e = d \<Longrightarrow> in64 (f + ent_Amount e) \<and> in64 (n + ent_Amount e)"
    using Cons.prems by (auto simp: in64_def)
  then show ?case using Cons by (auto simp: add.assoc add.left_commute)
qed simp

lemma side_sum_split: "side_sum (\<lambda>e. P e \<and> Q e) es + side_sum (\<lambda>e. P e \<and> \<not> Q e) es = side_sum P es"
  by (induction es) auto

lemma group_sides:
  assumes "group_ok c (txn_Entries t)"
  shows "Total t = side_sum (\<lambda>e. ent_Direction e = Debit) (txn_Entries t)"
    and "Total t = side_sum (\<lambda>e. ent_Direction e = Credit) (txn_Entries t)"
    and "\<forall>e\<in>set (txn_Entries t). 0 < ent_Amount e" and "in64 (Total t)" and "0 \<le> Total t"
proof -
  have d: "debit_sum (map spec_entry es) = side_sum (\<lambda>e. ent_Direction e = Debit) es" for es
    by (induction es) (auto simp: spec_entry_def)
  have k: "\<forall>e\<in>set es. Direction_Valid (ent_Direction e)
      \<Longrightarrow> credit_sum (map spec_entry es) = side_sum (\<lambda>e. ent_Direction e = Credit) es" for es
    by (induction es) (auto simp: spec_entry_def Direction_Valid_def)
  show t: "Total t = side_sum (\<lambda>e. ent_Direction e = Debit) (txn_Entries t)"
    using Total_debits [OF assms] d by simp
  have "debit_sum (map spec_entry (txn_Entries t)) = credit_sum (map spec_entry (txn_Entries t))"
    using assms by (simp add: group_ok_def)
  then show "Total t = side_sum (\<lambda>e. ent_Direction e = Credit) (txn_Entries t)"
    using Total_debits [OF assms] k group_entry(6) [OF assms] by simp
  show pos: "\<forall>e\<in>set (txn_Entries t). 0 < ent_Amount e" using group_entry(4) [OF assms] by blast
  show "in64 (Total t)" by (rule Total_in64)
  show "0 \<le> Total t" using t side_sum_nonneg [OF pos] by simp
qed

lemma splits_of_group:
  assumes "group_ok c (txn_Entries t)" and "splitChargeTotals t = (f, n) \<or> splitRefundTotals t = (f, n)"
  shows "f + n = Total t" and "0 \<le> f" and "0 \<le> n"
proof -
  note g = group_sides [OF assms(1)]
  have e: "split_totals d t (txn_Entries t) (0, 0) = (side_sum (\<lambda>e. ent_Direction e = d \<and> isFeeEntry t e) (txn_Entries t),
      side_sum (\<lambda>e. ent_Direction e = d \<and> \<not> isFeeEntry t e) (txn_Entries t))" if "d = Debit \<or> d = Credit" for d
    using split_totals_eq [of "txn_Entries t" 0 0 d t] g that by auto
  show "f + n = Total t" "0 \<le> f" "0 \<le> n"
    using assms(2) e [of Debit] e [of Credit] g(1,2) side_sum_nonneg [OF g(3)]
      side_sum_split [of "\<lambda>e. ent_Direction e = Credit" "isFeeEntry t" "txn_Entries t"]
      side_sum_split [of "\<lambda>e. ent_Direction e = Debit" "isFeeEntry t" "txn_Entries t"]
    by (auto simp: splitChargeTotals_def splitRefundTotals_def)
qed

definition role_of :: "Transaction \<Rightarrow> string" where
  "role_of t = (case meta_string metaRole t of Some r \<Rightarrow> r | None \<Rightarrow> [])"

lemmas role_defs = roleCharge_def roleAuthorize_def roleCapture_def roleVoid_def roleRefund_def

lemma derive_step_charge:
  assumes "role_of t = roleCharge \<or> role_of t = roleCapture" and "splitChargeTotals t = (f, n)"
  shows "dv_amount (derive_step t d) = Total t" and "dv_fee (derive_step t d) = f" and "dv_net (derive_step t d) = n"
    and "dv_charge (derive_step t d) = Some t" and "dv_refunded (derive_step t d) = dv_refunded d"
  using assms by (auto simp: derive_step_def derive_role_def Let_def role_of_def role_defs)

lemma derive_step_refund:
  assumes "role_of t = roleRefund" and "splitRefundTotals t = (f, n)"
  shows "dv_amount (derive_step t d) = dv_amount d" and "dv_fee (derive_step t d) = wrap64 (dv_fee d - f)"
    and "dv_net (derive_step t d) = wrap64 (dv_net d - n)" and "dv_charge (derive_step t d) = dv_charge d"
    and "dv_refunded (derive_step t d) = wrap64 (dv_refunded d + Total t)"
  using assms by (auto simp: derive_step_def derive_role_def Let_def role_of_def role_defs)

lemma derive_step_other: "role_of t \<noteq> roleRefund \<Longrightarrow> dv_refunded (derive_step t d) = dv_refunded d"
  by (auto simp: derive_step_def derive_role_def Let_def role_of_def role_defs split: prod.splits)

text \<open>The account a derivation gives of a charge of \<open>A\<close>, with refunds so far.\<close>

definition accounts_for :: "int \<Rightarrow> derivation \<Rightarrow> bool" where
  "accounts_for A d \<longleftrightarrow> dv_amount d = A \<and> dv_charge d \<noteq> None \<and> 0 \<le> dv_refunded d
     \<and> dv_fee d + dv_net d = A - dv_refunded d \<and> - dv_refunded d \<le> dv_fee d \<and> - dv_refunded d \<le> dv_net d"

lemma accounts_for_refund:
  assumes "accounts_for A d" and "role_of t = roleRefund" and "group_ok c (txn_Entries t)"
    and "dv_refunded d + Total t \<le> A" and "in64 A"
  shows "accounts_for A (derive_step t d)" and "dv_refunded (derive_step t d) = dv_refunded d + Total t"
proof -
  obtain f n where s: "splitRefundTotals t = (f, n)" by (cases "splitRefundTotals t")
  note g = splits_of_group [OF assms(3) disjI2 [OF s]] and st = derive_step_refund [OF assms(2) s, of d]
  have b: "0 \<le> dv_refunded d" "dv_fee d + dv_net d = A - dv_refunded d" "- dv_refunded d \<le> dv_fee d" "- dv_refunded d \<le> dv_net d"
    using assms(1) by (auto simp: accounts_for_def)
  have "- A \<le> dv_fee d - f" "dv_fee d - f \<le> A" "- A \<le> dv_net d - n" "dv_net d - n \<le> A" "0 \<le> dv_refunded d + Total t"
    using b g assms(4) by linarith+
  moreover from this have "0 \<le> A" by linarith
  ultimately have "in64 (dv_fee d - f)" "in64 (dv_net d - n)" "in64 (dv_refunded d + Total t)"
    using assms(4,5) by (auto simp: in64_def)
  then show "dv_refunded (derive_step t d) = dv_refunded d + Total t" "accounts_for A (derive_step t d)"
    using st b g assms(1) by (simp_all add: accounts_for_def)
qed

lemma fold_refunds:
  assumes "accounts_for A d" and "\<forall>t\<in>set rs. role_of t = roleRefund \<and> (\<exists>c. group_ok c (txn_Entries t))"
    and "dv_refunded d + sum_list (map Total rs) \<le> A" and "in64 A"
  shows "accounts_for A (fold derive_step rs d) \<and> dv_refunded (fold derive_step rs d) = dv_refunded d + sum_list (map Total rs)"
  using assms(1-3)
proof (induction rs arbitrary: d)
  case (Cons t rs)
  obtain c where c: "group_ok c (txn_Entries t)" using Cons.prems(2) by auto
  have "0 \<le> Total x" if "x \<in> set rs" for x using Cons.prems(2) that group_sides(5) by fastforce
  then have "0 \<le> sum_list (map Total rs)" by (intro sum_list_nonneg) auto
  then have "dv_refunded d + Total t \<le> A" using Cons.prems(3) by simp
  note st = accounts_for_refund [OF Cons.prems(1) _ c this assms(4)]
  show ?case using Cons.IH [of "derive_step t d"] st Cons.prems by simp
qed simp

text \<open>
  C22. The view of a payment accounts for every unit of the charge. When the transactions of a
  payment are anything but refunds, then a balanced charge or capture, then balanced refunds of
  at most the charge in all, the derived payment shows the charge's amount and the sum of the
  refunds, its fee and net add up to the amount less the refunds, and its state is the one the
  refunded total calls for.
\<close>

theorem derive_accounts:
  assumes "\<forall>t\<in>set pre. role_of t \<noteq> roleRefund" and "role_of c = roleCharge \<or> role_of c = roleCapture"
    and "group_ok cur (txn_Entries c)"
    and "\<forall>t\<in>set rs. role_of t = roleRefund \<and> (\<exists>k. group_ok k (txn_Entries t))"
    and "sum_list (map Total rs) \<le> Total c" and "0 < Total c"
    and "Currency_Valid (txn_Currency (hd (pre @ c # rs)))"
  shows "\<exists>p. derive i m (pre @ c # rs) = Ok p \<and> amount (pay_Amount p) = Total c
    \<and> amount (pay_Refunded p) = sum_list (map Total rs)
    \<and> amount (pay_Fee p) + amount (pay_Net p) = amount (pay_Amount p) - amount (pay_Refunded p)
    \<and> pay_State p = (if sum_list (map Total rs) = Total c then StateRefunded
        else if 0 < sum_list (map Total rs) then StatePartiallyRefunded else StateSucceeded)"
proof -
  have pre: "\<forall>t\<in>set ts. role_of t \<noteq> roleRefund \<Longrightarrow> dv_refunded (fold derive_step ts d) = dv_refunded d" for ts d
    by (induction ts arbitrary: d) (simp_all add: derive_step_other)
  define d where "d = derive_step c (fold derive_step pre derive_start)"
  obtain f n where s: "splitChargeTotals c = (f, n)" by (cases "splitChargeTotals c")
  note g = splits_of_group [OF assms(3) disjI1 [OF s]] and st = derive_step_charge [OF assms(2) s]
  have "dv_refunded d = 0" using st(5) pre [OF assms(1)] by (simp add: d_def derive_start_def)
  moreover have "accounts_for (Total c) d" using st g calculation by (simp add: accounts_for_def d_def)
  ultimately have "accounts_for (Total c) (fold derive_step rs d)" "dv_refunded (fold derive_step rs d) = sum_list (map Total rs)"
    using fold_refunds [OF _ assms(4), of "Total c" d] assms(5) Total_in64 by simp_all
  moreover have "fold derive_step (pre @ c # rs) derive_start = fold derive_step rs d" by (simp add: d_def)
  moreover obtain t0 ts where "pre @ c # rs = t0 # ts" by (cases pre) auto
  ultimately show ?thesis
    using assms(5-7)
    by (auto simp: derive_def Let_def MustNew_def Money_New_def accounts_for_def payment_state_def)
qed

definition sample_txn :: "string \<Rightarrow> Direction \<Rightarrow> Direction \<Rightarrow> Transaction" where
  "sample_txn role d k = \<lparr>txn_ID = role, txn_MerchantID = ''m'', txn_Status = StatusPosted, txn_Currency = ''USD'',
     txn_Description = [], txn_ReversesID = [], txn_ExternalRef = ''p'',
     txn_Metadata = [(metaRole, JString role), (metaFeeAccount, JString ''f'')], txn_CreatedAt = 0, txn_PostedAt = Some 0,
     txn_Entries =
       [\<lparr>ent_ID = 1, ent_TransactionID = role, ent_AccountID = ''c'', ent_Direction = d, ent_Amount = 100,
         ent_Currency = ''USD'', ent_Status = StatusPosted, ent_Seq = 0, ent_BalanceAfter = 0, ent_CreatedAt = 0\<rparr>,
        \<lparr>ent_ID = 2, ent_TransactionID = role, ent_AccountID = ''p'', ent_Direction = k, ent_Amount = 97,
         ent_Currency = ''USD'', ent_Status = StatusPosted, ent_Seq = 1, ent_BalanceAfter = 0, ent_CreatedAt = 0\<rparr>,
        \<lparr>ent_ID = 3, ent_TransactionID = role, ent_AccountID = ''f'', ent_Direction = k, ent_Amount = 3,
         ent_Currency = ''USD'', ent_Status = StatusPosted, ent_Seq = 2, ent_BalanceAfter = 0, ent_CreatedAt = 0\<rparr>]\<rparr>"

lemma derive_accounts_witness:
  "\<exists>p. derive ''p'' ''m'' [sample_txn roleCharge Debit Credit, sample_txn roleRefund Credit Debit] = Ok p
    \<and> pay_State p = StateRefunded"
proof -
  let ?c = "sample_txn roleCharge Debit Credit" and ?r = "sample_txn roleRefund Credit Debit"
  have role: "role_of ?c = roleCharge" "role_of ?r = roleRefund" by code_simp+
  have group: "group_ok ''USD'' (txn_Entries ?c)" "group_ok ''USD'' (txn_Entries ?r)"
    by (simp_all add: sample_txn_def group_ok_def spec_entry_def entry_spec_ok_def Direction_Valid_def Currency_Valid_def
        exponents_def in64_def)
  have total: "Total ?c = 100" "Total ?r = 100" by (simp_all add: Total_def sample_txn_def in64_def)
  have "Currency_Valid (txn_Currency ?c)" by (simp add: sample_txn_def Currency_Valid_def exponents_def)
  with derive_accounts [of "[]" ?c "''USD''" "[?r]" "''p''" "''m''"] role group total show ?thesis by auto
qed

text \<open>
  C36. The view of a payment does not see reversals. The transaction \<open>Reverse\<close> posts for a
  charge carries the payment's reference but no payment role, so the derived payment is the same
  with and without it: a reversed charge still reads as succeeded and refundable in full.
\<close>

theorem derive_ignores_reversal:
  assumes "t = (transaction_row (reversal_spec orig reason mirror) (txn_ID orig) k now)\<lparr>txn_Entries := es\<rparr>" and "ts \<noteq> []"
  shows "derive i m (ts @ [t]) = derive i m ts"
proof -
  have md: "txn_Metadata t = [(''reverses'', JString (txn_ID orig)), (''reason'', JString reason)]"
    and st: "txn_Status t \<noteq> StatusVoided"
    by (simp_all add: assms(1) transaction_row_def reversal_spec_def)
  have "meta_string metaRole t = None" by (simp add: meta_string_def md metaRole_def)
  then have "derive_step t d = d" for d by (simp add: derive_step_def derive_role_def st role_defs)
  then show ?thesis using assms(2) by (cases ts) (simp_all add: derive_def)
qed

lemma derive_ignores_reversal_witness:
  "let c = sample_txn roleCharge Debit Credit;
       t = (transaction_row (reversal_spec c [] []) (txn_ID c) ''r'' 1)\<lparr>txn_Entries := []\<rparr>
   in derive ''p'' ''m'' [c, t] = derive ''p'' ''m'' [c]"
  unfolding Let_def
  using derive_ignores_reversal [OF refl, of "[sample_txn roleCharge Debit Credit]"] by simp

end
