(* ===== verification/Sql_Tables.thy ===== *)
theory Sql_Tables
  imports Ledger_Service
begin

text \<open>
  What the stores over PostgreSQL share. A table is the list of its rows. A statement is one atomic
  step; it has the database's clock in its context and is refused as a whole when that context is
  done. A column of type \<^verbatim>\<open>INT\<close> refuses a value out of range. Rows that an \<^verbatim>\<open>ORDER BY\<close> does not
  distinguish keep the order of the table, and text is ordered by its bytes.
\<close>

section \<open>Statements\<close>

definition query :: "ambient \<Rightarrow> ('t, 'a) opr \<Rightarrow> ('t, 'a) opr" where
  "query c m = (if cancelled c then ret (Err ErrContext) else m)"

definition update_where :: "('r \<Rightarrow> bool) \<Rightarrow> ('r \<Rightarrow> 'r) \<Rightarrow> ('r list, int) opr" where
  "update_where P f rows = (Ok (int (length (filter P rows))), map (\<lambda>r. if P r then f r else r) rows)"

definition delete_where :: "('r \<Rightarrow> bool) \<Rightarrow> ('r list, int) opr" where
  "delete_where P rows = (Ok (int (length (filter P rows))), filter (\<lambda>r. \<not> P r) rows)"

definition int4_max :: int where "int4_max = 2 ^ 31 - 1"

text \<open>An update that adds one to an \<^verbatim>\<open>INT\<close> column.\<close>

definition increment_where :: "('r \<Rightarrow> int) \<Rightarrow> ('r \<Rightarrow> bool) \<Rightarrow> ('r \<Rightarrow> 'r) \<Rightarrow> ('r list, int) opr" where
  "increment_where col P f rows =
     (if list_ex (\<lambda>r. P r \<and> col r \<ge> int4_max) rows then (Err (ErrOther ''integer out of range''), rows)
      else update_where P f rows)"

definition sql_limit :: "int \<Rightarrow> 'r list \<Rightarrow> 'r list outcome" where
  "sql_limit n rows = (if n < 0 then Err (ErrOther ''LIMIT must not be negative'') else Ok (take (nat n) rows))"

definition order_desc :: "('r \<Rightarrow> int) \<Rightarrow> 'r list \<Rightarrow> 'r list" where
  "order_desc key rows = sort_key (\<lambda>r. - key r) rows"

text \<open>A query, a query for one row, one for many, and an update that must find its row.\<close>

definition select :: "('t \<Rightarrow> 'a outcome) \<Rightarrow> ('t, 'a) opr" where
  "select f rows = (f rows, rows)"

definition or_missing :: "err \<Rightarrow> ('r \<Rightarrow> 'a) \<Rightarrow> ('s, 'r option) opr \<Rightarrow> ('s, 'a) opr" where
  "or_missing e f m = seq m (\<lambda>row. case row of None \<Rightarrow> ret (Err e) | Some r \<Rightarrow> ret (Ok (f r)))"

definition rows_of :: "('r \<Rightarrow> 'a) \<Rightarrow> ('s, 'r list) opr \<Rightarrow> ('s, 'a list) opr" where
  "rows_of f m = seq m (\<lambda>rows. ret (Ok (map f rows)))"

definition none_affected :: "err \<Rightarrow> ('s, int) opr \<Rightarrow> ('s, unit) opr" where
  "none_affected e m = seq m (\<lambda>n. if n = 0 then ret (Err e) else ret (Ok ()))"

lemma query_eq_Ok: "query c m db = (Ok x, db') \<longleftrightarrow> \<not> cancelled c \<and> m db = (Ok x, db')"
  by (simp add: query_def)

lemma rows_of_eq_Ok: "rows_of f m db = (Ok xs, db') \<longleftrightarrow> (\<exists>rows. m db = (Ok rows, db') \<and> xs = map f rows)"
  by (auto simp: rows_of_def seq_eq_Ok)

lemma find_obtains: "\<exists>x\<in>set xs. P x \<Longrightarrow> \<exists>x. List.find P xs = Some x \<and> x \<in> set xs \<and> P x"
  by (induction xs) auto

text \<open>A key that is distinct over the rows finds the row it is the key of.\<close>

lemma find_key_Some:
  assumes "distinct (map k rows)" and "r \<in> set rows"
  shows "List.find (\<lambda>x. k x = k r) rows = Some r"
  using assms by (induction rows) auto

lemma find_key_append: "List.find P (rows @ [r]) = (case List.find P rows of None \<Rightarrow> if P r then Some r else None | Some x \<Rightarrow> Some x)"
  by (induction rows) auto

lemma find_key_map:
  assumes "\<And>r. k (f r) = k r"
  shows "List.find (\<lambda>x. k x = i) (map f rows) = map_option f (List.find (\<lambda>x. k x = i) rows)"
  using assms by (induction rows) auto

lemma filter_key_one:
  assumes "distinct (map k rows)" and "n < length rows"
  shows "filter (\<lambda>x. k x = k (rows ! n)) rows = [rows ! n]"
  using assms
proof (induction rows arbitrary: n)
  case (Cons r rows)
  show ?case
  proof (cases n)
    case 0
    have "filter (\<lambda>x. k x = k r) rows = []" using Cons.prems(1) by (auto simp: filter_empty_conv) (metis imageI)
    then show ?thesis using 0 by simp
  next
    case (Suc m)
    then have "k (rows ! m) \<in> k ` set rows" using Cons.prems(2) by simp
    then have "k r \<noteq> k (rows ! m)" using Cons.prems(1) by auto
    then show ?thesis using Cons Suc by simp
  qed
qed simp

text \<open>A join on a key that both tables list alike pairs the rows by position.\<close>

lemma join_on_key:
  assumes "distinct (map f xs)" and "map g ys = map f xs"
  shows "concat (map (\<lambda>b. map (\<lambda>a. (a, b)) (filter (\<lambda>a. f a = g b) xs)) ys) = zip xs ys"
proof -
  have len: "length ys = length xs" using assms(2) by (metis length_map)
  have "g (ys ! n) = f (xs ! n)" if "n < length xs" for n using assms(2) len that by (metis nth_map)
  then have one: "map (\<lambda>a. (a, ys ! n)) (filter (\<lambda>a. f a = g (ys ! n)) xs) = [(xs ! n, ys ! n)]" if "n < length xs" for n
    using filter_key_one [OF assms(1) that] that by simp
  have "concat (map (\<lambda>b. map (\<lambda>a. (a, b)) (filter (\<lambda>a. f a = g b) xs)) ys)
      = concat (map (\<lambda>n. map (\<lambda>a. (a, ys ! n)) (filter (\<lambda>a. f a = g (ys ! n)) xs)) [0..<length ys])"
    by (subst map_nth [of ys, symmetric]) (simp only: map_map comp_def)
  also have "\<dots> = concat (map (\<lambda>n. [(xs ! n, ys ! n)]) [0..<length ys])"
    using one len by (intro arg_cong [where f = concat] map_cong) auto
  also have "\<dots> = map (\<lambda>n. (xs ! n, ys ! n)) [0..<length ys]"
    using concat_map_singleton [of "\<lambda>n. (xs ! n, ys ! n)" "[0..<length ys]"] by simp
  also have "\<dots> = zip xs ys" using len by (intro nth_equalityI) simp_all
  finally show ?thesis .
qed

section \<open>Conversions\<close>

definition nullString :: "string \<Rightarrow> string option" where
  "nullString s = (if s = [] then None else Some s)"

definition derefString :: "string option \<Rightarrow> string" where
  "derefString s = (case s of None \<Rightarrow> [] | Some x \<Rightarrow> x)"

definition wrap32 :: "int \<Rightarrow> int" where
  "wrap32 x = (x + 2 ^ 31) mod 2 ^ 32 - 2 ^ 31"

end
