(* ===== verification/Webhook_Verify.thy ===== *)
theory Webhook_Verify
  imports Cursor
begin

text \<open>
  Signing and verifying webhooks: package \<^verbatim>\<open>pkg/webhookverify\<close>, the reference verifier, and
  \<^verbatim>\<open>Signer.Sign\<close> of \<^verbatim>\<open>internal/webhooks/signer.go\<close>. HMAC-SHA-256 is a parameter, any function
  of a key and a message; bytes are characters. Instants are counted in nanoseconds from the
  Unix epoch.
\<close>

section \<open>Time and hexadecimal digits\<close>

definition nanos :: int where "nanos = 1000000000"

text \<open>The seconds from year 1, where \<^verbatim>\<open>time.Time\<close> starts counting in an \<open>int64\<close>, to the Unix epoch.\<close>

definition unixToInternal :: int where "unixToInternal = 62135596800"

definition time_Unix :: "int \<Rightarrow> int" where
  "time_Unix seconds = (wrap64 (seconds + unixToInternal) - unixToInternal) * nanos"

definition Time_Unix :: "int \<Rightarrow> int" where
  "Time_Unix t = wrap64 (t div nanos)"

text \<open>The difference of two instants saturates at the ends of \<^verbatim>\<open>time.Duration\<close>.\<close>

definition Time_Sub :: "int \<Rightarrow> int \<Rightarrow> int" where
  "Time_Sub t u = (if in64 (t - u) then t - u else if t < u then MinInt64 else MaxInt64)"

definition hex_digits :: string where "hex_digits = ''0123456789abcdef''"

definition hex_encode :: "string \<Rightarrow> string" where
  "hex_encode bs = concat (map (\<lambda>b. [hex_digits ! (byte_val b div 16), hex_digits ! (byte_val b mod 16)]) bs)"

definition hex_value :: "char \<Rightarrow> nat option" where
  "hex_value c =
     (let n = byte_val c
      in if 48 \<le> n \<and> n \<le> 57 then Some (n - 48)
         else if 97 \<le> n \<and> n \<le> 102 then Some (n - 97 + 10)
         else if 65 \<le> n \<and> n \<le> 70 then Some (n - 65 + 10)
         else None)"

fun hex_decode :: "string \<Rightarrow> string option" where
  "hex_decode [] = Some []"
| "hex_decode [c] = None"
| "hex_decode (a # b # s) =
     (case (hex_value a, hex_value b) of
        (Some x, Some y) \<Rightarrow> map_option ((#) (char_of (16 * x + y))) (hex_decode s)
      | _ \<Rightarrow> None)"

section \<open>The verifier\<close>

definition DefaultTolerance :: int where "DefaultTolerance = 5 * 60 * nanos"

record Signature =
  sig_Timestamp :: int
  sig_V1 :: "string list"

text \<open>The loop over the parts of the header; the timestamp is \<open>None\<close> until a part sets it.\<close>

fun parse_parts :: "string list \<Rightarrow> int option \<Rightarrow> string list \<Rightarrow> (int option \<times> string list) outcome" where
  "parse_parts [] ts v1 = Ok (ts, v1)"
| "parse_parts (part # parts) ts v1 =
     (case Cut CHR ''='' (TrimSpace part) of (key, v, found) \<Rightarrow>
        if \<not> found then parse_parts parts ts v1
        else if key = ''t''
        then (case ParseInt v of None \<Rightarrow> Err ErrMalformedHeader | Some seconds \<Rightarrow> parse_parts parts (Some (time_Unix seconds)) v1)
        else if key = ''v1''
        then (case hex_decode v of None \<Rightarrow> parse_parts parts ts v1 | Some raw \<Rightarrow> parse_parts parts ts (v1 @ [raw]))
        else parse_parts parts ts v1)"

definition Parse :: "string \<Rightarrow> Signature outcome" where
  "Parse header =
     (if header = [] then Err ErrMalformedHeader
      else andThen (parse_parts (Split CHR '','' header) None []) (\<lambda>(ts, v1).
        case ts of
          None \<Rightarrow> Err ErrMalformedHeader
        | Some t \<Rightarrow> if v1 = [] then Err ErrNoSignatures else Ok \<lparr>sig_Timestamp = t, sig_V1 = v1\<rparr>))"

definition SignedPayload :: "int \<Rightarrow> string \<Rightarrow> string" where
  "SignedPayload timestamp body = FormatInt (Time_Unix timestamp) @ ''.'' @ body"

definition signature_Compute :: "(string \<Rightarrow> string \<Rightarrow> string) \<Rightarrow> string \<Rightarrow> int \<Rightarrow> string \<Rightarrow> string" where
  "signature_Compute hmac secret timestamp body = hmac secret (SignedPayload timestamp body)"

definition VerifyAt :: "(string \<Rightarrow> string \<Rightarrow> string) \<Rightarrow> string \<Rightarrow> string \<Rightarrow> string \<Rightarrow> int \<Rightarrow> int \<Rightarrow> unit outcome" where
  "VerifyAt hmac header body secret tolerance0 now =
     (let tolerance = (if tolerance0 \<le> 0 then DefaultTolerance else tolerance0)
      in andThen (Parse header) (\<lambda>sig.
        let drift0 = Time_Sub now (sig_Timestamp sig);
            drift = (if drift0 < 0 then wrap64 (- drift0) else drift0)
        in if drift > tolerance then Err ErrTooOld
           else if signature_Compute hmac secret (sig_Timestamp sig) body \<in> set (sig_V1 sig) then Ok ()
           else Err ErrNoMatch))"

definition Format :: "int \<Rightarrow> string list \<Rightarrow> string" where
  "Format timestamp sigs =
     ''t='' @ FormatInt (Time_Unix timestamp) @ concat (map (\<lambda>s. '',v1='' @ hex_encode s) sigs)"

section \<open>The signer\<close>

definition Sign :: "(string \<Rightarrow> string \<Rightarrow> string) \<Rightarrow> int \<Rightarrow> string \<Rightarrow> string list \<Rightarrow> (string \<times> int) outcome" where
  "Sign hmac now body secrets =
     (if secrets = [] then Err ErrSecretNotFound
      else let sigs = map (\<lambda>secret. signature_Compute hmac secret now body) (filter (\<lambda>secret. secret \<noteq> []) secrets)
        in if sigs = [] then Err ErrSecretNotFound else Ok (Format now sigs, now))"

section \<open>Round trips\<close>

lemma hex_digit_value: "k < 16 \<Longrightarrow> hex_value (hex_digits ! k) = Some k"
proof -
  have "\<forall>k\<in>set [0..<16]. hex_value (hex_digits ! k) = Some k" by code_simp
  then show "k < 16 \<Longrightarrow> ?thesis" by simp
qed

lemma byte_high: "byte_val b div 16 < 16"
  using byte_val_bound [of b] by (intro less_mult_imp_div_less) simp

lemma hex_decode_encode: "hex_decode (hex_encode bs) = Some bs"
proof (induction bs)
  case (Cons b bs)
  then show ?case by (simp add: hex_encode_def hex_digit_value byte_high)
qed (simp add: hex_encode_def)

lemma hex_encode_chars: "c \<in> set (hex_encode bs) \<Longrightarrow> graphic c \<and> c \<noteq> CHR '','' \<and> c \<noteq> CHR ''=''"
proof -
  have d: "\<forall>k\<in>set [0..<16]. graphic (hex_digits ! k) \<and> hex_digits ! k \<noteq> CHR '','' \<and> hex_digits ! k \<noteq> CHR ''=''" by code_simp
  assume "c \<in> set (hex_encode bs)"
  then obtain b where "c = hex_digits ! (byte_val b div 16) \<or> c = hex_digits ! (byte_val b mod 16)"
    by (auto simp: hex_encode_def)
  then show ?thesis using d byte_high by auto
qed

lemma FormatInt_chars: "c \<in> set (FormatInt i) \<Longrightarrow> is_digit c \<or> c = CHR ''-''"
  using FormatUint_digits by (auto simp: FormatInt_def list_all_iff split: if_splits)

lemma digit_chars: "is_digit c \<or> c = CHR ''-'' \<Longrightarrow> graphic c \<and> c \<noteq> CHR '','' \<and> c \<noteq> CHR ''=''"
  by (auto simp: is_digit_iff graphic_def)

text \<open>One part of a header, read back: trimming leaves it alone and the key is split off.\<close>

lemma part_cut:
  assumes "\<forall>c\<in>set v. graphic c" and "\<forall>c\<in>set k. graphic c \<and> c \<noteq> CHR ''=''" and "k \<noteq> []"
  shows "Cut CHR ''='' (TrimSpace (k @ CHR ''='' # v)) = (k, v, True)"
proof -
  have g: "\<forall>c\<in>set (k @ CHR ''='' # v). graphic c" using assms(1,2) by (auto simp: graphic_def)
  have ne: "k @ CHR ''='' # v \<noteq> []" by simp
  have "graphic (hd (k @ CHR ''='' # v)) \<and> graphic (last (k @ CHR ''='' # v))"
    using bspec [OF g hd_in_set [OF ne]] bspec [OF g last_in_set [OF ne]] by blast
  then have "TrimSpace (k @ CHR ''='' # v) = k @ CHR ''='' # v" by (intro TrimSpace_id)
  then show ?thesis using assms(2) by (auto intro: Cut_append)
qed

lemma Split_parts:
  assumes "CHR '','' \<notin> set p" and "\<forall>q\<in>set qs. CHR '','' \<notin> set q"
  shows "Split CHR '','' (p @ concat (map (\<lambda>q. CHR '','' # q) qs)) = p # qs"
  using assms
proof (induction qs arbitrary: p)
  case (Cons q qs)
  then show ?case using Split_append [of "CHR '',''" p "q @ concat (map (\<lambda>q. CHR '','' # q) qs)"] by simp
qed (simp add: Split_absent)

lemma parse_v1_parts:
  "parse_parts (map (\<lambda>s. ''v1='' @ hex_encode s) sigs) ts v1 = Ok (ts, v1 @ sigs)"
proof (induction sigs arbitrary: v1)
  case (Cons s sigs)
  have "Cut CHR ''='' (TrimSpace (''v1'' @ CHR ''='' # hex_encode s)) = (''v1'', hex_encode s, True)"
    by (rule part_cut) (auto simp: graphic_def dest: hex_encode_chars)
  then show ?case using Cons by (simp add: hex_decode_encode)
qed simp

lemma time_Unix_seconds: "in64 x \<Longrightarrow> Time_Unix (time_Unix x) = x"
proof -
  assume "in64 x"
  have "time_Unix x div nanos = wrap64 (x + unixToInternal) - unixToInternal" by (simp add: time_Unix_def nanos_def)
  then have "Time_Unix (time_Unix x) = wrap64 (wrap64 (x + unixToInternal) - unixToInternal)" by (simp add: Time_Unix_def)
  also have "\<dots> = x" using \<open>in64 x\<close> by (simp add: wrap64_diff_left)
  finally show ?thesis .
qed

lemma Parse_Format:
  assumes "sigs \<noteq> []"
  shows "Parse (Format t sigs) = Ok \<lparr>sig_Timestamp = time_Unix (Time_Unix t), sig_V1 = sigs\<rparr>"
proof -
  let ?n = "FormatInt (Time_Unix t)"
  have n: "\<forall>c\<in>set ?n. graphic c \<and> c \<noteq> CHR '','' \<and> c \<noteq> CHR ''=''" using FormatInt_chars digit_chars by blast
  have fmt: "Format t sigs = (''t='' @ ?n) @ concat (map (\<lambda>q. CHR '','' # q) (map (\<lambda>s. ''v1='' @ hex_encode s) sigs))"
    by (simp add: Format_def comp_def)
  have split: "Split CHR '','' (Format t sigs) = (''t='' @ ?n) # map (\<lambda>s. ''v1='' @ hex_encode s) sigs"
    unfolding fmt by (rule Split_parts) (use n in \<open>auto dest: hex_encode_chars\<close>)
  have "Cut CHR ''='' (TrimSpace (''t'' @ CHR ''='' # ?n)) = (''t'', ?n, True)"
    by (rule part_cut) (use n in \<open>auto simp: graphic_def\<close>)
  moreover have "ParseInt ?n = Some (Time_Unix t)" by (rule ParseInt_FormatInt) (simp add: Time_Unix_def)
  moreover have "Format t sigs \<noteq> []" by (simp add: Format_def)
  ultimately show ?thesis
    using assms parse_v1_parts [of sigs "Some (time_Unix (Time_Unix t))" "[]"] by (simp add: Parse_def split)
qed

lemma SignedPayload_seconds: "SignedPayload (time_Unix (Time_Unix t)) body = SignedPayload t body"
  by (simp add: SignedPayload_def time_Unix_seconds Time_Unix_def [of t])

text \<open>The drift the verifier computes, and when it is within a tolerance.\<close>

definition drift_of :: "int \<Rightarrow> int \<Rightarrow> int" where
  "drift_of now t = (if Time_Sub now t < 0 then wrap64 (- Time_Sub now t) else Time_Sub now t)"

lemma wrap64_MinInt64: "wrap64 (2 ^ 63) = MinInt64"
  by (simp add: wrap64_def)

lemma drift_of_le:
  assumes "0 \<le> tol" and "tol < MaxInt64"
  shows "drift_of now t \<le> tol \<longleftrightarrow> \<bar>now - t\<bar> \<le> tol \<or> 2 ^ 63 \<le> t - now"
proof -
  consider "2 ^ 63 \<le> t - now" | "in64 (now - t)" "t - now < 2 ^ 63" | "2 ^ 63 \<le> now - t"
    unfolding in64_def by linarith
  then show ?thesis
  proof cases
    case 1
    then have "Time_Sub now t = MinInt64" by (auto simp: Time_Sub_def in64_def)
    then have "drift_of now t = MinInt64" by (simp only: drift_of_def minus_minus wrap64_MinInt64) simp
    then show ?thesis using 1 assms(1) by simp
  next
    case 2
    then have d: "Time_Sub now t = now - t" by (simp add: Time_Sub_def)
    have "wrap64 (t - now) = t - now" if "now < t" using that 2 by (intro wrap64_id) (simp add: in64_def)
    then have "drift_of now t = \<bar>now - t\<bar>" by (simp add: drift_of_def d)
    then show ?thesis using 2(2) by simp
  next
    case 3
    then have "Time_Sub now t = MaxInt64" by (auto simp: Time_Sub_def in64_def)
    then have "drift_of now t = MaxInt64" by (simp add: drift_of_def)
    moreover have "\<not> \<bar>now - t\<bar> \<le> tol" "\<not> 2 ^ 63 \<le> t - now" using 3 assms by linarith+
    ultimately show ?thesis using assms(2) by linarith
  qed
qed

lemma VerifyAt_eq:
  "VerifyAt hmac header body secret tol now = andThen (Parse header) (\<lambda>sig.
     if drift_of now (sig_Timestamp sig) > (if tol \<le> 0 then DefaultTolerance else tol) then Err ErrTooOld
     else if signature_Compute hmac secret (sig_Timestamp sig) body \<in> set (sig_V1 sig) then Ok () else Err ErrNoMatch)"
  by (simp add: VerifyAt_def drift_of_def Let_def)

text \<open>What a verifier does with a header that \<open>Sign\<close> produced, for any of the secrets used.\<close>

lemma VerifyAt_Sign:
  assumes "Sign hmac t body secrets = Ok (header, t')" and "secret \<in> set secrets" and "secret \<noteq> []"
  shows "VerifyAt hmac header body secret tol now =
    (if drift_of now (time_Unix (Time_Unix t)) > (if tol \<le> 0 then DefaultTolerance else tol) then Err ErrTooOld else Ok ())"
proof -
  let ?sigs = "map (\<lambda>secret. signature_Compute hmac secret t body) (filter (\<lambda>secret. secret \<noteq> []) secrets)"
  have h: "header = Format t ?sigs" and ne: "?sigs \<noteq> []"
    using assms(1) by (auto simp: Sign_def Let_def split: if_splits)
  have "signature_Compute hmac secret (time_Unix (Time_Unix t)) body \<in> set ?sigs"
    using assms(2,3) by (auto simp: signature_Compute_def SignedPayload_seconds)
  then show ?thesis using Parse_Format [OF ne, of t] by (simp add: VerifyAt_eq h)
qed

lemma Sign_instant:
  assumes "in64 (t div nanos)" and "in64 (t div nanos + unixToInternal)"
  shows "time_Unix (Time_Unix t) = t - t mod nanos"
  using assms by (simp add: time_Unix_def Time_Unix_def minus_mod_eq_div_mult)

text \<open>
  C28. A signed webhook verifies: for every body, every list of secrets and every HMAC, the
  header that \<open>Sign\<close> makes is accepted by \<open>VerifyAt\<close> with each of the secrets that is not
  empty, so also with both during a rotation, at any time within the tolerance of the signing
  second.
\<close>

theorem Sign_Verify:
  assumes "Sign hmac t body secrets = Ok (header, t')" and "secret \<in> set secrets" and "secret \<noteq> []"
    and "in64 (t div nanos)" and "in64 (t div nanos + unixToInternal)"
    and "0 < tol" and "tol < MaxInt64" and "\<bar>now - (t - t mod nanos)\<bar> \<le> tol"
  shows "VerifyAt hmac header body secret tol now = Ok ()"
proof -
  have "drift_of now (t - t mod nanos) \<le> tol" using drift_of_le [of tol now "t - t mod nanos"] assms(6-8) by simp
  then show ?thesis
    using VerifyAt_Sign [OF assms(1-3), of tol now] assms(6) by (simp add: Sign_instant [OF assms(4,5)])
qed

lemma Sign_Verify_witness:
  "\<exists>header t'. Sign (\<lambda>k m. k @ m) 1700000000500000000 ''{}'' [''old'', ''new''] = Ok (header, t')
    \<and> VerifyAt (\<lambda>k m. k @ m) header ''{}'' ''new'' DefaultTolerance 1700000100000000000 = Ok ()"
proof -
  obtain header t' where s: "Sign (\<lambda>k m. k @ m) 1700000000500000000 ''{}'' [''old'', ''new''] = Ok (header, t')"
    by (simp add: Sign_def)
  have "VerifyAt (\<lambda>k m. k @ m) header ''{}'' ''new'' DefaultTolerance 1700000100000000000 = Ok ()"
    by (rule Sign_Verify [OF s]) (simp_all add: nanos_def unixToInternal_def in64_def DefaultTolerance_def)
  with s show ?thesis by blast
qed



text \<open>
  A timestamp far in the future is accepted: whatever the HMAC and the tolerance, a payload
  signed with a timestamp at least 2^63 nanoseconds after the verifier's clock verifies, at any
  such clock reading, although the tolerance check is meant to refuse both directions.
\<close>

theorem VerifyAt_accepts_far_future:
  assumes "Sign hmac t body secrets = Ok (header, t')" and "secret \<in> set secrets" and "secret \<noteq> []"
    and "in64 (t div nanos)" and "in64 (t div nanos + unixToInternal)"
    and "tol < MaxInt64" and "2 ^ 63 \<le> t - t mod nanos - now"
  shows "VerifyAt hmac header body secret tol now = Ok ()"
proof -
  define k where "k = (if tol \<le> 0 then DefaultTolerance else tol)"
  have k: "0 \<le> k" "k < MaxInt64" using assms(6) by (auto simp: k_def DefaultTolerance_def nanos_def)
  have "drift_of now (t - t mod nanos) \<le> k" using drift_of_le [OF k] assms(7) by blast
  then show ?thesis
    using VerifyAt_Sign [OF assms(1-3), of tol now] by (simp add: Sign_instant [OF assms(4,5)] k_def [symmetric])
qed

lemma VerifyAt_accepts_far_future_witness:
  "\<exists>header t'. Sign (\<lambda>k m. k @ m) 11000000000000000000 ''{}'' [''s''] = Ok (header, t')
    \<and> VerifyAt (\<lambda>k m. k @ m) header ''{}'' ''s'' 0 1700000000000000000 = Ok ()"
proof -
  obtain header t' where s: "Sign (\<lambda>k m. k @ m) 11000000000000000000 ''{}'' [''s''] = Ok (header, t')"
    by (simp add: Sign_def)
  have "VerifyAt (\<lambda>k m. k @ m) header ''{}'' ''s'' 0 1700000000000000000 = Ok ()"
    by (rule VerifyAt_accepts_far_future [OF s]) (simp_all add: nanos_def unixToInternal_def in64_def)
  with s show ?thesis by blast
qed

end
