(* ===== verification/Webhook_Delivery.thy ===== *)
theory Webhook_Delivery
  imports Webhook_Verify
begin

text \<open>
  The decisions of webhook delivery: event types and subscription filters
  (\<^verbatim>\<open>internal/events\<close>), the retry schedule (\<^verbatim>\<open>internal/webhooks/backoff.go\<close>), and what an
  attempt's result means (\<^verbatim>\<open>internal/webhooks/delivery.go\<close>). Durations are nanoseconds in an
  \<open>int64\<close>; the random draw and the HTTP date parser are parameters.
\<close>

section \<open>Event types and filters\<close>

type_synonym EventType = string

definition AllTypes :: "EventType list" where
  "AllTypes =
     [''payment.succeeded'', ''payment.requires_capture'', ''payment.captured'', ''payment.canceled'',
      ''payment.refunded'', ''payment.partially_refunded'', ''transfer.posted'', ''transfer.reversed'',
      ''account.created'', ''endpoint.degraded'', ''endpoint.disabled'']"

definition EventType_Valid :: "EventType \<Rightarrow> bool" where
  "EventType_Valid t \<longleftrightarrow> t \<in> set AllTypes"

definition MatchesFilter :: "string \<Rightarrow> EventType \<Rightarrow> bool" where
  "MatchesFilter pattern typ =
     (if pattern = ''*'' then True
      else if has_suffix pattern ''.*'' then has_prefix typ (butlast pattern)
      else pattern = typ)"

definition MatchesAny :: "string list \<Rightarrow> EventType \<Rightarrow> bool" where
  "MatchesAny patterns typ \<longleftrightarrow> list_ex (\<lambda>p. MatchesFilter p typ) patterns"

fun validate_filters :: "string list \<Rightarrow> unit outcome" where
  "validate_filters [] = Ok ()"
| "validate_filters (p # ps) =
     (if p = ''*'' then validate_filters ps
      else if list_ex (MatchesFilter p) AllTypes then validate_filters ps
      else Err ErrInvalidType)"

definition ValidateFilters :: "string list \<Rightarrow> unit outcome" where
  "ValidateFilters patterns = (if patterns = [] then Err ErrInvalidType else validate_filters patterns)"

section \<open>Endpoints, deliveries, attempts\<close>

type_synonym DeliveryState = string

definition DeliveryPending :: DeliveryState where "DeliveryPending = ''pending''"

definition DeliveryDelivering :: DeliveryState where "DeliveryDelivering = ''delivering''"

definition DeliverySucceeded :: DeliveryState where "DeliverySucceeded = ''succeeded''"

definition DeliveryExhausted :: DeliveryState where "DeliveryExhausted = ''exhausted''"

definition DeliveryDisabled :: DeliveryState where "DeliveryDisabled = ''disabled''"

type_synonym EndpointStatus = string

definition EndpointActive :: EndpointStatus where "EndpointActive = ''active''"

definition EndpointDegraded :: EndpointStatus where "EndpointDegraded = ''degraded''"

definition EndpointDisabled :: EndpointStatus where "EndpointDisabled = ''disabled''"

definition DegradeAfter :: int where "DegradeAfter = 20"

definition DisableAfter :: int where "DisableAfter = 100"

definition MaxAttempts :: int where "MaxAttempts = 16"

record Endpoint =
  ep_ID :: string
  ep_MerchantID :: string
  ep_URL :: string
  ep_EnabledEvents :: "string list"
  ep_Status :: EndpointStatus
  ep_ConsecutiveFailures :: int
  ep_Description :: string
  ep_CreatedAt :: int
  ep_DisabledAt :: "int option"

definition Wants :: "Endpoint \<Rightarrow> EventType \<Rightarrow> bool" where
  "Wants e typ = (if ep_Status e = EndpointDisabled then False else MatchesAny (ep_EnabledEvents e) typ)"

text \<open>The result of one attempt; \<open>None\<close> is a nil error.\<close>

record Response =
  resp_StatusCode :: int
  resp_Duration :: int
  resp_Body :: string
  resp_Err :: "err option"

definition Succeeded :: "Response \<Rightarrow> bool" where
  "Succeeded r \<longleftrightarrow> resp_Err r = None \<and> resp_StatusCode r \<ge> 200 \<and> resp_StatusCode r < 300"

datatype Outcome = OutcomeSucceeded | OutcomeRetry | OutcomeExhausted | OutcomeDisabled

fun Outcome_String :: "Outcome \<Rightarrow> string" where
  "Outcome_String OutcomeSucceeded = ''succeeded''"
| "Outcome_String OutcomeRetry = ''retry''"
| "Outcome_String OutcomeExhausted = ''exhausted''"
| "Outcome_String OutcomeDisabled = ''disabled''"

definition Classify :: "Response \<Rightarrow> int \<Rightarrow> int \<Rightarrow> Outcome" where
  "Classify resp attempt maxAttempts0 =
     (let maxAttempts = (if maxAttempts0 \<le> 0 then MaxAttempts else maxAttempts0)
      in if Succeeded resp then OutcomeSucceeded
         else if resp_Err resp = None \<and> resp_StatusCode resp = 410 then OutcomeDisabled
         else if wrap64 (attempt + 1) \<ge> maxAttempts then OutcomeExhausted
         else OutcomeRetry)"

definition RetryAfter :: "(string \<Rightarrow> int option) \<Rightarrow> string \<Rightarrow> int \<Rightarrow> int \<Rightarrow> int \<times> bool" where
  "RetryAfter parseTime header now capacity =
     (let capped = (\<lambda>d. if capacity > 0 \<and> d > capacity then capacity else d)
      in if header = [] then (0, False)
         else case ParseInt header of
           Some seconds \<Rightarrow>
             if seconds < 0 then (0, False) else (capped (wrap64 (seconds * nanos)), True)
         | None \<Rightarrow>
             (case parseTime header of
                Some at \<Rightarrow> let d = Time_Sub at now in if d < 0 then (0, True) else (capped d, True)
              | None \<Rightarrow> (0, False)))"

section \<open>The retry schedule\<close>

record Backoff =
  bo_Base :: int
  bo_Cap :: int

definition DefaultBackoff :: Backoff where
  "DefaultBackoff = \<lparr>bo_Base = 10 * nanos, bo_Cap = 6 * 3600 * nanos\<rparr>"

fun interval_loop :: "nat \<Rightarrow> int \<Rightarrow> int \<Rightarrow> int" where
  "interval_loop 0 interval capacity = (if interval > capacity then capacity else interval)"
| "interval_loop (Suc n) interval capacity =
     (let interval' = wrap64 (interval * 2)
      in if interval' \<ge> capacity then capacity else interval_loop n interval' capacity)"

definition Interval :: "Backoff \<Rightarrow> int \<Rightarrow> int" where
  "Interval b attempt =
     (let base = (if bo_Base b \<le> 0 then bo_Base DefaultBackoff else bo_Base b);
          capacity = (if bo_Cap b \<le> 0 then bo_Cap DefaultBackoff else bo_Cap b)
      in interval_loop (nat attempt) base capacity)"

text \<open>\<^verbatim>\<open>rand.Int63n\<close> draws below its argument and panics when that is not positive.\<close>

definition Delay :: "(int \<Rightarrow> int) \<Rightarrow> Backoff \<Rightarrow> int \<Rightarrow> int outcome" where
  "Delay int63n b attempt =
     (let interval = Interval b attempt
      in if interval \<le> 0 then Ok 0
         else let n = wrap64 (interval + 1) in if n \<le> 0 then Panic else Ok (int63n n))"

definition NextAttemptAt :: "(int \<Rightarrow> int) \<Rightarrow> Backoff \<Rightarrow> int \<Rightarrow> int \<Rightarrow> int outcome" where
  "NextAttemptAt int63n b now attempt = andThen (Delay int63n b attempt) (\<lambda>d. Ok (now + d))"

definition Schedule :: "Backoff \<Rightarrow> int \<Rightarrow> int list outcome" where
  "Schedule b maxAttempts =
     (if maxAttempts < 0 then Panic else Ok (map (\<lambda>i. Interval b (int i)) [0..<nat maxAttempts]))"

definition WorstCaseWindow :: "Backoff \<Rightarrow> int \<Rightarrow> int outcome" where
  "WorstCaseWindow b maxAttempts =
     andThen (Schedule b maxAttempts) (\<lambda>ds. Ok (foldl (\<lambda>total d. wrap64 (total + d)) 0 ds))"

definition ExpectedWindow :: "Backoff \<Rightarrow> int \<Rightarrow> int outcome" where
  "ExpectedWindow b maxAttempts = andThen (WorstCaseWindow b maxAttempts) (\<lambda>w. Ok (go_div w 2))"

section \<open>Properties\<close>

lemma interval_loop_eq:
  assumes "0 < i" and "i < 2 ^ 62" and "0 < c" and "c \<le> 2 ^ 62"
  shows "interval_loop n i c = min c (i * 2 ^ n)"
  using assms(1,2)
proof (induction n arbitrary: i)
  case (Suc n)
  have w: "wrap64 (i * 2) = i * 2" using Suc.prems by (intro wrap64_id) (simp add: in64_def)
  show ?case
  proof (cases "c \<le> i * 2")
    case True
    have "i * 2 * 1 \<le> i * 2 * 2 ^ n" using Suc.prems by (intro mult_left_mono) simp_all
    then have "c \<le> i * 2 ^ Suc n" using True by (simp add: mult.assoc)
    then show ?thesis using True w by (simp add: min_def)
  next
    case False
    then show ?thesis using Suc.IH [of "i * 2"] Suc.prems w assms(4) by (simp add: mult.assoc)
  qed
qed (simp add: min_def)

text \<open>The base and the cap in force, with the defaults for values that are not positive.\<close>

definition base_of :: "Backoff \<Rightarrow> int" where
  "base_of b = (if bo_Base b \<le> 0 then bo_Base DefaultBackoff else bo_Base b)"

definition cap_of :: "Backoff \<Rightarrow> int" where
  "cap_of b = (if bo_Cap b \<le> 0 then bo_Cap DefaultBackoff else bo_Cap b)"

lemma Interval_min:
  assumes "base_of b < 2 ^ 62" and "cap_of b < 2 ^ 62"
  shows "Interval b attempt = min (cap_of b) (base_of b * 2 ^ nat attempt)" and "0 < Interval b attempt"
    and "wrap64 (Interval b attempt + 1) = Interval b attempt + 1"
proof -
  have pos: "0 < base_of b" "0 < cap_of b" by (simp_all add: base_of_def cap_of_def DefaultBackoff_def nanos_def)
  show eq: "Interval b attempt = min (cap_of b) (base_of b * 2 ^ nat attempt)"
    using interval_loop_eq [OF pos(1) assms(1) pos(2)] assms(2)
    by (simp add: Interval_def base_of_def [symmetric] cap_of_def [symmetric])
  show gt: "0 < Interval b attempt" using pos by (simp add: eq)
  have "Interval b attempt \<le> cap_of b" by (simp add: eq)
  then show "wrap64 (Interval b attempt + 1) = Interval b attempt + 1"
    using gt assms(2) by (intro wrap64_id) (simp add: in64_def)
qed

lemma Delay_draw:
  assumes "base_of b < 2 ^ 62" and "cap_of b < 2 ^ 62"
  shows "Delay int63n b attempt = Ok (int63n (Interval b attempt + 1))"
  using Interval_min(2,3) [OF assms, of attempt] by (simp add: Delay_def Let_def)

text \<open>
  The retry interval is exactly min(cap, base * 2^attempt), for every attempt, with no
  overflow, when base and cap are below 2^62 nanoseconds (146 years); the delay drawn from it is
  between zero and the interval, and drawing never panics.
\<close>

theorem Interval_exact:
  assumes "base_of b < 2 ^ 62" and "cap_of b < 2 ^ 62" and "\<And>n. 0 < n \<Longrightarrow> 0 \<le> int63n n \<and> int63n n < n"
  shows "Interval b attempt = min (cap_of b) (base_of b * 2 ^ nat attempt)
    \<and> (\<exists>d. Delay int63n b attempt = Ok d \<and> 0 \<le> d \<and> d \<le> Interval b attempt \<and> d \<le> cap_of b)"
proof -
  let ?n = "Interval b attempt"
  have "0 \<le> int63n (?n + 1) \<and> int63n (?n + 1) < ?n + 1"
    using Interval_min(2) [OF assms(1,2), of attempt] by (intro assms(3)) simp
  moreover have "?n \<le> cap_of b" by (simp add: Interval_min(1) [OF assms(1,2)])
  ultimately show ?thesis by (auto simp: Interval_min(1) [OF assms(1,2)] Delay_draw [OF assms(1,2)])
qed

lemma Interval_exact_witness:
  "Interval DefaultBackoff 3 = 80 * nanos \<and> (\<exists>d. Delay (\<lambda>n. n - 1) DefaultBackoff 3 = Ok d \<and> d \<le> 80 * nanos)"
  using Interval_exact [of DefaultBackoff "\<lambda>n. n - 1" 3]
  by (auto simp: base_of_def cap_of_def DefaultBackoff_def nanos_def)

text \<open>The default schedule waits at most 35.4 hours in all, and half of that on average.\<close>

lemma default_window:
  "WorstCaseWindow DefaultBackoff MaxAttempts = Ok (127350 * nanos)"
  "ExpectedWindow DefaultBackoff MaxAttempts = Ok (63675 * nanos)"
  by code_simp+

text \<open>Beyond those bounds the doubling wraps and the interval is negative, so the delay is zero.\<close>

lemma Interval_overflows:
  "Interval \<lparr>bo_Base = 2 ^ 62, bo_Cap = 2 ^ 63 - 1\<rparr> 1 = - (2 ^ 63)"
  by (simp add: Interval_def Let_def wrap64_def)

text \<open>A hint of 9223372037 seconds or more wraps to a negative duration that passes the cap.\<close>

lemma RetryAfter_overflows:
  "RetryAfter parseTime ''9223372037'' now (6 * 3600 * nanos) = (- 9223372036709551616, True)"
proof -
  have "ParseInt ''9223372037'' = Some 9223372037"
    by (simp add: ParseInt_digits is_digit_iff digits_value_def digit_val_def)
  then show ?thesis by (simp add: RetryAfter_def Let_def nanos_def wrap64_def)
qed

text \<open>An accepted filter list can match: every pattern of it covers some event the system emits.\<close>

lemma ValidateFilters_Ok:
  "ValidateFilters ps = Ok () \<longleftrightarrow> ps \<noteq> [] \<and> (\<forall>p\<in>set ps. \<exists>t\<in>set AllTypes. MatchesFilter p t)"
proof -
  have star: "\<exists>t\<in>set AllTypes. MatchesFilter ''*'' t"
    by (rule bexI [of _ "hd AllTypes"]) (simp_all add: MatchesFilter_def AllTypes_def)
  have "validate_filters ps = Ok () \<longleftrightarrow> (\<forall>p\<in>set ps. \<exists>t\<in>set AllTypes. MatchesFilter p t)"
    by (induction ps) (use star in \<open>auto simp: list_ex_iff\<close>)
  then show ?thesis by (simp add: ValidateFilters_def)
qed

lemma Classify_eq:
  assumes "0 < k" and "in64 (attempt + 1)"
  shows "Classify resp attempt k =
    (if Succeeded resp then OutcomeSucceeded
     else if resp_Err resp = None \<and> resp_StatusCode resp = 410 then OutcomeDisabled
     else if k \<le> attempt + 1 then OutcomeExhausted else OutcomeRetry)"
  using assms by (simp add: Classify_def Let_def)

end
