(* ===== verification/Webhook_Store.thy ===== *)
theory Webhook_Store
  imports Sql_Tables Webhook_Delivery
begin

text \<open>
  The outbox and the webhook queue in PostgreSQL: the tables, the statements of
  \<^verbatim>\<open>internal/postgres/sqlc/webhooks.sql.go\<close>, and the two stores over them in
  \<^verbatim>\<open>internal/postgres/webhooks.go\<close>. A payload is the text the database returns for its \<^verbatim>\<open>JSONB\<close>
  column; instants are integers in nanoseconds. \<^verbatim>\<open>FOR UPDATE SKIP LOCKED\<close> is invisible in a
  sequence of atomic statements; which rows concurrent workers can hold at once is the subject of
  the laws.
\<close>

section \<open>Domain records\<close>

record Event =
  ev_ID :: string
  ev_MerchantID :: string
  ev_Type :: EventType
  ev_ResourceID :: string
  ev_Payload :: string
  ev_DispatchedAt :: "int option"
  ev_CreatedAt :: int

record Secret =
  sec_ID :: string
  sec_EndpointID :: string
  sec_Plaintext :: string
  sec_Active :: bool
  sec_CreatedAt :: int
  sec_RetiredAt :: "int option"

record Delivery =
  del_ID :: string
  del_EventID :: string
  del_EndpointID :: string
  del_MerchantID :: string
  del_State :: DeliveryState
  del_Attempt :: int
  del_NextAttemptAt :: int
  del_LeasedUntil :: "int option"
  del_LastStatus :: "int option"
  del_LastError :: string
  del_LastDurationMS :: "int option"
  del_CreatedAt :: int
  del_CompletedAt :: "int option"

record Attempt =
  att_DeliveryID :: string
  att_Attempt :: int
  att_StatusCode :: "int option"
  att_Error :: string
  att_DurationMS :: "int option"
  att_AttemptedAt :: int

section \<open>Rows and tables\<close>

record EventRow =
  er_ID :: string
  er_MerchantID :: string
  er_Type :: string
  er_ResourceID :: string
  er_Payload :: string
  er_DispatchedAt :: "int option"
  er_CreatedAt :: int

record WebhookEndpoint =
  we_ID :: string
  we_MerchantID :: string
  we_Url :: string
  we_EnabledEvents :: "string list"
  we_Status :: EndpointStatus
  we_ConsecutiveFailures :: int
  we_Description :: string
  we_CreatedAt :: int
  we_DisabledAt :: "int option"

record WebhookSecret =
  ws_ID :: string
  ws_EndpointID :: string
  ws_SecretHash :: string
  ws_SecretEnc :: string
  ws_Active :: bool
  ws_CreatedAt :: int
  ws_RetiredAt :: "int option"

record WebhookDelivery =
  wd_ID :: string
  wd_EventID :: string
  wd_EndpointID :: string
  wd_MerchantID :: string
  wd_State :: DeliveryState
  wd_Attempt :: int
  wd_NextAttemptAt :: int
  wd_LeasedUntil :: "int option"
  wd_LastStatus :: "int option"
  wd_LastError :: "string option"
  wd_LastDurationMs :: "int option"
  wd_CreatedAt :: int
  wd_CompletedAt :: "int option"

record WebhookAttempt =
  wa_ID :: int
  wa_DeliveryID :: string
  wa_Attempt :: int
  wa_StatusCode :: "int option"
  wa_Error :: "string option"
  wa_DurationMs :: "int option"
  wa_AttemptedAt :: int

record webhook_db =
  wq_events :: "EventRow list"
  wq_endpoints :: "WebhookEndpoint list"
  wq_secrets :: "WebhookSecret list"
  wq_deliveries :: "WebhookDelivery list"
  wq_attempts :: "WebhookAttempt list"
  wq_attempt_seq :: int

text \<open>A statement on one table of the database.\<close>

definition in_events :: "(EventRow list, 'a) opr \<Rightarrow> (webhook_db, 'a) opr" where
  "in_events m db = (case m (wq_events db) of (r, rows) \<Rightarrow> (r, db\<lparr>wq_events := rows\<rparr>))"

definition in_endpoints :: "(WebhookEndpoint list, 'a) opr \<Rightarrow> (webhook_db, 'a) opr" where
  "in_endpoints m db = (case m (wq_endpoints db) of (r, rows) \<Rightarrow> (r, db\<lparr>wq_endpoints := rows\<rparr>))"

definition in_secrets :: "(WebhookSecret list, 'a) opr \<Rightarrow> (webhook_db, 'a) opr" where
  "in_secrets m db = (case m (wq_secrets db) of (r, rows) \<Rightarrow> (r, db\<lparr>wq_secrets := rows\<rparr>))"

definition in_deliveries :: "(WebhookDelivery list, 'a) opr \<Rightarrow> (webhook_db, 'a) opr" where
  "in_deliveries m db = (case m (wq_deliveries db) of (r, rows) \<Rightarrow> (r, db\<lparr>wq_deliveries := rows\<rparr>))"

definition insert_by_id :: "('r \<Rightarrow> string) \<Rightarrow> 'r \<Rightarrow> ('r list, unit) opr" where
  "insert_by_id key row rows =
     (if list_ex (\<lambda>r. key r = key row) rows then (Err (ErrOther ''duplicate id''), rows) else (Ok (), rows @ [row]))"

section \<open>Statements on events\<close>

definition AppendEvent :: "ambient \<Rightarrow> string \<Rightarrow> string \<Rightarrow> string \<Rightarrow> string \<Rightarrow> string \<Rightarrow> int \<Rightarrow> (webhook_db, unit) opr" where
  "AppendEvent c i merchantID typ resourceID payload createdAt = query c (in_events (insert_by_id er_ID
     \<lparr>er_ID = i, er_MerchantID = merchantID, er_Type = typ, er_ResourceID = resourceID, er_Payload = payload,
      er_DispatchedAt = None, er_CreatedAt = createdAt\<rparr>))"

definition GetEvent :: "ambient \<Rightarrow> string \<Rightarrow> (webhook_db, EventRow option) opr" where
  "GetEvent c i = query c (in_events (select (\<lambda>rows. Ok (List.find (\<lambda>r. er_ID r = i) rows))))"

definition GetEventForMerchant :: "ambient \<Rightarrow> string \<Rightarrow> string \<Rightarrow> (webhook_db, EventRow option) opr" where
  "GetEventForMerchant c merchantID i = query c (in_events (select (\<lambda>rows.
     Ok (List.find (\<lambda>r. er_MerchantID r = merchantID \<and> er_ID r = i) rows))))"

definition ListEvents :: "ambient \<Rightarrow> string \<Rightarrow> string option \<Rightarrow> int \<Rightarrow> (webhook_db, EventRow list) opr" where
  "ListEvents c merchantID beforeID limit = query c (in_events (select (\<lambda>rows.
     sql_limit limit (rev (sort_key er_ID (filter (\<lambda>r. er_MerchantID r = merchantID
       \<and> (case beforeID of None \<Rightarrow> True | Some b \<Rightarrow> er_ID r < b)) rows))))))"

definition ClaimUndispatchedEvents :: "ambient \<Rightarrow> int \<Rightarrow> (webhook_db, EventRow list) opr" where
  "ClaimUndispatchedEvents c limit = query c (in_events (select (\<lambda>rows.
     sql_limit limit (sort_key er_ID (filter (\<lambda>r. er_DispatchedAt r = None) rows)))))"

definition MarkEventsDispatched :: "ambient \<Rightarrow> string list \<Rightarrow> (webhook_db, int) opr" where
  "MarkEventsDispatched c ids = query c (in_events (update_where (\<lambda>r. er_ID r \<in> set ids)
     (\<lambda>r. r\<lparr>er_DispatchedAt := Some (wall_now c)\<rparr>)))"

section \<open>Statements on endpoints and secrets\<close>

definition endpoint_statuses :: "EndpointStatus list" where
  "endpoint_statuses = [EndpointActive, EndpointDegraded, EndpointDisabled]"

definition CreateWebhookEndpoint ::
  "ambient \<Rightarrow> string \<Rightarrow> string \<Rightarrow> string \<Rightarrow> string list \<Rightarrow> string \<Rightarrow> int \<Rightarrow> (webhook_db, unit) opr" where
  "CreateWebhookEndpoint c i merchantID url enabled description createdAt = query c (in_endpoints (insert_by_id we_ID
     \<lparr>we_ID = i, we_MerchantID = merchantID, we_Url = url, we_EnabledEvents = enabled, we_Status = EndpointActive,
      we_ConsecutiveFailures = 0, we_Description = description, we_CreatedAt = createdAt, we_DisabledAt = None\<rparr>))"

definition GetWebhookEndpoint :: "ambient \<Rightarrow> string \<Rightarrow> string \<Rightarrow> (webhook_db, WebhookEndpoint option) opr" where
  "GetWebhookEndpoint c merchantID i = query c (in_endpoints (select (\<lambda>rows.
     Ok (List.find (\<lambda>r. we_MerchantID r = merchantID \<and> we_ID r = i) rows))))"

definition GetWebhookEndpointByID :: "ambient \<Rightarrow> string \<Rightarrow> (webhook_db, WebhookEndpoint option) opr" where
  "GetWebhookEndpointByID c i = query c (in_endpoints (select (\<lambda>rows. Ok (List.find (\<lambda>r. we_ID r = i) rows))))"

definition ListWebhookEndpoints :: "ambient \<Rightarrow> string \<Rightarrow> (webhook_db, WebhookEndpoint list) opr" where
  "ListWebhookEndpoints c merchantID = query c (in_endpoints (select (\<lambda>rows.
     Ok (order_desc we_CreatedAt (filter (\<lambda>r. we_MerchantID r = merchantID) rows)))))"

definition ActiveWebhookEndpoints :: "ambient \<Rightarrow> string \<Rightarrow> (webhook_db, WebhookEndpoint list) opr" where
  "ActiveWebhookEndpoints c merchantID = query c (in_endpoints (select (\<lambda>rows.
     Ok (sort_key we_ID (filter (\<lambda>r. we_MerchantID r = merchantID \<and> we_Status r \<noteq> EndpointDisabled) rows)))))"

definition SetWebhookEndpointStatus :: "ambient \<Rightarrow> string \<Rightarrow> EndpointStatus \<Rightarrow> (webhook_db, int) opr" where
  "SetWebhookEndpointStatus c i status = query c (in_endpoints (\<lambda>rows.
     if status \<notin> set endpoint_statuses then (Err (ErrOther ''invalid enum value''), rows)
     else update_where (\<lambda>r. we_ID r = i) (\<lambda>r. r\<lparr>we_Status := status,
       we_DisabledAt := (if status = EndpointDisabled then Some (wall_now c) else we_DisabledAt r)\<rparr>) rows))"

definition IncrementEndpointFailures :: "ambient \<Rightarrow> string \<Rightarrow> (webhook_db, int option) opr" where
  "IncrementEndpointFailures c i = query c (in_endpoints (seq
     (increment_where we_ConsecutiveFailures (\<lambda>r. we_ID r = i)
       (\<lambda>r. r\<lparr>we_ConsecutiveFailures := we_ConsecutiveFailures r + 1\<rparr>)) (\<lambda>_.
     select (\<lambda>rows. Ok (map_option we_ConsecutiveFailures (List.find (\<lambda>r. we_ID r = i) rows))))))"

definition Reset_EndpointFailures :: "ambient \<Rightarrow> string \<Rightarrow> (webhook_db, int) opr" where
  "Reset_EndpointFailures c i = query c (in_endpoints (update_where (\<lambda>r. we_ID r = i)
     (\<lambda>r. r\<lparr>we_ConsecutiveFailures := 0\<rparr>)))"

definition CreateWebhookSecret :: "ambient \<Rightarrow> string \<Rightarrow> string \<Rightarrow> string \<Rightarrow> string \<Rightarrow> int \<Rightarrow> (webhook_db, unit) opr" where
  "CreateWebhookSecret c i endpointID hash enc createdAt = query c (\<lambda>db.
     if \<not> list_ex (\<lambda>r. we_ID r = endpointID) (wq_endpoints db) then (Err (ErrOther ''foreign key''), db)
     else in_secrets (insert_by_id ws_ID
       \<lparr>ws_ID = i, ws_EndpointID = endpointID, ws_SecretHash = hash, ws_SecretEnc = enc, ws_Active = True,
        ws_CreatedAt = createdAt, ws_RetiredAt = None\<rparr>) db)"

definition ActiveWebhookSecrets :: "ambient \<Rightarrow> string \<Rightarrow> (webhook_db, WebhookSecret list) opr" where
  "ActiveWebhookSecrets c endpointID = query c (in_secrets (select (\<lambda>rows.
     Ok (order_desc ws_CreatedAt (filter (\<lambda>r. ws_EndpointID r = endpointID \<and> ws_Active r) rows)))))"

definition RetireWebhookSecret :: "ambient \<Rightarrow> string \<Rightarrow> (webhook_db, int) opr" where
  "RetireWebhookSecret c i = query c (in_secrets (update_where (\<lambda>r. ws_ID r = i)
     (\<lambda>r. r\<lparr>ws_Active := False, ws_RetiredAt := Some (wall_now c)\<rparr>)))"

section \<open>Statements on the queue\<close>

definition delivery_states :: "DeliveryState list" where
  "delivery_states = [DeliveryPending, DeliveryDelivering, DeliverySucceeded, DeliveryExhausted, DeliveryDisabled]"

definition EnqueueDelivery :: "ambient \<Rightarrow> string \<Rightarrow> string \<Rightarrow> string \<Rightarrow> string \<Rightarrow> (webhook_db, unit) opr" where
  "EnqueueDelivery c i eventID endpointID merchantID = query c (\<lambda>db.
     if list_ex (\<lambda>r. wd_EventID r = eventID \<and> wd_EndpointID r = endpointID) (wq_deliveries db) then (Ok (), db)
     else if \<not> list_ex (\<lambda>r. er_ID r = eventID) (wq_events db) \<or> \<not> list_ex (\<lambda>r. we_ID r = endpointID) (wq_endpoints db)
     then (Err (ErrOther ''foreign key''), db)
     else in_deliveries (insert_by_id wd_ID
       \<lparr>wd_ID = i, wd_EventID = eventID, wd_EndpointID = endpointID, wd_MerchantID = merchantID, wd_State = DeliveryPending,
        wd_Attempt = 0, wd_NextAttemptAt = wall_now c, wd_LeasedUntil = None, wd_LastStatus = None, wd_LastError = None,
        wd_LastDurationMs = None, wd_CreatedAt = wall_now c, wd_CompletedAt = None\<rparr>) db)"

definition due_ids :: "int \<Rightarrow> int \<Rightarrow> WebhookDelivery list \<Rightarrow> string list" where
  "due_ids now limit rows = map wd_ID (take (nat limit) (sort_key wd_NextAttemptAt
     (filter (\<lambda>r. wd_State r = DeliveryPending \<and> wd_NextAttemptAt r \<le> now) rows)))"

definition leased :: "int \<Rightarrow> WebhookDelivery \<Rightarrow> WebhookDelivery" where
  "leased until r = r\<lparr>wd_State := DeliveryDelivering, wd_LeasedUntil := Some until\<rparr>"

definition ClaimDueDeliveries :: "ambient \<Rightarrow> int \<Rightarrow> int \<Rightarrow> (webhook_db, WebhookDelivery list) opr" where
  "ClaimDueDeliveries c limit until = query c (in_deliveries (\<lambda>rows.
     if limit < 0 then (Err (ErrOther ''LIMIT must not be negative''), rows)
     else let ids = due_ids (wall_now c) limit rows
       in (Ok (map (leased until) (filter (\<lambda>r. wd_ID r \<in> set ids) rows)),
           map (\<lambda>r. if wd_ID r \<in> set ids then leased until r else r) rows)))"

definition CompleteDelivery ::
  "ambient \<Rightarrow> string \<Rightarrow> DeliveryState \<Rightarrow> int option \<Rightarrow> string option \<Rightarrow> int option \<Rightarrow> (webhook_db, int) opr" where
  "CompleteDelivery c i state lastStatus lastError lastDuration = query c (in_deliveries (\<lambda>rows.
     if state \<notin> set delivery_states then (Err (ErrOther ''invalid enum value''), rows)
     else increment_where wd_Attempt (\<lambda>r. wd_ID r = i) (\<lambda>r. r\<lparr>wd_State := state, wd_Attempt := wd_Attempt r + 1,
       wd_LeasedUntil := None, wd_LastStatus := lastStatus, wd_LastError := lastError, wd_LastDurationMs := lastDuration,
       wd_CompletedAt := Some (wall_now c)\<rparr>) rows))"

definition RescheduleDelivery ::
  "ambient \<Rightarrow> string \<Rightarrow> int \<Rightarrow> int option \<Rightarrow> string option \<Rightarrow> int option \<Rightarrow> (webhook_db, int) opr" where
  "RescheduleDelivery c i delay lastStatus lastError lastDuration = query c (in_deliveries
     (increment_where wd_Attempt (\<lambda>r. wd_ID r = i) (\<lambda>r. r\<lparr>wd_State := DeliveryPending, wd_Attempt := wd_Attempt r + 1,
       wd_NextAttemptAt := wall_now c + delay, wd_LeasedUntil := None, wd_LastStatus := lastStatus, wd_LastError := lastError,
       wd_LastDurationMs := lastDuration\<rparr>)))"

definition Reclaim_ExpiredLeases :: "ambient \<Rightarrow> int \<Rightarrow> (webhook_db, int) opr" where
  "Reclaim_ExpiredLeases c before = query c (in_deliveries (update_where
     (\<lambda>r. wd_State r = DeliveryDelivering \<and> (case wd_LeasedUntil r of None \<Rightarrow> False | Some at \<Rightarrow> at < before))
     (\<lambda>r. r\<lparr>wd_State := DeliveryPending, wd_LeasedUntil := None\<rparr>)))"

definition RecordDeliveryAttempt ::
  "ambient \<Rightarrow> string \<Rightarrow> int \<Rightarrow> int option \<Rightarrow> string option \<Rightarrow> int option \<Rightarrow> int \<Rightarrow> (webhook_db, unit) opr" where
  "RecordDeliveryAttempt c deliveryID n status error duration attemptedAt = query c (\<lambda>db.
     let db' = db\<lparr>wq_attempt_seq := wq_attempt_seq db + 1\<rparr>
     in if \<not> list_ex (\<lambda>r. wd_ID r = deliveryID) (wq_deliveries db) then (Err (ErrOther ''foreign key''), db')
        else (Ok (), db'\<lparr>wq_attempts := wq_attempts db @
          [\<lparr>wa_ID = wq_attempt_seq db + 1, wa_DeliveryID = deliveryID, wa_Attempt = n, wa_StatusCode = status,
            wa_Error = error, wa_DurationMs = duration, wa_AttemptedAt = attemptedAt\<rparr>]\<rparr>))"

definition ListDeliveries :: "ambient \<Rightarrow> string \<Rightarrow> DeliveryState option \<Rightarrow> int \<Rightarrow> (webhook_db, WebhookDelivery list) opr" where
  "ListDeliveries c endpointID state limit = query c (in_deliveries (select (\<lambda>rows.
     if (case state of None \<Rightarrow> False | Some st \<Rightarrow> st \<notin> set delivery_states) then Err (ErrOther ''invalid enum value'')
     else sql_limit limit (order_desc wd_CreatedAt (filter (\<lambda>r. wd_EndpointID r = endpointID
       \<and> (case state of None \<Rightarrow> True | Some st \<Rightarrow> wd_State r = st)) rows)))))"

definition ReplayDelivery :: "ambient \<Rightarrow> string \<Rightarrow> string \<Rightarrow> (webhook_db, int) opr" where
  "ReplayDelivery c i merchantID = query c (in_deliveries (update_where
     (\<lambda>r. wd_ID r = i \<and> wd_MerchantID r = merchantID \<and> wd_State r = DeliveryExhausted)
     (\<lambda>r. r\<lparr>wd_State := DeliveryPending, wd_Attempt := 0, wd_NextAttemptAt := wall_now c, wd_LeasedUntil := None,
       wd_CompletedAt := None\<rparr>)))"

definition CountDeliveriesByState :: "ambient \<Rightarrow> (webhook_db, (DeliveryState \<times> int) list) opr" where
  "CountDeliveriesByState c = query c (in_deliveries (select (\<lambda>rows.
     Ok (map (\<lambda>st. (st, int (length (filter (\<lambda>r. wd_State r = st) rows)))) (remdups (map wd_State rows))))))"

text \<open>A \<^verbatim>\<open>numeric\<close> number of seconds is rounded to the nearest, halves away from zero.\<close>

definition round_seconds :: "int \<Rightarrow> int" where
  "round_seconds ns = (if ns \<ge> 0 then (2 * ns + nanos) div (2 * nanos) else - ((2 * (- ns) + nanos) div (2 * nanos)))"

definition OldestPendingDelivery :: "ambient \<Rightarrow> (webhook_db, int) opr" where
  "OldestPendingDelivery c = query c (in_deliveries (select (\<lambda>rows.
     case map wd_NextAttemptAt (filter (\<lambda>r. wd_State r = DeliveryPending \<or> wd_State r = DeliveryDelivering) rows) of
       [] \<Rightarrow> Ok 0 | t # ts \<Rightarrow> Ok (round_seconds (wall_now c - fold min ts t)))))"

section \<open>The event store\<close>

definition eventFromRow :: "EventRow \<Rightarrow> Event" where
  "eventFromRow row =
     \<lparr>ev_ID = er_ID row, ev_MerchantID = er_MerchantID row, ev_Type = er_Type row, ev_ResourceID = er_ResourceID row,
      ev_Payload = er_Payload row, ev_DispatchedAt = er_DispatchedAt row, ev_CreatedAt = er_CreatedAt row\<rparr>"

definition Events_Append :: "ambient \<Rightarrow> Event \<Rightarrow> (webhook_db, unit) opr" where
  "Events_Append c e =
     AppendEvent c (ev_ID e) (ev_MerchantID e) (ev_Type e) (ev_ResourceID e) (ev_Payload e) (ev_CreatedAt e)"

text \<open>A row that is not there is \<^verbatim>\<open>pgx.ErrNoRows\<close>, reported as the given sentinel.\<close>

definition Events_Get :: "ambient \<Rightarrow> string \<Rightarrow> string \<Rightarrow> (webhook_db, Event) opr" where
  "Events_Get c merchantID eventID = or_missing ErrEventNotFound eventFromRow (GetEventForMerchant c merchantID eventID)"

definition Events_List :: "ambient \<Rightarrow> string \<Rightarrow> int \<Rightarrow> string \<Rightarrow> (webhook_db, Event list \<times> string) opr" where
  "Events_List c merchantID limit0 before =
     (let limit = (if limit0 \<le> 0 then 100 else limit0)
      in seq (rows_of eventFromRow (ListEvents c merchantID (nullString before) (wrap32 (wrap32 limit + 1)))) (\<lambda>out.
         if int (length out) > limit
         then let page = take (nat limit) out in ret (Ok (page, ev_ID (last page)))
         else ret (Ok (out, []))))"

definition Events_ClaimUndispatched :: "ambient \<Rightarrow> int \<Rightarrow> (webhook_db, Event list) opr" where
  "Events_ClaimUndispatched c limit = rows_of eventFromRow (ClaimUndispatchedEvents c (wrap32 limit))"

definition Events_MarkDispatched :: "ambient \<Rightarrow> string list \<Rightarrow> (webhook_db, unit) opr" where
  "Events_MarkDispatched c ids =
     (if ids = [] then ret (Ok ()) else seq (MarkEventsDispatched c ids) (\<lambda>_. ret (Ok ())))"

section \<open>The webhook store\<close>

definition endpointFromRow :: "WebhookEndpoint \<Rightarrow> Endpoint" where
  "endpointFromRow row =
     \<lparr>ep_ID = we_ID row, ep_MerchantID = we_MerchantID row, ep_URL = we_Url row, ep_EnabledEvents = we_EnabledEvents row,
      ep_Status = we_Status row, ep_ConsecutiveFailures = we_ConsecutiveFailures row, ep_Description = we_Description row,
      ep_CreatedAt = we_CreatedAt row, ep_DisabledAt = we_DisabledAt row\<rparr>"

definition deliveryFromRow :: "WebhookDelivery \<Rightarrow> Delivery" where
  "deliveryFromRow row =
     \<lparr>del_ID = wd_ID row, del_EventID = wd_EventID row, del_EndpointID = wd_EndpointID row, del_MerchantID = wd_MerchantID row,
      del_State = wd_State row, del_Attempt = wd_Attempt row, del_NextAttemptAt = wd_NextAttemptAt row,
      del_LeasedUntil = wd_LeasedUntil row, del_LastStatus = wd_LastStatus row, del_LastError = derefString (wd_LastError row),
      del_LastDurationMS = wd_LastDurationMs row, del_CreatedAt = wd_CreatedAt row, del_CompletedAt = wd_CompletedAt row\<rparr>"

definition Milliseconds :: "int \<Rightarrow> int" where
  "Milliseconds d = go_div d 1000000"

definition statusOrNil :: "Response \<Rightarrow> int option" where
  "statusOrNil r = (if resp_StatusCode r = 0 then None else Some (wrap32 (resp_StatusCode r)))"

text \<open>The text of an error is a parameter, \<^verbatim>\<open>err.Error()\<close>.\<close>

definition errText :: "(err \<Rightarrow> string) \<Rightarrow> Response \<Rightarrow> string option" where
  "errText text r = map_option text (resp_Err r)"

definition durationMS :: "Response \<Rightarrow> int option" where
  "durationMS r = Some (wrap32 (Milliseconds (resp_Duration r)))"

definition int32PtrFrom :: "int option \<Rightarrow> int option" where
  "int32PtrFrom v = map_option wrap32 v"

definition Webhook_CreateEndpoint :: "ambient \<Rightarrow> Endpoint \<Rightarrow> (webhook_db, unit) opr" where
  "Webhook_CreateEndpoint c e =
     CreateWebhookEndpoint c (ep_ID e) (ep_MerchantID e) (ep_URL e) (ep_EnabledEvents e) (ep_Description e) (ep_CreatedAt e)"

definition Webhook_GetEndpoint :: "ambient \<Rightarrow> string \<Rightarrow> string \<Rightarrow> (webhook_db, Endpoint) opr" where
  "Webhook_GetEndpoint c merchantID endpointID =
     or_missing ErrEndpointNotFound endpointFromRow (GetWebhookEndpoint c merchantID endpointID)"

definition Webhook_ListEndpoints :: "ambient \<Rightarrow> string \<Rightarrow> (webhook_db, Endpoint list) opr" where
  "Webhook_ListEndpoints c merchantID = rows_of endpointFromRow (ListWebhookEndpoints c merchantID)"

definition Webhook_ActiveEndpointsForEvent :: "ambient \<Rightarrow> string \<Rightarrow> (webhook_db, Endpoint list) opr" where
  "Webhook_ActiveEndpointsForEvent c merchantID = rows_of endpointFromRow (ActiveWebhookEndpoints c merchantID)"

definition Webhook_SetEndpointStatus :: "ambient \<Rightarrow> string \<Rightarrow> EndpointStatus \<Rightarrow> (webhook_db, unit) opr" where
  "Webhook_SetEndpointStatus c endpointID status =
     none_affected ErrEndpointNotFound (SetWebhookEndpointStatus c endpointID status)"

definition Webhook_RecordEndpointFailure :: "ambient \<Rightarrow> string \<Rightarrow> (webhook_db, int) opr" where
  "Webhook_RecordEndpointFailure c endpointID =
     or_missing ErrEndpointNotFound (\<lambda>n. n) (IncrementEndpointFailures c endpointID)"

definition Webhook_ResetEndpointFailures :: "ambient \<Rightarrow> string \<Rightarrow> (webhook_db, unit) opr" where
  "Webhook_ResetEndpointFailures c endpointID = seq (Reset_EndpointFailures c endpointID) (\<lambda>_. ret (Ok ()))"

definition Webhook_CreateSecret :: "ambient \<Rightarrow> Secret \<Rightarrow> string \<Rightarrow> string \<Rightarrow> (webhook_db, unit) opr" where
  "Webhook_CreateSecret c s hash encrypted =
     CreateWebhookSecret c (sec_ID s) (sec_EndpointID s) hash encrypted (sec_CreatedAt s)"

text \<open>\<^verbatim>\<open>cipher.Decrypt\<close> is a parameter; the first secret that does not decrypt ends the call.\<close>

definition open_secret :: "(string \<Rightarrow> string outcome) \<Rightarrow> WebhookSecret \<Rightarrow> Secret outcome" where
  "open_secret decrypt row = andThen (decrypt (ws_SecretEnc row)) (\<lambda>plaintext.
     Ok \<lparr>sec_ID = ws_ID row, sec_EndpointID = ws_EndpointID row, sec_Plaintext = plaintext, sec_Active = ws_Active row,
         sec_CreatedAt = ws_CreatedAt row, sec_RetiredAt = None\<rparr>)"

definition Webhook_ActiveSecrets :: "(string \<Rightarrow> string outcome) \<Rightarrow> ambient \<Rightarrow> string \<Rightarrow> (webhook_db, Secret list) opr" where
  "Webhook_ActiveSecrets decrypt c endpointID =
     seq (ActiveWebhookSecrets c endpointID) (\<lambda>rows.
     if rows = [] then ret (Err ErrSecretNotFound) else ret (map_outcome_list (open_secret decrypt) rows))"

definition Webhook_RetireSecret :: "ambient \<Rightarrow> string \<Rightarrow> (webhook_db, unit) opr" where
  "Webhook_RetireSecret c secretID = none_affected ErrSecretNotFound (RetireWebhookSecret c secretID)"

definition Webhook_ClaimDue :: "ambient \<Rightarrow> int \<Rightarrow> int \<Rightarrow> (webhook_db, Delivery list) opr" where
  "Webhook_ClaimDue c limit leaseUntil = rows_of deliveryFromRow (ClaimDueDeliveries c (wrap32 limit) leaseUntil)"

definition Webhook_CompleteDelivery :: "(err \<Rightarrow> string) \<Rightarrow> ambient \<Rightarrow> string \<Rightarrow> DeliveryState \<Rightarrow> Response \<Rightarrow> (webhook_db, unit) opr" where
  "Webhook_CompleteDelivery text c deliveryID state resp =
     none_affected ErrDeliveryNotFound
       (CompleteDelivery c deliveryID state (statusOrNil resp) (errText text resp) (durationMS resp))"

definition Webhook_RescheduleDelivery :: "(err \<Rightarrow> string) \<Rightarrow> ambient \<Rightarrow> string \<Rightarrow> int \<Rightarrow> Response \<Rightarrow> (webhook_db, unit) opr" where
  "Webhook_RescheduleDelivery text c deliveryID delay resp =
     none_affected ErrDeliveryNotFound
       (RescheduleDelivery c deliveryID delay (statusOrNil resp) (errText text resp) (durationMS resp))"

definition Webhook_RecordAttempt :: "ambient \<Rightarrow> Attempt \<Rightarrow> (webhook_db, unit) opr" where
  "Webhook_RecordAttempt c a =
     RecordDeliveryAttempt c (att_DeliveryID a) (wrap32 (att_Attempt a)) (int32PtrFrom (att_StatusCode a))
       (nullString (att_Error a)) (int32PtrFrom (att_DurationMS a)) (att_AttemptedAt a)"

definition Webhook_ReclaimExpiredLeases :: "ambient \<Rightarrow> int \<Rightarrow> (webhook_db, int) opr" where
  "Webhook_ReclaimExpiredLeases c now = Reclaim_ExpiredLeases c now"

definition Webhook_ListDeliveries :: "ambient \<Rightarrow> string \<Rightarrow> DeliveryState \<Rightarrow> int \<Rightarrow> (webhook_db, Delivery list) opr" where
  "Webhook_ListDeliveries c endpointID state limit =
     rows_of deliveryFromRow (ListDeliveries c endpointID (nullString state) (wrap32 (if limit \<le> 0 then 100 else limit)))"

definition Webhook_ReplayDelivery :: "ambient \<Rightarrow> string \<Rightarrow> string \<Rightarrow> (webhook_db, unit) opr" where
  "Webhook_ReplayDelivery c merchantID deliveryID = none_affected ErrNotReplayable (ReplayDelivery c deliveryID merchantID)"

definition Webhook_GetEvent :: "ambient \<Rightarrow> string \<Rightarrow> (webhook_db, Event) opr" where
  "Webhook_GetEvent c eventID = or_missing ErrEventNotFound eventFromRow (GetEvent c eventID)"

definition QueueDepth :: "ambient \<Rightarrow> (webhook_db, (DeliveryState \<times> int) list) opr" where
  "QueueDepth c = CountDeliveriesByState c"

definition OldestPendingSeconds :: "ambient \<Rightarrow> (webhook_db, int) opr" where
  "OldestPendingSeconds c = OldestPendingDelivery c"

end
