(* ===== verification/Webhook_Worker.thy ===== *)
theory Webhook_Worker
  imports Webhook_Store
begin

text \<open>
  Recording events (\<^verbatim>\<open>internal/events\<close>), fanning them out and delivering them
  (\<^verbatim>\<open>internal/webhooks/worker.go\<close>, \<^verbatim>\<open>client.go\<close>) over the PostgreSQL stores. What the worker uses of
  other code is a parameter: the cipher, the MAC, the rendering of JSON, of instants and of errors,
  the random draw, and the HTTP exchange with the endpoint, which may depend on the moment it
  happens. Logging is not modelled.
\<close>

section \<open>Recording events\<close>

record Envelope =
  env_ID :: string
  env_Object :: string
  env_Type :: EventType
  env_CreatedAt :: string
  env_ResourceID :: string
  env_Data :: string

definition Event_Envelope :: "(int \<Rightarrow> string) \<Rightarrow> Event \<Rightarrow> Envelope" where
  "Event_Envelope rfc3339 e =
     \<lparr>env_ID = ev_ID e, env_Object = ''event'', env_Type = ev_Type e, env_CreatedAt = rfc3339 (ev_CreatedAt e),
      env_ResourceID = ev_ResourceID e, env_Data = ev_Payload e\<rparr>"

text \<open>\<open>payload\<close> is what marshalling the data gives; any error of it is \<open>ErrInvalidPayload\<close>.\<close>

definition Record :: "env \<Rightarrow> string \<Rightarrow> EventType \<Rightarrow> string \<Rightarrow> string outcome \<Rightarrow> (webhook_db world, Event) opr" where
  "Record E merchantID typ resourceID payload0 =
     (if \<not> EventType_Valid typ then ret (Err ErrInvalidType)
      else case payload0 of
        Panic \<Rightarrow> ret Panic
      | Err _ \<Rightarrow> ret (Err ErrInvalidPayload)
      | Ok payload \<Rightarrow>
          seq (new_id E PrefixEvent) (\<lambda>i.
          seq (clock_now E) (\<lambda>now.
          let e = \<lparr>ev_ID = i, ev_MerchantID = merchantID, ev_Type = typ, ev_ResourceID = resourceID, ev_Payload = payload,
                   ev_DispatchedAt = None, ev_CreatedAt = now\<rparr>
          in seq (call E (\<lambda>c. Events_Append c e)) (\<lambda>_. ret (Ok e)))))"

section \<open>The dispatcher\<close>

definition PrefixDelivery :: string where "PrefixDelivery = ''whd''"

definition dispatcher_batch :: "int \<Rightarrow> int" where
  "dispatcher_batch batchSize = (if batchSize \<le> 0 then 100 else batchSize)"

definition new_delivery :: "env \<Rightarrow> Event \<Rightarrow> Endpoint \<Rightarrow> (webhook_db world, Delivery) opr" where
  "new_delivery E e endpoint =
     seq (new_id E PrefixDelivery) (\<lambda>i.
     seq (clock_now E) (\<lambda>due.
     seq (clock_now E) (\<lambda>created.
     ret (Ok \<lparr>del_ID = i, del_EventID = ev_ID e, del_EndpointID = ep_ID endpoint, del_MerchantID = ev_MerchantID e,
       del_State = DeliveryPending, del_Attempt = 0, del_NextAttemptAt = due, del_LeasedUntil = None, del_LastStatus = None,
       del_LastError = [], del_LastDurationMS = None, del_CreatedAt = created, del_CompletedAt = None\<rparr>))))"

fun expand_endpoints :: "env \<Rightarrow> Event \<Rightarrow> Endpoint list \<Rightarrow> Delivery list \<Rightarrow> (webhook_db world, Delivery list) opr" where
  "expand_endpoints E e [] deliveries = ret (Ok deliveries)"
| "expand_endpoints E e (endpoint # rest) deliveries =
     (if \<not> Wants endpoint (ev_Type e) then expand_endpoints E e rest deliveries
      else seq (new_delivery E e endpoint) (\<lambda>d. expand_endpoints E e rest (deliveries @ [d])))"

text \<open>The endpoints of a merchant are looked up once per batch.\<close>

fun expand_events ::
  "env \<Rightarrow> Event list \<Rightarrow> (string \<times> Endpoint list) list \<Rightarrow> Delivery list \<Rightarrow> (webhook_db world, Delivery list) opr" where
  "expand_events E [] known_endpoints deliveries = ret (Ok deliveries)"
| "expand_events E (e # rest) known_endpoints deliveries =
     seq (case map_of known_endpoints (ev_MerchantID e) of
            Some endpoints \<Rightarrow> ret (Ok (endpoints, known_endpoints))
          | None \<Rightarrow> seq (call E (\<lambda>c. Webhook_ActiveEndpointsForEvent c (ev_MerchantID e))) (\<lambda>endpoints.
              ret (Ok (endpoints, (ev_MerchantID e, endpoints) # known_endpoints)))) (\<lambda>(endpoints, known').
     seq (expand_endpoints E e endpoints deliveries) (\<lambda>deliveries'.
     expand_events E rest known' deliveries'))"

fun EnqueueDeliveries :: "env \<Rightarrow> Delivery list \<Rightarrow> (webhook_db world, unit) opr" where
  "EnqueueDeliveries E [] = ret (Ok ())"
| "EnqueueDeliveries E (d # ds) =
     seq (call E (\<lambda>c. EnqueueDelivery c (del_ID d) (del_EventID d) (del_EndpointID d) (del_MerchantID d))) (\<lambda>_.
     EnqueueDeliveries E ds)"

definition DispatchOnce :: "env \<Rightarrow> int \<Rightarrow> (webhook_db world, int) opr" where
  "DispatchOnce E batchSize = InTx (
     seq (call E (\<lambda>c. Events_ClaimUndispatched c (dispatcher_batch batchSize))) (\<lambda>batch.
     if batch = [] then ret (Ok 0)
     else seq (expand_events E batch [] []) (\<lambda>deliveries.
     seq (if deliveries = [] then ret (Ok ()) else EnqueueDeliveries E deliveries) (\<lambda>_.
     seq (call E (\<lambda>c. Events_MarkDispatched c (map ev_ID batch))) (\<lambda>_.
     ret (Ok (int (length batch))))))))"

section \<open>The client\<close>

text \<open>
  The exchange over HTTP: a failure, or a status and the body of the response. The client bounds
  what it keeps of the body, and reports a refused redirect as such.
\<close>

datatype exchange = Failed err | Answered int string

definition Deliver :: "(string \<Rightarrow> string \<Rightarrow> (string \<times> string) list \<Rightarrow> exchange \<times> int) \<Rightarrow> int \<Rightarrow> string \<Rightarrow> string
    \<Rightarrow> (string \<times> string) list \<Rightarrow> Response" where
  "Deliver do maxResponseBytes targetURL body headers =
     (case do targetURL body ([(''Content-Type'', ''application/json; charset=utf-8''), (''User-Agent'', ''ledgerd-webhooks/1''),
          (''Content-Length'', FormatInt (int (length body)))] @ headers) of
        (Failed e, duration) \<Rightarrow> \<lparr>resp_StatusCode = 0, resp_Duration = duration, resp_Body = [], resp_Err = Some e\<rparr>
      | (Answered status answer, duration) \<Rightarrow>
          \<lparr>resp_StatusCode = status, resp_Duration = duration,
           resp_Body = take (nat (if maxResponseBytes \<le> 0 then 65536 else maxResponseBytes)) answer, resp_Err = None\<rparr>)"

section \<open>The worker\<close>

record webhook_library =
  wl_decrypt :: "string \<Rightarrow> string outcome"
  wl_text :: "err \<Rightarrow> string"
  wl_hmac :: "string \<Rightarrow> string \<Rightarrow> string"
  wl_marshal :: "Envelope \<Rightarrow> string outcome"
  wl_rfc3339 :: "int \<Rightarrow> string"
  wl_int63n :: "nat \<Rightarrow> int \<Rightarrow> int"
  wl_do :: "nat \<Rightarrow> string \<Rightarrow> string \<Rightarrow> (string \<times> string) list \<Rightarrow> exchange \<times> int"

record Worker =
  wk_backoff :: Backoff
  wk_maxTries :: int
  wk_lease :: int
  wk_batch :: int
  wk_maxResponseBytes :: int

definition NewWorker :: "Backoff \<Rightarrow> int \<Rightarrow> int \<Rightarrow> int \<Rightarrow> int \<Rightarrow> Worker" where
  "NewWorker backoff maxAttempts lease batchSize maxResponseBytes =
     \<lparr>wk_backoff = backoff, wk_maxTries = (if maxAttempts \<le> 0 then MaxAttempts else maxAttempts),
      wk_lease = (if lease \<le> 0 then 60 * nanos else lease), wk_batch = (if batchSize \<le> 0 then 50 else batchSize),
      wk_maxResponseBytes = maxResponseBytes\<rparr>"

definition statusPtr :: "Response \<Rightarrow> int option" where
  "statusPtr r = (if resp_Err r \<noteq> None \<and> resp_StatusCode r = 0 then None else Some (resp_StatusCode r))"

definition durationPtr :: "int \<Rightarrow> int option" where
  "durationPtr d = Some (Milliseconds d)"

definition errString :: "(err \<Rightarrow> string) \<Rightarrow> err option \<Rightarrow> string" where
  "errString text e = (case e of
     None \<Rightarrow> [] | Some ErrRedirect \<Rightarrow> ''endpoint returned a redirect, which is not followed'' | Some e' \<Rightarrow> text e')"

definition Worker_activeSecrets :: "env \<Rightarrow> webhook_library \<Rightarrow> string \<Rightarrow> (webhook_db world, Secret list) opr" where
  "Worker_activeSecrets E L endpointID =
     seq (call E (\<lambda>c. Webhook_ActiveSecrets (wl_decrypt L) c endpointID)) (\<lambda>stored.
     if stored = [] then ret (Err ErrSecretNotFound) else ret (Ok stored))"

definition recordEndpointFailure :: "env \<Rightarrow> Endpoint \<Rightarrow> (webhook_db world, unit) opr" where
  "recordEndpointFailure E endpoint =
     seq (call E (\<lambda>c. Webhook_RecordEndpointFailure c (ep_ID endpoint))) (\<lambda>failures.
     if failures \<ge> DisableAfter then call E (\<lambda>c. Webhook_SetEndpointStatus c (ep_ID endpoint) EndpointDisabled)
     else if failures \<ge> DegradeAfter \<and> ep_Status endpoint = EndpointActive
     then call E (\<lambda>c. Webhook_SetEndpointStatus c (ep_ID endpoint) EndpointDegraded)
     else ret (Ok ()))"

text \<open>The tick at which something outside happens, which takes time.\<close>

definition moment :: "('s world, nat) opr" where
  "moment w = (Ok (w_tick w), w\<lparr>w_tick := Suc (w_tick w)\<rparr>)"

text \<open>What is done with the result of an attempt.\<close>

definition conclude :: "env \<Rightarrow> webhook_library \<Rightarrow> Worker \<Rightarrow> Delivery \<Rightarrow> Endpoint \<Rightarrow> Response \<Rightarrow> (webhook_db world, unit) opr" where
  "conclude E L W d endpoint resp =
     (let complete = (\<lambda>state. call E (\<lambda>c. Webhook_CompleteDelivery (wl_text L) c (del_ID d) state resp))
      in case Classify resp (del_Attempt d) (wk_maxTries W) of
        OutcomeSucceeded \<Rightarrow>
          seq (complete DeliverySucceeded) (\<lambda>_. call E (\<lambda>c. Webhook_ResetEndpointFailures c (ep_ID endpoint)))
      | OutcomeDisabled \<Rightarrow>
          seq (complete DeliveryDisabled) (\<lambda>_. call E (\<lambda>c. Webhook_SetEndpointStatus c (ep_ID endpoint) EndpointDisabled))
      | OutcomeExhausted \<Rightarrow> seq (complete DeliveryExhausted) (\<lambda>_. recordEndpointFailure E endpoint)
      | OutcomeRetry \<Rightarrow>
          seq moment (\<lambda>k. seq (ret (Delay (wl_int63n L k) (wk_backoff W) (del_Attempt d))) (\<lambda>delay.
          call E (\<lambda>c. Webhook_RescheduleDelivery (wl_text L) c (del_ID d) delay resp))))"

text \<open>The signed request: the secrets, the header, the exchange.\<close>

definition post_event :: "env \<Rightarrow> webhook_library \<Rightarrow> Worker \<Rightarrow> Delivery \<Rightarrow> Endpoint \<Rightarrow> Event \<Rightarrow> (webhook_db world, Response) opr" where
  "post_event E L W d endpoint event =
     seq (ret (wl_marshal L (Event_Envelope (wl_rfc3339 L) event))) (\<lambda>body.
     seq (Worker_activeSecrets E L (ep_ID endpoint)) (\<lambda>secrets.
     seq (clock_now E) (\<lambda>now.
     seq (ret (Sign (wl_hmac L) now body (map sec_Plaintext secrets))) (\<lambda>(header, timestamp).
     seq moment (\<lambda>k.
     ret (Ok (Deliver (wl_do L k) (wk_maxResponseBytes W) (ep_URL endpoint) body
       [(''Webhook-Signature'', header), (''Webhook-Id'', ev_ID event), (''Webhook-Topic'', ev_Type event),
        (''Webhook-Attempt'', FormatInt (wrap64 (del_Attempt d + 1)))]))))))) "

definition Worker_attempt :: "env \<Rightarrow> webhook_library \<Rightarrow> Worker \<Rightarrow> Delivery \<Rightarrow> (webhook_db world, unit) opr" where
  "Worker_attempt E L W d =
     seq (call E (\<lambda>c. Webhook_GetEndpoint c (del_MerchantID d) (del_EndpointID d))) (\<lambda>endpoint.
     if ep_Status endpoint = EndpointDisabled
     then call E (\<lambda>c. Webhook_CompleteDelivery (wl_text L) c (del_ID d) DeliveryDisabled
       \<lparr>resp_StatusCode = 0, resp_Duration = 0, resp_Body = [], resp_Err = None\<rparr>)
     else seq (call E (\<lambda>c. Webhook_GetEvent c (del_EventID d))) (\<lambda>event.
     seq (post_event E L W d endpoint event) (\<lambda>resp.
     seq (clock_now E) (\<lambda>now.
     seq (call E (\<lambda>c. Webhook_RecordAttempt c
       \<lparr>att_DeliveryID = del_ID d, att_Attempt = wrap64 (del_Attempt d + 1), att_StatusCode = statusPtr resp,
        att_Error = errString (wl_text L) (resp_Err resp), att_DurationMS = durationPtr (resp_Duration resp),
        att_AttemptedAt = now\<rparr>)) (\<lambda>_.
     conclude E L W d endpoint resp)))))"

text \<open>An attempt that fails is logged and the batch goes on.\<close>

fun attempt_each :: "env \<Rightarrow> webhook_library \<Rightarrow> Worker \<Rightarrow> Delivery list \<Rightarrow> (webhook_db world, unit) opr" where
  "attempt_each E L W [] = ret (Ok ())"
| "attempt_each E L W (d # ds) = seq (attempt (Worker_attempt E L W d)) (\<lambda>_. attempt_each E L W ds)"

definition DeliverOnce :: "env \<Rightarrow> webhook_library \<Rightarrow> Worker \<Rightarrow> (webhook_db world, int) opr" where
  "DeliverOnce E L W =
     seq (clock_now E) (\<lambda>now.
     seq (call E (\<lambda>c. Webhook_ClaimDue c (wk_batch W) (now + wk_lease W))) (\<lambda>claimed.
     seq (attempt_each E L W claimed) (\<lambda>_.
     ret (Ok (int (length claimed))))))"

definition ReclaimOnce :: "env \<Rightarrow> (webhook_db world, int) opr" where
  "ReclaimOnce E = seq (clock_now E) (\<lambda>now. call E (\<lambda>c. Webhook_ReclaimExpiredLeases c now))"

end
