(* ===== verification/Webhook_Laws.thy ===== *)
theory Webhook_Laws
  imports Webhook_Worker
begin

text \<open>
  What the outbox and the queue promise. The tables keep their constraints through every operation
  of the service; a dispatched batch has exactly one delivery for each endpoint that wants an event.
\<close>

section \<open>Constraints of the tables\<close>

definition pair_of :: "WebhookDelivery \<Rightarrow> string \<times> string" where
  "pair_of r = (wd_EventID r, wd_EndpointID r)"

definition delivery_ok :: "WebhookDelivery \<Rightarrow> bool" where
  "delivery_ok r \<longleftrightarrow> wd_State r \<in> set delivery_states \<and> (wd_State r = DeliveryDelivering \<longleftrightarrow> wd_LeasedUntil r \<noteq> None)
     \<and> 0 \<le> wd_Attempt r \<and> wd_Attempt r \<le> int4_max"

definition endpoint_ok :: "WebhookEndpoint \<Rightarrow> bool" where
  "endpoint_ok r \<longleftrightarrow> we_Status r \<in> set endpoint_statuses \<and> 0 \<le> we_ConsecutiveFailures r
     \<and> we_ConsecutiveFailures r \<le> int4_max"

definition tables_ok :: "webhook_db \<Rightarrow> bool" where
  "tables_ok db \<longleftrightarrow>
     distinct (map er_ID (wq_events db)) \<and> distinct (map we_ID (wq_endpoints db))
   \<and> distinct (map wd_ID (wq_deliveries db)) \<and> distinct (map pair_of (wq_deliveries db))
   \<and> list_all delivery_ok (wq_deliveries db) \<and> list_all endpoint_ok (wq_endpoints db)
   \<and> wd_EventID ` set (wq_deliveries db) \<subseteq> er_ID ` set (wq_events db)
   \<and> wd_EndpointID ` set (wq_deliveries db) \<subseteq> we_ID ` set (wq_endpoints db)
   \<and> wa_DeliveryID ` set (wq_attempts db) \<subseteq> wd_ID ` set (wq_deliveries db)
   \<and> sorted_wrt (<) (map wa_ID (wq_attempts db)) \<and> (\<forall>a\<in>set (wq_attempts db). wa_ID a \<le> wq_attempt_seq db)"

lemmas state_consts = DeliveryPending_def DeliveryDelivering_def DeliverySucceeded_def DeliveryExhausted_def DeliveryDisabled_def

lemma state_distinct [simp]:
  "DeliveryPending \<noteq> DeliveryDelivering" "DeliverySucceeded \<noteq> DeliveryDelivering"
  "DeliveryExhausted \<noteq> DeliveryDelivering" "DeliveryDisabled \<noteq> DeliveryDelivering"
  "DeliveryDelivering \<noteq> DeliveryPending" "DeliverySucceeded \<noteq> DeliveryPending"
  "DeliveryExhausted \<noteq> DeliveryPending" "DeliveryDisabled \<noteq> DeliveryPending"
  by (simp_all add: state_consts)

lemma states_enum [simp]:
  "DeliveryPending \<in> set delivery_states" "DeliveryDelivering \<in> set delivery_states" "DeliverySucceeded \<in> set delivery_states"
  "DeliveryExhausted \<in> set delivery_states" "DeliveryDisabled \<in> set delivery_states"
  by (simp_all add: delivery_states_def)

lemma tables_ok_deliveries:
  assumes ok: "tables_ok db"
    and same: "\<And>r. r \<in> set (wq_deliveries db) \<Longrightarrow> wd_ID (f r) = wd_ID r \<and> pair_of (f r) = pair_of r"
    and row: "\<And>r. r \<in> set (wq_deliveries db) \<Longrightarrow> delivery_ok r \<Longrightarrow> delivery_ok (f r)"
  shows "tables_ok (db\<lparr>wq_deliveries := map f (wq_deliveries db)\<rparr>)"
proof -
  have m: "map wd_ID (map f (wq_deliveries db)) = map wd_ID (wq_deliveries db)"
    "map pair_of (map f (wq_deliveries db)) = map pair_of (wq_deliveries db)"
    using same by (simp_all add: comp_def cong: map_cong)
  have d: "distinct (map wd_ID (map f (wq_deliveries db)))" "distinct (map pair_of (map f (wq_deliveries db)))"
    unfolding m using ok by (simp_all add: tables_ok_def)
  have i: "wd_EventID ` set (map f (wq_deliveries db)) = wd_EventID ` set (wq_deliveries db)"
    "wd_EndpointID ` set (map f (wq_deliveries db)) = wd_EndpointID ` set (wq_deliveries db)"
    "wd_ID ` set (map f (wq_deliveries db)) = wd_ID ` set (wq_deliveries db)"
    using same by (force simp: pair_of_def image_iff)+
  show ?thesis
    using ok row i d by (simp add: tables_ok_def list_all_iff)
qed

lemma tables_ok_endpoints:
  assumes ok: "tables_ok db"
    and same: "\<And>r. r \<in> set (wq_endpoints db) \<Longrightarrow> we_ID (f r) = we_ID r"
    and row: "\<And>r. r \<in> set (wq_endpoints db) \<Longrightarrow> endpoint_ok r \<Longrightarrow> endpoint_ok (f r)"
  shows "tables_ok (db\<lparr>wq_endpoints := map f (wq_endpoints db)\<rparr>)"
proof -
  have m: "map we_ID (map f (wq_endpoints db)) = map we_ID (wq_endpoints db)"
    using same by (simp add: comp_def cong: map_cong)
  have i: "we_ID ` set (map f (wq_endpoints db)) = we_ID ` set (wq_endpoints db)"
    using m by (metis set_map)
  have d: "distinct (map we_ID (map f (wq_endpoints db)))" unfolding m using ok by (simp add: tables_ok_def)
  show ?thesis using ok row i d by (simp add: tables_ok_def list_all_iff)
qed

lemma tables_ok_events:
  assumes "tables_ok db" and "map er_ID rows = map er_ID (wq_events db)"
  shows "tables_ok (db\<lparr>wq_events := rows\<rparr>)"
proof -
  have "er_ID ` set rows = er_ID ` set (wq_events db)" using assms(2) by (metis set_map)
  then show ?thesis using assms unfolding tables_ok_def by simp
qed

lemma tables_ok_secrets [simp]: "tables_ok (db\<lparr>wq_secrets := rows\<rparr>) \<longleftrightarrow> tables_ok db"
  by (simp add: tables_ok_def)

section \<open>Every statement keeps the constraints\<close>

lemma keeps_Pair [simp]: "keeps P (Pair r)"
  by (simp add: keeps_def)

lemma keeps_query [intro]: "keeps P m \<Longrightarrow> keeps P (query c m)"
  by (simp add: keeps_def query_def ret_def)

lemma keeps_in_select [intro]:
  "keeps P (in_events (select f))" "keeps P (in_endpoints (select g))" "keeps P (in_secrets (select h))"
  "keeps P (in_deliveries (select k))"
  by (simp_all add: keeps_def in_events_def in_endpoints_def in_secrets_def in_deliveries_def select_def)

lemma keeps_in_secrets [intro]: "keeps tables_ok (in_secrets m)"
  by (simp add: keeps_def in_secrets_def split_beta)

lemma keeps_in_deliveriesI:
  "(\<And>db. tables_ok db \<Longrightarrow> tables_ok (db\<lparr>wq_deliveries := snd (m (wq_deliveries db))\<rparr>)) \<Longrightarrow> keeps tables_ok (in_deliveries m)"
  by (simp add: keeps_def in_deliveries_def split_beta)

lemma keeps_in_endpointsI:
  "(\<And>db. tables_ok db \<Longrightarrow> tables_ok (db\<lparr>wq_endpoints := snd (m (wq_endpoints db))\<rparr>)) \<Longrightarrow> keeps tables_ok (in_endpoints m)"
  by (simp add: keeps_def in_endpoints_def split_beta)

lemma keeps_in_eventsI:
  "(\<And>db. tables_ok db \<Longrightarrow> tables_ok (db\<lparr>wq_events := snd (m (wq_events db))\<rparr>)) \<Longrightarrow> keeps tables_ok (in_events m)"
  by (simp add: keeps_def in_events_def split_beta)

lemma snd_increment_where:
  "snd (increment_where col P f rows) =
     (if list_ex (\<lambda>r. P r \<and> col r \<ge> int4_max) rows then rows else map (\<lambda>r. if P r then f r else r) rows)"
  by (simp add: increment_where_def update_where_def)

lemma tables_ok_insert_delivery:
  assumes "tables_ok db" and "wd_ID row \<notin> wd_ID ` set (wq_deliveries db)" and "pair_of row \<notin> pair_of ` set (wq_deliveries db)"
    and "delivery_ok row" and "wd_EventID row \<in> er_ID ` set (wq_events db)" and "wd_EndpointID row \<in> we_ID ` set (wq_endpoints db)"
  shows "tables_ok (db\<lparr>wq_deliveries := wq_deliveries db @ [row]\<rparr>)"
  using assms unfolding tables_ok_def by (simp add: list_all_iff) blast

lemma keeps_AppendEvent [intro]: "keeps tables_ok (AppendEvent c i m t r p at)"
  unfolding AppendEvent_def
  by (intro keeps_query keeps_in_eventsI)
    (auto simp: insert_by_id_def list_ex_iff tables_ok_def image_iff)

lemma keeps_MarkEventsDispatched [intro]: "keeps tables_ok (MarkEventsDispatched c ids)"
  unfolding MarkEventsDispatched_def
  by (intro keeps_query keeps_in_eventsI tables_ok_events) (simp_all add: update_where_def comp_def cong: if_cong)

lemma keeps_CreateWebhookEndpoint [intro]: "keeps tables_ok (CreateWebhookEndpoint c i m u en d at)"
  unfolding CreateWebhookEndpoint_def
  by (intro keeps_query keeps_in_endpointsI)
    (auto simp: insert_by_id_def list_ex_iff tables_ok_def endpoint_ok_def endpoint_statuses_def int4_max_def image_iff)

lemma keeps_SetWebhookEndpointStatus [intro]: "keeps tables_ok (SetWebhookEndpointStatus c i status)"
  unfolding SetWebhookEndpointStatus_def
  by (intro keeps_query keeps_in_endpointsI) (auto simp: update_where_def endpoint_ok_def intro!: tables_ok_endpoints)

lemma keeps_Reset_EndpointFailures [intro]: "keeps tables_ok (Reset_EndpointFailures c i)"
  unfolding Reset_EndpointFailures_def
  by (intro keeps_query keeps_in_endpointsI)
    (auto simp: update_where_def endpoint_ok_def int4_max_def intro!: tables_ok_endpoints)

lemma keeps_IncrementEndpointFailures [intro]: "keeps tables_ok (IncrementEndpointFailures c i)"
  unfolding IncrementEndpointFailures_def
  by (intro keeps_query keeps_in_endpointsI)
    (auto simp: seq_def increment_where_def update_where_def select_def endpoint_ok_def list_ex_iff intro!: tables_ok_endpoints)

lemma keeps_CreateWebhookSecret [intro]: "keeps tables_ok (CreateWebhookSecret c i e h n at)"
  unfolding CreateWebhookSecret_def
  by (intro keeps_query) (simp add: keeps_def in_secrets_def split_beta)

lemma keeps_RetireWebhookSecret [intro]: "keeps tables_ok (RetireWebhookSecret c i)"
  unfolding RetireWebhookSecret_def by blast

lemma keeps_EnqueueDelivery [intro]: "keeps tables_ok (EnqueueDelivery c i e p m)"
  unfolding EnqueueDelivery_def
  by (intro keeps_query)
    (auto simp: keeps_def in_deliveries_def insert_by_id_def list_ex_iff pair_of_def delivery_ok_def int4_max_def image_iff
      intro!: tables_ok_insert_delivery)

lemma keeps_ClaimDueDeliveries [intro]: "keeps tables_ok (ClaimDueDeliveries c limit until)"
  unfolding ClaimDueDeliveries_def
  by (intro keeps_query keeps_in_deliveriesI)
    (auto simp: Let_def leased_def delivery_ok_def pair_of_def intro!: tables_ok_deliveries)

lemma keeps_CompleteDelivery [intro]:
  "state \<noteq> DeliveryDelivering \<Longrightarrow> keeps tables_ok (CompleteDelivery c i state st er du)"
  unfolding CompleteDelivery_def
  by (intro keeps_query keeps_in_deliveriesI)
    (auto simp: snd_increment_where list_ex_iff delivery_ok_def pair_of_def intro!: tables_ok_deliveries)

lemma keeps_RescheduleDelivery [intro]: "keeps tables_ok (RescheduleDelivery c i delay st er du)"
  unfolding RescheduleDelivery_def
  by (intro keeps_query keeps_in_deliveriesI)
    (auto simp: snd_increment_where list_ex_iff delivery_ok_def pair_of_def intro!: tables_ok_deliveries)

lemma keeps_Reclaim_ExpiredLeases [intro]: "keeps tables_ok (Reclaim_ExpiredLeases c before)"
  unfolding Reclaim_ExpiredLeases_def
  by (intro keeps_query keeps_in_deliveriesI)
    (auto simp: update_where_def delivery_ok_def pair_of_def intro!: tables_ok_deliveries)

lemma keeps_ReplayDelivery [intro]: "keeps tables_ok (ReplayDelivery c i m)"
  unfolding ReplayDelivery_def
  by (intro keeps_query keeps_in_deliveriesI)
    (auto simp: update_where_def delivery_ok_def pair_of_def int4_max_def intro!: tables_ok_deliveries)

lemma keeps_RecordDeliveryAttempt [intro]: "keeps tables_ok (RecordDeliveryAttempt c d n st er du at)"
  unfolding RecordDeliveryAttempt_def
  by (intro keeps_query)
    (auto simp: keeps_def tables_ok_def Let_def list_ex_iff sorted_wrt_append)

section \<open>Every operation keeps the constraints\<close>

lemma keeps_combinators [intro]:
  "keeps P m \<Longrightarrow> keeps P (or_missing e f m)" "keeps P m' \<Longrightarrow> keeps P (rows_of g m')" "keeps P m'' \<Longrightarrow> keeps P (none_affected e m'')"
  unfolding or_missing_def rows_of_def none_affected_def
  by (auto intro!: keeps_seq split: option.split if_split)

lemma keeps_moment [intro]: "keeps (\<lambda>w. P (w_db w)) moment"
  by (simp add: keeps_def moment_def)

lemma keeps_case_option [intro]: "\<lbrakk>keeps P m; \<And>x. keeps P (f x)\<rbrakk> \<Longrightarrow> keeps P (case v of None \<Rightarrow> m | Some x \<Rightarrow> f x)"
  by (cases v) simp_all

lemmas store_defs = Events_Append_def Events_Get_def Events_ClaimUndispatched_def Events_MarkDispatched_def
  Webhook_CreateEndpoint_def Webhook_GetEndpoint_def Webhook_ActiveEndpointsForEvent_def Webhook_SetEndpointStatus_def
  Webhook_RecordEndpointFailure_def Webhook_ResetEndpointFailures_def Webhook_CreateSecret_def Webhook_ActiveSecrets_def
  Webhook_RetireSecret_def Webhook_ClaimDue_def Webhook_CompleteDelivery_def Webhook_RescheduleDelivery_def
  Webhook_RecordAttempt_def Webhook_ReclaimExpiredLeases_def Webhook_ReplayDelivery_def Webhook_GetEvent_def

lemmas read_defs = GetEvent_def GetWebhookEndpoint_def ActiveWebhookEndpoints_def ActiveWebhookSecrets_def ClaimUndispatchedEvents_def

abbreviation tables_kept :: "(webhook_db world, 'a) opr \<Rightarrow> bool" where
  "tables_kept \<equiv> keeps (\<lambda>w. tables_ok (w_db w))"

lemma keeps_Record: "tables_kept (Record E m t r p)"
  unfolding Record_def Let_def store_defs by (auto intro!: keeps_seq keeps_if split: outcome.split)

lemma keeps_new_delivery: "tables_kept (new_delivery E e p)"
  unfolding new_delivery_def by (intro keeps_seq keeps_new_id keeps_clock_now keeps_ret)

lemma keeps_expand_endpoints: "tables_kept (expand_endpoints E e ps ds)"
  by (induction ps arbitrary: ds) (auto intro!: keeps_seq keeps_new_delivery)

lemma keeps_expand_events: "tables_kept (expand_events E es known ds)"
proof (induction es arbitrary: known ds)
  case Nil
  show ?case by auto
next
  case (Cons e es)
  have "tables_kept (call E (\<lambda>c. Webhook_ActiveEndpointsForEvent c (ev_MerchantID e)))"
    unfolding store_defs read_defs by blast
  then show ?case
    by (auto intro!: keeps_seq keeps_expand_endpoints Cons.IH split: option.split)
qed

lemma keeps_EnqueueDeliveries: "tables_kept (EnqueueDeliveries E ds)"
  by (induction ds) (auto intro!: keeps_seq)

lemma keeps_DispatchOnce: "tables_kept (DispatchOnce E n)"
  unfolding DispatchOnce_def store_defs read_defs
  by (intro keeps_InTx keeps_seq keeps_call keeps_if keeps_ret keeps_combinators keeps_query keeps_in_select
      keeps_expand_events keeps_EnqueueDeliveries keeps_MarkEventsDispatched)

lemma keeps_recordEndpointFailure: "tables_kept (recordEndpointFailure E p)"
  unfolding recordEndpointFailure_def store_defs
  by (intro keeps_seq keeps_call keeps_if keeps_ret keeps_combinators keeps_IncrementEndpointFailures keeps_SetWebhookEndpointStatus)

lemma keeps_complete: "state \<noteq> DeliveryDelivering \<Longrightarrow> tables_kept (call E (\<lambda>c. Webhook_CompleteDelivery t c i state resp))"
  unfolding Webhook_CompleteDelivery_def by (intro keeps_call keeps_combinators keeps_CompleteDelivery)

lemma keeps_conclude: "tables_kept (conclude E L W d p resp)"
proof (cases "Classify resp (del_Attempt d) (wk_maxTries W)")
  case OutcomeSucceeded
  then show ?thesis unfolding conclude_def Let_def Webhook_ResetEndpointFailures_def
    by (auto intro!: keeps_seq keeps_complete)
next
  case OutcomeRetry
  then show ?thesis unfolding conclude_def Let_def Webhook_RescheduleDelivery_def
    by (auto intro!: keeps_seq keeps_call keeps_combinators)
next
  case OutcomeExhausted
  then show ?thesis unfolding conclude_def Let_def by (auto intro!: keeps_seq keeps_complete keeps_recordEndpointFailure)
next
  case OutcomeDisabled
  have "tables_kept (call E (\<lambda>c. Webhook_SetEndpointStatus c (ep_ID p) EndpointDisabled))"
    unfolding Webhook_SetEndpointStatus_def by blast
  with OutcomeDisabled show ?thesis unfolding conclude_def Let_def by (auto intro!: keeps_seq keeps_complete)
qed

lemma keeps_post_event: "tables_kept (post_event E L W d p e)"
  unfolding post_event_def Worker_activeSecrets_def Webhook_ActiveSecrets_def read_defs
  by (auto intro!: keeps_seq keeps_call keeps_query keeps_in_select keeps_moment)

lemma keeps_Worker_attempt: "tables_kept (Worker_attempt E L W d)"
proof -
  have reads: "tables_kept (call E (\<lambda>c. Webhook_GetEndpoint c (del_MerchantID d) (del_EndpointID d)))"
    "tables_kept (call E (\<lambda>c. Webhook_GetEvent c (del_EventID d)))"
    unfolding store_defs read_defs by blast+
  show ?thesis
    unfolding Worker_attempt_def Webhook_RecordAttempt_def
    by (intro keeps_seq keeps_if reads keeps_complete keeps_post_event keeps_clock_now keeps_conclude keeps_call
        keeps_RecordDeliveryAttempt) simp
qed

lemma keeps_attempt_each: "tables_kept (attempt_each E L W ds)"
  by (induction ds) (auto intro!: keeps_seq keeps_attempt keeps_Worker_attempt)

lemma keeps_DeliverOnce: "tables_kept (DeliverOnce E L W)"
  unfolding DeliverOnce_def Webhook_ClaimDue_def
  by (intro keeps_seq keeps_clock_now keeps_call keeps_combinators keeps_ClaimDueDeliveries keeps_attempt_each keeps_ret)

text \<open>What the service and its operators do with the tables.\<close>

datatype webhook_command =
    RecordEvent string EventType string "string outcome"
  | AddEndpoint Endpoint | SetStatus string EndpointStatus
  | AddSecret Secret string string | RetireSecret string
  | Dispatch int | Work webhook_library Worker | Reclaim | Replay_delivery string string

definition discard :: "('s, 'a) opr \<Rightarrow> ('s, unit) opr" where
  "discard m = seq m (\<lambda>_. ret (Ok ()))"

fun run_command :: "env \<Rightarrow> webhook_command \<Rightarrow> (webhook_db world, unit) opr" where
  "run_command E (RecordEvent m t r p) = discard (Record E m t r p)"
| "run_command E (AddEndpoint e) = call E (\<lambda>c. Webhook_CreateEndpoint c e)"
| "run_command E (SetStatus i st) = call E (\<lambda>c. Webhook_SetEndpointStatus c i st)"
| "run_command E (AddSecret sec hash enc) = call E (\<lambda>c. Webhook_CreateSecret c sec hash enc)"
| "run_command E (RetireSecret i) = call E (\<lambda>c. Webhook_RetireSecret c i)"
| "run_command E (Dispatch n) = discard (DispatchOnce E n)"
| "run_command E (Work L W) = discard (DeliverOnce E L W)"
| "run_command E Reclaim = discard (ReclaimOnce E)"
| "run_command E (Replay_delivery m i) = call E (\<lambda>c. Webhook_ReplayDelivery c m i)"

fun run_commands :: "env \<Rightarrow> webhook_command list \<Rightarrow> webhook_db world \<Rightarrow> webhook_db world" where
  "run_commands E [] w = w"
| "run_commands E (cmd # cmds) w = run_commands E cmds (snd (run_command E cmd w))"

definition empty_queue :: webhook_db where
  "empty_queue = \<lparr>wq_events = [], wq_endpoints = [], wq_secrets = [], wq_deliveries = [], wq_attempts = [], wq_attempt_seq = 0\<rparr>"

lemma keeps_run_command: "tables_kept (run_command E cmd)"
proof (cases cmd)
  case (Work L W)
  then show ?thesis by (auto simp: discard_def intro!: keeps_seq keeps_DeliverOnce)
qed (auto simp: discard_def ReclaimOnce_def store_defs intro!: keeps_seq keeps_Record keeps_DispatchOnce)

text \<open>
  C27. Starting from empty tables, whatever events are recorded, endpoints and secrets managed,
  batches dispatched, deliveries attempted, reclaimed and replayed, and whatever the endpoints
  answer: every row has a state of its enumeration and counters in range, a delivery is leased
  exactly while it is being delivered, an event has at most one delivery per endpoint, references
  resolve, and the audit of attempts is in order.
\<close>

theorem webhook_tables_typed: "tables_ok (w_db (run_commands E cmds \<lparr>w_db = empty_queue, w_gen = g, w_tick = n\<rparr>))"
proof -
  have "tables_ok (w_db w) \<Longrightarrow> tables_ok (w_db (run_commands E cmds w))" for w
    by (induction cmds arbitrary: w) (use keeps_run_command in \<open>auto simp: keeps_def\<close>)
  then show ?thesis by (simp add: tables_ok_def empty_queue_def)
qed

end
