(* ===== verification/Webhook_Dispatch.thy ===== *)
theory Webhook_Dispatch
  imports Webhook_Laws
begin

text \<open>
  The fan-out of the outbox: one run of the dispatcher against what it should do to the tables,
  and what happens to a delivery that cannot be signed or whose worker lost its lease.
\<close>

section \<open>Reading the statements\<close>

lemma in_table_eq:
  "in_events m db = (r, db') \<longleftrightarrow> (\<exists>rows. m (wq_events db) = (r, rows) \<and> db' = db\<lparr>wq_events := rows\<rparr>)"
  "in_endpoints m' db = (r', db') \<longleftrightarrow> (\<exists>rows. m' (wq_endpoints db) = (r', rows) \<and> db' = db\<lparr>wq_endpoints := rows\<rparr>)"
  "in_deliveries m'' db = (r'', db') \<longleftrightarrow> (\<exists>rows. m'' (wq_deliveries db) = (r'', rows) \<and> db' = db\<lparr>wq_deliveries := rows\<rparr>)"
  by (auto simp: in_events_def in_endpoints_def in_deliveries_def split: prod.splits)

text \<open>The endpoints an event of a merchant may go to, and the events a batch takes.\<close>

definition active_endpoints :: "webhook_db \<Rightarrow> string \<Rightarrow> Endpoint list" where
  "active_endpoints db merchantID = map endpointFromRow (sort_key we_ID
     (filter (\<lambda>r. we_MerchantID r = merchantID \<and> we_Status r \<noteq> EndpointDisabled) (wq_endpoints db)))"

definition undispatched :: "int \<Rightarrow> webhook_db \<Rightarrow> EventRow list" where
  "undispatched limit db = take (nat (wrap32 (dispatcher_batch limit)))
     (sort_key er_ID (filter (\<lambda>r. er_DispatchedAt r = None) (wq_events db)))"

lemma ActiveEndpoints_Ok:
  "Webhook_ActiveEndpointsForEvent c m db = (Ok ps, db') \<Longrightarrow> db' = db \<and> ps = active_endpoints db m"
  by (auto simp: Webhook_ActiveEndpointsForEvent_def ActiveWebhookEndpoints_def rows_of_eq_Ok query_eq_Ok in_table_eq select_def
      active_endpoints_def)

lemma ClaimUndispatched_Ok:
  "Events_ClaimUndispatched c (dispatcher_batch limit) db = (Ok es, db') \<Longrightarrow> db' = db \<and> es = map eventFromRow (undispatched limit db)"
  by (auto simp: Events_ClaimUndispatched_def ClaimUndispatchedEvents_def rows_of_eq_Ok query_eq_Ok in_table_eq select_def
      sql_limit_def undispatched_def split: if_splits)

lemma MarkDispatched_Ok:
  "Events_MarkDispatched c ids db = (Ok (), db') \<Longrightarrow>
     db' = db\<lparr>wq_events := map (\<lambda>r. if er_ID r \<in> set ids then r\<lparr>er_DispatchedAt := Some (wall_now c)\<rparr> else r) (wq_events db)\<rparr>"
  by (auto simp: Events_MarkDispatched_def MarkEventsDispatched_def seq_eq_Ok query_eq_Ok in_table_eq update_where_def
      split: if_splits)

section \<open>Expansion\<close>

definition target :: "Delivery \<Rightarrow> string \<times> string" where
  "target d = (del_EventID d, del_EndpointID d)"

definition targets_of :: "webhook_db \<Rightarrow> Event \<Rightarrow> (string \<times> string) list" where
  "targets_of db e = map (\<lambda>p. (ev_ID e, ep_ID p)) (filter (\<lambda>p. Wants p (ev_Type e)) (active_endpoints db (ev_MerchantID e)))"

lemma new_delivery_Ok: "new_delivery E e p w = (Ok d, w') \<Longrightarrow> w_db w' = w_db w \<and> target d = (ev_ID e, ep_ID p)"
  by (auto simp: new_delivery_def seq_eq_Ok target_def dest!: new_id_db)

lemma expand_endpoints_Ok:
  "expand_endpoints E e ps ds w = (Ok ds', w') \<Longrightarrow>
     w_db w' = w_db w \<and> map target ds' = map target ds @ map (\<lambda>p. (ev_ID e, ep_ID p)) (filter (\<lambda>p. Wants p (ev_Type e)) ps)"
  by (induction ps arbitrary: ds w) (auto simp: seq_eq_Ok split: if_splits dest!: new_delivery_Ok)

lemma expand_events_Ok:
  assumes "expand_events E es known ds w = (Ok ds', w')"
    and "\<And>m ps. map_of known m = Some ps \<Longrightarrow> ps = active_endpoints (w_db w) m"
  shows "w_db w' = w_db w \<and> map target ds' = map target ds @ concat (map (targets_of (w_db w)) es)"
  using assms
proof (induction es arbitrary: known ds w)
  case Nil
  then show ?case by simp
next
  case (Cons e es)
  let ?m = "ev_MerchantID e"
  obtain ps known' w1 ds1 w2 where look: "(case map_of known ?m of
        Some endpoints \<Rightarrow> ret (Ok (endpoints, known))
      | None \<Rightarrow> seq (call E (\<lambda>c. Webhook_ActiveEndpointsForEvent c ?m)) (\<lambda>endpoints. ret (Ok (endpoints, (?m, endpoints) # known)))) w
      = (Ok (ps, known'), w1)"
    and exp: "expand_endpoints E e ps ds w1 = (Ok ds1, w2)" and rest: "expand_events E es known' ds1 w2 = (Ok ds', w')"
    using Cons.prems(1) by (auto simp: seq_eq_Ok)
  have w1: "w_db w1 = w_db w" and ps: "ps = active_endpoints (w_db w) ?m"
    and known': "map_of known' m = Some qs \<Longrightarrow> qs = active_endpoints (w_db w) m" for m qs
    using look Cons.prems(2)
    by (auto simp: seq_eq_Ok call_eq_Ok split: option.splits if_splits dest!: ActiveEndpoints_Ok)
  have w2: "w_db w2 = w_db w" and ds1: "map target ds1 = map target ds @ targets_of (w_db w) e"
    using expand_endpoints_Ok [OF exp] w1 ps by (simp_all add: targets_of_def)
  show ?case using Cons.IH [OF rest] known' w2 ds1 by simp
qed

definition fresh_delivery :: "WebhookDelivery \<Rightarrow> bool" where
  "fresh_delivery r \<longleftrightarrow> wd_State r = DeliveryPending \<and> wd_Attempt r = 0"

lemma EnqueueDelivery_Ok:
  assumes "EnqueueDelivery c i e p m db = (Ok (), db')"
  shows "\<exists>new. db' = db\<lparr>wq_deliveries := wq_deliveries db @ new\<rparr> \<and> list_all fresh_delivery new
       \<and> pair_of ` set (wq_deliveries db @ new) = insert (e, p) (pair_of ` set (wq_deliveries db))"
proof (cases "(e, p) \<in> pair_of ` set (wq_deliveries db)")
  case True
  then have "list_ex (\<lambda>r. wd_EventID r = e \<and> wd_EndpointID r = p) (wq_deliveries db)"
    by (auto simp: list_ex_iff pair_of_def)
  then have "db' = db" using assms by (auto simp: EnqueueDelivery_def query_eq_Ok)
  then show ?thesis using True by (intro exI [of _ "[]"]) (simp add: insert_absorb)
next
  case False
  then have "\<not> list_ex (\<lambda>r. wd_EventID r = e \<and> wd_EndpointID r = p) (wq_deliveries db)"
    by (auto simp: list_ex_iff pair_of_def image_iff)
  then obtain row where "db' = db\<lparr>wq_deliveries := wq_deliveries db @ [row]\<rparr>" "fresh_delivery row" "pair_of row = (e, p)"
    using assms
    by (auto simp: EnqueueDelivery_def query_eq_Ok in_table_eq insert_by_id_def fresh_delivery_def pair_of_def split: if_splits)
  then show ?thesis by (intro exI [of _ "[row]"]) simp
qed

lemma EnqueueDeliveries_Ok:
  "EnqueueDeliveries E ds w = (Ok (), w') \<Longrightarrow>
     \<exists>new. w_db w' = (w_db w)\<lparr>wq_deliveries := wq_deliveries (w_db w) @ new\<rparr> \<and> list_all fresh_delivery new
       \<and> pair_of ` set (wq_deliveries (w_db w) @ new) = pair_of ` set (wq_deliveries (w_db w)) \<union> set (map target ds)"
proof (induction ds arbitrary: w)
  case Nil
  then show ?case by (auto intro!: exI [of _ "[]"])
next
  case (Cons d ds)
  obtain w1 where step: "call E (\<lambda>c. EnqueueDelivery c (del_ID d) (del_EventID d) (del_EndpointID d) (del_MerchantID d)) w = (Ok (), w1)"
    and rest: "EnqueueDeliveries E ds w1 = (Ok (), w')"
    using Cons.prems by (auto simp: seq_eq_Ok)
  obtain new where new: "w_db w1 = (w_db w)\<lparr>wq_deliveries := wq_deliveries (w_db w) @ new\<rparr>" "list_all fresh_delivery new"
      "pair_of ` set (wq_deliveries (w_db w) @ new) = insert (target d) (pair_of ` set (wq_deliveries (w_db w)))"
    using step unfolding call_eq_Ok target_def by (auto dest!: EnqueueDelivery_Ok)
  obtain new' where new': "w_db w' = (w_db w1)\<lparr>wq_deliveries := wq_deliveries (w_db w1) @ new'\<rparr>" "list_all fresh_delivery new'"
      "pair_of ` set (wq_deliveries (w_db w1) @ new') = pair_of ` set (wq_deliveries (w_db w1)) \<union> set (map target ds)"
    using Cons.IH [OF rest] by blast
  show ?case
    by (rule exI [of _ "new @ new'"]) (use new new' in \<open>simp add: Un_assoc\<close>)
qed

section \<open>One run of the dispatcher\<close>

definition wanted :: "int \<Rightarrow> webhook_db \<Rightarrow> (string \<times> string) set" where
  "wanted limit db = {(er_ID e, we_ID p) | e p. e \<in> set (undispatched limit db) \<and> p \<in> set (wq_endpoints db)
     \<and> we_MerchantID p = er_MerchantID e \<and> Wants (endpointFromRow p) (er_Type e)}"

lemma targets_of_set:
  "set (targets_of db (eventFromRow e)) = {(er_ID e, we_ID p) | p. p \<in> set (wq_endpoints db)
     \<and> we_MerchantID p = er_MerchantID e \<and> Wants (endpointFromRow p) (er_Type e)}"
proof -
  have w: "we_Status p \<noteq> EndpointDisabled" if "Wants (endpointFromRow p) t" for p t
    using that by (auto simp: Wants_def endpointFromRow_def split: if_splits)
  have id: "ep_ID (endpointFromRow p) = we_ID p" for p by (simp add: endpointFromRow_def)
  show ?thesis by (auto simp: targets_of_def active_endpoints_def id eventFromRow_def image_iff dest: w) (metis id w)
qed

lemma targets_wanted: "set (concat (map (targets_of db) (map eventFromRow (undispatched limit db)))) = wanted limit db"
  by (auto simp: targets_of_set wanted_def)

definition mark_dispatched :: "int \<Rightarrow> string set \<Rightarrow> EventRow list \<Rightarrow> EventRow list" where
  "mark_dispatched now ids rows = map (\<lambda>r. if er_ID r \<in> ids then r\<lparr>er_DispatchedAt := Some now\<rparr> else r) rows"

lemma mark_none: "mark_dispatched now {} rows = rows"
  by (simp add: mark_dispatched_def)

lemma DispatchOnce_Ok:
  assumes "DispatchOnce E limit w = (Ok k, w')"
  shows "\<exists>now new. k = int (length (undispatched limit (w_db w)))
    \<and> w_db w' = (w_db w)\<lparr>wq_deliveries := wq_deliveries (w_db w) @ new,
        wq_events := mark_dispatched now (er_ID ` set (undispatched limit (w_db w))) (wq_events (w_db w))\<rparr>
    \<and> list_all fresh_delivery new
    \<and> pair_of ` set (wq_deliveries (w_db w) @ new) = pair_of ` set (wq_deliveries (w_db w)) \<union> wanted limit (w_db w)"
proof -
  let ?batch = "map eventFromRow (undispatched limit (w_db w))"
  obtain es w1 where claim: "call E (\<lambda>c. Events_ClaimUndispatched c (dispatcher_batch limit)) w = (Ok es, w1)"
    and body': "(if es = [] then ret (Ok 0)
      else seq (expand_events E es [] []) (\<lambda>deliveries.
        seq (if deliveries = [] then ret (Ok ()) else EnqueueDeliveries E deliveries) (\<lambda>_.
        seq (call E (\<lambda>c. Events_MarkDispatched c (map ev_ID es))) (\<lambda>_. ret (Ok (int (length es))))))) w1 = (Ok k, w')"
    using assms unfolding DispatchOnce_def InTx_eq_Ok by (subst (asm) seq_eq_Ok) blast
  have es: "es = ?batch" and w1: "w_db w1 = w_db w"
    using claim by (auto simp: call_eq_Ok dest!: ClaimUndispatched_Ok)
  note body = body' [unfolded es]
  show ?thesis
  proof (cases "undispatched limit (w_db w) = []")
    case True
    then show ?thesis using body w1 by (intro exI [of _ 0] exI [of _ "[]"]) (simp add: mark_none wanted_def)
  next
    case False
    then obtain ds w2 w3 where exp: "expand_events E ?batch [] [] w1 = (Ok ds, w2)"
      and enq: "(if ds = [] then ret (Ok ()) else EnqueueDeliveries E ds) w2 = (Ok (), w3)"
      and mark: "call E (\<lambda>c. Events_MarkDispatched c (map ev_ID ?batch)) w3 = (Ok (), w')" and k: "k = int (length ?batch)"
      using body by (auto simp: seq_eq_Ok)
    have w2: "w_db w2 = w_db w" and ds: "set (map target ds) = wanted limit (w_db w)"
      using expand_events_Ok [OF exp] targets_wanted [of "w_db w" limit] w1 by simp_all
    have "EnqueueDeliveries E ds w2 = (Ok (), w3)" using enq by (auto split: if_splits)
    then obtain new where new: "w_db w3 = (w_db w)\<lparr>wq_deliveries := wq_deliveries (w_db w) @ new\<rparr>" "list_all fresh_delivery new"
        "pair_of ` set (wq_deliveries (w_db w) @ new) = pair_of ` set (wq_deliveries (w_db w)) \<union> wanted limit (w_db w)"
      using EnqueueDeliveries_Ok [of E ds w2 w3] ds w2 by auto
    have ids: "set (map ev_ID ?batch) = er_ID ` set (undispatched limit (w_db w))"
      by (simp add: eventFromRow_def image_image)
    obtain now where "w_db w' = (w_db w3)\<lparr>wq_events := mark_dispatched now (er_ID ` set (undispatched limit (w_db w))) (wq_events (w_db w3))\<rparr>"
      using mark unfolding call_eq_Ok mark_dispatched_def ids [symmetric] by (auto dest!: MarkDispatched_Ok)
    then show ?thesis using new k by (intro exI [of _ now] exI [of _ new]) simp
  qed
qed


end
