(* ===== verification/Webhook_Progress.thy ===== *)
theory Webhook_Progress
  imports Webhook_Dispatch
begin

text \<open>
  Progress of the delivery queue. As long as the worker keeps running and every open delivery can
  be signed, each round brings every delivery it claims closer to its end, so the queue drains in a
  bounded number of rounds whatever the endpoints answer, also after a crash that left rows leased.
\<close>

section \<open>What a round leaves alone\<close>

definition frame :: "webhook_db \<Rightarrow> webhook_db \<Rightarrow> bool" where
  "frame db db' \<longleftrightarrow> wq_deliveries db' = wq_deliveries db \<and> wq_events db' = wq_events db \<and> wq_secrets db' = wq_secrets db
     \<and> map (\<lambda>p. (we_ID p, we_MerchantID p)) (wq_endpoints db') = map (\<lambda>p. (we_ID p, we_MerchantID p)) (wq_endpoints db)"

lemma frame_refl [simp]: "frame db db"
  by (simp add: frame_def)

lemma frame_trans: "\<lbrakk>frame a b; frame b c\<rbrakk> \<Longrightarrow> frame a c"
  by (simp add: frame_def)

text \<open>An operation that touches no delivery and does not panic.\<close>

definition quiet :: "(webhook_db world, 'a) opr \<Rightarrow> bool" where
  "quiet m \<longleftrightarrow> (\<forall>w. frame (w_db w) (w_db (snd (m w))) \<and> fst (m w) \<noteq> Panic)"

lemma quietD: "\<lbrakk>quiet m; m w = (r, w')\<rbrakk> \<Longrightarrow> frame (w_db w) (w_db w') \<and> r \<noteq> Panic"
  unfolding quiet_def by (metis fst_conv snd_conv)

lemma quiet_seq: "\<lbrakk>quiet m; \<And>x. quiet (f x)\<rbrakk> \<Longrightarrow> quiet (seq m f)"
  unfolding quiet_def seq_def by (auto split: prod.splits outcome.splits dest: frame_trans) (metis frame_trans snd_conv fst_conv)+

lemma quiet_ret: "r \<noteq> Panic \<Longrightarrow> quiet (ret r)"
  by (simp add: quiet_def)

lemma quiet_call:
  "(\<And>c db. frame db (snd (f c db)) \<and> fst (f c db) \<noteq> Panic) \<Longrightarrow> quiet (call E f)"
  by (simp add: quiet_def call_def split_beta)

lemma endpoint_update_frame:
  assumes "\<And>p. we_ID (f p) = we_ID p \<and> we_MerchantID (f p) = we_MerchantID p"
  shows "frame db (db\<lparr>wq_endpoints := map (\<lambda>p. if P p then f p else p) (wq_endpoints db)\<rparr>)"
  using assms by (simp add: frame_def)

lemma quiet_ResetEndpointFailures: "quiet (call E (\<lambda>c. Webhook_ResetEndpointFailures c i))"
  by (rule quiet_call)
    (simp add: Webhook_ResetEndpointFailures_def Reset_EndpointFailures_def query_def seq_def in_endpoints_def update_where_def
      endpoint_update_frame)

lemma quiet_SetEndpointStatus: "quiet (call E (\<lambda>c. Webhook_SetEndpointStatus c i st))"
  by (rule quiet_call)
    (simp add: Webhook_SetEndpointStatus_def SetWebhookEndpointStatus_def none_affected_def query_def seq_def in_endpoints_def
      update_where_def endpoint_update_frame)

lemma quiet_RecordEndpointFailure: "quiet (call E (\<lambda>c. Webhook_RecordEndpointFailure c i))"
  by (rule quiet_call)
    (simp add: Webhook_RecordEndpointFailure_def IncrementEndpointFailures_def or_missing_def query_def seq_def in_endpoints_def
      increment_where_def update_where_def select_def endpoint_update_frame split: option.split)

lemma quiet_recordEndpointFailure: "quiet (recordEndpointFailure E p)"
  unfolding recordEndpointFailure_def
  by (auto intro!: quiet_seq quiet_RecordEndpointFailure quiet_SetEndpointStatus quiet_ret split: if_split)

section \<open>One delivery advances\<close>

definition final :: "DeliveryState \<Rightarrow> bool" where
  "final st \<longleftrightarrow> st = DeliverySucceeded \<or> st = DeliveryExhausted \<or> st = DeliveryDisabled"

lemma final_simps [simp]:
  "final DeliverySucceeded" "final DeliveryExhausted" "final DeliveryDisabled" "\<not> final DeliveryPending" "\<not> final DeliveryDelivering"
  by (simp_all add: final_def state_consts)

definition nearer :: "int \<Rightarrow> WebhookDelivery \<Rightarrow> WebhookDelivery \<Rightarrow> bool" where
  "nearer maxTries r r' \<longleftrightarrow> final (wd_State r')
     \<or> wd_State r' = DeliveryPending \<and> wd_Attempt r' = wd_Attempt r + 1 \<and> wd_Attempt r' < maxTries"

definition same_row :: "WebhookDelivery \<Rightarrow> WebhookDelivery \<Rightarrow> bool" where
  "same_row r r' \<longleftrightarrow> wd_ID r' = wd_ID r \<and> pair_of r' = pair_of r \<and> wd_MerchantID r' = wd_MerchantID r"

definition advanced :: "int \<Rightarrow> string set \<Rightarrow> webhook_db \<Rightarrow> webhook_db \<Rightarrow> bool" where
  "advanced maxTries S db db' \<longleftrightarrow>
     list_all2 (\<lambda>r r'. same_row r r' \<and> (if wd_ID r \<in> S then nearer maxTries r r' else r' = r)) (wq_deliveries db) (wq_deliveries db')
   \<and> wq_events db' = wq_events db \<and> wq_secrets db' = wq_secrets db
   \<and> map (\<lambda>p. (we_ID p, we_MerchantID p)) (wq_endpoints db') = map (\<lambda>p. (we_ID p, we_MerchantID p)) (wq_endpoints db)"

lemma advanced_frame: "frame db db' \<Longrightarrow> advanced n {} db db'"
  by (auto simp: frame_def advanced_def same_row_def intro!: list.rel_refl)

lemma advanced_after: "\<lbrakk>frame a b; advanced n S b c\<rbrakk> \<Longrightarrow> advanced n S a c"
  by (simp add: frame_def advanced_def)

lemma advanced_before: "\<lbrakk>advanced n S a b; frame b c\<rbrakk> \<Longrightarrow> advanced n S a c"
  by (simp add: frame_def advanced_def)

lemma advanced_compose:
  assumes "advanced n S a b" and "advanced n T b c" and "S \<inter> T = {}"
  shows "advanced n (S \<union> T) a c"
proof -
  have "list_all2 (\<lambda>r r''. same_row r r'' \<and> (if wd_ID r \<in> S \<union> T then nearer n r r'' else r'' = r)) (wq_deliveries a) (wq_deliveries c)"
    by (rule list_all2_trans [OF _ assms(1,2) [unfolded advanced_def, THEN conjunct1]])
      (use assms(3) in \<open>auto simp: same_row_def split: if_splits\<close>)
  then show ?thesis using assms(1,2) by (simp add: advanced_def)
qed

lemma advanced_update:
  assumes "\<And>r. r \<in> set (wq_deliveries db) \<Longrightarrow> wd_ID r = i \<Longrightarrow> same_row r (f r) \<and> nearer n r (f r)"
  shows "advanced n {i} db (db\<lparr>wq_deliveries := map (\<lambda>r. if wd_ID r = i then f r else r) (wq_deliveries db)\<rparr>)"
  using assms by (auto simp: advanced_def list_all2_conv_all_nth same_row_def)

section \<open>An attempt\<close>

definition usable_secrets :: "webhook_library \<Rightarrow> webhook_db \<Rightarrow> string \<Rightarrow> bool" where
  "usable_secrets L db endpointID \<longleftrightarrow>
     list_ex (\<lambda>s. ws_EndpointID s = endpointID \<and> ws_Active s) (wq_secrets db)
   \<and> list_all (\<lambda>s. ws_EndpointID s = endpointID \<and> ws_Active s \<longrightarrow>
       (case wl_decrypt L (ws_SecretEnc s) of Ok plaintext \<Rightarrow> plaintext \<noteq> [] | _ \<Rightarrow> False)) (wq_secrets db)"

text \<open>The endpoint and the event of a delivery exist, the event renders, and its endpoint has keys to sign with.\<close>

definition serviceable :: "webhook_library \<Rightarrow> webhook_db \<Rightarrow> WebhookDelivery \<Rightarrow> bool" where
  "serviceable L db r \<longleftrightarrow>
     (wd_EndpointID r, wd_MerchantID r) \<in> set (map (\<lambda>p. (we_ID p, we_MerchantID p)) (wq_endpoints db))
   \<and> list_ex (\<lambda>e. er_ID e = wd_EventID r) (wq_events db)
   \<and> list_all (\<lambda>e. er_ID e = wd_EventID r \<longrightarrow>
       (case wl_marshal L (Event_Envelope (wl_rfc3339 L) (eventFromRow e)) of Ok _ \<Rightarrow> True | _ \<Rightarrow> False)) (wq_events db)
   \<and> usable_secrets L db (wd_EndpointID r)"

lemma GetEndpoint_serviceable:
  assumes "serviceable L db r" and "\<not> cancelled c"
  shows "\<exists>p. Webhook_GetEndpoint c (wd_MerchantID r) (wd_EndpointID r) db = (Ok p, db) \<and> ep_ID p = wd_EndpointID r"
proof -
  obtain x where x: "List.find (\<lambda>p. we_MerchantID p = wd_MerchantID r \<and> we_ID p = wd_EndpointID r) (wq_endpoints db) = Some x"
  proof -
    have "List.find (\<lambda>p. we_MerchantID p = wd_MerchantID r \<and> we_ID p = wd_EndpointID r) (wq_endpoints db) \<noteq> None"
      using assms(1) by (auto simp: serviceable_def find_None_iff)
    then show thesis using that by blast
  qed
  then have "we_ID x = wd_EndpointID r" by (auto simp: find_Some_iff)
  then show ?thesis
    using x assms(2)
    by (simp add: Webhook_GetEndpoint_def GetWebhookEndpoint_def or_missing_def seq_def query_def in_endpoints_def select_def
        endpointFromRow_def)
qed

lemma GetEvent_serviceable:
  assumes "serviceable L db r" and "\<not> cancelled c"
  shows "\<exists>e body. Webhook_GetEvent c (wd_EventID r) db = (Ok e, db) \<and> wl_marshal L (Event_Envelope (wl_rfc3339 L) e) = Ok body"
proof -
  obtain x where x: "List.find (\<lambda>e. er_ID e = wd_EventID r) (wq_events db) = Some x"
  proof -
    have "List.find (\<lambda>e. er_ID e = wd_EventID r) (wq_events db) \<noteq> None"
      using assms(1) by (auto simp: serviceable_def find_None_iff list_ex_iff)
    then show thesis using that by blast
  qed
  then have "x \<in> set (wq_events db)" "er_ID x = wd_EventID r" by (auto simp: find_Some_iff)
  then have "case wl_marshal L (Event_Envelope (wl_rfc3339 L) (eventFromRow x)) of Ok _ \<Rightarrow> True | _ \<Rightarrow> False"
    using assms(1) by (auto simp: serviceable_def list_all_iff)
  then show ?thesis
    using x assms(2)
    by (auto simp: Webhook_GetEvent_def GetEvent_def or_missing_def seq_def query_def in_events_def select_def split: outcome.splits)
qed

lemma ActiveSecrets_usable:
  assumes "usable_secrets L db i" and "\<not> cancelled c"
  shows "\<exists>ss. Webhook_ActiveSecrets (wl_decrypt L) c i db = (Ok ss, db) \<and> ss \<noteq> [] \<and> (\<forall>s\<in>set ss. sec_Plaintext s \<noteq> [])"
proof -
  define rows where "rows = order_desc ws_CreatedAt (filter (\<lambda>r. ws_EndpointID r = i \<and> ws_Active r) (wq_secrets db))"
  have set: "set rows = {r \<in> set (wq_secrets db). ws_EndpointID r = i \<and> ws_Active r}" by (auto simp: rows_def order_desc_def)
  have "set rows \<noteq> {}" using assms(1) unfolding set usable_secrets_def list_ex_iff by blast
  then have rows: "rows \<noteq> []" by auto
  define f where "f s = (case wl_decrypt L (ws_SecretEnc s) of Ok plaintext \<Rightarrow>
      \<lparr>sec_ID = ws_ID s, sec_EndpointID = ws_EndpointID s, sec_Plaintext = plaintext, sec_Active = ws_Active s,
       sec_CreatedAt = ws_CreatedAt s, sec_RetiredAt = None\<rparr> | _ \<Rightarrow> undefined)" for s :: WebhookSecret
  have ok: "open_secret (wl_decrypt L) s = Ok (f s) \<and> sec_Plaintext (f s) \<noteq> []" if "s \<in> set rows" for s
  proof -
    have "case wl_decrypt L (ws_SecretEnc s) of Ok plaintext \<Rightarrow> plaintext \<noteq> [] | _ \<Rightarrow> False"
      using that assms(1) unfolding set usable_secrets_def list_all_iff by blast
    then show ?thesis by (auto simp: open_secret_def f_def split: outcome.splits)
  qed
  have "map_outcome_list (open_secret (wl_decrypt L)) rows = Ok (map f rows)"
    using ok by (intro map_outcome_list_total) blast
  moreover have "ActiveWebhookSecrets c i db = (Ok rows, db)"
    using assms(2) by (simp add: ActiveWebhookSecrets_def query_def in_secrets_def select_def rows_def)
  ultimately show ?thesis using rows ok by (auto simp: Webhook_ActiveSecrets_def seq_def)
qed

lemma Sign_usable: "\<lbrakk>ss \<noteq> []; \<forall>s\<in>set ss. s \<noteq> []\<rbrakk> \<Longrightarrow> \<exists>h t. Sign hmac now body ss = Ok (h, t)"
  by (cases ss) (auto simp: Sign_def Let_def)

lemma post_event_Ok:
  assumes "usable_secrets L (w_db w) (ep_ID p)" and "wl_marshal L (Event_Envelope (wl_rfc3339 L) e) = Ok body"
    and "\<forall>k. \<not> env_cancelled E k"
  shows "\<exists>resp w'. post_event E L W d p e w = (Ok resp, w') \<and> w_db w' = w_db w"
proof -
  obtain ss where ss: "Webhook_ActiveSecrets (wl_decrypt L) (ambient_at E (w_tick w)) (ep_ID p) (w_db w) = (Ok ss, w_db w)"
      "ss \<noteq> []" "\<forall>s\<in>set ss. sec_Plaintext s \<noteq> []"
    using ActiveSecrets_usable [OF assms(1), of "ambient_at E (w_tick w)"] assms(3) by (auto simp: ambient_at_def)
  have secrets: "Worker_activeSecrets E L (ep_ID p) w = (Ok ss, w\<lparr>w_tick := Suc (w_tick w)\<rparr>)"
    using ss(1,2) by (simp add: Worker_activeSecrets_def seq_def call_def)
  obtain h t where "Sign (wl_hmac L) (env_now E (Suc (w_tick w))) body (map sec_Plaintext ss) = Ok (h, t)"
    using Sign_usable [of "map sec_Plaintext ss" "wl_hmac L" "env_now E (Suc (w_tick w))" body] ss(2,3) by auto
  then show ?thesis
    using assms(2) secrets by (simp add: post_event_def seq_def clock_now_def moment_def)
qed

lemma int4_bounds: "0 \<le> a \<Longrightarrow> a < int4_max \<Longrightarrow> wrap64 (a + 1) = a + 1"
  by (intro wrap64_id) (simp add: int4_max_def in64_def)

lemma increment_where_Ok:
  assumes "\<exists>r\<in>set rows. P r" and "\<And>r. r \<in> set rows \<Longrightarrow> P r \<Longrightarrow> col r < int4_max"
  shows "\<exists>n. increment_where col P f rows = (Ok n, map (\<lambda>r. if P r then f r else r) rows) \<and> n \<noteq> 0"
proof -
  have "\<not> list_ex (\<lambda>r. P r \<and> col r \<ge> int4_max) rows" using assms(2) by (force simp: list_ex_iff)
  moreover have "filter P rows \<noteq> []" using assms(1) by (auto simp: filter_empty_conv)
  ultimately show ?thesis by (simp add: increment_where_def update_where_def)
qed

lemma complete_advances:
  assumes "final state" and "\<exists>r\<in>set (wq_deliveries (w_db w)). wd_ID r = i"
    and "\<And>r. r \<in> set (wq_deliveries (w_db w)) \<Longrightarrow> wd_ID r = i \<Longrightarrow> wd_Attempt r < int4_max" and "\<forall>k. \<not> env_cancelled E k"
  shows "\<exists>w'. call E (\<lambda>c. Webhook_CompleteDelivery text c i state resp) w = (Ok (), w') \<and> advanced n {i} (w_db w) (w_db w')"
proof -
  have st: "state \<in> set delivery_states" using assms(1) by (auto simp: final_def)
  let ?f = "\<lambda>r. r\<lparr>wd_State := state, wd_Attempt := wd_Attempt r + 1, wd_LeasedUntil := None, wd_LastStatus := statusOrNil resp,
    wd_LastError := errText text resp, wd_LastDurationMs := durationMS resp, wd_CompletedAt := Some (env_now E (w_tick w))\<rparr>"
  obtain m where m: "increment_where wd_Attempt (\<lambda>r. wd_ID r = i) ?f (wq_deliveries (w_db w))
      = (Ok m, map (\<lambda>r. if wd_ID r = i then ?f r else r) (wq_deliveries (w_db w)))" "m \<noteq> 0"
    using increment_where_Ok [OF assms(2), of wd_Attempt ?f] assms(3) by blast
  have "advanced n {i} (w_db w)
      ((w_db w)\<lparr>wq_deliveries := map (\<lambda>r. if wd_ID r = i then ?f r else r) (wq_deliveries (w_db w))\<rparr>)"
    by (rule advanced_update) (use assms(1) in \<open>simp add: same_row_def pair_of_def nearer_def\<close>)
  then show ?thesis
    using m st assms(4)
    by (simp add: call_def Webhook_CompleteDelivery_def CompleteDelivery_def none_affected_def query_def ambient_at_def seq_def
        in_deliveries_def)
qed

lemma reschedule_advances:
  assumes "\<exists>r\<in>set (wq_deliveries (w_db w)). wd_ID r = i" and "\<forall>k. \<not> env_cancelled E k"
    and "\<And>r. r \<in> set (wq_deliveries (w_db w)) \<Longrightarrow> wd_ID r = i \<Longrightarrow> wd_Attempt r < int4_max \<and> wd_Attempt r + 1 < n"
  shows "\<exists>w'. call E (\<lambda>c. Webhook_RescheduleDelivery text c i delay resp) w = (Ok (), w') \<and> advanced n {i} (w_db w) (w_db w')"
proof -
  let ?f = "\<lambda>r. r\<lparr>wd_State := DeliveryPending, wd_Attempt := wd_Attempt r + 1,
    wd_NextAttemptAt := env_now E (w_tick w) + delay, wd_LeasedUntil := None, wd_LastStatus := statusOrNil resp,
    wd_LastError := errText text resp, wd_LastDurationMs := durationMS resp\<rparr>"
  obtain m where m: "increment_where wd_Attempt (\<lambda>r. wd_ID r = i) ?f (wq_deliveries (w_db w))
      = (Ok m, map (\<lambda>r. if wd_ID r = i then ?f r else r) (wq_deliveries (w_db w)))" "m \<noteq> 0"
    using increment_where_Ok [OF assms(1), of wd_Attempt ?f] assms(3) by blast
  have "advanced n {i} (w_db w)
      ((w_db w)\<lparr>wq_deliveries := map (\<lambda>r. if wd_ID r = i then ?f r else r) (wq_deliveries (w_db w))\<rparr>)"
    by (rule advanced_update) (use assms(3) in \<open>simp add: same_row_def pair_of_def nearer_def\<close>)
  then show ?thesis
    using m assms(2)
    by (simp add: call_def Webhook_RescheduleDelivery_def RescheduleDelivery_def none_affected_def query_def ambient_at_def seq_def
        in_deliveries_def)
qed

text \<open>What the queue needs of the worker: a bound on the attempts, and delays that exist.\<close>

definition sane_worker :: "webhook_library \<Rightarrow> Worker \<Rightarrow> bool" where
  "sane_worker L W \<longleftrightarrow> 1 \<le> wk_maxTries W \<and> wk_maxTries W \<le> int4_max \<and> 1 \<le> wk_batch W \<and> wk_batch W \<le> int4_max
     \<and> (\<forall>k a. Delay (wl_int63n L k) (wk_backoff W) a \<noteq> Panic)"

lemma Delay_Ok: "sane_worker L W \<Longrightarrow> \<exists>x. Delay (wl_int63n L k) (wk_backoff W) a = Ok x"
proof -
  assume "sane_worker L W"
  then have "Delay (wl_int63n L k) (wk_backoff W) a \<noteq> Panic" by (simp add: sane_worker_def)
  then show ?thesis by (auto simp: Delay_def Let_def split: if_splits)
qed

lemma quiet_then: "\<lbrakk>call E f w = (Ok (), w1); advanced n S db (w_db w1); quiet g\<rbrakk>
    \<Longrightarrow> \<exists>r w'. seq (call E f) (\<lambda>_. g) w = (r, w') \<and> r \<noteq> Panic \<and> advanced n S db (w_db w')"
  using quietD [of g w1] advanced_before by (cases "g w1") (fastforce simp: seq_def)

lemma conclude_advances:
  assumes row: "\<exists>r\<in>set (wq_deliveries (w_db w)). wd_ID r = del_ID d"
    and bound: "\<And>r. r \<in> set (wq_deliveries (w_db w)) \<Longrightarrow> wd_ID r = del_ID d \<Longrightarrow> wd_Attempt r = del_Attempt d"
      "0 \<le> del_Attempt d" "del_Attempt d < int4_max"
    and live: "\<forall>k. \<not> env_cancelled E k" and sane: "sane_worker L W"
  shows "\<exists>r w'. conclude E L W d p resp w = (r, w') \<and> r \<noteq> Panic \<and> advanced (wk_maxTries W) {del_ID d} (w_db w) (w_db w')"
proof -
  have b: "wd_Attempt r < int4_max" if "r \<in> set (wq_deliveries (w_db w))" "wd_ID r = del_ID d" for r
    using bound(1) [OF that] bound(3) by simp
  have complete: "\<exists>w1. call E (\<lambda>c. Webhook_CompleteDelivery (wl_text L) c (del_ID d) state resp) w = (Ok (), w1)
      \<and> advanced (wk_maxTries W) {del_ID d} (w_db w) (w_db w1)" if "final state" for state
    by (rule complete_advances [OF that row b live])
  show ?thesis
  proof (cases "Classify resp (del_Attempt d) (wk_maxTries W)")
    case OutcomeSucceeded
    obtain w1 where "call E (\<lambda>c. Webhook_CompleteDelivery (wl_text L) c (del_ID d) DeliverySucceeded resp) w = (Ok (), w1)"
      "advanced (wk_maxTries W) {del_ID d} (w_db w) (w_db w1)" using complete [OF final_simps(1)] by blast
    from quiet_then [OF this quiet_ResetEndpointFailures] show ?thesis by (simp add: conclude_def Let_def OutcomeSucceeded)
  next
    case OutcomeDisabled
    obtain w1 where "call E (\<lambda>c. Webhook_CompleteDelivery (wl_text L) c (del_ID d) DeliveryDisabled resp) w = (Ok (), w1)"
      "advanced (wk_maxTries W) {del_ID d} (w_db w) (w_db w1)" using complete [OF final_simps(3)] by blast
    from quiet_then [OF this quiet_SetEndpointStatus] show ?thesis by (simp add: conclude_def Let_def OutcomeDisabled)
  next
    case OutcomeExhausted
    obtain w1 where "call E (\<lambda>c. Webhook_CompleteDelivery (wl_text L) c (del_ID d) DeliveryExhausted resp) w = (Ok (), w1)"
      "advanced (wk_maxTries W) {del_ID d} (w_db w) (w_db w1)" using complete [OF final_simps(2)] by blast
    from quiet_then [OF this quiet_recordEndpointFailure] show ?thesis by (simp add: conclude_def Let_def OutcomeExhausted)
  next
    case OutcomeRetry
    then have lt: "del_Attempt d + 1 < wk_maxTries W"
      using sane int4_bounds [OF bound(2,3)] by (auto simp: Classify_def Let_def sane_worker_def split: if_splits)
    obtain x where x: "Delay (wl_int63n L (w_tick w)) (wk_backoff W) (del_Attempt d) = Ok x" using Delay_Ok [OF sane] by blast
    let ?w = "w\<lparr>w_tick := Suc (w_tick w)\<rparr>"
    have "\<exists>w'. call E (\<lambda>c. Webhook_RescheduleDelivery (wl_text L) c (del_ID d) x resp) ?w = (Ok (), w')
        \<and> advanced (wk_maxTries W) {del_ID d} (w_db ?w) (w_db w')"
      by (rule reschedule_advances) (use row live bound lt in auto)
    then show ?thesis using x by (auto simp: conclude_def Let_def OutcomeRetry seq_def moment_def)
  qed
qed


lemma RecordAttempt_frame:
  assumes "\<exists>r\<in>set (wq_deliveries (w_db w)). wd_ID r = att_DeliveryID a" and "\<forall>k. \<not> env_cancelled E k"
  shows "\<exists>w'. call E (\<lambda>c. Webhook_RecordAttempt c a) w = (Ok (), w') \<and> frame (w_db w) (w_db w')"
proof -
  have "list_ex (\<lambda>r. wd_ID r = att_DeliveryID a) (wq_deliveries (w_db w))" using assms(1) by (auto simp: list_ex_iff)
  then show ?thesis
    using assms(2)
    by (simp add: call_def Webhook_RecordAttempt_def RecordDeliveryAttempt_def query_def ambient_at_def frame_def Let_def)
qed

lemma Worker_attempt_advances:
  assumes d: "r \<in> set (wq_deliveries (w_db w))" "deliveryFromRow r' = d" "same_row r r'" "wd_Attempt r' = wd_Attempt r"
    and table: "distinct (map wd_ID (wq_deliveries (w_db w)))" and serve: "serviceable L (w_db w) r"
    and bound: "0 \<le> wd_Attempt r" "wd_Attempt r < int4_max"
    and live: "\<forall>k. \<not> env_cancelled E k" and sane: "sane_worker L W"
  shows "\<exists>x w'. Worker_attempt E L W d w = (x, w') \<and> x \<noteq> Panic \<and> advanced (wk_maxTries W) {wd_ID r} (w_db w) (w_db w')"
proof -
  have del: "del_ID d = wd_ID r" "del_EndpointID d = wd_EndpointID r" "del_EventID d = wd_EventID r"
      "del_MerchantID d = wd_MerchantID r" "del_Attempt d = wd_Attempt r"
    using d(2-4) by (auto simp: deliveryFromRow_def same_row_def pair_of_def)
  have only: "q = r" if "q \<in> set (wq_deliveries (w_db w))" "wd_ID q = wd_ID r" for q
    using table d(1) that by (auto simp: distinct_map dest: inj_onD)
  let ?w1 = "w\<lparr>w_tick := Suc (w_tick w)\<rparr>" and ?w2 = "w\<lparr>w_tick := Suc (Suc (w_tick w))\<rparr>"
  have amb: "\<not> cancelled (ambient_at E k)" for k using live by (simp add: ambient_at_def)
  obtain p where p: "call E (\<lambda>c. Webhook_GetEndpoint c (wd_MerchantID r) (wd_EndpointID r)) w = (Ok p, ?w1)" "ep_ID p = wd_EndpointID r"
    using GetEndpoint_serviceable [OF serve amb [of "w_tick w"]] by (auto simp: call_def)
  show ?thesis
  proof (cases "ep_Status p = EndpointDisabled")
    case True
    obtain w' where "call E (\<lambda>c. Webhook_CompleteDelivery (wl_text L) c (wd_ID r) DeliveryDisabled
        \<lparr>resp_StatusCode = 0, resp_Duration = 0, resp_Body = [], resp_Err = None\<rparr>) ?w1 = (Ok (), w')"
      "advanced (wk_maxTries W) {wd_ID r} (w_db ?w1) (w_db w')"
      using complete_advances [of DeliveryDisabled ?w1 "wd_ID r" E] d(1) only bound(2) live by fastforce
    then show ?thesis using p True by (simp add: Worker_attempt_def del seq_def)
  next
    case False
    obtain e body where e: "call E (\<lambda>c. Webhook_GetEvent c (wd_EventID r)) ?w1 = (Ok e, ?w2)"
        "wl_marshal L (Event_Envelope (wl_rfc3339 L) e) = Ok body"
      using GetEvent_serviceable [OF serve amb [of "Suc (w_tick w)"]] by (auto simp: call_def)
    have "usable_secrets L (w_db ?w2) (ep_ID p)" using serve p(2) by (simp add: serviceable_def)
    then obtain resp w3 where post: "post_event E L W d p e ?w2 = (Ok resp, w3)" "w_db w3 = w_db w"
      using post_event_Ok [OF _ e(2) live] by fastforce
    define w4 where "w4 = w3\<lparr>w_tick := Suc (w_tick w3)\<rparr>"
    have db4: "w_db w4 = w_db w" by (simp add: w4_def post(2))
    define a where "a = \<lparr>att_DeliveryID = del_ID d, att_Attempt = wrap64 (del_Attempt d + 1), att_StatusCode = statusPtr resp,
      att_Error = errString (wl_text L) (resp_Err resp), att_DurationMS = durationPtr (resp_Duration resp),
      att_AttemptedAt = env_now E (w_tick w3)\<rparr>"
    obtain w5 where w5: "call E (\<lambda>c. Webhook_RecordAttempt c a) w4 = (Ok (), w5)" "frame (w_db w) (w_db w5)"
      using RecordAttempt_frame [of w4 a E] d(1) live by (auto simp: db4 a_def del)
    have rows: "wq_deliveries (w_db w5) = wq_deliveries (w_db w)" using w5(2) by (simp add: frame_def)
    obtain x w' where c: "conclude E L W d p resp w5 = (x, w')" "x \<noteq> Panic"
        "advanced (wk_maxTries W) {wd_ID r} (w_db w5) (w_db w')"
      using conclude_advances [of w5 d E L W p resp] d(1) only bound live sane unfolding rows del by blast
    have "Worker_attempt E L W d w = (x, w')"
      using p(1) False e(1) post(1) w5(1) c(1) by (simp add: Worker_attempt_def seq_def del a_def clock_now_def w4_def)
    then show ?thesis using c(2) advanced_after [OF w5(2) c(3)] by blast
  qed
qed

section \<open>A batch\<close>

definition ready :: "webhook_library \<Rightarrow> webhook_db \<Rightarrow> bool" where
  "ready L db \<longleftrightarrow> (\<forall>r\<in>set (wq_deliveries db). \<not> final (wd_State r) \<longrightarrow> serviceable L db r \<and> wd_Attempt r < int4_max)"

lemma serviceable_advanced:
  "\<lbrakk>advanced n S db db'; same_row r r'; serviceable L db r\<rbrakk> \<Longrightarrow> serviceable L db' r'"
  unfolding advanced_def same_row_def pair_of_def serviceable_def usable_secrets_def by simp

lemma list_all2_left: "\<lbrakk>list_all2 P xs ys; y \<in> set ys\<rbrakk> \<Longrightarrow> \<exists>x\<in>set xs. P x y"
  by (induction rule: list_all2_induct) auto

lemma list_all2_right: "\<lbrakk>list_all2 P xs ys; x \<in> set xs\<rbrakk> \<Longrightarrow> \<exists>y\<in>set ys. P x y"
  by (induction rule: list_all2_induct) auto

lemma advanced_rows:
  assumes "advanced n S db db'" and "r' \<in> set (wq_deliveries db')"
  shows "\<exists>r\<in>set (wq_deliveries db). same_row r r' \<and> (if wd_ID r \<in> S then nearer n r r' else r' = r)"
  by (rule list_all2_left [OF assms(1) [unfolded advanced_def, THEN conjunct1] assms(2)])

lemma advanced_ids: "advanced n S db db' \<Longrightarrow> map wd_ID (wq_deliveries db') = map wd_ID (wq_deliveries db)"
  unfolding advanced_def by (auto simp: list_all2_conv_all_nth list_eq_iff_nth_eq same_row_def)

lemma ready_advanced:
  assumes "advanced n S db db'" and "ready L db" and "n \<le> int4_max" and "\<And>r. r \<in> set (wq_deliveries db) \<Longrightarrow> wd_ID r \<in> S \<Longrightarrow> \<not> final (wd_State r)"
  shows "ready L db'"
  unfolding ready_def
proof (intro ballI impI)
  fix r'
  assume r': "r' \<in> set (wq_deliveries db')" "\<not> final (wd_State r')"
  obtain r where r: "r \<in> set (wq_deliveries db)" "same_row r r'" "if wd_ID r \<in> S then nearer n r r' else r' = r"
    using advanced_rows [OF assms(1) r'(1)] by blast
  have "\<not> final (wd_State r)" using r assms(4) r'(2) by (auto split: if_splits)
  then have "serviceable L db r" "wd_Attempt r < int4_max" using assms(2) r(1) by (auto simp: ready_def)
  then show "serviceable L db' r' \<and> wd_Attempt r' < int4_max"
    using serviceable_advanced [OF assms(1) r(2)] r(3) r'(2) assms(3) by (auto simp: nearer_def split: if_splits)
qed

lemma advanced_keeps_row:
  assumes "advanced n S db db'" and "r \<in> set (wq_deliveries db)" and "wd_ID r \<notin> S"
  shows "r \<in> set (wq_deliveries db')"
  using list_all2_right [OF assms(1) [unfolded advanced_def, THEN conjunct1] assms(2)] assms(3) by auto

lemma attempt_each_advances:
  assumes "set rs \<subseteq> set (wq_deliveries (w_db w))" and "distinct (map wd_ID rs)" and "\<forall>r\<in>set rs. \<not> final (wd_State r) \<and> 0 \<le> wd_Attempt r"
    and "distinct (map wd_ID (wq_deliveries (w_db w)))" and "ready L (w_db w)"
    and live: "\<forall>k. \<not> env_cancelled E k" and sane: "sane_worker L W"
  shows "\<exists>w'. attempt_each E L W (map deliveryFromRow rs) w = (Ok (), w')
    \<and> advanced (wk_maxTries W) (wd_ID ` set rs) (w_db w) (w_db w')"
  using assms(1-5)
proof (induction rs arbitrary: w)
  case Nil
  then show ?case by (simp add: advanced_frame)
next
  case (Cons r rs)
  have "serviceable L (w_db w) r" "wd_Attempt r < int4_max" using Cons.prems by (auto simp: ready_def)
  then obtain x w1 where x: "Worker_attempt E L W (deliveryFromRow r) w = (x, w1)" "x \<noteq> Panic"
      and adv: "advanced (wk_maxTries W) {wd_ID r} (w_db w) (w_db w1)"
    using Worker_attempt_advances [of r w r "deliveryFromRow r" L E W] Cons.prems live sane
    by (auto simp: same_row_def)
  have rest: "set rs \<subseteq> set (wq_deliveries (w_db w1))"
  proof
    fix q
    assume q: "q \<in> set rs"
    moreover have "wd_ID r \<notin> wd_ID ` set rs" using Cons.prems(2) by simp
    ultimately have "wd_ID q \<noteq> wd_ID r" by (metis imageI)
    then show "q \<in> set (wq_deliveries (w_db w1))" using advanced_keeps_row [OF adv] q Cons.prems(1) by auto
  qed
  have "ready L (w_db w1)"
    by (rule ready_advanced [OF adv Cons.prems(5)]) (use sane Cons.prems(1,3,4) in \<open>auto simp: sane_worker_def distinct_map dest: inj_onD\<close>)
  then obtain w' where w': "attempt_each E L W (map deliveryFromRow rs) w1 = (Ok (), w')"
      "advanced (wk_maxTries W) (wd_ID ` set rs) (w_db w1) (w_db w')"
    using Cons.IH [OF rest] Cons.prems(2-4) advanced_ids [OF adv] by auto
  have "attempt (Worker_attempt E L W (deliveryFromRow r)) w = (Ok (case x of Ok u \<Rightarrow> Some u | _ \<Rightarrow> None), w1)"
    using x by (cases x) (simp_all add: attempt_def)
  then have "attempt_each E L W (map deliveryFromRow (r # rs)) w = (Ok (), w')" using w'(1) by (simp add: seq_def)
  moreover have "advanced (wk_maxTries W) (wd_ID ` set (r # rs)) (w_db w) (w_db w')"
    using advanced_compose [OF adv w'(2)] Cons.prems(2) by auto
  ultimately show ?case by blast
qed

section \<open>Rounds\<close>

definition weight :: "int \<Rightarrow> WebhookDelivery \<Rightarrow> nat" where
  "weight maxTries r = (if final (wd_State r) then 0 else nat (max 1 (maxTries - wd_Attempt r)))"

definition total_weight :: "int \<Rightarrow> webhook_db \<Rightarrow> nat" where
  "total_weight maxTries db = sum_list (map (weight maxTries) (wq_deliveries db))"

lemma weight_nearer: "\<lbrakk>nearer n r r'; \<not> final (wd_State r)\<rbrakk> \<Longrightarrow> weight n r' < weight n r"
  by (auto simp: nearer_def weight_def)

lemma weight_pos: "0 < weight n r \<longleftrightarrow> \<not> final (wd_State r)"
  by (auto simp: weight_def max_def)

lemma total_weight_zero: "total_weight n db = 0 \<Longrightarrow> list_all (\<lambda>r. final (wd_State r)) (wq_deliveries db)"
proof -
  assume "total_weight n db = 0"
  then have "weight n r = 0" if "r \<in> set (wq_deliveries db)" for r using that by (simp add: total_weight_def)
  then show ?thesis unfolding list_all_iff by (metis weight_pos less_numeral_extra(3))
qed

lemma weights_le: "list_all2 (\<lambda>x y. f y \<le> (f x :: nat)) xs ys \<Longrightarrow> sum_list (map f ys) \<le> sum_list (map f xs)"
  by (induction rule: list_all2_induct) auto

lemma weights_less:
  "\<lbrakk>list_all2 (\<lambda>x y. f y \<le> (f x :: nat) \<and> (Q x \<longrightarrow> f y < f x)) xs ys; \<exists>x\<in>set xs. Q x\<rbrakk>
    \<Longrightarrow> sum_list (map f ys) < sum_list (map f xs)"
proof (induction rule: list_all2_induct)
  case (Cons x xs y ys)
  have "sum_list (map f ys) \<le> sum_list (map f xs)"
    by (rule weights_le [OF list_all2_mono [OF Cons.hyps(2)]]) simp
  with Cons show ?case by (cases "Q x") auto
qed simp

lemma advanced_weight:
  assumes "advanced n S db db'" and "\<And>r. r \<in> set (wq_deliveries db) \<Longrightarrow> wd_ID r \<in> S \<Longrightarrow> \<not> final (wd_State r)"
    and "\<exists>r\<in>set (wq_deliveries db). wd_ID r \<in> S"
  shows "total_weight n db' < total_weight n db"
  unfolding total_weight_def
proof (rule weights_less [where Q = "\<lambda>r. wd_ID r \<in> S"])
  have "list_all2 (\<lambda>r r'. r \<in> set (wq_deliveries db) \<and> (if wd_ID r \<in> S then nearer n r r' else r' = r)) (wq_deliveries db) (wq_deliveries db')"
    using assms(1) by (auto simp: advanced_def list_all2_conv_all_nth)
  then show "list_all2 (\<lambda>r r'. weight n r' \<le> weight n r \<and> (wd_ID r \<in> S \<longrightarrow> weight n r' < weight n r)) (wq_deliveries db) (wq_deliveries db')"
    by (rule list_all2_mono) (auto split: if_splits dest: weight_nearer assms(2) intro: less_imp_le)
qed (fact assms(3))

text \<open>Between rounds a delivery is settled or waiting.\<close>

definition idle :: "webhook_db \<Rightarrow> bool" where
  "idle db \<longleftrightarrow> (\<forall>r\<in>set (wq_deliveries db). final (wd_State r) \<or> wd_State r = DeliveryPending)"

lemma open_state: "\<lbrakk>delivery_ok r; \<not> final (wd_State r)\<rbrakk> \<Longrightarrow> wd_State r = DeliveryPending \<or> wd_State r = DeliveryDelivering"
  by (auto simp: delivery_ok_def delivery_states_def)

lemma reclaim_round:
  assumes ok: "tables_ok (w_db w)" and ready: "ready L (w_db w)" and live: "\<forall>k. \<not> env_cancelled E k"
    and due: "\<And>r at. r \<in> set (wq_deliveries (w_db w)) \<Longrightarrow> wd_LeasedUntil r = Some at \<Longrightarrow> at < env_now E (w_tick w)"
  shows "\<exists>w'. snd (ReclaimOnce E w) = w' \<and> idle (w_db w') \<and> ready L (w_db w')
    \<and> total_weight n (w_db w') = total_weight n (w_db w)"
proof -
  let ?P = "\<lambda>r. wd_State r = DeliveryDelivering \<and> (case wd_LeasedUntil r of None \<Rightarrow> False | Some at \<Rightarrow> at < env_now E (w_tick w))"
  let ?g = "\<lambda>r. if ?P r then r\<lparr>wd_State := DeliveryPending, wd_LeasedUntil := None\<rparr> else r"
  let ?db = "(w_db w)\<lparr>wq_deliveries := map ?g (wq_deliveries (w_db w))\<rparr>"
  have run: "w_db (snd (ReclaimOnce E w)) = ?db"
    using live
    by (simp add: ReclaimOnce_def Webhook_ReclaimExpiredLeases_def Reclaim_ExpiredLeases_def query_def ambient_at_def seq_def
        clock_now_def call_def in_deliveries_def update_where_def)
  have rows: "delivery_ok r" if "r \<in> set (wq_deliveries (w_db w))" for r
    using ok that by (auto simp: tables_ok_def list_all_iff)
  have P: "?P r" if "r \<in> set (wq_deliveries (w_db w))" "wd_State r = DeliveryDelivering" for r
    using rows [OF that(1)] that due by (auto simp: delivery_ok_def)
  have "idle ?db" unfolding idle_def using rows open_state P by auto
  moreover have "ready L ?db"
    using ready by (auto simp: ready_def serviceable_def usable_secrets_def)
  moreover have "weight n (?g r) = weight n r" for r by (auto simp: weight_def)
  then have "total_weight n ?db = total_weight n (w_db w)" by (simp add: total_weight_def comp_def)
  ultimately show ?thesis using run by auto
qed


text \<open>Taking a lease changes neither what is open nor how far it is from its end.\<close>

definition claim_rows :: "string set \<Rightarrow> int \<Rightarrow> webhook_db \<Rightarrow> webhook_db" where
  "claim_rows S until db = db\<lparr>wq_deliveries := map (\<lambda>r. if wd_ID r \<in> S then leased until r else r) (wq_deliveries db)\<rparr>"

lemma DeliverOnce_run:
  assumes live: "\<forall>k. \<not> env_cancelled E k" and sane: "sane_worker L W"
  shows "\<exists>until w1. w_db w1 = claim_rows (set (due_ids (env_now E (Suc (w_tick w))) (wk_batch W) (wq_deliveries (w_db w)))) until (w_db w)
    \<and> snd (DeliverOnce E L W w) = snd (attempt_each E L W (map deliveryFromRow (filter
        (\<lambda>r. wd_ID r \<in> set (due_ids (env_now E (Suc (w_tick w))) (wk_batch W) (wq_deliveries (w_db w)))) (wq_deliveries (w_db w1)))) w1)"
proof -
  let ?ids = "set (due_ids (env_now E (Suc (w_tick w))) (wk_batch W) (wq_deliveries (w_db w)))"
  let ?until = "env_now E (w_tick w) + wk_lease W"
  define w1 where "w1 = w\<lparr>w_db := claim_rows ?ids ?until (w_db w), w_tick := Suc (Suc (w_tick w))\<rparr>"
  have wrap: "wrap32 (wk_batch W) = wk_batch W" using sane by (simp add: sane_worker_def int4_max_def wrap32_def)
  have pos: "\<not> wk_batch W < 0" using sane by (simp add: sane_worker_def)
  have claimed: "filter (\<lambda>r. wd_ID r \<in> ?ids) (wq_deliveries (w_db w1)) = map (leased ?until) (filter (\<lambda>r. wd_ID r \<in> ?ids) (wq_deliveries (w_db w)))"
    unfolding w1_def claim_rows_def
    by (induction "wq_deliveries (w_db w)") (simp_all add: filter_map comp_def leased_def cong: if_cong filter_cong)
  have "call E (\<lambda>c. Webhook_ClaimDue c (wk_batch W) ?until) (w\<lparr>w_tick := Suc (w_tick w)\<rparr>)
      = (Ok (map deliveryFromRow (filter (\<lambda>r. wd_ID r \<in> ?ids) (wq_deliveries (w_db w1)))), w1)"
    unfolding claimed using live pos
    by (simp add: call_def Webhook_ClaimDue_def ClaimDueDeliveries_def rows_of_def query_def ambient_at_def seq_def in_deliveries_def
        wrap w1_def claim_rows_def Let_def)
  then have "snd (DeliverOnce E L W w) = snd (attempt_each E L W (map deliveryFromRow (filter (\<lambda>r. wd_ID r \<in> ?ids) (wq_deliveries (w_db w1)))) w1)"
    by (simp add: DeliverOnce_def seq_def clock_now_def split: prod.split outcome.split)
  then show ?thesis by (intro exI [of _ ?until] exI [of _ w1]) (simp add: w1_def)
qed

lemma due_ids_open:
  assumes "idle db" and "\<And>r. r \<in> set (wq_deliveries db) \<Longrightarrow> wd_NextAttemptAt r \<le> now" and "1 \<le> limit"
    and "\<exists>r\<in>set (wq_deliveries db). \<not> final (wd_State r)"
  shows "\<exists>r\<in>set (wq_deliveries db). wd_ID r \<in> set (due_ids now limit (wq_deliveries db))"
proof -
  let ?due = "sort_key wd_NextAttemptAt (filter (\<lambda>r. wd_State r = DeliveryPending \<and> wd_NextAttemptAt r \<le> now) (wq_deliveries db))"
  obtain r where "r \<in> set ?due" using assms(1,2,4) by (auto simp: idle_def)
  then have "?due \<noteq> []" by (metis list.set(1) emptyE)
  then have "hd ?due \<in> set (take (nat limit) ?due)"
    using assms(3) by (cases ?due; cases "nat limit") auto
  moreover have "hd ?due \<in> set (wq_deliveries db)" using \<open>?due \<noteq> []\<close> hd_in_set [of ?due] by auto
  ultimately show ?thesis unfolding due_ids_def by auto
qed

lemma due_ids_pending:
  assumes "distinct (map wd_ID rows)" and "r \<in> set rows" and "wd_ID r \<in> set (due_ids now limit rows)"
  shows "wd_State r = DeliveryPending"
proof -
  obtain q where "q \<in> set rows" "wd_State q = DeliveryPending" "wd_ID q = wd_ID r"
    using assms(3) by (auto simp: due_ids_def dest!: in_set_takeD)
  then show ?thesis using assms(1,2) by (auto simp: distinct_map dest: inj_onD)
qed


lemma deliver_round:
  assumes ok: "tables_ok (w_db w)" and ready: "ready L (w_db w)" and idle: "idle (w_db w)"
    and live: "\<forall>k. \<not> env_cancelled E k" and sane: "sane_worker L W"
    and due: "\<And>r. r \<in> set (wq_deliveries (w_db w)) \<Longrightarrow> wd_NextAttemptAt r \<le> env_now E (Suc (w_tick w))"
  shows "ready L (w_db (snd (DeliverOnce E L W w)))
    \<and> (total_weight (wk_maxTries W) (w_db (snd (DeliverOnce E L W w))) < total_weight (wk_maxTries W) (w_db w)
       \<or> total_weight (wk_maxTries W) (w_db w) = 0 \<and> total_weight (wk_maxTries W) (w_db (snd (DeliverOnce E L W w))) = 0)"
proof -
  let ?n = "wk_maxTries W"
  define S where "S = set (due_ids (env_now E (Suc (w_tick w))) (wk_batch W) (wq_deliveries (w_db w)))"
  obtain until w1 where w1: "w_db w1 = claim_rows S until (w_db w)"
    and run: "snd (DeliverOnce E L W w) = snd (attempt_each E L W (map deliveryFromRow (filter (\<lambda>r. wd_ID r \<in> S) (wq_deliveries (w_db w1)))) w1)"
    using DeliverOnce_run [OF live sane, of w] unfolding S_def by blast
  let ?rs = "filter (\<lambda>r. wd_ID r \<in> S) (wq_deliveries (w_db w1))"
  have ids: "distinct (map wd_ID (wq_deliveries (w_db w)))" using ok by (simp add: tables_ok_def)
  have pending: "wd_State r = DeliveryPending" if "r \<in> set (wq_deliveries (w_db w))" "wd_ID r \<in> S" for r
    using due_ids_pending [OF ids that(1)] that(2) by (simp add: S_def)
  have ids1: "map wd_ID (wq_deliveries (w_db w1)) = map wd_ID (wq_deliveries (w_db w))"
    by (simp add: w1 claim_rows_def leased_def)
  have ready1: "ready L (w_db w1)"
    using ready pending
    by (auto simp: ready_def w1 claim_rows_def leased_def serviceable_def usable_secrets_def)
  have open1: "\<not> final (wd_State r) \<and> 0 \<le> wd_Attempt r" if "r \<in> set ?rs" for r
    using that ok by (auto simp: w1 claim_rows_def leased_def tables_ok_def list_all_iff delivery_ok_def split: if_splits)
  have weight1: "total_weight ?n (w_db w1) = total_weight ?n (w_db w)"
    unfolding total_weight_def w1 claim_rows_def
    by (simp add: comp_def, rule arg_cong [where f = sum_list], rule map_cong) (auto simp: leased_def weight_def pending)
  obtain w2 where run2: "attempt_each E L W (map deliveryFromRow ?rs) w1 = (Ok (), w2)"
      and adv: "advanced ?n (wd_ID ` set ?rs) (w_db w1) (w_db w2)"
    using attempt_each_advances [OF _ _ _ _ ready1 live sane, of ?rs] ids ids1 open1
    by (auto simp: distinct_map_filter)
  have w2: "snd (DeliverOnce E L W w) = w2" by (simp add: run run2)
  have open': "\<not> final (wd_State r)" if "r \<in> set (wq_deliveries (w_db w1))" "wd_ID r \<in> wd_ID ` set ?rs" for r
    using that open1 [of r] by auto
  have ready2: "ready L (w_db w2)"
    by (rule ready_advanced [OF adv ready1 _ open']) (use sane in \<open>simp add: sane_worker_def\<close>)
  show ?thesis
  proof (cases "\<exists>r\<in>set (wq_deliveries (w_db w)). \<not> final (wd_State r)")
    case True
    have "1 \<le> wk_batch W" using sane by (simp add: sane_worker_def)
    then obtain r where "r \<in> set (wq_deliveries (w_db w))" "wd_ID r \<in> S"
      using due_ids_open [OF idle due _ True] unfolding S_def by blast
    then have "\<exists>q\<in>set (wq_deliveries (w_db w1)). wd_ID q \<in> S"
      using ids1 by (metis (mono_tags, lifting) imageE imageI set_map)
    then have "\<exists>q\<in>set (wq_deliveries (w_db w1)). wd_ID q \<in> wd_ID ` set ?rs" by auto
    then show ?thesis using advanced_weight [OF adv open'] ready2 weight1 unfolding w2 by simp
  next
    case False
    then have zero: "total_weight ?n (w_db w) = 0" by (simp add: total_weight_def weight_def)
    have "?rs = []" using False pending by (auto simp: filter_empty_conv w1 claim_rows_def leased_def)
    then have "w2 = w1" using run2 by simp
    then show ?thesis using zero weight1 ready2 unfolding w2 by simp
  qed
qed

definition patient :: "env \<Rightarrow> (webhook_db world \<Rightarrow> nat) \<Rightarrow> bool" where
  "patient E wait \<longleftrightarrow> (\<forall>w. \<forall>k\<ge>wait w. \<forall>r\<in>set (wq_deliveries (w_db w)). wd_NextAttemptAt r \<le> env_now E k
     \<and> (\<forall>at. wd_LeasedUntil r = Some at \<longrightarrow> at < env_now E k))"

lemma patientD:
  assumes "patient E wait"
  shows "\<lbrakk>r \<in> set (wq_deliveries (w_db w)); wait w \<le> k\<rbrakk> \<Longrightarrow> wd_NextAttemptAt r \<le> env_now E k"
    and "\<lbrakk>r \<in> set (wq_deliveries (w_db w)); wd_LeasedUntil r = Some at\<rbrakk> \<Longrightarrow> at < env_now E (wait w)"
  using assms unfolding patient_def by blast+

definition sleep :: "(webhook_db world \<Rightarrow> nat) \<Rightarrow> webhook_db world \<Rightarrow> webhook_db world" where
  "sleep wait w = w\<lparr>w_tick := wait w\<rparr>"

text \<open>A round of the worker: wait, reclaim what a crashed worker left, wait, deliver a batch.\<close>

fun rounds :: "env \<Rightarrow> webhook_library \<Rightarrow> Worker \<Rightarrow> (webhook_db world \<Rightarrow> nat) \<Rightarrow> nat \<Rightarrow> webhook_db world \<Rightarrow> webhook_db world" where
  "rounds E L W wait 0 w = w"
| "rounds E L W wait (Suc n) w =
     rounds E L W wait n (snd (DeliverOnce E L W (sleep wait (snd (ReclaimOnce E (sleep wait w))))))"

lemma keeps_ReclaimOnce: "tables_kept (ReclaimOnce E)"
  unfolding ReclaimOnce_def Webhook_ReclaimExpiredLeases_def by blast

lemma rounds_drain:
  assumes "tables_ok (w_db w)" and "ready L (w_db w)" and live: "\<forall>k. \<not> env_cancelled E k" and sane: "sane_worker L W"
    and patient: "patient E wait" and "total_weight (wk_maxTries W) (w_db w) \<le> n"
  shows "total_weight (wk_maxTries W) (w_db (rounds E L W wait n w)) = 0"
  using assms(1,2,6)
proof (induction n arbitrary: w)
  case 0
  then show ?case by simp
next
  case (Suc n)
  let ?n = "wk_maxTries W"
  define w1 where "w1 = snd (ReclaimOnce E (sleep wait w))"
  define w2 where "w2 = snd (DeliverOnce E L W (sleep wait w1))"
  have ok1: "tables_ok (w_db w1)"
    using keeps_ReclaimOnce [of E] Suc.prems(1) by (simp add: keeps_def w1_def sleep_def)
  have ok2: "tables_ok (w_db w2)"
    using keeps_DeliverOnce [of E L W] ok1 by (simp add: keeps_def w2_def sleep_def)
  have r1: "idle (w_db w1)" "ready L (w_db w1)" "total_weight ?n (w_db w1) = total_weight ?n (w_db w)"
    using reclaim_round [of "sleep wait w" L E ?n] Suc.prems(1,2) live patientD(2) [OF patient]
    by (auto simp: w1_def sleep_def)
  have "ready L (w_db w2) \<and> (total_weight ?n (w_db w2) < total_weight ?n (w_db w1)
      \<or> total_weight ?n (w_db w1) = 0 \<and> total_weight ?n (w_db w2) = 0)"
    using deliver_round [of "sleep wait w1" L E W] ok1 r1(1,2) live sane patientD(1) [OF patient]
    by (simp add: w2_def sleep_def)
  then have "ready L (w_db w2)" "total_weight ?n (w_db w2) \<le> n" using r1(3) Suc.prems(3) by auto
  then show ?case using Suc.IH [OF ok2] by (simp add: w1_def [symmetric] w2_def [symmetric])
qed



text \<open>A clock that shows the tick, and a wait that is long enough for every row.\<close>

definition tick_env :: env where
  "tick_env = \<lparr>env_now = int, env_rand = (\<lambda>k. Some (replicate 10 0)), env_cancelled = (\<lambda>k. False)\<rparr>"

definition sample_wait :: "webhook_db world \<Rightarrow> nat" where
  "sample_wait w = sum_list (map (\<lambda>r. nat \<bar>wd_NextAttemptAt r\<bar> + (case wd_LeasedUntil r of None \<Rightarrow> 0 | Some at \<Rightarrow> Suc (nat \<bar>at\<bar>)))
     (wq_deliveries (w_db w)))"

lemma sample_patient: "patient tick_env sample_wait"
proof -
  have "nat \<bar>wd_NextAttemptAt r\<bar> + (case wd_LeasedUntil r of None \<Rightarrow> 0 | Some at \<Rightarrow> Suc (nat \<bar>at\<bar>)) \<le> sample_wait w"
    if "r \<in> set (wq_deliveries (w_db w))" for r w
    unfolding sample_wait_def by (rule member_le_sum_list) (use that in auto)
  then show ?thesis unfolding patient_def by (fastforce simp: tick_env_def)
qed

definition sample_webhook_library :: webhook_library where
  "sample_webhook_library = \<lparr>wl_decrypt = Ok, wl_text = (\<lambda>e. ''error''), wl_hmac = (\<lambda>k m. m), wl_marshal = (\<lambda>e. Ok (env_ID e)),
     wl_rfc3339 = (\<lambda>t. []), wl_int63n = (\<lambda>k n. 0), wl_do = (\<lambda>k url body headers. (exchange.Answered 500 [], 1))\<rparr>"

definition sample_worker :: Worker where
  "sample_worker = NewWorker DefaultBackoff 2 0 0 0"

definition sample_row :: "DeliveryState \<Rightarrow> int option \<Rightarrow> WebhookDelivery" where
  "sample_row st lease = \<lparr>wd_ID = ''d'', wd_EventID = ''e'', wd_EndpointID = ''p'', wd_MerchantID = ''m'', wd_State = st, wd_Attempt = 0,
     wd_NextAttemptAt = 5, wd_LeasedUntil = lease, wd_LastStatus = None, wd_LastError = None, wd_LastDurationMs = None,
     wd_CreatedAt = 5, wd_CompletedAt = None\<rparr>"

definition sample_queue :: "WebhookSecret list \<Rightarrow> WebhookDelivery \<Rightarrow> webhook_db" where
  "sample_queue secrets r = \<lparr>wq_events = [\<lparr>er_ID = ''e'', er_MerchantID = ''m'', er_Type = ''payment.succeeded'', er_ResourceID = ''x'',
       er_Payload = ''{}'', er_DispatchedAt = Some 5, er_CreatedAt = 1\<rparr>],
     wq_endpoints = [\<lparr>we_ID = ''p'', we_MerchantID = ''m'', we_Url = ''https://example.com'', we_EnabledEvents = [''*''],
       we_Status = EndpointActive, we_ConsecutiveFailures = 0, we_Description = [], we_CreatedAt = 1, we_DisabledAt = None\<rparr>],
     wq_secrets = secrets, wq_deliveries = [r], wq_attempts = [], wq_attempt_seq = 0\<rparr>"

definition sample_secret :: WebhookSecret where
  "sample_secret = \<lparr>ws_ID = ''s'', ws_EndpointID = ''p'', ws_SecretHash = ''h'', ws_SecretEnc = ''k'', ws_Active = True,
     ws_CreatedAt = 1, ws_RetiredAt = None\<rparr>"

lemma sample_sane: "sane_worker sample_webhook_library sample_worker"
proof -
  have "Delay draw (wk_backoff sample_worker) a \<noteq> Panic" for draw a
    using Delay_draw [of DefaultBackoff draw a]
    by (simp add: sample_worker_def NewWorker_def base_of_def cap_of_def DefaultBackoff_def nanos_def)
  then show ?thesis by (simp add: sane_worker_def sample_worker_def NewWorker_def int4_max_def)
qed


end
