(* ===== verification/Webhook_Leases.thy ===== *)
theory Webhook_Leases
  imports Webhook_Progress
begin

text \<open>
  Two ways in which a delivery does not end as it should: one that cannot be signed is retried
  without being counted, and one whose worker outlives its lease can be queued again after it
  succeeded.
\<close>

section \<open>Deliveries that cannot be signed\<close>

definition unsignable :: "webhook_library \<Rightarrow> webhook_db \<Rightarrow> WebhookDelivery \<Rightarrow> bool" where
  "unsignable L db r \<longleftrightarrow>
     (\<exists>p\<in>set (wq_endpoints db). we_ID p = wd_EndpointID r \<and> we_MerchantID p = wd_MerchantID r)
   \<and> list_all (\<lambda>p. we_ID p = wd_EndpointID r \<longrightarrow> we_Status p \<noteq> EndpointDisabled) (wq_endpoints db)
   \<and> list_ex (\<lambda>e. er_ID e = wd_EventID r) (wq_events db)
   \<and> list_all (\<lambda>e. er_ID e = wd_EventID r \<longrightarrow>
       (case wl_marshal L (Event_Envelope (wl_rfc3339 L) (eventFromRow e)) of Ok _ \<Rightarrow> True | _ \<Rightarrow> False)) (wq_events db)
   \<and> \<not> list_ex (\<lambda>s. ws_EndpointID s = wd_EndpointID r \<and> ws_Active s) (wq_secrets db)"

lemma unsigned_attempt:
  assumes u: "unsignable L (w_db w) r" and d: "del_EndpointID d = wd_EndpointID r" "del_EventID d = wd_EventID r"
      "del_MerchantID d = wd_MerchantID r"
    and live: "\<forall>k. \<not> env_cancelled E k"
  shows "\<exists>w'. Worker_attempt E L W d w = (Err ErrSecretNotFound, w') \<and> w_db w' = w_db w"
proof -
  obtain p where p: "List.find (\<lambda>p. we_MerchantID p = wd_MerchantID r \<and> we_ID p = wd_EndpointID r) (wq_endpoints (w_db w)) = Some p"
      "p \<in> set (wq_endpoints (w_db w))" "we_ID p = wd_EndpointID r"
    using find_obtains [of "wq_endpoints (w_db w)" "\<lambda>p. we_MerchantID p = wd_MerchantID r \<and> we_ID p = wd_EndpointID r"] u
    by (auto simp: unsignable_def)
  have st: "we_Status p \<noteq> EndpointDisabled" using u p by (auto simp: unsignable_def list_all_iff)
  obtain e where e: "List.find (\<lambda>e. er_ID e = wd_EventID r) (wq_events (w_db w)) = Some e"
      "e \<in> set (wq_events (w_db w))" "er_ID e = wd_EventID r"
    using find_obtains [of "wq_events (w_db w)" "\<lambda>e. er_ID e = wd_EventID r"] u by (auto simp: unsignable_def list_ex_iff)
  obtain body where body: "wl_marshal L (Event_Envelope (wl_rfc3339 L) (eventFromRow e)) = Ok body"
  proof -
    have "case wl_marshal L (Event_Envelope (wl_rfc3339 L) (eventFromRow e)) of Ok _ \<Rightarrow> True | _ \<Rightarrow> False"
      using u e(2,3) by (auto simp: unsignable_def list_all_iff)
    then show thesis using that by (auto split: outcome.splits)
  qed
  have none: "filter (\<lambda>s. ws_EndpointID s = wd_EndpointID r \<and> ws_Active s) (wq_secrets (w_db w)) = []"
    using u by (auto simp: unsignable_def list_ex_iff filter_empty_conv)
  have p1: "call E (\<lambda>c. Webhook_GetEndpoint c (del_MerchantID d) (del_EndpointID d)) w = (Ok (endpointFromRow p), w\<lparr>w_tick := Suc (w_tick w)\<rparr>)"
    using p(1) live d
    by (simp add: call_def Webhook_GetEndpoint_def GetWebhookEndpoint_def or_missing_def seq_def query_def ambient_at_def
        in_endpoints_def select_def)
  let ?w1 = "w\<lparr>w_tick := Suc (w_tick w)\<rparr>" and ?w2 = "w\<lparr>w_tick := Suc (Suc (w_tick w))\<rparr>"
  have p2: "call E (\<lambda>c. Webhook_GetEvent c (del_EventID d)) ?w1 = (Ok (eventFromRow e), ?w2)"
    using e(1) live d
    by (simp add: call_def Webhook_GetEvent_def GetEvent_def or_missing_def seq_def query_def ambient_at_def in_events_def select_def)
  have p3: "post_event E L W d (endpointFromRow p) (eventFromRow e) ?w2 = (Err ErrSecretNotFound, w\<lparr>w_tick := Suc (Suc (Suc (w_tick w)))\<rparr>)"
    using body none live p(3)
    by (simp add: post_event_def Worker_activeSecrets_def call_def Webhook_ActiveSecrets_def ActiveWebhookSecrets_def seq_def query_def
        ambient_at_def in_secrets_def select_def order_desc_def endpointFromRow_def)
  have "ep_Status (endpointFromRow p) \<noteq> EndpointDisabled" using st by (simp add: endpointFromRow_def)
  then show ?thesis using p1 p2 p3 by (simp add: Worker_attempt_def seq_def)
qed

lemma unsigned_batch:
  assumes "\<forall>r\<in>set rs. unsignable L (w_db w) r" and live: "\<forall>k. \<not> env_cancelled E k"
  shows "w_db (snd (attempt_each E L W (map deliveryFromRow rs) w)) = w_db w"
  using assms(1)
proof (induction rs arbitrary: w)
  case (Cons r rs)
  obtain w1 where w1: "Worker_attempt E L W (deliveryFromRow r) w = (Err ErrSecretNotFound, w1)" "w_db w1 = w_db w"
    using unsigned_attempt [OF _ _ _ _ live, of L w r "deliveryFromRow r" W] Cons.prems by (auto simp: deliveryFromRow_def)
  have "attempt_each E L W (map deliveryFromRow (r # rs)) w = attempt_each E L W (map deliveryFromRow rs) w1"
    using w1(1) by (simp add: seq_def attempt_def)
  then show ?case using Cons.IH [of w1] Cons.prems w1(2) by simp
qed simp

text \<open>The same delivery, as open as before and no attempt further.\<close>

definition stalled :: "WebhookDelivery \<Rightarrow> WebhookDelivery \<Rightarrow> bool" where
  "stalled r r' \<longleftrightarrow> same_row r r' \<and> wd_Attempt r' = wd_Attempt r \<and> (final (wd_State r') \<longleftrightarrow> final (wd_State r))"

definition stalled_db :: "webhook_db \<Rightarrow> webhook_db \<Rightarrow> bool" where
  "stalled_db db db' \<longleftrightarrow> list_all2 stalled (wq_deliveries db) (wq_deliveries db') \<and> wq_events db' = wq_events db
     \<and> wq_endpoints db' = wq_endpoints db \<and> wq_secrets db' = wq_secrets db \<and> wq_attempts db' = wq_attempts db"

lemma stalled_refl: "stalled r r"
  by (simp add: stalled_def same_row_def)

lemma stalled_db_trans: "\<lbrakk>stalled_db a b; stalled_db b c\<rbrakk> \<Longrightarrow> stalled_db a c"
  unfolding stalled_db_def
  by (auto intro: list_all2_trans [of stalled stalled stalled] simp: stalled_def same_row_def)

lemma stalled_map:
  "(\<And>r. r \<in> set (wq_deliveries db) \<Longrightarrow> stalled r (f r)) \<Longrightarrow> stalled_db db (db\<lparr>wq_deliveries := map f (wq_deliveries db)\<rparr>)"
  by (auto simp: stalled_db_def list_all2_conv_all_nth)

lemma unsigned_stalled: "\<lbrakk>stalled_db db db'; stalled r r'; unsignable L db r\<rbrakk> \<Longrightarrow> unsignable L db' r'"
  by (simp add: stalled_db_def stalled_def same_row_def pair_of_def unsignable_def)

lemma ReclaimOnce_stalls: "\<forall>k. \<not> env_cancelled E k \<Longrightarrow> stalled_db (w_db w) (w_db (snd (ReclaimOnce E w)))"
  by (auto simp: ReclaimOnce_def Webhook_ReclaimExpiredLeases_def Reclaim_ExpiredLeases_def query_def ambient_at_def seq_def
      clock_now_def call_def in_deliveries_def update_where_def stalled_def same_row_def pair_of_def intro!: stalled_map)

lemma DeliverOnce_stalls:
  assumes "tables_ok (w_db w)" and "\<forall>r\<in>set (wq_deliveries (w_db w)). \<not> final (wd_State r) \<longrightarrow> unsignable L (w_db w) r"
    and live: "\<forall>k. \<not> env_cancelled E k" and sane: "sane_worker L W"
  shows "stalled_db (w_db w) (w_db (snd (DeliverOnce E L W w)))"
proof -
  let ?S = "set (due_ids (env_now E (Suc (w_tick w))) (wk_batch W) (wq_deliveries (w_db w)))"
  obtain until w1 where w1: "w_db w1 = claim_rows ?S until (w_db w)"
    and run: "snd (DeliverOnce E L W w) = snd (attempt_each E L W (map deliveryFromRow (filter (\<lambda>r. wd_ID r \<in> ?S) (wq_deliveries (w_db w1)))) w1)"
    using DeliverOnce_run [OF live sane, of w] by blast
  have ids: "distinct (map wd_ID (wq_deliveries (w_db w)))" using assms(1) by (simp add: tables_ok_def)
  have pending: "wd_State r = DeliveryPending" if "r \<in> set (wq_deliveries (w_db w))" "wd_ID r \<in> ?S" for r
    using due_ids_pending [OF ids that] .
  have st: "stalled_db (w_db w) (w_db w1)"
    unfolding w1 claim_rows_def
    by (rule stalled_map) (auto simp: stalled_def same_row_def leased_def pair_of_def pending)
  have "\<forall>r\<in>set (filter (\<lambda>r. wd_ID r \<in> ?S) (wq_deliveries (w_db w1))). unsignable L (w_db w1) r"
  proof
    fix r'
    assume r': "r' \<in> set (filter (\<lambda>r. wd_ID r \<in> ?S) (wq_deliveries (w_db w1)))"
    then obtain r where r: "r \<in> set (wq_deliveries (w_db w))" "stalled r r'"
      using list_all2_left [of stalled "wq_deliveries (w_db w)" "wq_deliveries (w_db w1)" r'] st by (auto simp: stalled_db_def)
    then have "wd_State r = DeliveryPending" using r' pending [of r] by (simp add: stalled_def same_row_def)
    then show "unsignable L (w_db w1) r'" using unsigned_stalled [OF st r(2)] assms(2) r(1) by simp
  qed
  from unsigned_batch [OF this live] show ?thesis using st unfolding run by simp
qed



section \<open>A worker that outlives its lease\<close>

definition at_time :: "int \<Rightarrow> ambient" where
  "at_time now = \<lparr>cancelled = False, wall_now = now\<rparr>"

definition answered :: "int \<Rightarrow> err option \<Rightarrow> Response" where
  "answered status e = \<lparr>resp_StatusCode = status, resp_Duration = 5000000, resp_Body = [], resp_Err = e\<rparr>"

text \<open>
  A delivery that succeeded is queued again. A first worker claims a delivery; its lease runs
  out and the delivery is reclaimed; a second worker claims it and records its success; then the
  attempt of the first worker fails and is rescheduled: the delivery is pending again, with its
  success forgotten, because completing and rescheduling are not fenced by the lease.
\<close>

theorem late_worker_requeues_success:
  "let run =
     seq (Webhook_ClaimDue (at_time 10) 50 70) (\<lambda>first.
     seq (Webhook_ReclaimExpiredLeases (at_time 80) 80) (\<lambda>_.
     seq (Webhook_ClaimDue (at_time 80) 50 140) (\<lambda>second.
     seq (Webhook_CompleteDelivery (\<lambda>e. ''error'') (at_time 90) (del_ID (hd second)) DeliverySucceeded (answered 200 None)) (\<lambda>_.
     Webhook_RescheduleDelivery (\<lambda>e. ''error'') (at_time 100) (del_ID (hd first)) 10 (answered 0 (Some ErrContext))))))
   in case run (sample_queue [sample_secret] (sample_row DeliveryPending None)) of
        (Ok (), db) \<Rightarrow> map (\<lambda>r. (wd_State r, wd_NextAttemptAt r, wd_LastStatus r)) (wq_deliveries db) = [(DeliveryPending, 110, None)]
      | _ \<Rightarrow> False"
  by code_simp

end
