(* ===== verification/Webhook_Secrets.thy ===== *)
theory Webhook_Secrets
  imports Webhook_Store Webhook_Verify
begin

text \<open>
  Endpoint secrets, \<^verbatim>\<open>internal/webhooks/signer.go\<close>: their generation, and their sealing with AES-GCM before they are
  stored. The cryptography of the standard library is a parameter (\<open>aead_library\<close>): sealing and opening
  under a key and a nonce, the hash, and \<^verbatim>\<open>io.ReadFull\<close> of the random source at a moment.
\<close>

record aead_library =
  ae_seal :: "string \<Rightarrow> string \<Rightarrow> string \<Rightarrow> string"
  ae_open :: "string \<Rightarrow> string \<Rightarrow> string \<Rightarrow> string option"
  ae_sha256 :: "string \<Rightarrow> string"
  ae_rand :: "nat \<Rightarrow> nat \<Rightarrow> string option"

definition secretBytes :: nat where "secretBytes = 32"

text \<open>The nonce size of GCM.\<close>

definition NonceSize :: nat where "NonceSize = 12"

definition PrefixSecret :: string where "PrefixSecret = ''whsec''"

text \<open>A cipher is its key.\<close>

definition NewCipher :: "string \<Rightarrow> string outcome" where
  "NewCipher hexKey =
     (case hex_decode hexKey of
        None \<Rightarrow> Err (ErrOther ''encryption key must be 32 bytes, hex encoded'')
      | Some key \<Rightarrow> if length key \<noteq> 32 then Err (ErrOther ''encryption key must be 32 bytes, hex encoded'') else Ok key)"

definition read_full :: "aead_library \<Rightarrow> string \<Rightarrow> nat \<Rightarrow> ('s world, string) opr" where
  "read_full A what n w =
     (case ae_rand A (w_tick w) n of
        None \<Rightarrow> (Err (ErrOther what), w\<lparr>w_tick := Suc (w_tick w)\<rparr>)
      | Some bs \<Rightarrow> (Ok bs, w\<lparr>w_tick := Suc (w_tick w)\<rparr>))"

definition Encrypt :: "aead_library \<Rightarrow> string \<Rightarrow> string \<Rightarrow> ('s world, string) opr" where
  "Encrypt A key plaintext =
     seq (read_full A ''generating nonce'' NonceSize) (\<lambda>nonce. ret (Ok (nonce @ ae_seal A key nonce plaintext)))"

definition Decrypt :: "aead_library \<Rightarrow> string \<Rightarrow> string \<Rightarrow> string outcome" where
  "Decrypt A key sealed =
     (if length sealed < NonceSize then Err (ErrOther ''could not decrypt an endpoint secret'')
      else case ae_open A key (take NonceSize sealed) (drop NonceSize sealed) of
          None \<Rightarrow> Err (ErrOther ''could not decrypt an endpoint secret'')
        | Some plaintext \<Rightarrow> Ok plaintext)"

definition GenerateSecret ::
  "env \<Rightarrow> aead_library \<Rightarrow> string \<Rightarrow> string \<Rightarrow> ('s world, string \<times> Secret \<times> string \<times> string) opr" where
  "GenerateSecret E A endpointID key =
     seq (read_full A ''generating secret'' secretBytes) (\<lambda>raw.
     let plaintext = ''whsec_'' @ hex_encode raw; hash = ae_sha256 A plaintext
     in seq (Encrypt A key plaintext) (\<lambda>encrypted.
        seq (new_id E PrefixSecret) (\<lambda>i.
        seq (clock_now E) (\<lambda>now.
        ret (Ok (plaintext, \<lparr>sec_ID = i, sec_EndpointID = endpointID, sec_Plaintext = plaintext, sec_Active = True,
          sec_CreatedAt = now, sec_RetiredAt = None\<rparr>, hash, encrypted))))))"

section \<open>Round trip\<close>

text \<open>What is sealed opens again under the same key and nonce, and the random source fills its buffer.\<close>

definition aead_laws :: "aead_library \<Rightarrow> bool" where
  "aead_laws A \<longleftrightarrow> (\<forall>key nonce p. ae_open A key nonce (ae_seal A key nonce p) = Some p)
     \<and> (\<forall>k n bs. ae_rand A k n = Some bs \<longrightarrow> length bs = n)"

lemma read_full_Ok: "aead_laws A \<Longrightarrow> read_full A what n w = (Ok bs, w') \<Longrightarrow> length bs = n"
  by (auto simp: read_full_def aead_laws_def split: option.splits)

lemma Decrypt_Encrypt:
  assumes "aead_laws A" and "Encrypt A key p w = (Ok sealed, w')"
  shows "Decrypt A key sealed = Ok p"
proof -
  obtain nonce where n: "read_full A ''generating nonce'' NonceSize w = (Ok nonce, w')" "sealed = nonce @ ae_seal A key nonce p"
    using assms(2) by (auto simp: Encrypt_def seq_eq_Ok)
  from read_full_Ok [OF assms(1) n(1)] n(2) assms(1) show ?thesis by (simp add: Decrypt_def aead_laws_def)
qed

lemma GenerateSecret_Ok:
  assumes "aead_laws A" and "GenerateSecret E A endpointID key w = (Ok (plaintext, s, hash, encrypted), w')"
  shows "Decrypt A key encrypted = Ok plaintext" and "sec_Plaintext s = plaintext" and "sec_EndpointID s = endpointID"
    and "sec_Active s" and "sec_RetiredAt s = None" and "\<exists>raw. plaintext = ''whsec_'' @ hex_encode raw \<and> length raw = secretBytes"
    and "hash = ae_sha256 A plaintext"
proof -
  obtain raw w1 w2 where g: "read_full A ''generating secret'' secretBytes w = (Ok raw, w1)" "plaintext = ''whsec_'' @ hex_encode raw"
    "Encrypt A key plaintext w1 = (Ok encrypted, w2)"
    using assms(2) by (auto simp: GenerateSecret_def seq_eq_Ok Let_def)
  show "Decrypt A key encrypted = Ok plaintext" by (rule Decrypt_Encrypt [OF assms(1) g(3)])
  show "\<exists>raw. plaintext = ''whsec_'' @ hex_encode raw \<and> length raw = secretBytes" using g(2) read_full_Ok [OF assms(1) g(1)] by blast
qed (use assms(2) in \<open>auto simp: GenerateSecret_def seq_eq_Ok Let_def\<close>)

text \<open>
  C37. A generated secret comes back out of the store. Once a generated secret is stored for its
  endpoint, under whose secrets the others open with the key, reading the active secrets of the endpoint with the
  cipher returns it with the very plaintext that was shown to the merchant, and what is stored is not that plaintext's
  clear text but a sealed box and a hash of it.
\<close>

theorem generated_secret_active:
  assumes "aead_laws A" and "GenerateSecret E A endpointID key w = (Ok (plaintext, s, hash, encrypted), w')"
    and "Webhook_CreateSecret c s hash encrypted db = (Ok (), db')" and "\<not> cancelled d"
    and "\<forall>r\<in>set (wq_secrets db). ws_EndpointID r = endpointID \<longrightarrow> ws_Active r \<longrightarrow> (\<exists>p. Decrypt A key (ws_SecretEnc r) = Ok p)"
  shows "\<exists>ss. Webhook_ActiveSecrets (Decrypt A key) d endpointID db' = (Ok ss, db') \<and> s \<in> set ss
    \<and> (\<exists>r\<in>set (wq_secrets db'). ws_ID r = sec_ID s \<and> ws_SecretEnc r = encrypted \<and> ws_SecretHash r = ae_sha256 A plaintext)"
proof -
  note g = GenerateSecret_Ok [OF assms(1,2)]
  define r where "r = \<lparr>ws_ID = sec_ID s, ws_EndpointID = endpointID, ws_SecretHash = hash, ws_SecretEnc = encrypted, ws_Active = True,
        ws_CreatedAt = sec_CreatedAt s, ws_RetiredAt = None\<rparr>"
  have db': "db' = db\<lparr>wq_secrets := wq_secrets db @ [r]\<rparr>"
    using assms(3) g(3) by (auto simp: Webhook_CreateSecret_def CreateWebhookSecret_def query_def in_secrets_def insert_by_id_def r_def split: if_splits)
  define rows where "rows = order_desc ws_CreatedAt (filter (\<lambda>x. ws_EndpointID x = endpointID \<and> ws_Active x) (wq_secrets db'))"
  have rows: "set rows = {x \<in> set (wq_secrets db'). ws_EndpointID x = endpointID \<and> ws_Active x}" by (auto simp: rows_def order_desc_def)
  have r: "r \<in> set rows" unfolding rows by (simp add: db' r_def)
  have opens: "\<forall>x\<in>set rows. \<exists>y. open_secret (Decrypt A key) x = Ok y"
  proof
    fix x
    assume x: "x \<in> set rows"
    show "\<exists>y. open_secret (Decrypt A key) x = Ok y"
    proof (cases "x = r")
      case True
      then show ?thesis using g(1) by (simp add: open_secret_def r_def)
    next
      case False
      then show ?thesis using x assms(5) by (auto simp: rows db' open_secret_def)
    qed
  qed
  have mine: "open_secret (Decrypt A key) r = Ok s"
    using g by (simp add: open_secret_def r_def)
  from bchoice [OF opens] obtain f where "\<forall>x\<in>set rows. open_secret (Decrypt A key) x = Ok (f x)" by blast
  then obtain ss where ss: "map_outcome_list (open_secret (Decrypt A key)) rows = Ok ss"
    using map_outcome_list_total [of rows "open_secret (Decrypt A key)" f] by blast
  have "s \<in> set ss" using ss r mine by (auto simp: map_outcome_list_Ok list_all2_conv_all_nth in_set_conv_nth)
  moreover have "Webhook_ActiveSecrets (Decrypt A key) d endpointID db' = (Ok ss, db')"
    using assms(4) r ss
    by (auto simp: Webhook_ActiveSecrets_def ActiveWebhookSecrets_def query_def in_secrets_def select_def seq_def rows_def [symmetric])
  ultimately show ?thesis using g(7) by (auto simp: db' r_def)
qed

text \<open>A library for the example: sealing puts a mark before the text.\<close>

definition sample_aead :: aead_library where
  "sample_aead = \<lparr>ae_seal = (\<lambda>_ _ p. CHR ''#'' # p), ae_open = (\<lambda>_ _ s. if s \<noteq> [] \<and> hd s = CHR ''#'' then Some (tl s) else None),
     ae_sha256 = (\<lambda>p. take 4 p), ae_rand = (\<lambda>_ n. Some (replicate n CHR ''r''))\<rparr>"

definition secrets_env :: env where
  "secrets_env = \<lparr>env_now = (\<lambda>k. 1000000), env_rand = (\<lambda>k. Some (replicate 10 0)), env_cancelled = (\<lambda>k. False)\<rparr>"

definition secrets_db :: webhook_db where
  "secrets_db = \<lparr>wq_events = [], wq_endpoints = [\<lparr>we_ID = ''e'', we_MerchantID = ''m'', we_Url = [], we_EnabledEvents = [],
     we_Status = ''enabled'', we_ConsecutiveFailures = 0, we_Description = [], we_CreatedAt = 0, we_DisabledAt = None\<rparr>], wq_secrets = [],
     wq_deliveries = [], wq_attempts = [], wq_attempt_seq = 1\<rparr>"

definition secrets_world :: "unit world" where
  "secrets_world = \<lparr>w_db = (), w_gen = sample_generator, w_tick = 0\<rparr>"

definition secrets_moment :: ambient where
  "secrets_moment = \<lparr>cancelled = False, wall_now = 1000000\<rparr>"

theorem generated_secret_active_witness:
  "\<exists>plaintext s hash encrypted w' db' ss. GenerateSecret secrets_env sample_aead ''e'' ''key'' secrets_world = (Ok (plaintext, s, hash, encrypted), w')
     \<and> Webhook_CreateSecret secrets_moment s hash encrypted secrets_db = (Ok (), db')
     \<and> Webhook_ActiveSecrets (Decrypt sample_aead ''key'') secrets_moment ''e'' db' = (Ok ss, db') \<and> s \<in> set ss"
proof -
  have laws: "aead_laws sample_aead" by (auto simp: aead_laws_def sample_aead_def)
  have run: "case GenerateSecret secrets_env sample_aead ''e'' ''key'' secrets_world of
      (Ok (plaintext, s, hash, encrypted), _) \<Rightarrow> fst (Webhook_CreateSecret secrets_moment s hash encrypted secrets_db) = Ok () | _ \<Rightarrow> False"
    by code_simp
  obtain plaintext s hash encrypted w' where g: "GenerateSecret secrets_env sample_aead ''e'' ''key'' secrets_world = (Ok (plaintext, s, hash, encrypted), w')"
    and stored: "fst (Webhook_CreateSecret secrets_moment s hash encrypted secrets_db) = Ok ()"
    using run by (auto split: prod.splits outcome.splits)
  obtain db' where c: "Webhook_CreateSecret secrets_moment s hash encrypted secrets_db = (Ok (), db')"
    using stored by (cases "Webhook_CreateSecret secrets_moment s hash encrypted secrets_db") auto
  have "\<not> cancelled secrets_moment" "\<forall>r\<in>set (wq_secrets secrets_db). ws_EndpointID r = ''e'' \<longrightarrow> ws_Active r \<longrightarrow> (\<exists>p. Decrypt sample_aead ''key'' (ws_SecretEnc r) = Ok p)"
    by (simp_all add: secrets_moment_def secrets_db_def)
  from generated_secret_active [OF laws g c this] g c show ?thesis by blast
qed

end
