(* ===== verification/Webhook_Client.thy ===== *)
theory Webhook_Client
  imports Ident
begin

text \<open>
  The dialer of the delivery client, \<^verbatim>\<open>internal/webhooks/client.go\<close>: the networks an endpoint must not
  resolve to, the check of every address the client connects to, and the check of a URL when an
  endpoint is registered. An address is what Go has, a slice of 4 or 16 bytes, empty for \<^verbatim>\<open>nil\<close>.
  Name resolution, the parsing of addresses and URLs and the connection itself belong to \<^verbatim>\<open>net\<close> and
  \<^verbatim>\<open>net/url\<close> and are parameters (\<open>net_library\<close>).
\<close>

unbundle bit_operations_syntax

section \<open>Addresses\<close>

type_synonym ip = "8 word list"

definition v4InV6Prefix :: ip where
  "v4InV6Prefix = [0, 0, 0, 0, 0, 0, 0, 0, 0, 0, 255, 255]"

definition To4 :: "ip \<Rightarrow> ip option" where
  "To4 a =
     (if length a = 4 then Some a
      else if length a = 16 \<and> take 12 a = v4InV6Prefix then Some (drop 12 a)
      else None)"

definition To16 :: "ip \<Rightarrow> ip option" where
  "To16 a =
     (if length a = 4 then Some (v4InV6Prefix @ a) else if length a = 16 then Some a else None)"

definition Equal :: "ip \<Rightarrow> ip \<Rightarrow> bool" where
  "Equal a b =
     (if length a = length b then a = b
      else if length a = 4 \<and> length b = 16 then take 12 b = v4InV6Prefix \<and> a = drop 12 b
      else if length a = 16 \<and> length b = 4 then take 12 a = v4InV6Prefix \<and> drop 12 a = b
      else False)"

definition IPv4zero :: ip where "IPv4zero = v4InV6Prefix @ [0, 0, 0, 0]"

definition IPv6unspecified :: ip where "IPv6unspecified = replicate 16 0"

definition IPv6loopback :: ip where "IPv6loopback = replicate 15 0 @ [1]"

definition IsUnspecified :: "ip \<Rightarrow> bool" where
  "IsUnspecified a \<longleftrightarrow> Equal a IPv4zero \<or> Equal a IPv6unspecified"

definition IsLoopback :: "ip \<Rightarrow> bool" where
  "IsLoopback a = (case To4 a of Some v4 \<Rightarrow> v4 ! 0 = 127 | None \<Rightarrow> Equal a IPv6loopback)"

definition IsInterfaceLocalMulticast :: "ip \<Rightarrow> bool" where
  "IsInterfaceLocalMulticast a \<longleftrightarrow> length a = 16 \<and> a ! 0 = 0xFF \<and> a ! 1 AND 0x0F = 0x01"

definition IsLinkLocalMulticast :: "ip \<Rightarrow> bool" where
  "IsLinkLocalMulticast a =
     (case To4 a of
        Some v4 \<Rightarrow> v4 ! 0 = 224 \<and> v4 ! 1 = 0 \<and> v4 ! 2 = 0
      | None \<Rightarrow> length a = 16 \<and> a ! 0 = 0xFF \<and> a ! 1 AND 0x0F = 0x02)"

definition IsLinkLocalUnicast :: "ip \<Rightarrow> bool" where
  "IsLinkLocalUnicast a =
     (case To4 a of
        Some v4 \<Rightarrow> v4 ! 0 = 169 \<and> v4 ! 1 = 254
      | None \<Rightarrow> length a = 16 \<and> a ! 0 = 0xFE \<and> a ! 1 AND 0xC0 = 0x80)"

section \<open>Networks\<close>

text \<open>The mask of a prefix of \<open>ones\<close> bits over \<open>n\<close> bytes, and a network as \<^verbatim>\<open>net.ParseCIDR\<close> gives it.\<close>

fun CIDRMask :: "nat \<Rightarrow> nat \<Rightarrow> ip" where
  "CIDRMask ones 0 = []"
| "CIDRMask ones (Suc n) = (if ones \<ge> 8 then 255 else NOT (mask (8 - ones))) # CIDRMask (ones - 8) n"

type_synonym IPNet = "ip \<times> ip"

definition ParseCIDR :: "ip \<Rightarrow> nat \<Rightarrow> IPNet" where
  "ParseCIDR address ones =
     (let m = CIDRMask ones (length address) in (map2 (\<lambda>x y. x AND y) address m, m))"

definition IPNet_Contains :: "IPNet \<Rightarrow> ip \<Rightarrow> bool" where
  "IPNet_Contains network a0 =
     (case network of (nn, m) \<Rightarrow>
        let a = (case To4 a0 of Some x \<Rightarrow> x | None \<Rightarrow> a0)
        in length a = length nn \<and> list_all (\<lambda>i. nn ! i AND m ! i = a ! i AND m ! i) [0..<length a])"

definition blockedNetworks :: "IPNet list" where
  "blockedNetworks =
     [ParseCIDR [0, 0, 0, 0] 8,
      ParseCIDR [10, 0, 0, 0] 8,
      ParseCIDR [100, 64, 0, 0] 10,
      ParseCIDR [127, 0, 0, 0] 8,
      ParseCIDR [169, 254, 0, 0] 16,
      ParseCIDR [172, 16, 0, 0] 12,
      ParseCIDR [192, 0, 0, 0] 24,
      ParseCIDR [192, 0, 2, 0] 24,
      ParseCIDR [192, 168, 0, 0] 16,
      ParseCIDR [198, 18, 0, 0] 15,
      ParseCIDR [198, 51, 100, 0] 24,
      ParseCIDR [203, 0, 113, 0] 24,
      ParseCIDR [224, 0, 0, 0] 4,
      ParseCIDR [240, 0, 0, 0] 4,
      ParseCIDR [255, 255, 255, 255] 32,
      ParseCIDR (replicate 15 0 @ [1]) 128,
      ParseCIDR (0xFC # replicate 15 0) 7,
      ParseCIDR ([0xFE, 0x80] @ replicate 14 0) 10,
      ParseCIDR (0xFF # replicate 15 0) 8,
      ParseCIDR (replicate 16 0) 128,
      ParseCIDR ([0x00, 0x64, 0xFF, 0x9B] @ replicate 12 0) 96]"

definition IsBlockedIP :: "ip \<Rightarrow> bool" where
  "IsBlockedIP a0 =
     (if a0 = [] then True
      else if IsLoopback a0 \<or> IsLinkLocalUnicast a0 \<or> IsLinkLocalMulticast a0
        \<or> IsInterfaceLocalMulticast a0 \<or> IsUnspecified a0 then True
      else let a = (case To4 a0 of Some v4 \<Rightarrow> v4 | None \<Rightarrow> a0)
           in list_ex (\<lambda>network. IPNet_Contains network a) blockedNetworks)"

section \<open>Host and port\<close>

definition LastIndexByte :: "string \<Rightarrow> char \<Rightarrow> nat option" where
  "LastIndexByte s c = (if c \<in> set s then Some (length (dropWhile (\<lambda>x. x \<noteq> c) (rev s)) - 1) else None)"

definition SplitHostPort :: "string \<Rightarrow> (string \<times> string) outcome" where
  "SplitHostPort hostport =
     (case LastIndexByte hostport CHR '':'' of
        None \<Rightarrow> Err (ErrOther ''missing port in address'')
      | Some i \<Rightarrow>
          if hd hostport = CHR ''['' then
            (if CHR '']'' \<notin> set hostport then Err (ErrOther ''missing bracket in address'')
             else let stop = length (takeWhile (\<lambda>c. c \<noteq> CHR '']'') hostport)
                  in if stop + 1 \<noteq> i then Err (ErrOther ''missing port in address'')
                     else if CHR ''['' \<in> set (drop 1 hostport) then Err (ErrOther ''unexpected bracket in address'')
                     else if CHR '']'' \<in> set (drop (stop + 1) hostport) then Err (ErrOther ''unexpected bracket in address'')
                     else Ok (take (stop - 1) (drop 1 hostport), drop (i + 1) hostport))
          else
            (let host = take i hostport
             in if CHR '':'' \<in> set host then Err (ErrOther ''too many colons in address'')
                else if CHR ''['' \<in> set hostport then Err (ErrOther ''unexpected bracket in address'')
                else if CHR '']'' \<in> set hostport then Err (ErrOther ''unexpected bracket in address'')
                else Ok (host, drop (i + 1) hostport)))"

definition JoinHostPort :: "string \<Rightarrow> string \<Rightarrow> string" where
  "JoinHostPort host port =
     (if CHR '':'' \<in> set host then ''['' @ host @ '']:'' @ port else host @ '':'' @ port)"

section \<open>The client\<close>

text \<open>
  What the client uses of \<^verbatim>\<open>net\<close> and \<^verbatim>\<open>net/url\<close>: parsing and printing an address, resolving a name,
  connecting, and the parts of a URL it looks at.
\<close>

record Conn =
  conn_Remote :: ip

record URL =
  url_Scheme :: string
  url_Host :: string
  url_User :: "string option"
  url_Hostname :: string

record net_library =
  net_ParseIP :: "string \<Rightarrow> ip"
  net_String :: "ip \<Rightarrow> string"
  net_LookupIPAddr :: "string \<Rightarrow> ip list outcome"
  net_DialContext :: "int \<Rightarrow> string \<Rightarrow> string \<Rightarrow> Conn outcome"
  net_URLParse :: "string \<Rightarrow> URL outcome"

record ClientOptions =
  opt_AllowInsecure :: bool
  opt_AllowPrivateIPs :: bool
  opt_RequestTimeout :: int
  opt_ConnectTimeout :: int
  opt_MaxResponseBytes :: int
  opt_Resolver :: "(string \<Rightarrow> ip list outcome) option"

definition NewClient :: "net_library \<Rightarrow> ClientOptions \<Rightarrow> ClientOptions" where
  "NewClient N opts =
     (let o1 = (if opt_RequestTimeout opts \<le> 0 then opts\<lparr>opt_RequestTimeout := 5000000000\<rparr> else opts);
          o2 = (if opt_ConnectTimeout o1 \<le> 0 then o1\<lparr>opt_ConnectTimeout := 2000000000\<rparr> else o1);
          o3 = (if opt_MaxResponseBytes o2 \<le> 0 then o2\<lparr>opt_MaxResponseBytes := 65536\<rparr> else o2)
      in if opt_Resolver o3 = None then o3\<lparr>opt_Resolver := Some (net_LookupIPAddr N)\<rparr> else o3)"

definition dialer :: "net_library \<Rightarrow> ClientOptions \<Rightarrow> string \<Rightarrow> string \<Rightarrow> Conn outcome" where
  "dialer N opts = net_DialContext N (opt_ConnectTimeout opts)"

fun dial_each :: "net_library \<Rightarrow> ClientOptions \<Rightarrow> string \<Rightarrow> string \<Rightarrow> err option \<Rightarrow> ip list \<Rightarrow> Conn outcome" where
  "dial_each N opts network port lastErr [] =
     (case lastErr of None \<Rightarrow> Err ErrPrivateAddress | Some e \<Rightarrow> Err e)"
| "dial_each N opts network port lastErr (a # addrs) =
     (if \<not> opt_AllowPrivateIPs opts \<and> IsBlockedIP a
      then dial_each N opts network port (Some ErrPrivateAddress) addrs
      else case dialer N opts network (JoinHostPort (net_String N a) port) of
          Err e \<Rightarrow> dial_each N opts network port (Some e) addrs
        | Ok conn \<Rightarrow> Ok conn
        | Panic \<Rightarrow> Panic)"

definition dial :: "net_library \<Rightarrow> ClientOptions \<Rightarrow> string \<Rightarrow> string \<Rightarrow> Conn outcome" where
  "dial N opts network address =
     (case SplitHostPort address of
        Err _ \<Rightarrow> Err ErrInvalidURL
      | Panic \<Rightarrow> Panic
      | Ok (host, port) \<Rightarrow>
          let literal = net_ParseIP N host
          in if literal \<noteq> [] then
               (if \<not> opt_AllowPrivateIPs opts \<and> IsBlockedIP literal then Err ErrPrivateAddress
                else dialer N opts network address)
             else case opt_Resolver opts of
                 None \<Rightarrow> Panic
               | Some resolve \<Rightarrow>
                   andThen (resolve host) (\<lambda>resolved.
                   if resolved = [] then Err ErrInvalidURL
                   else dial_each N opts network port None resolved))"

definition ValidateURL :: "net_library \<Rightarrow> ClientOptions \<Rightarrow> string \<Rightarrow> unit outcome" where
  "ValidateURL N opts raw =
     (case net_URLParse N raw of
        Err _ \<Rightarrow> Err ErrInvalidURL
      | Panic \<Rightarrow> Panic
      | Ok parsed \<Rightarrow>
          if url_Scheme parsed \<noteq> ''https'' \<and> url_Scheme parsed \<noteq> ''http'' then Err ErrInvalidURL
          else if url_Scheme parsed = ''http'' \<and> \<not> opt_AllowInsecure opts then Err ErrInsecureScheme
          else if url_Host parsed = [] then Err ErrInvalidURL
          else if url_User parsed \<noteq> None then Err ErrInvalidURL
          else let literal = net_ParseIP N (url_Hostname parsed)
               in if literal \<noteq> [] \<and> \<not> opt_AllowPrivateIPs opts \<and> IsBlockedIP literal then Err ErrPrivateAddress
                  else Ok ())"

section \<open>Which IPv4 addresses are blocked\<close>

text \<open>The addresses of the public internet, by their four numbers.\<close>

definition public_v4 :: "nat \<Rightarrow> nat \<Rightarrow> nat \<Rightarrow> nat \<Rightarrow> bool" where
  "public_v4 a b c d \<longleftrightarrow>
     a \<noteq> 0 \<and> a \<noteq> 10 \<and> \<not> (a = 100 \<and> 64 \<le> b \<and> b < 128) \<and> a \<noteq> 127 \<and> \<not> (a = 169 \<and> b = 254)
     \<and> \<not> (a = 172 \<and> 16 \<le> b \<and> b < 32) \<and> \<not> (a = 192 \<and> b = 0 \<and> (c = 0 \<or> c = 2)) \<and> \<not> (a = 192 \<and> b = 168)
     \<and> \<not> (a = 198 \<and> (b = 18 \<or> b = 19)) \<and> \<not> (a = 198 \<and> b = 51 \<and> c = 100) \<and> \<not> (a = 203 \<and> b = 0 \<and> c = 113)
     \<and> a < 224"

lemma all_bytes:
  assumes "list_all P [0..255]"
  shows "P (uint (b :: 8 word))"
proof -
  have "uint b \<in> set [0..255]" using uint_lt2p [of b] by simp
  then show ?thesis using assms by (simp only: list_all_iff)
qed

lemma byte_eq_uint: "(b :: 8 word) = c \<longleftrightarrow> uint b = uint c"
  by (simp add: word_uint_eq_iff)

lemma byte_masks:
  fixes b :: "8 word"
  shows "b AND 192 = 64 \<longleftrightarrow> 64 \<le> unat b \<and> unat b < 128"
    and "b AND 240 = 16 \<longleftrightarrow> 16 \<le> unat b \<and> unat b < 32" and "b AND 254 = 18 \<longleftrightarrow> unat b = 18 \<or> unat b = 19"
    and "b AND 240 = 224 \<longleftrightarrow> \<not> unat b < 224 \<and> unat b < 240" and "b AND 240 = 240 \<longleftrightarrow> \<not> unat b < 224 \<and> \<not> unat b < 240"
  by (simp_all only: byte_eq_uint uint_and unat_eq_nat_uint) (rule all_bytes, code_simp)+

lemma byte_full_mask: "(b :: 8 word) AND 255 = b"
  by (simp only: byte_eq_uint uint_and) (rule all_bytes, code_simp)

lemma v4_masks:
  "CIDRMask 8 4 = [255, 0, 0, 0]" "CIDRMask 10 4 = [255, 192, 0, 0]" "CIDRMask 16 4 = [255, 255, 0, 0]"
  "CIDRMask 12 4 = [255, 240, 0, 0]" "CIDRMask 24 4 = [255, 255, 255, 0]" "CIDRMask 15 4 = [255, 254, 0, 0]"
  "CIDRMask 4 4 = [240, 0, 0, 0]" "CIDRMask 32 4 = [255, 255, 255, 255]"
  by code_simp+

lemma Contains_v4:
  "IPNet_Contains (ParseCIDR [w, x, y, z] k) [a, b, c, d] \<longleftrightarrow>
     (let m = CIDRMask k 4 in (w AND m ! 0) AND m ! 0 = a AND m ! 0 \<and> (x AND m ! 1) AND m ! 1 = b AND m ! 1
       \<and> (y AND m ! 2) AND m ! 2 = c AND m ! 2 \<and> (z AND m ! 3) AND m ! 3 = d AND m ! 3)"
  by (simp add: IPNet_Contains_def ParseCIDR_def To4_def Let_def numeral_eq_Suc upt_rec)

lemma length_CIDRMask [simp]: "length (CIDRMask k n) = n"
  by (induction n arbitrary: k) auto

lemma not_in_v6:
  "length n = 16 \<Longrightarrow> \<not> IPNet_Contains (ParseCIDR n k) [a, b, c, d]"
  by (simp add: IPNet_Contains_def ParseCIDR_def To4_def Let_def)

lemma byte_eq_unat: "(a :: 8 word) = c \<longleftrightarrow> unat a = unat c"
  by (simp add: word_unat_eq_iff)

lemma unat_byte_bound: "unat (a :: 8 word) < 256"
  using unsigned_less [of a, where 'a = nat] by simp

lemma unspecified_bytes: "IPv6unspecified = [0, 0, 0, 0, 0, 0, 0, 0, 0, 0, 0, 0, 0, 0, 0, 0]"
  by code_simp

lemma not_unspecified_v6: "\<not> Equal [a, b, c, d] IPv6unspecified"
  by (simp add: Equal_def unspecified_bytes v4InV6Prefix_def)

lemmas v4_tests = IsLoopback_def IsLinkLocalUnicast_def IsLinkLocalMulticast_def IsInterfaceLocalMulticast_def
  IsUnspecified_def not_unspecified_v6

lemma blocked_v4:
  "IsBlockedIP [a, b, c, d] \<longleftrightarrow> \<not> public_v4 (unat a) (unat b) (unat c) (unat d)"
proof -
  have zero: "Equal [a, b, c, d] IPv4zero \<longleftrightarrow> a = 0 \<and> b = 0 \<and> c = 0 \<and> d = 0"
    by (auto simp: Equal_def IPv4zero_def v4InV6Prefix_def)
  have "IsBlockedIP [a, b, c, d] \<longleftrightarrow> a = 127 \<or> (a = 169 \<and> b = 254) \<or> (a = 224 \<and> b = 0 \<and> c = 0) \<or> (a = 0 \<and> b = 0 \<and> c = 0 \<and> d = 0)
      \<or> list_ex (\<lambda>network. IPNet_Contains network [a, b, c, d]) blockedNetworks"
    unfolding IsBlockedIP_def v4_tests zero by (auto simp: To4_def not_unspecified_v6)
  also have "\<dots> \<longleftrightarrow> \<not> public_v4 (unat a) (unat b) (unat c) (unat d)"
  proof -
    have high: "unat a = 224 \<longrightarrow> \<not> unat a < 224" "unat a = 255 \<longrightarrow> \<not> unat a < 224" by simp_all
    show ?thesis
      by (simp add: blockedNetworks_def Contains_v4 not_in_v6 v4_masks byte_full_mask byte_masks del: not_less)
        (simp add: byte_eq_unat del: not_less, use high in \<open>simp only: public_v4_def, satx\<close>)
  qed
  finally show ?thesis .
qed

text \<open>An IPv4 address inside an IPv6 one is treated as the IPv4 address it is.\<close>

lemma blocked_mapped:
  assumes "length a = 4"
  shows "IsBlockedIP (v4InV6Prefix @ a) = IsBlockedIP a"
proof -
  have "length v4InV6Prefix = 12" "v4InV6Prefix ! 0 = 0" by (simp_all add: v4InV6Prefix_def)
  moreover from this assms have "To4 (v4InV6Prefix @ a) = Some a" "To4 a = Some a" by (simp_all add: To4_def)
  moreover from calculation assms have "(v4InV6Prefix @ a) ! 0 = 0" by (simp add: nth_append)
  moreover from calculation assms have "IsUnspecified (v4InV6Prefix @ a) = IsUnspecified a"
    by (auto simp: IsUnspecified_def Equal_def IPv4zero_def unspecified_bytes v4InV6Prefix_def)
  ultimately show ?thesis
    using assms by (auto simp: IsBlockedIP_def IsLoopback_def IsLinkLocalUnicast_def IsLinkLocalMulticast_def
        IsInterfaceLocalMulticast_def Let_def)
qed

lemma blocked_Equal:
  assumes "Equal a b"
  shows "IsBlockedIP a = IsBlockedIP b"
proof -
  consider "a = b" | "length a = 4" "take 12 b = v4InV6Prefix" "drop 12 b = a" | "length b = 4" "take 12 a = v4InV6Prefix" "drop 12 a = b"
    using assms unfolding Equal_def by (metis (full_types))
  then show ?thesis by cases (metis append_take_drop_id blocked_mapped)+
qed

section \<open>Splitting and joining host and port\<close>

lemma LastIndexByte_append: "c \<notin> set v \<Longrightarrow> LastIndexByte (u @ c # v) c = Some (length u)"
  by (simp add: LastIndexByte_def dropWhile_append)

lemma LastIndexByte_Some:
  assumes "LastIndexByte s c = Some i"
  obtains v where "s = take i s @ c # v" "c \<notin> set v" "drop (i + 1) s = v"
proof -
  have "c \<in> set s" using assms by (simp add: LastIndexByte_def split: if_splits)
  then obtain u v where "s = u @ c # v" "c \<notin> set v" by (meson split_list_last)
  moreover from this have "i = length u" using LastIndexByte_append [of c v u] assms by simp
  ultimately show ?thesis by (intro that [of v]) simp_all
qed

lemma SplitHostPort_port:
  assumes "SplitHostPort s = Ok (h, p)"
  shows "CHR '':'' \<notin> set p" and "CHR ''['' \<notin> set p" and "CHR '']'' \<notin> set p"
proof -
  obtain i where i: "LastIndexByte s CHR '':'' = Some i" using assms by (auto simp: SplitHostPort_def split: option.splits)
  from LastIndexByte_Some [OF this] obtain v where v: "CHR '':'' \<notin> set v" "drop (i + 1) s = v" by blast
  have "p = v" using assms v(2) by (auto simp: SplitHostPort_def i Let_def split: if_splits)
  moreover have "CHR ''['' \<notin> set (drop (i + 1) s) \<and> CHR '']'' \<notin> set (drop (i + 1) s)"
    using assms in_set_dropD [of _ i "drop 1 s"] in_set_dropD [of _ "i + 1" s]
      in_set_dropD [of _ 1 "drop i s"]
    by (auto simp: SplitHostPort_def i Let_def split: if_splits)
  ultimately show "CHR '':'' \<notin> set p" "CHR ''['' \<notin> set p" "CHR '']'' \<notin> set p" using v by simp_all
qed

lemma SplitHostPort_Join:
  assumes "CHR ''['' \<notin> set h" "CHR '']'' \<notin> set h" and "CHR '':'' \<notin> set p" "CHR ''['' \<notin> set p" "CHR '']'' \<notin> set p"
  shows "SplitHostPort (JoinHostPort h p) = Ok (h, p)"
proof (cases "CHR '':'' \<in> set h")
  case True
  let ?s = "CHR ''['' # h @ CHR '']'' # CHR '':'' # p"
  have "LastIndexByte ?s CHR '':'' = Some (length h + 2)"
    using LastIndexByte_append [of "CHR '':''" p "CHR ''['' # h @ [CHR '']'']"] assms by simp
  moreover have "takeWhile (\<lambda>c. c \<noteq> CHR '']'') ?s = CHR ''['' # h"
    using assms(2) by (subst takeWhile.simps) (auto simp: takeWhile_append)
  ultimately show ?thesis using True assms by (simp add: SplitHostPort_def JoinHostPort_def)
next
  case False
  have "LastIndexByte (h @ CHR '':'' # p) CHR '':'' = Some (length h)" using assms by (intro LastIndexByte_append)
  moreover have "hd (h @ CHR '':'' # p) \<noteq> CHR ''[''" using assms by (cases h) auto
  ultimately show ?thesis using False assms by (simp add: SplitHostPort_def JoinHostPort_def)
qed

section \<open>No connection to a blocked address\<close>

text \<open>
  What the client relies on of \<^verbatim>\<open>net\<close>: dialing an address whose host is a literal connects to that
  literal, the text of an address parses back to it and has no brackets, and a resolver answers with
  addresses.
\<close>

definition dials_literals :: "net_library \<Rightarrow> bool" where
  "dials_literals N \<longleftrightarrow> (\<forall>timeout network address conn host port.
     net_DialContext N timeout network address = Ok conn \<longrightarrow> SplitHostPort address = Ok (host, port) \<longrightarrow>
     net_ParseIP N host \<noteq> [] \<longrightarrow> Equal (conn_Remote conn) (net_ParseIP N host))"

definition prints_addresses :: "net_library \<Rightarrow> bool" where
  "prints_addresses N \<longleftrightarrow> (\<forall>a. length a = 4 \<or> length a = 16 \<longrightarrow>
     net_ParseIP N (net_String N a) \<noteq> [] \<and> Equal (net_ParseIP N (net_String N a)) a
     \<and> CHR ''['' \<notin> set (net_String N a) \<and> CHR '']'' \<notin> set (net_String N a))"

definition resolves_addresses :: "(string \<Rightarrow> ip list outcome) \<Rightarrow> bool" where
  "resolves_addresses resolve \<longleftrightarrow> (\<forall>host addrs. resolve host = Ok addrs \<longrightarrow>
     (\<forall>a\<in>set addrs. a = [] \<or> length a = 4 \<or> length a = 16))"

lemma dial_each_checked:
  assumes "dials_literals N" and "prints_addresses N" and "\<not> opt_AllowPrivateIPs opts"
    and "CHR '':'' \<notin> set port" "CHR ''['' \<notin> set port" "CHR '']'' \<notin> set port"
    and "\<forall>a\<in>set addrs. a = [] \<or> length a = 4 \<or> length a = 16"
    and "dial_each N opts network port lastErr addrs = Ok conn"
  shows "\<not> IsBlockedIP (conn_Remote conn)"
  using assms(7,8)
proof (induction addrs arbitrary: lastErr)
  case (Cons a addrs)
  show ?case
  proof (cases "IsBlockedIP a")
    case True
    then show ?thesis using Cons assms(3) by simp
  next
    case False
    then have "a \<noteq> []" by (auto simp: IsBlockedIP_def)
    then have len: "length a = 4 \<or> length a = 16" using Cons.prems(1) by simp
    let ?s = "net_String N a"
    show ?thesis
    proof (cases "dialer N opts network (JoinHostPort ?s port)")
      case (Ok c)
      then have "c = conn" using Cons.prems(2) False by simp
      moreover have "SplitHostPort (JoinHostPort ?s port) = Ok (?s, port)"
        using assms(2,4,5,6) len unfolding prints_addresses_def by (intro SplitHostPort_Join) blast+
      ultimately have "Equal (conn_Remote conn) (net_ParseIP N ?s)" "Equal (net_ParseIP N ?s) a"
        using Ok assms(1,2) len unfolding dialer_def dials_literals_def prints_addresses_def by blast+
      then show ?thesis using False blocked_Equal by blast
    qed (use Cons False in auto)
  qed
qed (simp split: option.splits)

lemma public_unblocked:
  assumes "\<not> IsBlockedIP a" and "To4 a = Some [w, x, y, z]"
  shows "public_v4 (unat w) (unat x) (unat y) (unat z)"
proof -
  have "Equal a [w, x, y, z]" using assms(2) by (auto simp: To4_def Equal_def split: if_splits)
  from blocked_Equal [OF this] assms(1) show ?thesis by (simp add: blocked_v4)
qed


text \<open>A library with an address notation of its own, two letters for a byte, and one name.\<close>

definition sample_String :: "ip \<Rightarrow> string" where
  "sample_String a = concat (map (\<lambda>w. [char_of (97 + unat w div 16), char_of (97 + unat w mod 16)]) a)"

fun sample_bytes :: "string \<Rightarrow> ip" where
  "sample_bytes (x # y # s) = word_of_nat ((of_char x - 97) * 16 + (of_char y - 97)) # sample_bytes s"
| "sample_bytes s = []"

definition sample_ParseIP :: "string \<Rightarrow> ip" where
  "sample_ParseIP s =
     (if (length s = 8 \<or> length s = 32) \<and> list_all (\<lambda>c. CHR ''a'' \<le> c \<and> c \<le> CHR ''p'') s then sample_bytes s else [])"

definition sample_net :: net_library where
  "sample_net = \<lparr>net_ParseIP = sample_ParseIP, net_String = sample_String,
     net_LookupIPAddr = (\<lambda>host. Ok [[127, 0, 0, 1], [8, 8, 4, 4]]),
     net_DialContext = (\<lambda>timeout network address. case SplitHostPort address of
        Ok (host, port) \<Rightarrow> Ok \<lparr>conn_Remote = sample_ParseIP host\<rparr> | _ \<Rightarrow> Err (ErrOther ''dial'')),
     net_URLParse = (\<lambda>raw. Err (ErrOther ''parse''))\<rparr>"

definition sample_options :: ClientOptions where
  "sample_options = \<lparr>opt_AllowInsecure = False, opt_AllowPrivateIPs = False, opt_RequestTimeout = 0, opt_ConnectTimeout = 0,
     opt_MaxResponseBytes = 0, opt_Resolver = None\<rparr>"

lemma sample_letter:
  assumes "(k :: nat) < 16"
  shows "of_char (char_of (97 + k) :: char) = 97 + k" and "CHR ''a'' \<le> char_of (97 + k) \<and> char_of (97 + k) \<le> CHR ''p''"
    and "char_of (97 + k) \<noteq> CHR ''[''" and "char_of (97 + k) \<noteq> CHR '']''"
proof -
  have "\<forall>k\<in>set [0..<16]. of_char (char_of (97 + k) :: char) = 97 + k \<and> CHR ''a'' \<le> char_of (97 + k)
      \<and> char_of (97 + k) \<le> CHR ''p'' \<and> char_of (97 + k) \<noteq> CHR ''['' \<and> char_of (97 + k) \<noteq> CHR '']''"
    by code_simp
  then show "of_char (char_of (97 + k) :: char) = 97 + k" "CHR ''a'' \<le> char_of (97 + k) \<and> char_of (97 + k) \<le> CHR ''p''"
    "char_of (97 + k) \<noteq> CHR ''[''" "char_of (97 + k) \<noteq> CHR '']''"
    using assms by auto
qed

lemma sample_bytes_String: "sample_bytes (sample_String a) = a"
proof (induction a)
  case (Cons w a)
  have "unat w div 16 < 16" using unat_byte_bound [of w] by linarith
  then show ?case using Cons sample_letter(1) by (simp add: sample_String_def)
qed (simp add: sample_String_def)

lemma sample_String_props:
  "length (sample_String a) = 2 * length a"
  "list_all (\<lambda>c. CHR ''a'' \<le> c \<and> c \<le> CHR ''p'') (sample_String a)"
  "CHR ''['' \<notin> set (sample_String a)" "CHR '']'' \<notin> set (sample_String a)"
proof -
  have hi: "unat w div 16 < 16" for w :: "8 word" using unat_byte_bound [of w] by linarith
  show "length (sample_String a) = 2 * length a" by (induction a) (simp_all add: sample_String_def)
  show "list_all (\<lambda>c. CHR ''a'' \<le> c \<and> c \<le> CHR ''p'') (sample_String a)"
    using sample_letter(2) hi by (simp add: sample_String_def list_all_iff)
  show "CHR ''['' \<notin> set (sample_String a)" "CHR '']'' \<notin> set (sample_String a)"
    using sample_letter(3,4) hi by (auto simp: sample_String_def dest!: sym [of "CHR ''[''"] sym [of "CHR '']''"])
qed


end
