(* ===== verification/Canonical.thy ===== *)
theory Canonical
  imports Ledger_Types
begin

text \<open>
  Package \<^verbatim>\<open>internal/idempotency\<close>, file \<^verbatim>\<open>canonical.go\<close>: the fingerprint of a request. JSON
  documents are the values of \<open>json\<close>, objects as association lists with distinct keys in the
  order a decoder met them, numbers as their literals. Parameters stand for the decoder of
  \<^verbatim>\<open>encoding/json\<close> (the first value of a body, and whether more follows), its string encoder,
  SHA-256, and \<^verbatim>\<open>big.Rat.SetString\<close> (numerator and positive denominator in lowest terms).
\<close>

definition maxFractionDigits :: nat where "maxFractionDigits = 30"

definition jsonWhitespace :: "char list" where
  "jsonWhitespace = [CHR 0x20, CHR 0x09, CHR 0x0A, CHR 0x0D]"

text \<open>\<^verbatim>\<open>Rat.FloatString\<close>: the decimal rendering with a fixed number of digits, rounded half away from zero.\<close>

definition FloatString :: "int \<Rightarrow> int \<Rightarrow> nat \<Rightarrow> string" where
  "FloatString num den prec =
     (let q = \<bar>num\<bar> div den; p = 10 ^ prec; scaled = (\<bar>num\<bar> mod den) * p;
          r = scaled div den; rest = scaled mod den;
          up = (den \<le> 2 * rest);
          r1 = (if up then r + 1 else r);
          carry = (up \<and> r1 \<ge> p);
          q2 = (if carry then q + 1 else q); r2 = (if carry then r1 - p else r1);
          rs = FormatUint (nat r2)
      in (if num < 0 then ''-'' else []) @ FormatUint (nat q2) @ ''.'' @ replicate (prec - length rs) CHR ''0'' @ rs)"

definition TrimRight :: "char \<Rightarrow> string \<Rightarrow> string" where
  "TrimRight c s = rev (dropWhile (\<lambda>x. x = c) (rev s))"

definition TrimSuffix :: "string \<Rightarrow> string \<Rightarrow> string" where
  "TrimSuffix suffix s = (if has_suffix s suffix then take (length s - length suffix) s else s)"

definition canonicalNumber :: "(string \<Rightarrow> (int \<times> int) option) \<Rightarrow> string \<Rightarrow> string outcome" where
  "canonicalNumber setString literal =
     (case setString literal of
        None \<Rightarrow> Err (ErrOther ''not a valid JSON number'')
      | Some (num, den) \<Rightarrow>
          if den = 1 then Ok (FormatInt num)
          else let s = TrimSuffix ''.'' (TrimRight CHR ''0'' (FloatString num den maxFractionDigits))
            in Ok (if s = [] \<or> s = ''-'' then ''0'' else s))"

fun join_comma :: "string list \<Rightarrow> string" where
  "join_comma [] = []"
| "join_comma [s] = s"
| "join_comma (s # t # ss) = s @ '','' @ join_comma (t # ss)"

fun writeCanonical :: "(string \<Rightarrow> (int \<times> int) option) \<Rightarrow> (string \<Rightarrow> string outcome) \<Rightarrow> json \<Rightarrow> string outcome" where
  "writeCanonical setString marshal JNull = Ok ''null''"
| "writeCanonical setString marshal (JBool v) = Ok (if v then ''true'' else ''false'')"
| "writeCanonical setString marshal (JNumber n) = canonicalNumber setString n"
| "writeCanonical setString marshal (JString v) = marshal v"
| "writeCanonical setString marshal (JArray vs) =
     andThen (map_outcome_list id (map (writeCanonical setString marshal) vs)) (\<lambda>items.
       Ok (''['' @ join_comma items @ '']''))"
| "writeCanonical setString marshal (JObject kvs) =
     andThen (map_outcome_list
         (\<lambda>(k, r). andThen (marshal k) (\<lambda>key. andThen r (\<lambda>v. Ok (key @ '':'' @ v))))
         (sort_key fst (map (\<lambda>(k, v). (k, writeCanonical setString marshal v)) kvs))) (\<lambda>members.
       Ok (''{'' @ join_comma members @ ''}''))"

definition CanonicalJSON ::
  "(string \<Rightarrow> (json \<times> bool) option) \<Rightarrow> (string \<Rightarrow> (int \<times> int) option) \<Rightarrow> (string \<Rightarrow> string outcome) \<Rightarrow> string \<Rightarrow> string outcome" where
  "CanonicalJSON decode setString marshal body =
     (if list_all (\<lambda>c. c \<in> set jsonWhitespace) body then Ok []
      else case decode body of
        None \<Rightarrow> Err (ErrOther ''request body is not valid JSON'')
      | Some (v, trailing) \<Rightarrow>
          if trailing then Err (ErrOther ''request body contains more than one JSON value'')
          else writeCanonical setString marshal v)"

record json_library =
  lib_decode :: "string \<Rightarrow> (json \<times> bool) option"
  lib_setString :: "string \<Rightarrow> (int \<times> int) option"
  lib_marshal :: "string \<Rightarrow> string outcome"
  lib_sha256 :: "string \<Rightarrow> string"

definition Fingerprint :: "json_library \<Rightarrow> string \<Rightarrow> string \<Rightarrow> string \<Rightarrow> string outcome" where
  "Fingerprint L method path body =
     andThen (CanonicalJSON (lib_decode L) (lib_setString L) (lib_marshal L) body) (\<lambda>canonical.
       Ok (lib_sha256 L (method @ [char_of (10 :: nat)] @ path @ [char_of (10 :: nat)] @ canonical)))"

section \<open>Equal documents have equal renderings\<close>

text \<open>
  Two documents are the same request when they differ only in the order of object members and
  in how numbers are written.
\<close>

inductive same_json :: "(string \<Rightarrow> (int \<times> int) option) \<Rightarrow> json \<Rightarrow> json \<Rightarrow> bool" for setString where
  same: "same_json setString v v"
| number: "setString a = setString b \<Longrightarrow> same_json setString (JNumber a) (JNumber b)"
| arr: "list_all2 (same_json setString) xs ys \<Longrightarrow> same_json setString (JArray xs) (JArray ys)"
| obj: "distinct (map fst kvs) \<Longrightarrow> list_all2 (\<lambda>p q. fst p = fst q \<and> same_json setString (snd p) (snd q)) kvs mid
    \<Longrightarrow> mset mid = mset kvs' \<Longrightarrow> same_json setString (JObject kvs) (JObject kvs')"

lemma sort_key_members:
  assumes "distinct (map fst xs)" and "mset xs = mset ys"
  shows "sort_key fst xs = sort_key fst (ys :: (string \<times> 'a) list)"
  by (rule sort_key_inj_key_eq) (use assms in \<open>simp_all add: distinct_map\<close>)

lemma writeCanonical_same:
  "same_json setString a b \<Longrightarrow> writeCanonical setString marshal a = writeCanonical setString marshal b"
proof (induction rule: same_json.induct)
  case (arr xs ys)
  then have "map (writeCanonical setString marshal) xs = map (writeCanonical setString marshal) ys"
    by (simp add: list_all2_conv_all_nth list_eq_iff_nth_eq)
  then show ?case by simp
next
  case (obj kvs mid kvs')
  let ?w = "\<lambda>(k, v). (k, writeCanonical setString marshal v)"
  have "map ?w kvs = map ?w mid"
    using obj.IH by (auto simp: list_all2_conv_all_nth list_eq_iff_nth_eq split_beta)
  moreover have "mset (map ?w mid) = mset (map ?w kvs')" using obj.hyps(2) by simp
  moreover have "map fst (map ?w kvs) = map fst kvs" by (simp add: comp_def split_beta)
  ultimately have "sort_key fst (map ?w kvs) = sort_key fst (map ?w kvs')"
    using sort_key_members obj.hyps(1) by metis
  then show ?case by simp
qed (simp_all add: canonicalNumber_def)

text \<open>
  C30. A retry that reserializes its body fingerprints the same: two bodies whose documents
  differ only in the order of object members, at any depth, and in how equal numbers are
  written, have the same fingerprint under the same method and path.
\<close>

theorem Fingerprint_reserialized:
  assumes "lib_decode L body = Some (a, False)" and "lib_decode L body' = Some (b, False)"
    and "same_json (lib_setString L) a b"
    and "\<not> list_all (\<lambda>c. c \<in> set jsonWhitespace) body" and "\<not> list_all (\<lambda>c. c \<in> set jsonWhitespace) body'"
  shows "Fingerprint L method path body = Fingerprint L method path body'"
  using assms writeCanonical_same [OF assms(3), of "lib_marshal L"]
  by (simp add: Fingerprint_def CanonicalJSON_def)

text \<open>A library that knows the two documents of the example.\<close>

definition sample_library :: json_library where
  "sample_library = \<lparr>
     lib_decode = (\<lambda>s. if s = ''A'' then Some (JObject [(''x'', JNumber ''1''), (''y'', JNull)], False)
       else if s = ''B'' then Some (JObject [(''y'', JNull), (''x'', JNumber ''1e0'')], False) else None),
     lib_setString = (\<lambda>s. if s = ''1'' \<or> s = ''1e0'' then Some (1, 1) else None),
     lib_marshal = Ok, lib_sha256 = id\<rparr>"

lemma Fingerprint_reserialized_witness:
  "Fingerprint sample_library ''POST'' ''/v1/payments'' ''A'' = Fingerprint sample_library ''POST'' ''/v1/payments'' ''B''"
proof (rule Fingerprint_reserialized)
  let ?s = "lib_setString sample_library"
  show "lib_decode sample_library ''A'' = Some (JObject [(''x'', JNumber ''1''), (''y'', JNull)], False)"
    "lib_decode sample_library ''B'' = Some (JObject [(''y'', JNull), (''x'', JNumber ''1e0'')], False)"
    by (simp_all add: sample_library_def)
  have "same_json ?s (JNumber ''1'') (JNumber ''1e0'')" by (rule same_json.number) (simp add: sample_library_def)
  then show "same_json ?s (JObject [(''x'', JNumber ''1''), (''y'', JNull)]) (JObject [(''y'', JNull), (''x'', JNumber ''1e0'')])"
    by (intro same_json.obj [where mid = "[(''x'', JNumber ''1e0''), (''y'', JNull)]"]) (auto intro: same_json.same)
qed (simp_all add: jsonWhitespace_def)

end
