(* ===== verification/Idempotency.thy ===== *)
theory Idempotency
  imports Sql_Tables Canonical
begin

text \<open>
  Idempotent requests: the records and the middleware of \<^verbatim>\<open>internal/idempotency\<close>, and the store
  behind it, \<^verbatim>\<open>internal/postgres/idempotency.go\<close>, over the table the statements of
  \<^verbatim>\<open>internal/postgres/sqlc/idempotency.sql.go\<close> work on. A table is the list of its rows; a
  statement is one atomic step, with the database's clock in its context, and fails as a whole
  when its context is done. Instants are integers of one unit on both sides of the connection.
\<close>

section \<open>Records\<close>

type_synonym IdemState = string

definition IdemInProgress :: IdemState where "IdemInProgress = ''in_progress''"

definition IdemSucceeded :: IdemState where "IdemSucceeded = ''succeeded''"

definition IdemFailed :: IdemState where "IdemFailed = ''failed''"

type_synonym RecoveryPoint = string

definition PointStarted :: RecoveryPoint where "PointStarted = ''started''"

definition PointFinished :: RecoveryPoint where "PointFinished = ''finished''"

record IdemRecord =
  rec_ID :: string
  rec_MerchantID :: string
  rec_Key :: string
  rec_Method :: string
  rec_Path :: string
  rec_RequestHash :: string
  rec_State :: IdemState
  rec_RecoveryPoint :: RecoveryPoint
  rec_LockExpiresAt :: "int option"
  rec_ResponseStatus :: int
  rec_ResponseBody :: string
  rec_ResourceID :: string
  rec_RequestID :: string
  rec_CreatedAt :: int
  rec_ExpiresAt :: int

definition IsTerminal :: "IdemRecord \<Rightarrow> bool" where
  "IsTerminal r \<longleftrightarrow> rec_State r = IdemSucceeded \<or> rec_State r = IdemFailed"

definition LockExpired :: "IdemRecord \<Rightarrow> int \<Rightarrow> bool" where
  "LockExpired r now = (case rec_LockExpiresAt r of None \<Rightarrow> True | Some at \<Rightarrow> \<not> at > now)"

definition ValidateKey :: "string \<Rightarrow> unit outcome" where
  "ValidateKey key =
     (if key = [] then Err ErrKeyRequired
      else if length key > 255 then Err ErrInvalidKey
      else if list_ex (\<lambda>c. (of_char c :: nat) < 32 \<or> (of_char c :: nat) > 126) key then Err ErrInvalidKey
      else Ok ())"

section \<open>The table\<close>

record IdempotencyKey =
  ik_ID :: string
  ik_MerchantID :: string
  ik_Key :: string
  ik_RequestMethod :: string
  ik_RequestPath :: string
  ik_RequestHash :: string
  ik_State :: IdemState
  ik_RecoveryPoint :: RecoveryPoint
  ik_LockExpiresAt :: "int option"
  ik_ResponseStatus :: "int option"
  ik_ResponseBody :: string
  ik_ResourceID :: "string option"
  ik_RequestID :: "string option"
  ik_CreatedAt :: int
  ik_ExpiresAt :: int

text \<open>\<^verbatim>\<open>INSERT \<dots> ON CONFLICT (merchant_id, idempotency_key) DO NOTHING\<close>; \<open>None\<close> is \<^verbatim>\<open>pgx.ErrNoRows\<close>.\<close>

definition AcquireIdempotencyKey :: "ambient \<Rightarrow> IdempotencyKey \<Rightarrow> (IdempotencyKey list, IdempotencyKey option) opr" where
  "AcquireIdempotencyKey c row = query c (\<lambda>rows.
     if list_ex (\<lambda>r. ik_MerchantID r = ik_MerchantID row \<and> ik_Key r = ik_Key row) rows then (Ok None, rows)
     else if list_ex (\<lambda>r. ik_ID r = ik_ID row) rows then (Err (ErrOther ''duplicate id''), rows)
     else (Ok (Some row), rows @ [row]))"

definition GetIdempotencyKey :: "ambient \<Rightarrow> string \<Rightarrow> string \<Rightarrow> (IdempotencyKey list, IdempotencyKey option) opr" where
  "GetIdempotencyKey c merchantID key = query c (\<lambda>rows.
     (Ok (List.find (\<lambda>r. ik_MerchantID r = merchantID \<and> ik_Key r = key) rows), rows))"

definition CompleteIdempotencyKey ::
  "ambient \<Rightarrow> string \<Rightarrow> IdemState \<Rightarrow> int option \<Rightarrow> string \<Rightarrow> string option \<Rightarrow> (IdempotencyKey list, int) opr" where
  "CompleteIdempotencyKey c i state status body resourceID = query c (update_where (\<lambda>r. ik_ID r = i) (\<lambda>r.
     r\<lparr>ik_State := state, ik_RecoveryPoint := PointFinished, ik_ResponseStatus := status, ik_ResponseBody := body,
       ik_ResourceID := (case resourceID of None \<Rightarrow> ik_ResourceID r | Some x \<Rightarrow> Some x), ik_LockExpiresAt := None\<rparr>))"

definition AdvanceIdempotencyKey :: "ambient \<Rightarrow> string \<Rightarrow> RecoveryPoint \<Rightarrow> int \<Rightarrow> (IdempotencyKey list, int) opr" where
  "AdvanceIdempotencyKey c i point lease = query c (update_where
     (\<lambda>r. ik_ID r = i \<and> ik_State r = IdemInProgress)
     (\<lambda>r. r\<lparr>ik_RecoveryPoint := point, ik_LockExpiresAt := Some lease\<rparr>))"

definition TakeOverIdempotencyKey :: "ambient \<Rightarrow> string \<Rightarrow> int \<Rightarrow> (IdempotencyKey list, int) opr" where
  "TakeOverIdempotencyKey c i lease = query c (update_where
     (\<lambda>r. ik_ID r = i \<and> ik_State r = IdemInProgress
        \<and> (case ik_LockExpiresAt r of None \<Rightarrow> True | Some at \<Rightarrow> at \<le> wall_now c))
     (\<lambda>r. r\<lparr>ik_LockExpiresAt := Some lease\<rparr>))"

definition ReleaseIdempotencyKey :: "ambient \<Rightarrow> string \<Rightarrow> (IdempotencyKey list, int) opr" where
  "ReleaseIdempotencyKey c i = query c (delete_where (\<lambda>r. ik_ID r = i \<and> ik_State r = IdemInProgress))"

definition DeleteExpiredIdempotencyKeys :: "ambient \<Rightarrow> int \<Rightarrow> int \<Rightarrow> (IdempotencyKey list, int) opr" where
  "DeleteExpiredIdempotencyKeys c before limit = query c (\<lambda>rows.
     if limit < 0 then (Err (ErrOther ''LIMIT must not be negative''), rows)
     else let doomed = take (nat limit) (sort_key ik_ExpiresAt (filter (\<lambda>r. ik_ExpiresAt r < before) rows))
       in delete_where (\<lambda>r. ik_ID r \<in> set (map ik_ID doomed)) rows)"

section \<open>The store\<close>

definition recordFromRow :: "IdempotencyKey \<Rightarrow> IdemRecord" where
  "recordFromRow row =
     \<lparr>rec_ID = ik_ID row, rec_MerchantID = ik_MerchantID row, rec_Key = ik_Key row, rec_Method = ik_RequestMethod row,
      rec_Path = ik_RequestPath row, rec_RequestHash = ik_RequestHash row, rec_State = ik_State row,
      rec_RecoveryPoint = ik_RecoveryPoint row, rec_LockExpiresAt = ik_LockExpiresAt row,
      rec_ResponseStatus = (case ik_ResponseStatus row of None \<Rightarrow> 0 | Some n \<Rightarrow> n), rec_ResponseBody = ik_ResponseBody row,
      rec_ResourceID = derefString (ik_ResourceID row), rec_RequestID = derefString (ik_RequestID row),
      rec_CreatedAt = ik_CreatedAt row, rec_ExpiresAt = ik_ExpiresAt row\<rparr>"

text \<open>The row \<^verbatim>\<open>Acquire\<close> inserts: no response yet, whatever the record says.\<close>

definition row_of :: "IdemRecord \<Rightarrow> IdempotencyKey" where
  "row_of r =
     \<lparr>ik_ID = rec_ID r, ik_MerchantID = rec_MerchantID r, ik_Key = rec_Key r, ik_RequestMethod = rec_Method r,
      ik_RequestPath = rec_Path r, ik_RequestHash = rec_RequestHash r, ik_State = rec_State r,
      ik_RecoveryPoint = rec_RecoveryPoint r, ik_LockExpiresAt = rec_LockExpiresAt r, ik_ResponseStatus = None,
      ik_ResponseBody = [], ik_ResourceID = None, ik_RequestID = nullString (rec_RequestID r),
      ik_CreatedAt = rec_CreatedAt r, ik_ExpiresAt = rec_ExpiresAt r\<rparr>"

definition Idem_Get :: "ambient \<Rightarrow> string \<Rightarrow> string \<Rightarrow> (IdempotencyKey list, IdemRecord) opr" where
  "Idem_Get c merchantID key =
     seq (GetIdempotencyKey c merchantID key) (\<lambda>row.
     case row of None \<Rightarrow> ret (Err ErrKeyNotFound) | Some r \<Rightarrow> ret (Ok (recordFromRow r)))"

text \<open>The insert; the loser then reads the winner's record in a second statement.\<close>

definition Idem_Acquire_insert :: "ambient \<Rightarrow> IdemRecord \<Rightarrow> (IdempotencyKey list, IdemRecord option) opr" where
  "Idem_Acquire_insert c r =
     seq (AcquireIdempotencyKey c (row_of r)) (\<lambda>row. ret (Ok (map_option recordFromRow row)))"

definition affected_or_missing :: "('t, int) opr \<Rightarrow> ('t, unit) opr" where
  "affected_or_missing m = seq m (\<lambda>n. if n = 0 then ret (Err ErrKeyNotFound) else ret (Ok ()))"

definition Idem_Complete ::
  "ambient \<Rightarrow> string \<Rightarrow> IdemState \<Rightarrow> int \<Rightarrow> string \<Rightarrow> string \<Rightarrow> (IdempotencyKey list, unit) opr" where
  "Idem_Complete c i state status body resourceID =
     affected_or_missing (CompleteIdempotencyKey c i state (Some (wrap32 status)) body (nullString resourceID))"

definition Idem_Advance :: "ambient \<Rightarrow> string \<Rightarrow> RecoveryPoint \<Rightarrow> int \<Rightarrow> (IdempotencyKey list, unit) opr" where
  "Idem_Advance c i point lease = affected_or_missing (AdvanceIdempotencyKey c i point lease)"

definition Idem_TakeOver :: "ambient \<Rightarrow> string \<Rightarrow> int \<Rightarrow> (IdempotencyKey list, bool) opr" where
  "Idem_TakeOver c i lease = seq (TakeOverIdempotencyKey c i lease) (\<lambda>n. ret (Ok (n > 0)))"

definition Idem_Release :: "ambient \<Rightarrow> string \<Rightarrow> (IdempotencyKey list, unit) opr" where
  "Idem_Release c i = seq (ReleaseIdempotencyKey c i) (\<lambda>_. ret (Ok ()))"

definition Idem_DeleteExpired :: "ambient \<Rightarrow> int \<Rightarrow> int \<Rightarrow> (IdempotencyKey list, int) opr" where
  "Idem_DeleteExpired c before limit = DeleteExpiredIdempotencyKeys c before (wrap32 limit)"

section \<open>The middleware\<close>

definition LeaseDuration :: int where "LeaseDuration = 60 * 1000000000"

definition TTL :: int where "TTL = 24 * 3600 * 1000000000"

text \<open>The database: the table of keys and everything else.\<close>

record 'a idem_db =
  db_keys :: "IdempotencyKey list"
  db_app :: 'a

definition on_keys :: "(ambient \<Rightarrow> (IdempotencyKey list, 'b) opr) \<Rightarrow> ambient \<Rightarrow> ('a idem_db, 'b) opr" where
  "on_keys f c db = (case f c (db_keys db) of (r, rows) \<Rightarrow> (r, db\<lparr>db_keys := rows\<rparr>))"

definition Idem_Acquire :: "env \<Rightarrow> IdemRecord \<Rightarrow> ('a idem_db world, IdemRecord \<times> bool) opr" where
  "Idem_Acquire E r =
     seq (call E (on_keys (\<lambda>c. Idem_Acquire_insert c r))) (\<lambda>won.
     case won of
       Some mine \<Rightarrow> ret (Ok (mine, True))
     | None \<Rightarrow> seq (call E (on_keys (\<lambda>c. Idem_Get c (rec_MerchantID r) (rec_Key r)))) (\<lambda>existing. ret (Ok (existing, False))))"

record http_request =
  hq_Key :: string
  hq_Merchant :: "string option"
  hq_Body :: "string outcome"
  hq_Method :: string
  hq_Path :: string
  hq_RequestID :: string

record http_response =
  hr_Status :: int
  hr_Headers :: "(string \<times> string) list"
  hr_Body :: string

text \<open>What the capturing writer holds when the wrapped handler returns.\<close>

record capturingWriter =
  cw_status :: int
  cw_body :: string

definition WriteHeader :: "int \<Rightarrow> capturingWriter \<Rightarrow> capturingWriter" where
  "WriteHeader status w = (if cw_status w = 0 then w\<lparr>cw_status := status\<rparr> else w)"

definition Write :: "string \<Rightarrow> capturingWriter \<Rightarrow> capturingWriter" where
  "Write b w = w\<lparr>cw_status := (if cw_status w = 0 then 200 else cw_status w), cw_body := cw_body w @ b\<rparr>"

definition replay :: "IdemRecord \<Rightarrow> http_response" where
  "replay r =
     \<lparr>hr_Status = (if rec_ResponseStatus r = 0 then 200 else rec_ResponseStatus r),
      hr_Headers = [(''Content-Type'', ''application/json; charset=utf-8''), (''Idempotent-Replay'', ''true'')]
        @ (if rec_RequestID r \<noteq> [] then [(''Original-Request-Id'', rec_RequestID r)] else []),
      hr_Body = rec_ResponseBody r\<rparr>"

definition outcome_state :: "int \<Rightarrow> IdemState" where
  "outcome_state status = (if status \<ge> 400 then IdemFailed else IdemSucceeded)"

text \<open>
  \<^verbatim>\<open>Complete\<close>, called by a handler inside its own transaction; the record is then marked as
  completed there.
\<close>

definition Complete :: "env \<Rightarrow> IdemRecord option \<Rightarrow> int \<Rightarrow> string \<Rightarrow> string \<Rightarrow> ('a idem_db world, unit) opr" where
  "Complete E holder status body resourceID =
     (case holder of
        None \<Rightarrow> ret (Ok ())
      | Some r \<Rightarrow> call E (on_keys (\<lambda>c. Idem_Complete c (rec_ID r) (outcome_state status) status body resourceID)))"

definition finish :: "env \<Rightarrow> IdemRecord \<Rightarrow> capturingWriter \<Rightarrow> bool \<Rightarrow> ('a idem_db world, unit) opr" where
  "finish E r capture completedInTx =
     (if completedInTx then ret (Ok ())
      else let status = (if cw_status capture = 0 then 200 else cw_status capture)
        in if status \<ge> 500
           then seq (attempt (call E (on_keys (\<lambda>c. Idem_Release c (rec_ID r))))) (\<lambda>_. ret (Ok ()))
           else seq (attempt (call E (on_keys (\<lambda>c. Idem_Complete c (rec_ID r) (outcome_state status) status (cw_body capture) []))))
             (\<lambda>_. ret (Ok ())))"

text \<open>An error is rendered as a response.\<close>

definition orWrite :: "(err \<Rightarrow> http_response) \<Rightarrow> ('s, 'a) opr \<Rightarrow> ('a \<Rightarrow> ('s, http_response) opr) \<Rightarrow> ('s, http_response) opr" where
  "orWrite writeErr m f s =
     (case m s of (Ok x, s') \<Rightarrow> f x s' | (Err e, s') \<Rightarrow> (Ok (writeErr e), s') | (Panic, s') \<Rightarrow> (Panic, s'))"

definition candidate :: "http_request \<Rightarrow> string \<Rightarrow> string \<Rightarrow> string \<Rightarrow> int \<Rightarrow> IdemRecord" where
  "candidate req merchantID hash i now =
     \<lparr>rec_ID = i, rec_MerchantID = merchantID, rec_Key = hq_Key req, rec_Method = hq_Method req, rec_Path = hq_Path req,
      rec_RequestHash = hash, rec_State = IdemInProgress, rec_RecoveryPoint = PointStarted,
      rec_LockExpiresAt = Some (now + LeaseDuration), rec_ResponseStatus = 0, rec_ResponseBody = [], rec_ResourceID = [],
      rec_RequestID = hq_RequestID req, rec_CreatedAt = now, rec_ExpiresAt = now + TTL\<rparr>"

definition PrefixIdempotency :: string where "PrefixIdempotency = ''idem''"

definition retry_shortly :: "(err \<Rightarrow> http_response) \<Rightarrow> http_response" where
  "retry_shortly writeErr = (writeErr ErrInProgress)\<lparr>hr_Headers := (''Retry-After'', ''1'') # hr_Headers (writeErr ErrInProgress)\<rparr>"

text \<open>What a request that lost the insert does about the record that exists.\<close>

datatype decision = Mismatch | Replay | Busy | Abandoned

definition decide :: "IdemRecord \<Rightarrow> string \<Rightarrow> int \<Rightarrow> decision" where
  "decide r hash now =
     (if rec_RequestHash r \<noteq> hash then Mismatch
      else if IsTerminal r then Replay
      else if \<not> LockExpired r now then Busy
      else Abandoned)"

text \<open>Running the wrapped handler as the holder of a record.\<close>

definition run_held ::
  "env \<Rightarrow> (IdemRecord \<Rightarrow> ('a idem_db world, capturingWriter \<times> bool) opr) \<Rightarrow> IdemRecord \<Rightarrow> ('a idem_db world, http_response) opr" where
  "run_held E handler r =
     seq (handler r) (\<lambda>(capture, completedInTx).
     seq (finish E r capture completedInTx) (\<lambda>_.
     ret (Ok \<lparr>hr_Status = (if cw_status capture = 0 then 200 else cw_status capture), hr_Headers = [], hr_Body = cw_body capture\<rparr>)))"

definition Handler ::
  "env \<Rightarrow> json_library \<Rightarrow> (err \<Rightarrow> http_response) \<Rightarrow> (IdemRecord \<Rightarrow> ('a idem_db world, capturingWriter \<times> bool) opr)
    \<Rightarrow> http_request \<Rightarrow> ('a idem_db world, http_response) opr" where
  "Handler E L writeErr handler req =
     orWrite writeErr (ret (ValidateKey (hq_Key req))) (\<lambda>_.
     case hq_Merchant req of
       None \<Rightarrow> ret (Ok (writeErr ErrKeyRequired))
     | Some merchantID \<Rightarrow>
       if merchantID = [] then ret (Ok (writeErr ErrKeyRequired))
       else orWrite writeErr (ret (hq_Body req)) (\<lambda>body.
       orWrite writeErr (ret (Fingerprint L (hq_Method req) (hq_Path req) body)) (\<lambda>hash.
       orWrite writeErr (clock_now E) (\<lambda>now.
       orWrite writeErr (new_id E PrefixIdempotency) (\<lambda>i.
       orWrite writeErr (Idem_Acquire E (candidate req merchantID hash i now)) (\<lambda>(r, acquired).
       if acquired then run_held E handler r
       else case decide r hash now of
         Mismatch \<Rightarrow> ret (Ok (writeErr ErrFingerprintMismatch))
       | Replay \<Rightarrow> ret (Ok (replay r))
       | Busy \<Rightarrow> ret (Ok (retry_shortly writeErr))
       | Abandoned \<Rightarrow>
           orWrite writeErr (call E (on_keys (\<lambda>c. Idem_TakeOver c (rec_ID r) (now + LeaseDuration)))) (\<lambda>won.
           if \<not> won then ret (Ok (retry_shortly writeErr))
           else run_held E handler (r\<lparr>rec_LockExpiresAt := Some (now + LeaseDuration)\<rparr>))))))))"

text \<open>
  A money-moving handler: the operation and the recorded response in one transaction
  (\<^verbatim>\<open>completeIdempotent\<close>, \<^verbatim>\<open>writeRecorded\<close>); an error is written as a response and not recorded.
\<close>

definition money_handler ::
  "env \<Rightarrow> (err \<Rightarrow> http_response) \<Rightarrow> int \<Rightarrow> ('a idem_db world, string \<times> string) opr
    \<Rightarrow> IdemRecord \<Rightarrow> ('a idem_db world, capturingWriter \<times> bool) opr" where
  "money_handler E writeErr status operation r w =
     (case InTx (seq operation (\<lambda>(body, resourceID).
         seq (Complete E (Some r) status body resourceID) (\<lambda>_. ret (Ok body)))) w of
        (Ok body, w') \<Rightarrow> (Ok (Write body (WriteHeader status \<lparr>cw_status = 0, cw_body = []\<rparr>), True), w')
      | (Err e, w') \<Rightarrow> (Ok (Write (hr_Body (writeErr e)) (WriteHeader (hr_Status (writeErr e)) \<lparr>cw_status = 0, cw_body = []\<rparr>), False), w')
      | (Panic, w') \<Rightarrow> (Panic, w'))"

end
