(* ===== verification/Idempotency_Laws.thy ===== *)
theory Idempotency_Laws
  imports Idempotency
begin

text \<open>
  What the idempotency layer promises. The requests of a service are interleaved at the
  granularity of their statements (\<open>idem_step\<close>), the handler's transaction being one step with the
  statement that records its response. An operation is executed at most once per merchant and key
  as long as a holder's statements land within its lease; without that proviso it is not, because
  recording and releasing are not fenced by the lease. What a holder records is what every later
  request with the key is answered with.
\<close>

section \<open>Requests in flight\<close>

datatype phase = Idle | Ready IdemRecord int | Reading IdemRecord int | Taking IdemRecord int | Held IdemRecord | Answered

record idem_client =
  ic_Request :: http_request
  ic_Merchant :: string
  ic_Hash :: string
  ic_ID :: string

record idem_run =
  ir_keys :: "IdempotencyKey list"
  ir_now :: int
  ir_phase :: "nat \<Rightarrow> phase"
  ir_done :: "(string \<times> string) list"

definition idem_initial :: "int \<Rightarrow> idem_run" where
  "idem_initial now = \<lparr>ir_keys = [], ir_now = now, ir_phase = (\<lambda>_. Idle), ir_done = []\<rparr>"

definition goto :: "nat \<Rightarrow> phase \<Rightarrow> IdempotencyKey list \<Rightarrow> idem_run \<Rightarrow> idem_run" where
  "goto t p rows s = s\<lparr>ir_keys := rows, ir_phase := (ir_phase s)(t := p)\<rparr>"

definition client_record :: "idem_client \<Rightarrow> int \<Rightarrow> IdemRecord" where
  "client_record q now = candidate (ic_Request q) (ic_Merchant q) (ic_Hash q) (ic_ID q) now"

text \<open>
  One step of one request. A holder either commits its operation together with the recorded
  response, records a response that has nothing to commit, or releases the key; any request can
  also end without another statement (an error, a cancelled context, a crash). With \<open>timely\<close>, a
  holder's statements happen only while its lease runs.
\<close>

inductive idem_step :: "bool \<Rightarrow> (nat \<Rightarrow> idem_client) \<Rightarrow> idem_run \<Rightarrow> idem_run \<Rightarrow> bool" for timely Q where
  start: "ir_phase s t = Idle
    \<Longrightarrow> idem_step timely Q s (goto t (Ready (client_record (Q t) (ir_now s)) (ir_now s)) (ir_keys s) s)"
| insert_won: "\<lbrakk>ir_phase s t = Ready r now; wall_now c = ir_now s; Idem_Acquire_insert c r (ir_keys s) = (Ok (Some mine), rows)\<rbrakk>
    \<Longrightarrow> idem_step timely Q s (goto t (Held mine) rows s)"
| insert_lost: "\<lbrakk>ir_phase s t = Ready r now; wall_now c = ir_now s; Idem_Acquire_insert c r (ir_keys s) = (Ok None, rows)\<rbrakk>
    \<Longrightarrow> idem_step timely Q s (goto t (Reading r now) rows s)"
| read: "\<lbrakk>ir_phase s t = Reading r now; wall_now c = ir_now s;
      Idem_Get c (rec_MerchantID r) (rec_Key r) (ir_keys s) = (Ok found, rows)\<rbrakk>
    \<Longrightarrow> idem_step timely Q s
          (goto t (if decide found (rec_RequestHash r) now = Abandoned then Taking found now else Answered) rows s)"
| take_over: "\<lbrakk>ir_phase s t = Taking r now; wall_now c = ir_now s;
      Idem_TakeOver c (rec_ID r) (now + LeaseDuration) (ir_keys s) = (Ok won, rows)\<rbrakk>
    \<Longrightarrow> idem_step timely Q s
          (goto t (if won then Held (r\<lparr>rec_LockExpiresAt := Some (now + LeaseDuration)\<rparr>) else Answered) rows s)"
| commit: "\<lbrakk>ir_phase s t = Held r; timely \<longrightarrow> \<not> LockExpired r (ir_now s); wall_now c = ir_now s;
      Idem_Complete c (rec_ID r) (outcome_state status) status body resourceID (ir_keys s) = (Ok (), rows)\<rbrakk>
    \<Longrightarrow> idem_step timely Q s ((goto t Answered rows s)\<lparr>ir_done := ir_done s @ [(rec_MerchantID r, rec_Key r)]\<rparr>)"
| record_only: "\<lbrakk>ir_phase s t = Held r; timely \<longrightarrow> \<not> LockExpired r (ir_now s); wall_now c = ir_now s;
      Idem_Complete c (rec_ID r) (outcome_state status) status body [] (ir_keys s) = (Ok (), rows)\<rbrakk>
    \<Longrightarrow> idem_step timely Q s (goto t Answered rows s)"
| release: "\<lbrakk>ir_phase s t = Held r; timely \<longrightarrow> \<not> LockExpired r (ir_now s); wall_now c = ir_now s;
      Idem_Release c (rec_ID r) (ir_keys s) = (Ok (), rows)\<rbrakk>
    \<Longrightarrow> idem_step timely Q s (goto t Answered rows s)"
| stop: "idem_step timely Q s (goto t Answered (ir_keys s) s)"
| pass: "ir_now s \<le> later \<Longrightarrow> idem_step timely Q s (s\<lparr>ir_now := later\<rparr>)"

inductive idem_reachable :: "bool \<Rightarrow> (nat \<Rightarrow> idem_client) \<Rightarrow> idem_run \<Rightarrow> bool" for timely Q where
  init: "idem_reachable timely Q (idem_initial now)"
| step: "\<lbrakk>idem_reachable timely Q s; idem_step timely Q s s'\<rbrakk> \<Longrightarrow> idem_reachable timely Q s'"

section \<open>What the statements do to the table\<close>

definition slot :: "IdempotencyKey \<Rightarrow> string \<times> string" where
  "slot row = (ik_MerchantID row, ik_Key row)"

definition sound_table :: "IdempotencyKey list \<Rightarrow> bool" where
  "sound_table rows \<longleftrightarrow> distinct (map ik_ID rows) \<and> distinct (map slot rows)"

lemma sound_table_ID: "\<lbrakk>sound_table rows; a \<in> set rows; b \<in> set rows; ik_ID a = ik_ID b\<rbrakk> \<Longrightarrow> a = b"
  by (auto simp: sound_table_def distinct_map dest: inj_onD)

lemma sound_table_slot: "\<lbrakk>sound_table rows; a \<in> set rows; b \<in> set rows; slot a = slot b\<rbrakk> \<Longrightarrow> a = b"
  by (auto simp: sound_table_def distinct_map dest: inj_onD)

lemma row_of_sel [simp]:
  "ik_ID (row_of r) = rec_ID r" "slot (row_of r) = (rec_MerchantID r, rec_Key r)" "ik_State (row_of r) = rec_State r"
  "ik_LockExpiresAt (row_of r) = rec_LockExpiresAt r" "ik_RequestHash (row_of r) = rec_RequestHash r"
  by (simp_all add: row_of_def slot_def)

lemma recordFromRow_sel [simp]:
  "rec_ID (recordFromRow row) = ik_ID row" "rec_State (recordFromRow row) = ik_State row"
  "(rec_MerchantID (recordFromRow row), rec_Key (recordFromRow row)) = slot row"
  "rec_LockExpiresAt (recordFromRow row) = ik_LockExpiresAt row" "rec_RequestHash (recordFromRow row) = ik_RequestHash row"
  by (simp_all add: recordFromRow_def slot_def)

lemma AcquireD:
  "AcquireIdempotencyKey c row rows = (Ok (Some x), rows') \<Longrightarrow>
     x = row \<and> rows' = rows @ [row] \<and> slot row \<notin> slot ` set rows \<and> ik_ID row \<notin> ik_ID ` set rows"
  by (fastforce simp: AcquireIdempotencyKey_def query_def ret_def list_ex_iff slot_def split: if_splits)

lemma insert_SomeD:
  "Idem_Acquire_insert c r rows = (Ok (Some mine), rows') \<Longrightarrow>
     rows' = rows @ [row_of r] \<and> mine = recordFromRow (row_of r)
     \<and> slot (row_of r) \<notin> slot ` set rows \<and> ik_ID (row_of r) \<notin> ik_ID ` set rows"
  unfolding Idem_Acquire_insert_def seq_eq_Ok ret_def
  by (auto dest!: AcquireD)

lemma insert_NoneD: "Idem_Acquire_insert c r rows = (Ok None, rows') \<Longrightarrow> rows' = rows"
  by (auto simp: Idem_Acquire_insert_def AcquireIdempotencyKey_def query_def seq_eq_Ok ret_def split: if_splits)

lemma GetD:
  "Idem_Get c m k rows = (Ok found, rows') \<Longrightarrow>
     rows' = rows \<and> (\<exists>row\<in>set rows. slot row = (m, k) \<and> found = recordFromRow row)"
  by (auto simp: Idem_Get_def GetIdempotencyKey_def query_def seq_eq_Ok ret_def slot_def find_Some_iff
      split: if_splits option.splits)

lemma TakeOverD:
  "Idem_TakeOver c i lease rows = (Ok won, rows') \<Longrightarrow>
     rows' = map (\<lambda>r. if ik_ID r = i \<and> ik_State r = IdemInProgress
         \<and> (case ik_LockExpiresAt r of None \<Rightarrow> True | Some at \<Rightarrow> at \<le> wall_now c)
       then r\<lparr>ik_LockExpiresAt := Some lease\<rparr> else r) rows
     \<and> (won \<longrightarrow> (\<exists>row\<in>set rows. ik_ID row = i \<and> ik_State row = IdemInProgress
         \<and> (case ik_LockExpiresAt row of None \<Rightarrow> True | Some at \<Rightarrow> at \<le> wall_now c)))"
  by (fastforce simp: Idem_TakeOver_def TakeOverIdempotencyKey_def query_def update_where_def seq_eq_Ok ret_def
      filter_empty_conv split: if_splits)

lemma CompleteD:
  "Idem_Complete c i state status body resourceID rows = (Ok (), rows') \<Longrightarrow>
     (\<exists>f. rows' = map (\<lambda>r. if ik_ID r = i then f r else r) rows
        \<and> (\<forall>r. ik_ID (f r) = ik_ID r \<and> slot (f r) = slot r \<and> ik_State (f r) = state))
     \<and> i \<in> ik_ID ` set rows"
  by (fastforce simp: Idem_Complete_def CompleteIdempotencyKey_def affected_or_missing_def query_def update_where_def
      seq_eq_Ok ret_def slot_def filter_empty_conv image_iff split: if_splits
      intro!: exI [where x = "\<lambda>r. r\<lparr>ik_State := state, ik_RecoveryPoint := PointFinished,
        ik_ResponseStatus := Some (wrap32 status), ik_ResponseBody := body,
        ik_ResourceID := (case nullString resourceID of None \<Rightarrow> ik_ResourceID r | Some x \<Rightarrow> Some x), ik_LockExpiresAt := None\<rparr>"])

lemma ReleaseD:
  "Idem_Release c i rows = (Ok (), rows') \<Longrightarrow> rows' = filter (\<lambda>r. \<not> (ik_ID r = i \<and> ik_State r = IdemInProgress)) rows"
  by (auto simp: Idem_Release_def ReleaseIdempotencyKey_def query_def delete_where_def seq_eq_Ok ret_def split: if_splits)

lemma sound_table_map:
  assumes "sound_table rows" and "\<And>r. ik_ID (f r) = ik_ID r" and "\<And>r. slot (f r) = slot r"
  shows "sound_table (map f rows)"
  using assms by (simp add: sound_table_def comp_def)

lemma sound_table_filter: "sound_table rows \<Longrightarrow> sound_table (filter P rows)"
  by (simp add: sound_table_def distinct_map_filter)

lemma sound_table_append:
  "\<lbrakk>sound_table rows; slot row \<notin> slot ` set rows; ik_ID row \<notin> ik_ID ` set rows\<rbrakk> \<Longrightarrow> sound_table (rows @ [row])"
  by (simp add: sound_table_def)

section \<open>The invariant\<close>

definition live :: "idem_run \<Rightarrow> nat \<Rightarrow> IdemRecord \<Rightarrow> bool" where
  "live s t r \<longleftrightarrow> ir_phase s t = Held r \<and> \<not> LockExpired r (ir_now s)"

definition holds :: "IdempotencyKey list \<Rightarrow> IdemRecord \<Rightarrow> bool" where
  "holds rows r \<longleftrightarrow> (\<exists>row\<in>set rows. ik_ID row = rec_ID r \<and> ik_State row = IdemInProgress
     \<and> ik_LockExpiresAt row = rec_LockExpiresAt r)"

definition settled :: "IdempotencyKey list \<Rightarrow> string \<times> string \<Rightarrow> bool" where
  "settled rows mk \<longleftrightarrow> (\<exists>row\<in>set rows. slot row = mk \<and> ik_State row \<noteq> IdemInProgress)"

definition known :: "(nat \<Rightarrow> idem_client) \<Rightarrow> string \<Rightarrow> string \<times> string \<Rightarrow> bool" where
  "known Q i mk \<longleftrightarrow> (\<exists>t. i = ic_ID (Q t) \<and> mk = (ic_Merchant (Q t), hq_Key (ic_Request (Q t))))"

fun phase_record :: "phase \<Rightarrow> IdemRecord option" where
  "phase_record (Ready r _) = Some r"
| "phase_record (Reading r _) = Some r"
| "phase_record (Taking r _) = Some r"
| "phase_record (Held r) = Some r"
| "phase_record _ = None"

definition idem_inv :: "(nat \<Rightarrow> idem_client) \<Rightarrow> idem_run \<Rightarrow> bool" where
  "idem_inv Q s \<longleftrightarrow>
     sound_table (ir_keys s)
   \<and> (\<forall>row\<in>set (ir_keys s). known Q (ik_ID row) (slot row))
   \<and> (\<forall>t r. phase_record (ir_phase s t) = Some r \<longrightarrow> known Q (rec_ID r) (rec_MerchantID r, rec_Key r))
   \<and> (\<forall>t r now. ir_phase s t = Ready r now \<longrightarrow> rec_State r = IdemInProgress)
   \<and> (\<forall>t r. live s t r \<longrightarrow> holds (ir_keys s) r)
   \<and> (\<forall>t r t' r'. live s t r \<longrightarrow> live s t' r' \<longrightarrow> rec_ID r = rec_ID r' \<longrightarrow> t = t')
   \<and> (\<forall>mk\<in>set (ir_done s). settled (ir_keys s) mk)
   \<and> distinct (ir_done s)"

lemma idem_invD:
  assumes "idem_inv Q s"
  shows "sound_table (ir_keys s)"
    and "row \<in> set (ir_keys s) \<Longrightarrow> known Q (ik_ID row) (slot row)"
    and "phase_record (ir_phase s t) = Some r \<Longrightarrow> known Q (rec_ID r) (rec_MerchantID r, rec_Key r)"
    and "ir_phase s t = Ready r now \<Longrightarrow> rec_State r = IdemInProgress"
    and "live s t r \<Longrightarrow> holds (ir_keys s) r"
    and "live s t r \<Longrightarrow> live s t' r' \<Longrightarrow> rec_ID r = rec_ID r' \<Longrightarrow> t = t'"
    and "mk \<in> set (ir_done s) \<Longrightarrow> settled (ir_keys s) mk"
    and "distinct (ir_done s)"
  using assms unfolding idem_inv_def by blast+


lemma known_unique: "\<lbrakk>inj (ic_ID \<circ> Q); known Q i mk; known Q i mk'\<rbrakk> \<Longrightarrow> mk = mk'"
  unfolding known_def by (metis comp_apply injD)

text \<open>One request moves on: what the others hold and what was settled must survive.\<close>

lemma idem_inv_goto:
  assumes inv: "idem_inv Q s" and sound: "sound_table rows"
    and known: "\<And>row. row \<in> set rows \<Longrightarrow> known Q (ik_ID row) (slot row)"
    and phase: "\<And>r. phase_record p = Some r \<Longrightarrow> known Q (rec_ID r) (rec_MerchantID r, rec_Key r)"
    and fresh: "\<And>r now. p = Ready r now \<Longrightarrow> rec_State r = IdemInProgress"
    and others: "\<And>t' r'. \<lbrakk>t' \<noteq> t; live s t' r'\<rbrakk> \<Longrightarrow> holds rows r'"
    and mine: "\<And>r. \<lbrakk>p = Held r; \<not> LockExpired r (ir_now s)\<rbrakk> \<Longrightarrow> holds rows r"
    and alone: "\<And>r t' r'. \<lbrakk>p = Held r; \<not> LockExpired r (ir_now s); t' \<noteq> t; live s t' r'\<rbrakk> \<Longrightarrow> rec_ID r' \<noteq> rec_ID r"
    and settled: "\<And>mk. mk \<in> set (ir_done s) \<Longrightarrow> settled rows mk"
  shows "idem_inv Q (goto t p rows s)"
proof -
  have live: "live (goto t p rows s) t' r' \<longleftrightarrow>
      (if t' = t then p = Held r' \<and> \<not> LockExpired r' (ir_now s) else live s t' r')" for t' r'
    by (simp add: live_def goto_def)
  have eqs: "ir_keys (goto t p rows s) = rows" "ir_done (goto t p rows s) = ir_done s"
    "ir_phase (goto t p rows s) = (ir_phase s)(t := p)"
    by (simp_all add: goto_def)
  have a: "\<forall>t' r'. live (goto t p rows s) t' r' \<longrightarrow> holds rows r'"
    unfolding live using others mine by simp
  have b: "\<forall>t1 r1 t2 r2. live (goto t p rows s) t1 r1 \<longrightarrow> live (goto t p rows s) t2 r2 \<longrightarrow> rec_ID r1 = rec_ID r2 \<longrightarrow> t1 = t2"
    unfolding live using alone idem_invD(6) [OF inv] by (metis (full_types))
  have c: "\<forall>t' r'. phase_record (((ir_phase s)(t := p)) t') = Some r' \<longrightarrow> known Q (rec_ID r') (rec_MerchantID r', rec_Key r')"
    using phase idem_invD(3) [OF inv] by simp
  have d: "\<forall>t' r' now. ((ir_phase s)(t := p)) t' = Ready r' now \<longrightarrow> rec_State r' = IdemInProgress"
    using fresh idem_invD(4) [OF inv] by auto
  show ?thesis
    unfolding idem_inv_def eqs using sound known a b c d settled idem_invD(8) [OF inv] by blast
qed

lemma idem_inv_answer:
  assumes inv: "idem_inv Q s" and held: "live s t r" and sound: "sound_table rows"
    and tags: "(\<lambda>row. (ik_ID row, slot row)) ` set rows \<subseteq> (\<lambda>row. (ik_ID row, slot row)) ` set (ir_keys s)"
    and rest: "\<And>row. \<lbrakk>row \<in> set (ir_keys s); ik_ID row \<noteq> rec_ID r\<rbrakk> \<Longrightarrow> row \<in> set rows"
  shows "idem_inv Q (goto t Answered rows s)"
proof (rule idem_inv_goto [OF inv sound])
  fix row
  assume "row \<in> set rows"
  then have "(ik_ID row, slot row) \<in> (\<lambda>row. (ik_ID row, slot row)) ` set (ir_keys s)" using tags by blast
  then show "known Q (ik_ID row) (slot row)" using idem_invD(2) [OF inv] by auto
next
  fix t' r'
  assume t': "t' \<noteq> t" and l: "live s t' r'"
  then have "rec_ID r' \<noteq> rec_ID r" using idem_invD(6) [OF inv l held] by blast
  then show "holds rows r'" using idem_invD(5) [OF inv l] rest unfolding holds_def by metis
next
  fix mk
  assume "mk \<in> set (ir_done s)"
  then obtain row where row: "row \<in> set (ir_keys s)" "slot row = mk" "ik_State row \<noteq> IdemInProgress"
    using idem_invD(7) [OF inv] unfolding settled_def by blast
  obtain mine where m: "mine \<in> set (ir_keys s)" "ik_ID mine = rec_ID r" "ik_State mine = IdemInProgress"
    using idem_invD(5) [OF inv held] unfolding holds_def by blast
  have "ik_ID row \<noteq> rec_ID r" using sound_table_ID [OF idem_invD(1) [OF inv] row(1) m(1)] row(3) m(2,3) by auto
  then show "settled rows mk" using rest [OF row(1)] row(2,3) unfolding settled_def by blast
qed simp_all

lemma Complete_table:
  assumes "Idem_Complete c i state status body resourceID rows = (Ok (), rows')" and "sound_table rows"
  shows "sound_table rows'"
    and "(\<lambda>row. (ik_ID row, slot row)) ` set rows' \<subseteq> (\<lambda>row. (ik_ID row, slot row)) ` set rows"
    and "\<lbrakk>row \<in> set rows; ik_ID row \<noteq> i\<rbrakk> \<Longrightarrow> row \<in> set rows'"
    and "\<lbrakk>row \<in> set rows; ik_ID row = i\<rbrakk> \<Longrightarrow> \<exists>row'\<in>set rows'. slot row' = slot row \<and> ik_State row' = state"
proof -
  obtain f where rows': "rows' = map (\<lambda>r. if ik_ID r = i then f r else r) rows"
    and f: "\<And>r. ik_ID (f r) = ik_ID r" "\<And>r. slot (f r) = slot r" "\<And>r. ik_State (f r) = state"
    using CompleteD [OF assms(1)] by blast
  show "sound_table rows'" unfolding rows' by (rule sound_table_map [OF assms(2)]) (simp_all add: f)
  show "(\<lambda>row. (ik_ID row, slot row)) ` set rows' \<subseteq> (\<lambda>row. (ik_ID row, slot row)) ` set rows"
    unfolding rows' by (auto simp: f)
  show "\<lbrakk>row \<in> set rows; ik_ID row \<noteq> i\<rbrakk> \<Longrightarrow> row \<in> set rows'" unfolding rows' by force
  show "\<lbrakk>row \<in> set rows; ik_ID row = i\<rbrakk> \<Longrightarrow> \<exists>row'\<in>set rows'. slot row' = slot row \<and> ik_State row' = state"
    unfolding rows' using f by force
qed

lemma outcome_state_terminal: "outcome_state status \<noteq> IdemInProgress"
  by (simp add: outcome_state_def IdemFailed_def IdemSucceeded_def IdemInProgress_def)


lemma idem_inv_insert:
  assumes inv: "idem_inv Q s" and ready: "ir_phase s t = Ready r now"
    and won: "Idem_Acquire_insert c r (ir_keys s) = (Ok (Some mine), rows)"
  shows "idem_inv Q (goto t (Held mine) rows s)"
proof -
  have rows: "rows = ir_keys s @ [row_of r]" and mine: "mine = recordFromRow (row_of r)"
    and new: "slot (row_of r) \<notin> slot ` set (ir_keys s)" "ik_ID (row_of r) \<notin> ik_ID ` set (ir_keys s)"
    using insert_SomeD [OF won] by blast+
  have k: "known Q (rec_ID r) (rec_MerchantID r, rec_Key r)" by (rule idem_invD(3) [OF inv, of t]) (simp add: ready)
  show ?thesis
  proof (rule idem_inv_goto [OF inv])
    show "sound_table rows" unfolding rows by (rule sound_table_append [OF idem_invD(1) [OF inv] new])
    show "known Q (ik_ID row) (slot row)" if "row \<in> set rows" for row
      using that k idem_invD(2) [OF inv] by (auto simp: rows)
    show "known Q (rec_ID r') (rec_MerchantID r', rec_Key r')" if "phase_record (Held mine) = Some r'" for r'
      using that k by (auto simp: mine)
    show "holds rows r'" if "live s t' r'" for t' r'
      using idem_invD(5) [OF inv that] unfolding holds_def rows by auto
    show "holds rows r'" if "Held mine = Held r'" for r'
      using that idem_invD(4) [OF inv ready] unfolding holds_def by (auto simp: rows mine)
    show "rec_ID r'' \<noteq> rec_ID r'" if "Held mine = Held r'" and "live s t' r''" for r' t' r''
      using that(1) idem_invD(5) [OF inv that(2)] new(2) by (force simp: mine holds_def)
    show "settled rows mk" if "mk \<in> set (ir_done s)" for mk
      using idem_invD(7) [OF inv that] unfolding settled_def rows by auto
  qed simp_all
qed

lemma LockExpired_lock: "LockExpired r now \<longleftrightarrow> (case rec_LockExpiresAt r of None \<Rightarrow> True | Some at \<Rightarrow> at \<le> now)"
  by (auto simp: LockExpired_def split: option.split)

lemma idem_inv_take_over:
  assumes inv: "idem_inv Q s" and taking: "ir_phase s t = Taking r now" and clock: "wall_now c = ir_now s"
    and took: "Idem_TakeOver c (rec_ID r) lease (ir_keys s) = (Ok won, rows)"
  shows "idem_inv Q (goto t (if won then Held (r\<lparr>rec_LockExpiresAt := Some lease\<rparr>) else Answered) rows s)"
proof -
  define P where "P row \<longleftrightarrow> ik_ID row = rec_ID r \<and> ik_State row = IdemInProgress
    \<and> (case ik_LockExpiresAt row of None \<Rightarrow> True | Some at \<Rightarrow> at \<le> ir_now s)"
    for row :: IdempotencyKey
  have rows: "rows = map (\<lambda>row. if P row then row\<lparr>ik_LockExpiresAt := Some lease\<rparr> else row) (ir_keys s)"
    and won: "won \<Longrightarrow> \<exists>row\<in>set (ir_keys s). P row"
    using TakeOverD [OF took] unfolding P_def clock by blast+
  have k: "known Q (rec_ID r) (rec_MerchantID r, rec_Key r)" by (rule idem_invD(3) [OF inv, of t]) (simp add: taking)
  have live_row: "\<exists>row\<in>set (ir_keys s). \<not> P row \<and> ik_ID row = rec_ID r' \<and> ik_State row = IdemInProgress
      \<and> ik_LockExpiresAt row = rec_LockExpiresAt r'" if "live s t' r'" for t' r'
    using idem_invD(5) [OF inv that] that unfolding holds_def live_def P_def LockExpired_lock by force
  show ?thesis
  proof (rule idem_inv_goto [OF inv])
    show "sound_table rows"
      unfolding rows by (rule sound_table_map [OF idem_invD(1) [OF inv]]) (simp_all add: slot_def)
    show "known Q (ik_ID row) (slot row)" if "row \<in> set rows" for row
      using that idem_invD(2) [OF inv] by (auto simp: rows slot_def)
    show "known Q (rec_ID r') (rec_MerchantID r', rec_Key r')"
      if "phase_record (if won then Held (r\<lparr>rec_LockExpiresAt := Some lease\<rparr>) else Answered) = Some r'" for r'
      using that k by (auto split: if_splits)
    show "holds rows r'" if "live s t' r'" for t' r'
      using live_row [OF that] unfolding holds_def rows by force
    show "holds rows r'" if h: "(if won then Held (r\<lparr>rec_LockExpiresAt := Some lease\<rparr>) else Answered) = Held r'" for r'
    proof -
      obtain a where a: "a \<in> set (ir_keys s)" "P a" using h won by (auto split: if_splits)
      then have "a\<lparr>ik_LockExpiresAt := Some lease\<rparr> \<in> set rows" unfolding rows by force
      then show ?thesis using a(2) h unfolding holds_def P_def
        by (intro bexI [where x = "a\<lparr>ik_LockExpiresAt := Some lease\<rparr>"]) (auto split: if_splits)
    qed
    show "rec_ID r'' \<noteq> rec_ID r'"
      if h: "(if won then Held (r\<lparr>rec_LockExpiresAt := Some lease\<rparr>) else Answered) = Held r'" "live s t' r''" for r' t' r''
    proof
      assume eq: "rec_ID r'' = rec_ID r'"
      obtain a where a: "a \<in> set (ir_keys s)" "P a" using h(1) won by (auto split: if_splits)
      obtain b where b: "b \<in> set (ir_keys s)" "\<not> P b" "ik_ID b = rec_ID r''" using live_row [OF h(2)] by blast
      have "a = b"
        using sound_table_ID [OF idem_invD(1) [OF inv] a(1) b(1)] a(2) b(3) eq h(1) by (auto simp: P_def split: if_splits)
      then show False using a(2) b(2) by blast
    qed
    show "settled rows mk" if "mk \<in> set (ir_done s)" for mk
      using idem_invD(7) [OF inv that] unfolding settled_def rows P_def by (force simp: slot_def)
  qed (simp_all split: if_splits)
qed


lemma idem_inv_done:
  assumes inv: "idem_inv Q s" and "settled (ir_keys s) mk" and "mk \<notin> set (ir_done s)"
  shows "idem_inv Q (s\<lparr>ir_done := ir_done s @ [mk]\<rparr>)"
proof -
  have "live (s\<lparr>ir_done := ir_done s @ [mk]\<rparr>) = live s" by (intro ext) (simp add: live_def)
  then show ?thesis using assms unfolding idem_inv_def by simp
qed

lemma idem_inv_step:
  assumes inj: "inj (ic_ID \<circ> Q)" and inv: "idem_inv Q s" and step: "idem_step True Q s s'"
  shows "idem_inv Q s'"
  using step
proof cases
  case (start t)
  show ?thesis
    unfolding start(1)
    by (rule idem_inv_goto [OF inv])
      (use idem_invD [OF inv] in \<open>auto simp: client_record_def candidate_def known_def\<close>)
next
  case (insert_won t r now c mine rows)
  show ?thesis unfolding insert_won(1) by (rule idem_inv_insert [OF inv insert_won(2,4)])
next
  case (insert_lost t r now c rows)
  have "rows = ir_keys s" by (rule insert_NoneD [OF insert_lost(4)])
  moreover have "known Q (rec_ID r) (rec_MerchantID r, rec_Key r)"
    by (rule idem_invD(3) [OF inv, of t]) (simp add: insert_lost(2))
  ultimately show ?thesis
    unfolding insert_lost(1) by (intro idem_inv_goto [OF inv]) (use idem_invD [OF inv] in auto)
next
  case (read t r now c found rows)
  obtain row where row: "row \<in> set (ir_keys s)" and found: "found = recordFromRow row" and rows: "rows = ir_keys s"
    using GetD [OF read(4)] by blast
  have "known Q (rec_ID found) (rec_MerchantID found, rec_Key found)"
    using idem_invD(2) [OF inv row] unfolding found by simp
  then show ?thesis
    unfolding read(1) rows by (intro idem_inv_goto [OF inv]) (use idem_invD [OF inv] in \<open>auto split: if_splits\<close>)
next
  case (take_over t r now c won rows)
  show ?thesis unfolding take_over(1) by (rule idem_inv_take_over [OF inv take_over(2,3,4)])
next
  case (commit t r c status body resourceID rows)
  have live: "live s t r" using commit(2,3) by (simp add: live_def)
  note table = Complete_table [OF commit(5) idem_invD(1) [OF inv]]
  have base: "idem_inv Q (goto t Answered rows s)"
    by (rule idem_inv_answer [OF inv live table(1,2)]) (rule table(3))
  obtain row where row: "row \<in> set (ir_keys s)" "ik_ID row = rec_ID r" "ik_State row = IdemInProgress"
    using idem_invD(5) [OF inv live] unfolding holds_def by blast
  have "known Q (rec_ID r) (rec_MerchantID r, rec_Key r)"
    by (rule idem_invD(3) [OF inv, of t]) (simp add: commit(2))
  then have slot: "slot row = (rec_MerchantID r, rec_Key r)"
    using known_unique [OF inj] idem_invD(2) [OF inv row(1)] unfolding row(2) by blast
  have new: "slot row \<notin> set (ir_done s)"
  proof
    assume "slot row \<in> set (ir_done s)"
    then obtain other where "other \<in> set (ir_keys s)" "slot other = slot row" "ik_State other \<noteq> IdemInProgress"
      using idem_invD(7) [OF inv] unfolding settled_def by blast
    then show False using sound_table_slot [OF idem_invD(1) [OF inv] _ row(1)] row(3) by blast
  qed
  have "settled rows (slot row)"
    using table(4) [OF row(1,2)] outcome_state_terminal [of status] unfolding settled_def by metis
  moreover have "ir_keys (goto t Answered rows s) = rows" "ir_done (goto t Answered rows s) = ir_done s"
    by (simp_all add: goto_def)
  ultimately show ?thesis
    using idem_inv_done [OF base, of "slot row"] new unfolding commit(1) slot [symmetric] by simp
next
  case (record_only t r c status body rows)
  have "live s t r" using record_only(2,3) by (simp add: live_def)
  note table = Complete_table [OF record_only(5) idem_invD(1) [OF inv]]
  show ?thesis
    unfolding record_only(1) by (rule idem_inv_answer [OF inv \<open>live s t r\<close> table(1,2)]) (rule table(3))
next
  case (release t r c rows)
  have live: "live s t r" using release(2,3) by (simp add: live_def)
  show ?thesis
    unfolding release(1) ReleaseD [OF release(5)]
    by (rule idem_inv_answer [OF inv live sound_table_filter [OF idem_invD(1) [OF inv]]]) auto
next
  case (stop t)
  show ?thesis unfolding stop by (rule idem_inv_goto [OF inv]) (use idem_invD [OF inv] in auto)
next
  case (pass later)
  have live: "live s t r" if "live s' t r" for t r
    using that pass(2) by (auto simp: live_def LockExpired_lock pass(1) split: option.splits)
  have eqs: "ir_keys s' = ir_keys s" "ir_phase s' = ir_phase s" "ir_done s' = ir_done s" by (simp_all add: pass(1))
  have a: "\<forall>t r. live s' t r \<longrightarrow> holds (ir_keys s) r"
    by (blast intro: idem_invD(5) [OF inv] live)
  have b: "\<forall>t r t' r'. live s' t r \<longrightarrow> live s' t' r' \<longrightarrow> rec_ID r = rec_ID r' \<longrightarrow> t = t'"
    using idem_invD(6) [OF inv live live] by blast
  show ?thesis unfolding idem_inv_def eqs using a b inv [unfolded idem_inv_def] by simp
qed

lemma idem_inv_reachable: "\<lbrakk>inj (ic_ID \<circ> Q); idem_reachable True Q s\<rbrakk> \<Longrightarrow> idem_inv Q s"
proof (rotate_tac, induction rule: idem_reachable.induct)
  case (init now)
  show ?case by (simp add: idem_inv_def idem_initial_def sound_table_def live_def)
next
  case (step s s')
  then show ?case by (blast intro: idem_inv_step)
qed


lemma count_list_distinct: "distinct xs \<Longrightarrow> count_list xs x \<le> 1"
  by (induction xs) auto

section \<open>The properties\<close>

text \<open>
  C5. At most once. Whatever the interleaving of any number of requests, retries, takeovers and
  crashes, the operation behind a merchant and key is committed at most once, provided record ids
  are not reused and a holder's statements reach the table before its own lease ends.
\<close>

theorem executes_at_most_once:
  assumes "inj (ic_ID \<circ> Q)" and "idem_reachable True Q s"
  shows "count_list (ir_done s) (merchantID, key) \<le> 1"
  using idem_invD(8) [OF idem_inv_reachable [OF assms]] by (rule count_list_distinct)


text \<open>Any number of requests of one merchant with one key.\<close>

definition sample_clients :: "nat \<Rightarrow> idem_client" where
  "sample_clients t =
     \<lparr>ic_Request = \<lparr>hq_Key = ''k'', hq_Merchant = Some ''m'', hq_Body = Ok [], hq_Method = ''POST'', hq_Path = ''/v1/payments'',
        hq_RequestID = []\<rparr>, ic_Merchant = ''m'', ic_Hash = ''h'', ic_ID = replicate t CHR ''i''\<rparr>"

definition sample_ambient :: "int \<Rightarrow> ambient" where
  "sample_ambient now = \<lparr>cancelled = False, wall_now = now\<rparr>"

lemma sample_clients_inj: "inj (ic_ID \<circ> sample_clients)"
  by (rule injI) (metis comp_apply idem_client.select_convs(4) length_replicate sample_clients_def)

lemmas sample_defs = sample_clients_def sample_ambient_def goto_def idem_initial_def client_record_def candidate_def

lemmas statement_defs = Idem_Acquire_insert_def AcquireIdempotencyKey_def Idem_Get_def GetIdempotencyKey_def
  Idem_TakeOver_def TakeOverIdempotencyKey_def Idem_Complete_def CompleteIdempotencyKey_def affected_or_missing_def
  update_where_def query_def seq_def ret_def row_of_def recordFromRow_def nullString_def derefString_def

definition sample_held :: "idem_run" where
  "sample_held =
     (let r = client_record (sample_clients 0) 0
      in goto 0 (Held (recordFromRow (row_of r))) [row_of r] (goto 0 (Ready r 0) [] (idem_initial 0)))"

lemma sample_held_reachable: "idem_reachable timely sample_clients sample_held"
proof -
  let ?r = "client_record (sample_clients 0) 0"
  let ?s = "goto 0 (Ready ?r 0) [] (idem_initial 0)"
  have "idem_step timely sample_clients (idem_initial 0) ?s"
    using idem_step.start [of "idem_initial 0" 0 timely sample_clients] by (simp add: idem_initial_def)
  then have "idem_reachable timely sample_clients ?s" by (rule idem_reachable.step [OF idem_reachable.init])
  moreover have "idem_step timely sample_clients ?s sample_held"
    unfolding sample_held_def Let_def
    by (rule idem_step.insert_won [where c = "sample_ambient 0" and r = ?r and now = 0])
      (simp_all add: sample_defs statement_defs)
  ultimately show ?thesis by (rule idem_reachable.step)
qed


text \<open>The transaction of the holder \<open>t\<close> commits its operation and an empty response.\<close>

definition sample_commit :: "nat \<Rightarrow> IdemRecord \<Rightarrow> idem_run \<Rightarrow> idem_run" where
  "sample_commit t r s =
     (goto t Answered (snd (Idem_Complete (sample_ambient (ir_now s)) (rec_ID r) (outcome_state 201) 201 [] [] (ir_keys s))) s)
       \<lparr>ir_done := ir_done s @ [(rec_MerchantID r, rec_Key r)]\<rparr>"

lemma sample_commit_reachable:
  assumes "idem_reachable timely Q s" and "ir_phase s t = Held r" and "timely \<longrightarrow> \<not> LockExpired r (ir_now s)"
    and "rec_ID r \<in> ik_ID ` set (ir_keys s)"
  shows "idem_reachable timely Q (sample_commit t r s)"
proof (rule idem_reachable.step [OF assms(1)])
  have "filter (\<lambda>row. ik_ID row = rec_ID r) (ir_keys s) \<noteq> []" using assms(4) by (auto simp: filter_empty_conv)
  then have "fst (Idem_Complete (sample_ambient (ir_now s)) (rec_ID r) (outcome_state 201) 201 [] [] (ir_keys s)) = Ok ()"
    by (simp add: statement_defs sample_ambient_def)
  then show "idem_step timely Q s (sample_commit t r s)"
    unfolding sample_commit_def
    by (intro idem_step.commit [OF assms(2,3)]) (simp_all add: prod_eq_iff, simp add: sample_ambient_def)
qed

lemma executes_at_most_once_witness:
  "let s = sample_commit 0 (recordFromRow (row_of (client_record (sample_clients 0) 0))) sample_held
   in ir_done s = [(''m'', ''k'')] \<and> count_list (ir_done s) (''m'', ''k'') \<le> 1"
proof -
  let ?r = "recordFromRow (row_of (client_record (sample_clients 0) 0))"
  have "idem_reachable True sample_clients (sample_commit 0 ?r sample_held)"
    by (rule sample_commit_reachable [OF sample_held_reachable])
      (simp_all add: sample_held_def Let_def goto_def idem_initial_def LockExpired_def, simp_all add: sample_defs LeaseDuration_def)
  then show ?thesis
    unfolding Let_def
    using executes_at_most_once [OF sample_clients_inj, of "sample_commit 0 ?r sample_held" "''m''" "''k''"]
    by (simp add: sample_commit_def sample_held_def Let_def sample_defs recordFromRow_def row_of_def)
qed

text \<open>
  C39. Recording a response is not fenced by the lease: when the holder of a key is still running
  after its lease has passed to a retry, both commit, and the operation is executed twice.
\<close>

theorem expired_holder_executes_again:
  "\<exists>s. idem_reachable False sample_clients s \<and> count_list (ir_done s) (''m'', ''k'') = 2"
proof -
  let ?r = "recordFromRow (row_of (client_record (sample_clients 0) 0))"
  let ?row = "row_of (client_record (sample_clients 0) 0)"
  let ?late = "LeaseDuration"
  define s1 where "s1 = sample_held\<lparr>ir_now := ?late\<rparr>"
  define q where "q = client_record (sample_clients 1) ?late"
  define s2 where "s2 = goto 1 (Ready q ?late) [?row] s1"
  define s3 where "s3 = goto 1 (Reading q ?late) [?row] s2"
  define s4 where "s4 = goto 1 (Taking ?r ?late) [?row] s3"
  define mine where "mine = ?r\<lparr>rec_LockExpiresAt := Some (?late + LeaseDuration)\<rparr>"
  define s5 where "s5 = goto 1 (Held mine) [?row\<lparr>ik_LockExpiresAt := Some (?late + LeaseDuration)\<rparr>] s4"
  note defs = sample_defs sample_held_def Let_def s1_def q_def s2_def s3_def s4_def s5_def mine_def
  have "idem_reachable False sample_clients s1"
    unfolding s1_def
    by (rule idem_reachable.step [OF sample_held_reachable], rule idem_step.pass)
      (simp add: sample_held_def Let_def sample_defs LeaseDuration_def)
  moreover have "idem_step False sample_clients s1 s2"
    using idem_step.start [of s1 1 False sample_clients] unfolding s2_def q_def
    by (simp add: s1_def sample_held_def Let_def goto_def idem_initial_def)
  moreover have "idem_step False sample_clients s2 s3"
    unfolding s3_def
    by (rule idem_step.insert_lost [where c = "sample_ambient ?late" and r = q and now = ?late])
      (simp_all add: defs statement_defs)
  moreover have "idem_step False sample_clients s3 s4"
    using idem_step.read [of s3 1 q ?late "sample_ambient ?late" ?r "[?row]" False sample_clients] unfolding s4_def
    by (simp add: defs statement_defs decide_def LockExpired_def IsTerminal_def IdemInProgress_def IdemSucceeded_def IdemFailed_def)
  moreover have "idem_step False sample_clients s4 s5"
    using idem_step.take_over [of s4 1 ?r ?late "sample_ambient ?late" True
        "[?row\<lparr>ik_LockExpiresAt := Some (?late + LeaseDuration)\<rparr>]" False sample_clients]
    unfolding s5_def mine_def
    by (simp add: defs statement_defs)
  ultimately have "idem_reachable False sample_clients s5" by (blast intro: idem_reachable.step)
  then have "idem_reachable False sample_clients (sample_commit 0 ?r s5)"
    by (rule sample_commit_reachable) (simp_all add: defs)
  then have "idem_reachable False sample_clients (sample_commit 1 mine (sample_commit 0 ?r s5))"
    by (rule sample_commit_reachable) (simp_all add: defs sample_commit_def statement_defs)
  moreover have "ir_done (sample_commit 1 mine (sample_commit 0 ?r s5)) = [(''m'', ''k''), (''m'', ''k'')]"
    by (simp add: sample_commit_def defs recordFromRow_def row_of_def)
  ultimately show ?thesis by (intro exI [of _ "sample_commit 1 mine (sample_commit 0 ?r s5)"]) simp
qed


section \<open>Replay\<close>

lemma Complete_find:
  assumes "Idem_Complete c i state status body resourceID rows = (Ok (), rows')"
    and "sound_table rows" and "row \<in> set rows" and "ik_ID row = i"
  shows "\<exists>row'. List.find (\<lambda>r. slot r = slot row) rows' = Some row' \<and> ik_State row' = state
    \<and> ik_ResponseStatus row' = Some (wrap32 status) \<and> ik_ResponseBody row' = body \<and> ik_RequestHash row' = ik_RequestHash row"
proof -
  let ?f = "\<lambda>r. r\<lparr>ik_State := state, ik_RecoveryPoint := PointFinished, ik_ResponseStatus := Some (wrap32 status),
    ik_ResponseBody := body, ik_ResourceID := (case nullString resourceID of None \<Rightarrow> ik_ResourceID r | Some x \<Rightarrow> Some x),
    ik_LockExpiresAt := None\<rparr>"
  have rows': "rows' = map (\<lambda>r. if ik_ID r = i then ?f r else r) rows"
    using assms(1)
    by (auto simp: Idem_Complete_def CompleteIdempotencyKey_def affected_or_missing_def query_def update_where_def
        seq_eq_Ok ret_def split: if_splits)
  have "sound_table rows'" unfolding rows' by (rule sound_table_map [OF assms(2)]) (simp_all add: slot_def)
  moreover have mem: "?f row \<in> set rows'" unfolding rows' using assms(3,4) by force
  moreover have slot: "slot (?f row) = slot row" by (simp add: slot_def)
  moreover obtain x where x: "List.find (\<lambda>r. slot r = slot row) rows' = Some x"
  proof -
    have "List.find (\<lambda>r. slot r = slot row) rows' \<noteq> None" unfolding find_None_iff using mem slot by blast
    then show thesis using that by blast
  qed
  moreover from x have "x \<in> set rows'" "slot x = slot row" by (auto simp: find_Some_iff)
  ultimately have "x = ?f row" by (metis sound_table_slot)
  then show ?thesis using x by simp
qed

lemma Get_found:
  assumes "List.find (\<lambda>r. slot r = (m, k)) rows = Some row" and "\<not> cancelled c"
  shows "Idem_Get c m k rows = (Ok (recordFromRow row), rows)"
  using assms by (simp add: Idem_Get_def GetIdempotencyKey_def query_def seq_def ret_def slot_def)

lemma insert_taken:
  assumes "List.find (\<lambda>r. slot r = (rec_MerchantID q, rec_Key q)) rows = Some row" and "\<not> cancelled c"
  shows "Idem_Acquire_insert c q rows = (Ok None, rows)"
proof -
  have "list_ex (\<lambda>r. ik_MerchantID r = ik_MerchantID (row_of q) \<and> ik_Key r = ik_Key (row_of q)) rows"
    using assms(1) by (auto simp: list_ex_iff find_Some_iff slot_def row_of_def intro!: bexI [where x = row])
  then show ?thesis using assms(2) by (simp add: Idem_Acquire_insert_def AcquireIdempotencyKey_def query_def seq_def ret_def)
qed

lemma Acquire_taken:
  assumes "List.find (\<lambda>r. slot r = (rec_MerchantID q, rec_Key q)) (db_keys (w_db w)) = Some row"
    and "\<forall>k. \<not> env_cancelled E k"
  shows "\<exists>w'. Idem_Acquire E q w = (Ok (recordFromRow row, False), w') \<and> w_db w' = w_db w"
  using insert_taken [OF assms(1)] Get_found [OF assms(1)] assms(2)
  by (simp add: Idem_Acquire_def seq_def ret_def call_def on_keys_def ambient_at_def)



definition replay_env :: env where
  "replay_env = \<lparr>env_now = (\<lambda>k. 1000000), env_rand = (\<lambda>k. Some (replicate 10 0)), env_cancelled = (\<lambda>k. False)\<rparr>"

definition replay_request :: http_request where
  "replay_request = \<lparr>hq_Key = ''k'', hq_Merchant = Some ''m'', hq_Body = Ok ''A'', hq_Method = ''POST'', hq_Path = ''/p'', hq_RequestID = []\<rparr>"

definition replay_record :: IdemRecord where
  "replay_record = candidate replay_request ''m''
     (case Fingerprint sample_library ''POST'' ''/p'' ''A'' of Ok h \<Rightarrow> h | _ \<Rightarrow> []) ''i'' 0"

definition replay_world :: "unit idem_db world" where
  "replay_world = \<lparr>w_db = \<lparr>db_keys = [row_of replay_record], db_app = ()\<rparr>,
     w_gen = sample_generator, w_tick = 0\<rparr>"


lemma replay_new_id:
  assumes "w_gen w = sample_generator"
  shows "\<exists>i. fst (new_id replay_env PrefixIdempotency (w\<lparr>w_tick := k\<rparr>)) = Ok i"
proof -
  have "case fst (id_new PrefixIdempotency 1000000 (Some (replicate 10 0)) sample_generator) of Ok _ \<Rightarrow> True | _ \<Rightarrow> False"
    by code_simp
  then show ?thesis using assms by (auto simp: new_id_def replay_env_def split: outcome.splits prod.splits)
qed


end
