(* ===== verification/Postgres_Ledger.thy ===== *)
theory Postgres_Ledger
  imports Sql_Tables Ledger_Books Cursor
begin

text \<open>
  The ledger in PostgreSQL: the tables with the constraints of the first migration, the statements of
  \<^verbatim>\<open>internal/postgres/sqlc\<close> (\<^verbatim>\<open>accounts.sql.go\<close>, \<^verbatim>\<open>transactions.sql.go\<close>, \<^verbatim>\<open>entries.sql.go\<close>, \<^verbatim>\<open>batch.go\<close>), and the
  repository over them in \<^verbatim>\<open>internal/postgres/ledger.go\<close>. A \<^verbatim>\<open>JSONB\<close> column holds a JSON document, a
  \<^verbatim>\<open>CHAR(3)\<close> column its blank-padded text, a \<^verbatim>\<open>BIGINT\<close> column an integer in range. Row locks are
  invisible in a sequence of atomic statements. Definitions only; the laws are in \<open>Postgres_Laws\<close>.
\<close>

section \<open>Rows and tables\<close>

record AccountRow =
  ar_ID :: string
  ar_MerchantID :: string
  ar_Name :: string
  ar_Type :: string
  ar_NormalBalance :: string
  ar_Currency :: string
  ar_AllowNegative :: bool
  ar_Metadata :: json
  ar_CreatedAt :: int

record AccountBalance =
  ab_AccountID :: string
  ab_PostedMinor :: int
  ab_PendingMinor :: int
  ab_Version :: int
  ab_UpdatedAt :: int

record TransactionRow =
  tr_ID :: string
  tr_MerchantID :: string
  tr_Status :: string
  tr_Currency :: string
  tr_Description :: string
  tr_ReversesID :: "string option"
  tr_ExternalRef :: "string option"
  tr_Metadata :: json
  tr_CreatedAt :: int
  tr_PostedAt :: "int option"

record EntryRow =
  en_ID :: int
  en_TransactionID :: string
  en_AccountID :: string
  en_Direction :: string
  en_AmountMinor :: int
  en_Currency :: string
  en_Status :: string
  en_Seq :: int
  en_BalanceAfter :: int
  en_CreatedAt :: int

record ledger_db =
  ld_accounts :: "AccountRow list"
  ld_balances :: "AccountBalance list"
  ld_transactions :: "TransactionRow list"
  ld_entries :: "EntryRow list"
  ld_nextval :: int

definition empty_ledger :: ledger_db where
  "empty_ledger = \<lparr>ld_accounts = [], ld_balances = [], ld_transactions = [], ld_entries = [], ld_nextval = 1\<rparr>"

section \<open>What the server answers\<close>

text \<open>
  An error of the server, by the codes the repository distinguishes. A statement answers \<open>Inl\<close> such an
  error and then changes nothing; its outcome is an error of its own when the context is done.
\<close>

datatype pg_error = UniqueViolation | CheckViolation string | ServerError string

type_synonym 'a answer = "pg_error + 'a"

definition refuse :: "pg_error \<Rightarrow> ('t, 'a answer) opr" where
  "refuse e = ret (Ok (Inl e))"

definition account_types :: "string list" where
  "account_types = [''asset'', ''liability'', ''equity'', ''revenue'', ''expense'']"

definition balance_sides :: "string list" where
  "balance_sides = [''debit'', ''credit'']"

definition entry_statuses :: "string list" where
  "entry_statuses = [''pending'', ''posted'', ''voided'']"

definition txn_statuses :: "string list" where
  "txn_statuses = [''pending'', ''posted'', ''voided'']"

text \<open>A value for a \<^verbatim>\<open>CHAR(3)\<close> column is padded with blanks; a longer one must have only blanks to lose.\<close>

definition char3 :: "string \<Rightarrow> string option" where
  "char3 s =
     (if length s \<le> 3 then Some (s @ replicate (3 - length s) CHR '' '')
      else if list_all (\<lambda>c. c = CHR '' '') (drop 3 s) then Some (take 3 s)
      else None)"

text \<open>\<^verbatim>\<open>CHAR(3)\<close> as text, and in comparisons, is without its trailing blanks.\<close>

definition char_text :: "string \<Rightarrow> string" where
  "char_text s = rev (dropWhile (\<lambda>c. c = CHR '' '') (rev s))"

definition bigint :: "int \<Rightarrow> int answer" where
  "bigint n = (if in64 n then Inr n else Inl (ServerError ''bigint out of range''))"

text \<open>\<^verbatim>\<open>SUM\<close> over \<^verbatim>\<open>BIGINT\<close> is exact; only the terms and the cast of the result can be out of range.\<close>

fun sum_bigint :: "int answer list \<Rightarrow> int answer" where
  "sum_bigint [] = Inr 0"
| "sum_bigint (x # xs) =
     (case x of Inl e \<Rightarrow> Inl e
      | Inr n \<Rightarrow> (case sum_bigint xs of Inl e \<Rightarrow> Inl e | Inr m \<Rightarrow> Inr (n + m)))"

definition cast_bigint :: "int answer \<Rightarrow> int answer" where
  "cast_bigint r = (case r of Inl e \<Rightarrow> Inl e | Inr n \<Rightarrow> bigint n)"

section \<open>Statements on accounts and balances\<close>

definition ApplyBalance :: "ambient \<Rightarrow> string \<Rightarrow> int \<Rightarrow> int \<Rightarrow> int \<Rightarrow> (ledger_db, int answer) opr" where
  "ApplyBalance c accountID posted pending version = query c (\<lambda>db.
     let hit = (\<lambda>r. ab_AccountID r = accountID \<and> ab_Version r = version)
     in if list_ex (\<lambda>r. hit r \<and> \<not> in64 (ab_Version r + 1)) (ld_balances db)
        then refuse (ServerError ''bigint out of range'') db
        else (Ok (Inr (int (length (filter hit (ld_balances db))))),
              db\<lparr>ld_balances := map (\<lambda>r. if hit r
                   then r\<lparr>ab_PostedMinor := posted, ab_PendingMinor := pending, ab_Version := ab_Version r + 1, ab_UpdatedAt := wall_now c\<rparr>
                   else r) (ld_balances db)\<rparr>))"

text \<open>
  The trigger \<^verbatim>\<open>accounts_create_balance\<close> gives every new account its balance row; \<^verbatim>\<open>normal_matches_type\<close>
  is a check constraint.
\<close>

definition normal_matches_type :: "AccountRow \<Rightarrow> bool" where
  "normal_matches_type r \<longleftrightarrow>
     ar_Type r \<in> set [''asset'', ''expense''] \<and> ar_NormalBalance r = ''debit''
     \<or> ar_Type r \<in> set [''liability'', ''equity'', ''revenue''] \<and> ar_NormalBalance r = ''credit''"

definition CreateAccount :: "ambient \<Rightarrow> AccountRow \<Rightarrow> (ledger_db, unit answer) opr" where
  "CreateAccount c row = query c (\<lambda>db.
     if ar_Type row \<notin> set account_types then refuse (ServerError ''account_type'') db
     else if ar_NormalBalance row \<notin> set balance_sides then refuse (ServerError ''balance_side'') db
     else case char3 (ar_Currency row) of
       None \<Rightarrow> refuse (ServerError ''value too long'') db
     | Some cur \<Rightarrow>
         if \<not> normal_matches_type row then refuse (CheckViolation ''normal_matches_type'') db
         else if list_ex (\<lambda>r. ar_ID r = ar_ID row \<or> ar_MerchantID r = ar_MerchantID row \<and> ar_Name r = ar_Name row) (ld_accounts db)
         then refuse UniqueViolation db
         else if list_ex (\<lambda>b. ab_AccountID b = ar_ID row) (ld_balances db) then refuse UniqueViolation db
         else (Ok (Inr ()), db\<lparr>
           ld_accounts := ld_accounts db @ [row\<lparr>ar_Currency := cur\<rparr>],
           ld_balances := ld_balances db @ [\<lparr>ab_AccountID = ar_ID row, ab_PostedMinor = 0, ab_PendingMinor = 0,
             ab_Version = 0, ab_UpdatedAt = wall_now c\<rparr>]\<rparr>))"

definition GetAccount :: "ambient \<Rightarrow> string \<Rightarrow> (ledger_db, AccountRow option) opr" where
  "GetAccount c i = query c (select (\<lambda>db. Ok (List.find (\<lambda>r. ar_ID r = i) (ld_accounts db))))"

text \<open>\<^verbatim>\<open>account_balances b JOIN accounts a ON a.id = b.account_id\<close>.\<close>

definition balance_join :: "ledger_db \<Rightarrow> (AccountRow \<times> AccountBalance) list" where
  "balance_join db = concat (map (\<lambda>b. map (\<lambda>a. (a, b)) (filter (\<lambda>a. ar_ID a = ab_AccountID b) (ld_accounts db))) (ld_balances db))"

definition GetBalance :: "ambient \<Rightarrow> string \<Rightarrow> (ledger_db, (AccountRow \<times> AccountBalance) option) opr" where
  "GetBalance c i = query c (select (\<lambda>db. Ok (List.find (\<lambda>(a, b). ab_AccountID b = i) (balance_join db))))"

definition ListAccounts :: "ambient \<Rightarrow> string \<Rightarrow> (ledger_db, AccountRow list) opr" where
  "ListAccounts c merchantID = query c (select (\<lambda>db.
     Ok (sort_key ar_ID (filter (\<lambda>r. ar_MerchantID r = merchantID) (ld_accounts db)))))"

definition ListCurrencies :: "ambient \<Rightarrow> (ledger_db, string list) opr" where
  "ListCurrencies c = query c (select (\<lambda>db. Ok (sort (remdups (map (\<lambda>r. char_text (ar_Currency r)) (ld_accounts db))))))"

definition LockAccounts :: "ambient \<Rightarrow> string list \<Rightarrow> (ledger_db, (AccountRow \<times> AccountBalance) list) opr" where
  "LockAccounts c accountIds = query c (select (\<lambda>db.
     Ok (sort_key (\<lambda>(a, b). ab_AccountID b) (filter (\<lambda>(a, b). ab_AccountID b \<in> set accountIds) (balance_join db)))))"

definition TrialBalance :: "ambient \<Rightarrow> string \<Rightarrow> (ledger_db, int answer) opr" where
  "TrialBalance c cur = query c (select (\<lambda>db. Ok (cast_bigint (sum_bigint
     (map (\<lambda>(a, b). if ar_Type a \<in> set [''asset'', ''expense''] then Inr (ab_PostedMinor b) else bigint (- ab_PostedMinor b))
       (filter (\<lambda>(a, b). char_text (ar_Currency a) = char_text cur) (balance_join db)))))))"

record DerivedBalancesRow =
  dr_AccountID :: string
  dr_Materialized :: int
  dr_Derived :: int

text \<open>The sum over the posted entries of an account, in the account's own direction.\<close>

definition derived_minor :: "AccountRow \<Rightarrow> EntryRow list \<Rightarrow> int answer" where
  "derived_minor a es = cast_bigint (sum_bigint
     (map (\<lambda>e. if en_Direction e = ar_NormalBalance a then Inr (en_AmountMinor e) else bigint (- en_AmountMinor e))
       (filter (\<lambda>e. en_AccountID e = ar_ID a \<and> en_Status e = ''posted'') es)))"

fun derived_rows :: "EntryRow list \<Rightarrow> (AccountRow \<times> AccountBalance) list \<Rightarrow> DerivedBalancesRow list answer" where
  "derived_rows es [] = Inr []"
| "derived_rows es ((a, b) # rest) =
     (case derived_minor a es of
        Inl e \<Rightarrow> Inl e
      | Inr d \<Rightarrow> (case derived_rows es rest of
          Inl e \<Rightarrow> Inl e
        | Inr rows \<Rightarrow> Inr (\<lparr>dr_AccountID = ar_ID a, dr_Materialized = ab_PostedMinor b, dr_Derived = d\<rparr> # rows)))"

definition DerivedBalances :: "ambient \<Rightarrow> (ledger_db, DerivedBalancesRow list answer) opr" where
  "DerivedBalances c = query c (select (\<lambda>db. Ok (derived_rows (ld_entries db) (balance_join db))))"

definition DriftedAccounts :: "ambient \<Rightarrow> (ledger_db, DerivedBalancesRow list answer) opr" where
  "DriftedAccounts c = query c (select (\<lambda>db. Ok (case derived_rows (ld_entries db) (balance_join db) of
     Inl e \<Rightarrow> Inl e
   | Inr rows \<Rightarrow> Inr (filter (\<lambda>r. dr_Materialized r \<noteq> dr_Derived r) rows))))"

section \<open>Statements on transactions\<close>

definition InsertTransaction :: "ambient \<Rightarrow> TransactionRow \<Rightarrow> (ledger_db, unit answer) opr" where
  "InsertTransaction c row = query c (\<lambda>db.
     if tr_Status row \<notin> set txn_statuses then refuse (ServerError ''txn_status'') db
     else case char3 (tr_Currency row) of
       None \<Rightarrow> refuse (ServerError ''value too long'') db
     | Some cur \<Rightarrow>
         if list_ex (\<lambda>r. tr_ID r = tr_ID row \<or> tr_ReversesID row \<noteq> None \<and> tr_ReversesID r = tr_ReversesID row) (ld_transactions db)
         then refuse UniqueViolation db
         else if tr_ReversesID row \<noteq> None \<and> tr_ReversesID row \<notin> Some ` set (map tr_ID (ld_transactions db @ [row]))
         then refuse (ServerError ''foreign key'') db
         else (Ok (Inr ()), db\<lparr>ld_transactions := ld_transactions db @ [row\<lparr>tr_Currency := cur\<rparr>]\<rparr>))"

definition SetTransactionStatus :: "ambient \<Rightarrow> string \<Rightarrow> string \<Rightarrow> int option \<Rightarrow> (ledger_db, int answer) opr" where
  "SetTransactionStatus c i status postedAt = query c (\<lambda>db.
     if status \<notin> set txn_statuses then refuse (ServerError ''txn_status'') db
     else (Ok (Inr (int (length (filter (\<lambda>r. tr_ID r = i) (ld_transactions db))))),
           db\<lparr>ld_transactions := map (\<lambda>r. if tr_ID r = i
                then r\<lparr>tr_Status := status, tr_PostedAt := (case postedAt of None \<Rightarrow> tr_PostedAt r | Some at \<Rightarrow> Some at)\<rparr>
                else r) (ld_transactions db)\<rparr>))"

definition GetTransaction :: "ambient \<Rightarrow> string \<Rightarrow> (ledger_db, TransactionRow option) opr" where
  "GetTransaction c i = query c (select (\<lambda>db. Ok (List.find (\<lambda>r. tr_ID r = i) (ld_transactions db))))"

definition FindReversal :: "ambient \<Rightarrow> string option \<Rightarrow> (ledger_db, TransactionRow option) opr" where
  "FindReversal c reversesID = query c (select (\<lambda>db.
     Ok (List.find (\<lambda>r. reversesID \<noteq> None \<and> tr_ReversesID r = reversesID) (ld_transactions db))))"

definition TransactionsByRef :: "ambient \<Rightarrow> string \<Rightarrow> string option \<Rightarrow> (ledger_db, TransactionRow list) opr" where
  "TransactionsByRef c merchantID externalRef = query c (select (\<lambda>db.
     Ok (sort_key tr_CreatedAt (sort_key tr_ID
       (filter (\<lambda>r. tr_MerchantID r = merchantID \<and> externalRef \<noteq> None \<and> tr_ExternalRef r = externalRef) (ld_transactions db))))))"

definition ListTransactions :: "ambient \<Rightarrow> string \<Rightarrow> int \<Rightarrow> string option \<Rightarrow> int option \<Rightarrow> (ledger_db, TransactionRow list) opr" where
  "ListTransactions c merchantID limit externalRef createdBefore = query c (select (\<lambda>db. sql_limit limit
     (order_desc tr_CreatedAt (rev (sort_key tr_ID (filter (\<lambda>r. tr_MerchantID r = merchantID
        \<and> (externalRef = None \<or> tr_ExternalRef r = externalRef)
        \<and> (case createdBefore of None \<Rightarrow> True | Some at \<Rightarrow> tr_CreatedAt r < at)) (ld_transactions db)))))))"

definition ExpirePendingTransactions :: "ambient \<Rightarrow> int \<Rightarrow> int \<Rightarrow> (ledger_db, TransactionRow list) opr" where
  "ExpirePendingTransactions c createdAt limit = query c (select (\<lambda>db. sql_limit limit
     (sort_key tr_CreatedAt (filter (\<lambda>r. tr_Status r = ''pending'' \<and> tr_CreatedAt r < createdAt) (ld_transactions db)))))"

section \<open>Statements on entries\<close>

text \<open>
  One insert of the batch: the value for the id comes from the sequence, the check on the amount and
  the unique pair of transaction and ordinal come before the references. The rules that turn an
  \<^verbatim>\<open>UPDATE\<close> or a \<^verbatim>\<open>DELETE\<close> on entries into nothing leave no statement to model. A rolled-back insert
  leaves no gap in the sequence here.
\<close>

definition amount_check :: string where
  "amount_check = ''new row for relation entries violates check constraint entries_amount_minor_check''"

definition AppendEntry :: "EntryRow \<Rightarrow> ledger_db \<Rightarrow> (int \<times> int \<times> int) answer \<times> ledger_db" where
  "AppendEntry row db =
     (if en_Direction row \<notin> set balance_sides then (Inl (ServerError ''balance_side''), db)
      else if en_Status row \<notin> set entry_statuses then (Inl (ServerError ''entry_status''), db)
      else case char3 (en_Currency row) of
        None \<Rightarrow> (Inl (ServerError ''value too long''), db)
      | Some cur \<Rightarrow>
          if \<not> in64 (ld_nextval db) then (Inl (ServerError ''sequence''), db)
          else if en_AmountMinor row \<le> 0 then (Inl (CheckViolation amount_check), db)
          else if list_ex (\<lambda>r. en_TransactionID r = en_TransactionID row \<and> en_Seq r = en_Seq row) (ld_entries db)
          then (Inl UniqueViolation, db)
          else if en_TransactionID row \<notin> set (map tr_ID (ld_transactions db)) \<or> en_AccountID row \<notin> set (map ar_ID (ld_accounts db))
          then (Inl (ServerError ''foreign key''), db)
          else (Inr (ld_nextval db, en_Seq row, en_CreatedAt row), db\<lparr>
            ld_entries := ld_entries db @ [row\<lparr>en_ID := ld_nextval db, en_Currency := cur\<rparr>],
            ld_nextval := ld_nextval db + 1\<rparr>))"

text \<open>The batch: after the first refusal nothing of it is kept.\<close>

fun append_batch :: "EntryRow list \<Rightarrow> ledger_db \<Rightarrow> (int \<times> int \<times> int) list answer \<times> ledger_db" where
  "append_batch [] db = (Inr [], db)"
| "append_batch (row # rows) db =
     (case AppendEntry row db of
        (Inl e, _) \<Rightarrow> (Inl e, db)
      | (Inr w, db1) \<Rightarrow> (case append_batch rows db1 of
          (Inl e, _) \<Rightarrow> (Inl e, db)
        | (Inr ws, db2) \<Rightarrow> (Inr (w # ws), db2)))"

definition AppendEntry_batch :: "ambient \<Rightarrow> EntryRow list \<Rightarrow> (ledger_db, (int \<times> int \<times> int) list answer) opr" where
  "AppendEntry_batch c rows = query c (\<lambda>db. case append_batch rows db of (r, db') \<Rightarrow> (Ok r, db'))"

definition EntriesByTransaction :: "ambient \<Rightarrow> string \<Rightarrow> (ledger_db, EntryRow list) opr" where
  "EntriesByTransaction c i = query c (select (\<lambda>db. Ok (sort_key en_Seq (filter (\<lambda>r. en_TransactionID r = i) (ld_entries db)))))"

definition EntriesForAccountAsc :: "ambient \<Rightarrow> string \<Rightarrow> int \<Rightarrow> int \<Rightarrow> (ledger_db, EntryRow list) opr" where
  "EntriesForAccountAsc c accountID after limit = query c (select (\<lambda>db.
     sql_limit limit (sort_key en_ID (filter (\<lambda>r. en_AccountID r = accountID \<and> en_ID r > after) (ld_entries db)))))"

definition ListEntries :: "ambient \<Rightarrow> string \<Rightarrow> int option \<Rightarrow> int \<Rightarrow> (ledger_db, EntryRow list) opr" where
  "ListEntries c accountID after limit = query c (select (\<lambda>db.
     sql_limit limit (order_desc en_ID (filter (\<lambda>r. en_AccountID r = accountID
       \<and> (case after of None \<Rightarrow> True | Some n \<Rightarrow> en_ID r < n)) (ld_entries db)))))"

section \<open>Conversions\<close>

definition marshalMetadata :: "metadata \<Rightarrow> json" where
  "marshalMetadata m = (if m = [] then JObject [] else JObject m)"

definition unmarshalMetadata :: "json \<Rightarrow> metadata outcome" where
  "unmarshalMetadata doc = (case doc of JObject m \<Rightarrow> Ok m | JNull \<Rightarrow> Ok [] | _ \<Rightarrow> Err (ErrOther ''unmarshalling metadata''))"

definition accountFromRow :: "AccountRow \<Rightarrow> Account outcome" where
  "accountFromRow r = andThen (unmarshalMetadata (ar_Metadata r)) (\<lambda>m.
     Ok \<lparr>acc_ID = ar_ID r, acc_MerchantID = ar_MerchantID r, acc_Name = ar_Name r, acc_Type = ar_Type r,
         acc_NormalBalance = ar_NormalBalance r, acc_Currency = TrimSpace (ar_Currency r),
         acc_AllowNegative = ar_AllowNegative r, acc_Metadata = m, acc_CreatedAt = ar_CreatedAt r\<rparr>)"

definition transactionFromRow :: "TransactionRow \<Rightarrow> Transaction outcome" where
  "transactionFromRow r = andThen (unmarshalMetadata (tr_Metadata r)) (\<lambda>m.
     Ok \<lparr>txn_ID = tr_ID r, txn_MerchantID = tr_MerchantID r, txn_Status = tr_Status r, txn_Currency = TrimSpace (tr_Currency r),
         txn_Description = tr_Description r, txn_ReversesID = derefString (tr_ReversesID r),
         txn_ExternalRef = derefString (tr_ExternalRef r), txn_Metadata = m, txn_CreatedAt = tr_CreatedAt r,
         txn_PostedAt = tr_PostedAt r, txn_Entries = []\<rparr>)"

definition entryFromRow :: "EntryRow \<Rightarrow> Entry" where
  "entryFromRow r =
     \<lparr>ent_ID = en_ID r, ent_TransactionID = en_TransactionID r, ent_AccountID = en_AccountID r, ent_Direction = en_Direction r,
      ent_Amount = en_AmountMinor r, ent_Currency = TrimSpace (en_Currency r), ent_Status = en_Status r, ent_Seq = en_Seq r,
      ent_BalanceAfter = en_BalanceAfter r, ent_CreatedAt = en_CreatedAt r\<rparr>"

definition balanceFromRow :: "AccountRow \<Rightarrow> AccountBalance \<Rightarrow> Balance" where
  "balanceFromRow a b =
     \<lparr>bal_AccountID = ab_AccountID b, bal_Currency = TrimSpace (ar_Currency a), bal_Posted = ab_PostedMinor b,
      bal_Pending = ab_PendingMinor b, bal_Version = ab_Version b, bal_UpdatedAt = ab_UpdatedAt b\<rparr>"

definition Contains :: "string \<Rightarrow> string \<Rightarrow> bool" where
  "Contains s sub \<longleftrightarrow> list_ex (\<lambda>i. has_prefix (drop i s) sub) [0..<Suc (length s)]"

definition wrapEntryError :: "pg_error \<Rightarrow> err" where
  "wrapEntryError e =
     (case e of
        CheckViolation msg \<Rightarrow>
          if Contains msg ''unbalanced'' then ErrUnbalanced
          else if Contains msg ''currencies'' then ErrMultiCurrency
          else if Contains msg ''no entries'' then ErrNoEntries
          else if Contains msg ''amount_minor'' then ErrInvalidAmount
          else ErrUnbalanced
      | UniqueViolation \<Rightarrow> ErrOther ''duplicate entry''
      | ServerError _ \<Rightarrow> ErrOther ''append entries'')"

section \<open>The repository\<close>

definition Pg_CreateAccount :: "ambient \<Rightarrow> Account \<Rightarrow> (ledger_db, unit) opr" where
  "Pg_CreateAccount c a =
     seq (CreateAccount c
       \<lparr>ar_ID = acc_ID a, ar_MerchantID = acc_MerchantID a, ar_Name = acc_Name a, ar_Type = acc_Type a,
        ar_NormalBalance = acc_NormalBalance a, ar_Currency = acc_Currency a, ar_AllowNegative = acc_AllowNegative a,
        ar_Metadata = marshalMetadata (acc_Metadata a), ar_CreatedAt = acc_CreatedAt a\<rparr>) (\<lambda>r. case r of
       Inl UniqueViolation \<Rightarrow> ret (Err ErrAccountExists)
     | Inl _ \<Rightarrow> ret (Err (ErrOther ''insert account''))
     | Inr _ \<Rightarrow> ret (Ok ()))"

definition Pg_GetAccount :: "ambient \<Rightarrow> string \<Rightarrow> (ledger_db, Account) opr" where
  "Pg_GetAccount c i = seq (GetAccount c i) (\<lambda>row. case row of
     None \<Rightarrow> ret (Err ErrAccountNotFound) | Some r \<Rightarrow> ret (accountFromRow r))"

definition Pg_ListAccounts :: "ambient \<Rightarrow> string \<Rightarrow> (ledger_db, Account list) opr" where
  "Pg_ListAccounts c merchantID = seq (ListAccounts c merchantID) (\<lambda>rows. ret (map_outcome_list accountFromRow rows))"

fun locked_rows :: "(AccountRow \<times> AccountBalance) list \<Rightarrow> (string \<times> LockedAccount) list \<Rightarrow> (string \<times> LockedAccount) list outcome" where
  "locked_rows [] out = Ok out"
| "locked_rows ((ra, rb) # rows) out =
     andThen (accountFromRow ra) (\<lambda>a. locked_rows rows (AList.update (acc_ID a)
       \<lparr>la_Account = a, la_Balance = \<lparr>bal_AccountID = acc_ID a, bal_Currency = acc_Currency a, bal_Posted = ab_PostedMinor rb,
          bal_Pending = ab_PendingMinor rb, bal_Version = ab_Version rb, bal_UpdatedAt = ab_UpdatedAt rb\<rparr>\<rparr> out))"

definition Pg_LockAccounts :: "ambient \<Rightarrow> string list \<Rightarrow> (ledger_db, (string \<times> LockedAccount) list) opr" where
  "Pg_LockAccounts c ids =
     (if ids = [] then ret (Ok [])
      else seq (LockAccounts c ids) (\<lambda>rows.
           seq (ret (locked_rows rows [])) (\<lambda>out.
           if list_all (\<lambda>wanted. map_of out wanted \<noteq> None) ids then ret (Ok out) else ret (Err ErrAccountNotFound))))"

fun Pg_ApplyBalances :: "ambient \<Rightarrow> BalanceUpdate list \<Rightarrow> (ledger_db, unit) opr" where
  "Pg_ApplyBalances c [] = ret (Ok ())"
| "Pg_ApplyBalances c (u # us) =
     seq (ApplyBalance c (upd_AccountID u) (upd_Posted u) (upd_Pending u) (upd_Version u)) (\<lambda>r. case r of
       Inl _ \<Rightarrow> ret (Err (ErrOther ''update balance''))
     | Inr affected \<Rightarrow> if affected = 0 then ret (Err (ErrOther ''balance changed under the lock'')) else Pg_ApplyBalances c us)"

definition Pg_GetBalance :: "ambient \<Rightarrow> string \<Rightarrow> (ledger_db, Balance) opr" where
  "Pg_GetBalance c i = or_missing ErrAccountNotFound (\<lambda>(a, b). balanceFromRow a b) (GetBalance c i)"

definition Pg_InsertTransaction :: "ambient \<Rightarrow> Transaction \<Rightarrow> (ledger_db, unit) opr" where
  "Pg_InsertTransaction c t =
     seq (InsertTransaction c
       \<lparr>tr_ID = txn_ID t, tr_MerchantID = txn_MerchantID t, tr_Status = txn_Status t, tr_Currency = txn_Currency t,
        tr_Description = txn_Description t, tr_ReversesID = nullString (txn_ReversesID t),
        tr_ExternalRef = nullString (txn_ExternalRef t), tr_Metadata = marshalMetadata (txn_Metadata t),
        tr_CreatedAt = txn_CreatedAt t, tr_PostedAt = txn_PostedAt t\<rparr>) (\<lambda>r. case r of
       Inl e \<Rightarrow> if e = UniqueViolation \<and> txn_ReversesID t \<noteq> [] then ret (Err ErrAlreadyReversed)
                else ret (Err (ErrOther ''insert transaction''))
     | Inr _ \<Rightarrow> ret (Ok ()))"

definition Pg_SetTransactionStatus :: "ambient \<Rightarrow> string \<Rightarrow> Status \<Rightarrow> int option \<Rightarrow> (ledger_db, unit) opr" where
  "Pg_SetTransactionStatus c i status postedAt =
     seq (SetTransactionStatus c i status postedAt) (\<lambda>r. case r of
       Inl _ \<Rightarrow> ret (Err (ErrOther ''set transaction status''))
     | Inr affected \<Rightarrow> if affected = 0 then ret (Err ErrTransactionNotFound) else ret (Ok ()))"

definition Pg_EntriesByTransaction :: "ambient \<Rightarrow> string \<Rightarrow> (ledger_db, Entry list) opr" where
  "Pg_EntriesByTransaction c i = rows_of entryFromRow (EntriesByTransaction c i)"

text \<open>Each call of a method is one step of the world; the statements within it share its context.\<close>

definition with_its_entries :: "ambient \<Rightarrow> TransactionRow \<Rightarrow> (ledger_db, Transaction) opr" where
  "with_its_entries c row =
     seq (ret (transactionFromRow row)) (\<lambda>t.
     seq (Pg_EntriesByTransaction c (txn_ID t)) (\<lambda>es. ret (Ok (t\<lparr>txn_Entries := es\<rparr>))))"

definition Pg_GetTransaction :: "ambient \<Rightarrow> string \<Rightarrow> (ledger_db, Transaction) opr" where
  "Pg_GetTransaction c i = seq (GetTransaction c i) (\<lambda>row. case row of
     None \<Rightarrow> ret (Err ErrTransactionNotFound)
   | Some r \<Rightarrow>
       seq (ret (transactionFromRow r)) (\<lambda>t.
       seq (Pg_EntriesByTransaction c i) (\<lambda>es. ret (Ok (t\<lparr>txn_Entries := es\<rparr>)))))"

definition Pg_FindReversal :: "ambient \<Rightarrow> string \<Rightarrow> (ledger_db, Transaction) opr" where
  "Pg_FindReversal c reversesID = seq (FindReversal c (Some reversesID)) (\<lambda>row. case row of
     None \<Rightarrow> ret (Err ErrTransactionNotFound) | Some r \<Rightarrow> ret (transactionFromRow r))"

fun each_with_entries :: "ambient \<Rightarrow> TransactionRow list \<Rightarrow> (ledger_db, Transaction list) opr" where
  "each_with_entries c [] = ret (Ok [])"
| "each_with_entries c (row # rows) =
     seq (with_its_entries c row) (\<lambda>t. seq (each_with_entries c rows) (\<lambda>ts. ret (Ok (t # ts))))"

definition Pg_TransactionsByRef :: "ambient \<Rightarrow> string \<Rightarrow> string \<Rightarrow> (ledger_db, Transaction list) opr" where
  "Pg_TransactionsByRef c merchantID externalRef =
     seq (TransactionsByRef c merchantID (nullString externalRef)) (each_with_entries c)"

text \<open>The ids the batch returned, matched to the entries by their ordinal.\<close>

definition entry_params :: "Entry \<Rightarrow> EntryRow" where
  "entry_params e =
     \<lparr>en_ID = 0, en_TransactionID = ent_TransactionID e, en_AccountID = ent_AccountID e, en_Direction = ent_Direction e,
      en_AmountMinor = ent_Amount e, en_Currency = ent_Currency e, en_Status = ent_Status e, en_Seq = ent_Seq e,
      en_BalanceAfter = ent_BalanceAfter e, en_CreatedAt = ent_CreatedAt e\<rparr>"

definition written_by_seq :: "(int \<times> int \<times> int) list \<Rightarrow> (int \<times> int \<times> int) list" where
  "written_by_seq rows = fold (\<lambda>(i, s, at) m. AList.update s (i, at) m) rows []"

definition match_written :: "(int \<times> int \<times> int) list \<Rightarrow> Entry list \<Rightarrow> Entry list outcome" where
  "match_written bySeq es = map_outcome_list (\<lambda>e. case map_of bySeq (ent_Seq e) of
     None \<Rightarrow> Err (ErrOther ''entry was not returned by the insert'')
   | Some (i, at) \<Rightarrow> Ok (e\<lparr>ent_ID := i, ent_CreatedAt := at\<rparr>)) es"

definition Pg_AppendEntries :: "ambient \<Rightarrow> Entry list \<Rightarrow> (ledger_db, Entry list) opr" where
  "Pg_AppendEntries c es =
     (if es = [] then ret (Ok [])
      else seq (AppendEntry_batch c (map entry_params es)) (\<lambda>r. case r of
        Inl e \<Rightarrow> ret (Err (wrapEntryError e))
      | Inr rows \<Rightarrow> ret (match_written (written_by_seq rows) es)))"

definition Pg_ListEntries :: "ambient \<Rightarrow> string \<Rightarrow> Page \<Rightarrow> (ledger_db, Entry list \<times> string) opr" where
  "Pg_ListEntries c accountID p0 =
     (let p = Page_Normalize p0
      in seq (ret (if page_StartingAfter p \<noteq> [] then andThen (ParseCursor (page_StartingAfter p)) (\<lambda>cur. Ok (Some (cur_ID cur))) else Ok None)) (\<lambda>after.
         seq (rows_of entryFromRow (ListEntries c accountID after (wrap32 (wrap32 (page_Limit p) + 1)))) (\<lambda>out.
         if int (length out) > page_Limit p
         then let page = take (nat (page_Limit p)) out in ret (Ok (page, Cursor_String (CursorFor (last page))))
         else ret (Ok (out, [])))))"

definition postgres_repo :: "ledger_db Repository" where
  "postgres_repo = \<lparr>
     repo_CreateAccount = Pg_CreateAccount, repo_GetAccount = Pg_GetAccount,
     repo_ListAccounts = Pg_ListAccounts, repo_LockAccounts = Pg_LockAccounts,
     repo_ApplyBalances = Pg_ApplyBalances, repo_GetBalance = Pg_GetBalance,
     repo_InsertTransaction = Pg_InsertTransaction, repo_SetTransactionStatus = Pg_SetTransactionStatus,
     repo_GetTransaction = Pg_GetTransaction, repo_FindReversal = Pg_FindReversal,
     repo_TransactionsByRef = Pg_TransactionsByRef, repo_AppendEntries = Pg_AppendEntries,
     repo_ListEntries = Pg_ListEntries, repo_EntriesByTransaction = Pg_EntriesByTransaction\<rparr>"

end
