(* ===== verification/Postgres_Laws.thy ===== *)
theory Postgres_Laws
  imports Postgres_Ledger Ledger_Laws
begin

text \<open>
  The repository over PostgreSQL meets the contract of the ledger: the tables seen as books, the
  invariant of the tables, and the interpretation \<open>pg\<close>.
\<close>

section \<open>The tables as books\<close>

definition document :: "json \<Rightarrow> metadata" where
  "document d = (case d of JObject m \<Rightarrow> m | _ \<Rightarrow> [])"

definition account_of :: "AccountRow \<Rightarrow> Account" where
  "account_of r = \<lparr>acc_ID = ar_ID r, acc_MerchantID = ar_MerchantID r, acc_Name = ar_Name r, acc_Type = ar_Type r,
     acc_NormalBalance = ar_NormalBalance r, acc_Currency = TrimSpace (ar_Currency r),
     acc_AllowNegative = ar_AllowNegative r, acc_Metadata = document (ar_Metadata r), acc_CreatedAt = ar_CreatedAt r\<rparr>"

definition transaction_of :: "TransactionRow \<Rightarrow> Transaction" where
  "transaction_of r = \<lparr>txn_ID = tr_ID r, txn_MerchantID = tr_MerchantID r, txn_Status = tr_Status r,
     txn_Currency = TrimSpace (tr_Currency r), txn_Description = tr_Description r,
     txn_ReversesID = derefString (tr_ReversesID r), txn_ExternalRef = derefString (tr_ExternalRef r),
     txn_Metadata = document (tr_Metadata r), txn_CreatedAt = tr_CreatedAt r, txn_PostedAt = tr_PostedAt r, txn_Entries = []\<rparr>"

definition account_row :: "ledger_db \<Rightarrow> string \<Rightarrow> AccountRow option" where
  "account_row db i = List.find (\<lambda>r. ar_ID r = i) (ld_accounts db)"

definition balance_row :: "ledger_db \<Rightarrow> string \<Rightarrow> AccountBalance option" where
  "balance_row db i = List.find (\<lambda>r. ab_AccountID r = i) (ld_balances db)"

definition transaction_row_of :: "ledger_db \<Rightarrow> string \<Rightarrow> TransactionRow option" where
  "transaction_row_of db i = List.find (\<lambda>r. tr_ID r = i) (ld_transactions db)"

definition pg_books :: "ledger_db \<Rightarrow> books" where
  "pg_books db = \<lparr>
     bk_accounts = (\<lambda>i. map_option account_of (account_row db i)),
     bk_balances = (\<lambda>i. case account_row db i of None \<Rightarrow> None | Some a \<Rightarrow> map_option (balanceFromRow a) (balance_row db i)),
     bk_txns = (\<lambda>i. map_option transaction_of (transaction_row_of db i)),
     bk_log = map entryFromRow (ld_entries db)\<rparr>"

text \<open>Keys are unique, currencies are known, every account has its balance row, and versions are in range.\<close>

definition pg_ok :: "ledger_db \<Rightarrow> bool" where
  "pg_ok db \<longleftrightarrow>
     distinct (map ar_ID (ld_accounts db)) \<and> map ab_AccountID (ld_balances db) = map ar_ID (ld_accounts db)
     \<and> (\<forall>a\<in>set (ld_accounts db). Currency_Valid (ar_Currency a)) \<and> (\<forall>e\<in>set (ld_entries db). Currency_Valid (en_Currency e))
     \<and> (\<forall>b\<in>set (ld_balances db). in64 (ab_Version b)) \<and> distinct (map tr_ID (ld_transactions db))"

lemma pg_ok_empty: "pg_ok empty_ledger"
  by (simp add: pg_ok_def empty_ledger_def)

lemma pg_books_empty: "pg_books empty_ledger = empty_books"
  by (simp add: pg_books_def empty_books_def empty_ledger_def account_row_def transaction_row_of_def)

lemma accountFromRow_Ok: "accountFromRow r = Ok a \<Longrightarrow> a = account_of r"
  by (auto simp: accountFromRow_def account_of_def unmarshalMetadata_def document_def split: json.splits)

lemma transactionFromRow_Ok: "transactionFromRow r = Ok t \<Longrightarrow> t = transaction_of r"
  by (auto simp: transactionFromRow_def transaction_of_def unmarshalMetadata_def document_def split: json.splits)

lemma document_marshal [simp]: "document (marshalMetadata m) = m"
  by (simp add: document_def marshalMetadata_def)

lemma derefString_nullString [simp]: "derefString (nullString s) = s"
  by (simp add: derefString_def nullString_def)

text \<open>The code of a known currency comes back from a \<^verbatim>\<open>CHAR(3)\<close> column as it was written.\<close>

lemma Currency_Valid_char3:
  assumes "Currency_Valid c"
  shows "char3 c = Some c" and "TrimSpace c = c" and "char_text c = c"
proof -
  have "map_of exponents c \<noteq> None" using assms by (simp add: Currency_Valid_def)
  then have "c \<in> fst ` set exponents" by (simp add: map_of_eq_None_iff)
  then have *: "length c = 3 \<and> c \<noteq> [] \<and> graphic (hd c) \<and> graphic (last c)"
    by (auto simp: exponents_def graphic_def)
  then show "char3 c = Some c" by (simp add: char3_def)
  show "TrimSpace c = c" using * by (intro TrimSpace_id) simp
  obtain d cs where d: "rev c = d # cs" using * by (cases "rev c") auto
  then have "d = last c" by (metis last_rev list.sel(1) rev_rev_ident hd_rev rev_is_Nil_conv)
  then have "d \<noteq> CHR '' ''" using * by (auto simp: graphic_def)
  then have "dropWhile (\<lambda>c. c = CHR '' '') (rev c) = rev c" using d by simp
  then show "char_text c = c" by (simp add: char_text_def)
qed

section \<open>Each method\<close>

lemma Pg_CreateAccount_Ok:
  assumes ok: "pg_ok db" and run: "Pg_CreateAccount c a db = (Ok u, db')" and cur: "Currency_Valid (acc_Currency a)"
  shows "pg_ok db' \<and> bk_accounts (pg_books db) (acc_ID a) = None \<and> pg_books db' = books_create (wall_now c) a (pg_books db)"
proof -
  define row where "row = \<lparr>ar_ID = acc_ID a, ar_MerchantID = acc_MerchantID a, ar_Name = acc_Name a, ar_Type = acc_Type a,
        ar_NormalBalance = acc_NormalBalance a, ar_Currency = acc_Currency a, ar_AllowNegative = acc_AllowNegative a,
        ar_Metadata = marshalMetadata (acc_Metadata a), ar_CreatedAt = acc_CreatedAt a\<rparr>"
  have row: "ar_ID row = acc_ID a" "ar_Currency row = acc_Currency a" by (simp_all add: row_def)
  have c3: "char3 (acc_Currency a) = Some (acc_Currency a)" "row\<lparr>ar_Currency := acc_Currency a\<rparr> = row"
    using Currency_Valid_char3 [OF cur] by (simp_all add: row_def)
  obtain r s where r: "CreateAccount c row db = (Ok r, s)"
    "(case r of Inl UniqueViolation \<Rightarrow> ret (Err ErrAccountExists) | Inl _ \<Rightarrow> ret (Err (ErrOther ''insert account''))
      | Inr _ \<Rightarrow> ret (Ok ())) s = (Ok u, db')"
    using run by (auto simp: Pg_CreateAccount_def row_def [symmetric] seq_eq_Ok)
  then have "r = Inr () \<and> s = db'" by (cases r) (auto split: pg_error.splits)
  with r(1) have fresh: "acc_ID a \<notin> set (map ar_ID (ld_accounts db))" and nobal: "acc_ID a \<notin> set (map ab_AccountID (ld_balances db))"
    and db': "db' = db\<lparr>ld_accounts := ld_accounts db @ [row],
      ld_balances := ld_balances db @ [\<lparr>ab_AccountID = acc_ID a, ab_PostedMinor = 0, ab_PendingMinor = 0, ab_Version = 0, ab_UpdatedAt = wall_now c\<rparr>]\<rparr>"
    by (auto simp: CreateAccount_def query_eq_Ok refuse_def c3 row list_ex_iff split: if_splits)
  have ac: "account_of row = a"
    using Currency_Valid_char3(2) [OF cur] by (simp add: account_of_def row_def)
  have none: "account_row db (acc_ID a) = None" "balance_row db (acc_ID a) = None"
    using fresh nobal by (force simp: account_row_def balance_row_def find_None_iff)+
  have "pg_ok db'" using ok fresh cur by (auto simp: pg_ok_def db' row)
  moreover have "bk_accounts (pg_books db) (acc_ID a) = None" by (simp add: pg_books_def none)
  moreover have "pg_books db' = books_create (wall_now c) a (pg_books db)"
  proof -
    have arow: "account_row db' i = (if i = acc_ID a then Some row else account_row db i)" for i
      using none(1) by (auto simp: account_row_def db' find_key_append row split: option.split)
    have brow: "balance_row db' i = (if i = acc_ID a then Some \<lparr>ab_AccountID = acc_ID a, ab_PostedMinor = 0, ab_PendingMinor = 0,
        ab_Version = 0, ab_UpdatedAt = wall_now c\<rparr> else balance_row db i)" for i
      using none(2) by (auto simp: balance_row_def db' find_key_append split: option.split)
    have "balanceFromRow row \<lparr>ab_AccountID = acc_ID a, ab_PostedMinor = 0, ab_PendingMinor = 0, ab_Version = 0, ab_UpdatedAt = wall_now c\<rparr>
        = \<lparr>bal_AccountID = acc_ID a, bal_Currency = acc_Currency a, bal_Posted = 0, bal_Pending = 0, bal_Version = 0, bal_UpdatedAt = wall_now c\<rparr>"
      using Currency_Valid_char3(2) [OF cur] by (simp add: balanceFromRow_def row)
    moreover have "transaction_row_of db' i = transaction_row_of db i" "ld_entries db' = ld_entries db" for i
      by (simp_all add: transaction_row_of_def db')
    ultimately show ?thesis by (auto simp: pg_books_def books_create_def arow brow ac fun_eq_iff split: option.split)
  qed
  ultimately show ?thesis by simp
qed

lemma set_AList_update: "set (AList.update k v xs) \<subseteq> insert (k, v) (set xs)"
  by (induction xs) auto

lemma locked_rows_Ok:
  assumes "locked_rows rows out = Ok res" and "distinct (map fst out)"
    and "\<forall>(i, la)\<in>set out. P i la"
    and "\<And>ra rb. (ra, rb) \<in> set rows \<Longrightarrow> P (ar_ID ra) \<lparr>la_Account = account_of ra, la_Balance = balanceFromRow ra (rb\<lparr>ab_AccountID := ar_ID ra\<rparr>)\<rparr>"
  shows "distinct (map fst res) \<and> (\<forall>(i, la)\<in>set res. P i la)"
  using assms
proof (induction rows out rule: locked_rows.induct)
  case (2 ra rb rows out)
  obtain a where a: "accountFromRow ra = Ok a" using "2.prems"(1) by auto
  then have aa: "a = account_of ra" by (rule accountFromRow_Ok)
  let ?la = "\<lparr>la_Account = a, la_Balance = \<lparr>bal_AccountID = acc_ID a, bal_Currency = acc_Currency a, bal_Posted = ab_PostedMinor rb,
          bal_Pending = ab_PendingMinor rb, bal_Version = ab_Version rb, bal_UpdatedAt = ab_UpdatedAt rb\<rparr>\<rparr>"
  have id: "acc_ID a = ar_ID ra" and la: "?la = \<lparr>la_Account = account_of ra, la_Balance = balanceFromRow ra (rb\<lparr>ab_AccountID := ar_ID ra\<rparr>)\<rparr>"
    by (simp_all add: aa account_of_def balanceFromRow_def)
  have "locked_rows rows (AList.update (acc_ID a) ?la out) = Ok res" using "2.prems"(1) a by simp
  moreover have "distinct (map fst (AList.update (acc_ID a) ?la out))" using "2.prems"(2) by (rule distinct_update)
  moreover have "\<forall>(i, la)\<in>set (AList.update (acc_ID a) ?la out). P i la"
  proof -
    have "P (acc_ID a) ?la" unfolding la unfolding id by (rule "2.prems"(4)) simp
    then show ?thesis using "2.prems"(3) set_AList_update [of "acc_ID a" ?la out] by blast
  qed
  ultimately show ?case using "2.IH" [of a] "2.prems"(4) by simp
qed simp

lemma distinct_row:
  assumes "pg_ok db"
  shows "r \<in> set (ld_accounts db) \<Longrightarrow> account_row db (ar_ID r) = Some r"
    and "b \<in> set (ld_balances db) \<Longrightarrow> balance_row db (ab_AccountID b) = Some b"
    and "t \<in> set (ld_transactions db) \<Longrightarrow> transaction_row_of db (tr_ID t) = Some t"
proof -
  have "distinct (map ab_AccountID (ld_balances db))" using assms by (simp add: pg_ok_def)
  then show "r \<in> set (ld_accounts db) \<Longrightarrow> account_row db (ar_ID r) = Some r"
    "b \<in> set (ld_balances db) \<Longrightarrow> balance_row db (ab_AccountID b) = Some b"
    "t \<in> set (ld_transactions db) \<Longrightarrow> transaction_row_of db (tr_ID t) = Some t"
    using assms find_key_Some [of ar_ID "ld_accounts db"] find_key_Some [of ab_AccountID "ld_balances db"]
      find_key_Some [of tr_ID "ld_transactions db"]
    by (auto simp: pg_ok_def account_row_def balance_row_def transaction_row_of_def)
qed

lemma balance_join_rows: "(a, b) \<in> set (balance_join db) \<Longrightarrow> a \<in> set (ld_accounts db) \<and> b \<in> set (ld_balances db) \<and> ab_AccountID b = ar_ID a"
  by (auto simp: balance_join_def)

lemma Pg_LockAccounts_Ok:
  assumes ok: "pg_ok db" and run: "Pg_LockAccounts c ids db = (Ok locked, db')"
  shows "db' = db \<and> distinct (map fst locked) \<and> fst ` set locked = set ids
    \<and> (\<forall>(i, la)\<in>set locked. bk_accounts (pg_books db) i = Some (la_Account la) \<and> bk_balances (pg_books db) i = Some (la_Balance la))"
proof (cases "ids = []")
  case True
  then show ?thesis using run by (simp add: Pg_LockAccounts_def)
next
  case False
  define rows where "rows = sort_key (\<lambda>(a, b). ab_AccountID b) (filter (\<lambda>(a, b). ab_AccountID b \<in> set ids) (balance_join db))"
  have l: "locked_rows rows [] = Ok locked" and all: "list_all (\<lambda>i. map_of locked i \<noteq> None) ids" and same: "db' = db"
    using run False by (auto simp: Pg_LockAccounts_def LockAccounts_def seq_eq_Ok query_eq_Ok select_def rows_def split: if_splits)
  let ?P = "\<lambda>i la. i \<in> set ids \<and> bk_accounts (pg_books db) i = Some (la_Account la) \<and> bk_balances (pg_books db) i = Some (la_Balance la)"
  have "?P (ar_ID ra) \<lparr>la_Account = account_of ra, la_Balance = balanceFromRow ra (rb\<lparr>ab_AccountID := ar_ID ra\<rparr>)\<rparr>"
    if "(ra, rb) \<in> set rows" for ra rb
  proof -
    have m: "(ra, rb) \<in> set (balance_join db)" "ab_AccountID rb \<in> set ids" using that by (auto simp: rows_def)
    then have r: "ra \<in> set (ld_accounts db)" "rb \<in> set (ld_balances db)" "ab_AccountID rb = ar_ID ra"
      using balance_join_rows by blast+
    then show ?thesis
      using distinct_row(1) [OF ok r(1)] distinct_row(2) [OF ok r(2)] m(2) r(3) by (simp add: pg_books_def balanceFromRow_def)
  qed
  from locked_rows_Ok [of rows "[]" locked ?P, OF l _ _ this]
  have res: "distinct (map fst locked)" "\<forall>(i, la)\<in>set locked. ?P i la" by simp_all
  have "fst ` set locked = set ids"
  proof
    show "fst ` set locked \<subseteq> set ids" using res(2) by auto
    show "set ids \<subseteq> fst ` set locked"
    proof
      fix i
      assume "i \<in> set ids"
      then have "map_of locked i \<noteq> None" using all by (simp add: list_all_iff)
      then show "i \<in> fst ` set locked" by (simp add: map_of_eq_None_iff)
    qed
  qed
  then show ?thesis using res same by auto
qed

text \<open>A balance update finds the one row of its account and version.\<close>

lemma ApplyBalance_Ok:
  assumes ok: "pg_ok db" and run: "ApplyBalance c (upd_AccountID u) (upd_Posted u) (upd_Pending u) (upd_Version u) db = (Ok (Inr n), db')"
    and n: "n \<noteq> 0"
  shows "pg_ok db' \<and> pg_books db' = books_balances (wall_now c) [u] (pg_books db)"
proof -
  let ?hit = "\<lambda>r. ab_AccountID r = upd_AccountID u \<and> ab_Version r = upd_Version u"
  define f :: "AccountBalance \<Rightarrow> AccountBalance" where "f = (\<lambda>r. if ?hit r then r\<lparr>ab_PostedMinor := upd_Posted u, ab_PendingMinor := upd_Pending u,
    ab_Version := ab_Version r + 1, ab_UpdatedAt := wall_now c\<rparr> else r)"
  have ids: "ab_AccountID (f r) = ab_AccountID r" for r by (simp add: f_def)
  have db': "db' = db\<lparr>ld_balances := map f (ld_balances db)\<rparr>" and cnt: "n = int (length (filter ?hit (ld_balances db)))"
    and range: "\<forall>r\<in>set (ld_balances db). ?hit r \<longrightarrow> in64 (ab_Version r + 1)"
    using run by (auto simp: ApplyBalance_def query_eq_Ok Let_def refuse_def list_ex_iff f_def split: if_splits)
  from cnt n have "filter ?hit (ld_balances db) \<noteq> []" by auto
  then obtain b where b: "b \<in> set (ld_balances db)" "?hit b" by (auto simp: filter_empty_conv)
  have brow: "balance_row db (upd_AccountID u) = Some b" using distinct_row(2) [OF ok b(1)] b(2) by simp
  have "\<forall>r\<in>set (ld_balances db). in64 (ab_Version (f r))" using ok range by (auto simp: pg_ok_def f_def)
  then have "pg_ok db'" using ok by (simp add: pg_ok_def db' comp_def ids)
  moreover have "pg_books db' = books_balances (wall_now c) [u] (pg_books db)"
  proof -
    have row': "balance_row db' i = map_option f (balance_row db i)" for i
      unfolding balance_row_def db' using find_key_map [of ab_AccountID f i "ld_balances db", OF ids] by simp
    have other: "f r = r" if "balance_row db i = Some r" "i \<noteq> upd_AccountID u" for i r
      using that by (auto simp: balance_row_def find_Some_iff f_def)
    have v: "wrap64 (upd_Version u + 1) = ab_Version b + 1" using range b by (metis wrap64_id)
    have this_row: "balanceFromRow a (f b) = set_balance (wall_now c) u (balanceFromRow a b)" for a
      using b v by (simp add: balanceFromRow_def set_balance_def f_def)
    have arow: "account_row db' i = account_row db i" "transaction_row_of db' i = transaction_row_of db i" for i
      by (simp_all add: account_row_def transaction_row_of_def db')
    have "bk_balances (pg_books db') i = bk_balances (books_balances (wall_now c) [u] (pg_books db)) i" for i
    proof (cases "i = upd_AccountID u")
      case True
      then show ?thesis
        using brow this_row by (auto simp: pg_books_def books_balances_def arow row' split: option.split)
    next
      case False
      then have "map_option f (balance_row db i) = balance_row db i" using other by (cases "balance_row db i") auto
      with False show ?thesis by (auto simp: pg_books_def books_balances_def arow row' split: option.split)
    qed
    then show ?thesis
      by (simp add: pg_books_def books_balances_def arow fun_eq_iff) (simp add: db')
  qed
  ultimately show ?thesis by simp
qed

lemma books_balances_Cons: "books_balances now (u # us) B = books_balances now us (books_balances now [u] B)"
  by (simp add: books_balances_def)

lemma Pg_ApplyBalances_Ok:
  assumes "pg_ok db" and "Pg_ApplyBalances c us db = (Ok x, db')"
  shows "pg_ok db' \<and> pg_books db' = books_balances (wall_now c) us (pg_books db)"
  using assms
proof (induction us arbitrary: db)
  case Nil
  then show ?case by (simp add: books_balances_def)
next
  case (Cons u us)
  obtain r db1 where r: "ApplyBalance c (upd_AccountID u) (upd_Posted u) (upd_Pending u) (upd_Version u) db = (Ok r, db1)"
    and rest: "(case r of Inl _ \<Rightarrow> ret (Err (ErrOther ''update balance''))
      | Inr affected \<Rightarrow> if affected = 0 then ret (Err (ErrOther ''balance changed under the lock'')) else Pg_ApplyBalances c us) db1 = (Ok x, db')"
    using Cons.prems(2) by (auto simp: seq_eq_Ok)
  then obtain n where n: "r = Inr n" "n \<noteq> 0" "Pg_ApplyBalances c us db1 = (Ok x, db')"
    by (cases r) (auto split: if_splits)
  note one = ApplyBalance_Ok [OF Cons.prems(1) r [unfolded n(1)] n(2)]
  show ?case using Cons.IH [OF _ n(3)] one by (simp add: books_balances_Cons [of _ u us])
qed

lemma Pg_InsertTransaction_Ok:
  assumes ok: "pg_ok db" and run: "Pg_InsertTransaction c t db = (Ok u, db')" and cur: "Currency_Valid (txn_Currency t)"
  shows "pg_ok db' \<and> bk_txns (pg_books db) (txn_ID t) = None \<and> pg_books db' = books_insert t (pg_books db)"
proof -
  define row where "row = \<lparr>tr_ID = txn_ID t, tr_MerchantID = txn_MerchantID t, tr_Status = txn_Status t, tr_Currency = txn_Currency t,
        tr_Description = txn_Description t, tr_ReversesID = nullString (txn_ReversesID t),
        tr_ExternalRef = nullString (txn_ExternalRef t), tr_Metadata = marshalMetadata (txn_Metadata t),
        tr_CreatedAt = txn_CreatedAt t, tr_PostedAt = txn_PostedAt t\<rparr>"
  have row: "tr_ID row = txn_ID t" "tr_Currency row = txn_Currency t" by (simp_all add: row_def)
  have c3: "char3 (txn_Currency t) = Some (txn_Currency t)" "row\<lparr>tr_Currency := txn_Currency t\<rparr> = row"
    using Currency_Valid_char3 [OF cur] by (simp_all add: row_def)
  obtain r s where r: "InsertTransaction c row db = (Ok r, s)"
    "(case r of Inl e \<Rightarrow> if e = UniqueViolation \<and> txn_ReversesID t \<noteq> [] then ret (Err ErrAlreadyReversed)
        else ret (Err (ErrOther ''insert transaction'')) | Inr _ \<Rightarrow> ret (Ok ())) s = (Ok u, db')"
    using run by (auto simp: Pg_InsertTransaction_def row_def [symmetric] seq_eq_Ok)
  then have "r = Inr () \<and> s = db'" by (cases r) (auto split: if_splits)
  with r(1) have fresh: "txn_ID t \<notin> set (map tr_ID (ld_transactions db))" and db': "db' = db\<lparr>ld_transactions := ld_transactions db @ [row]\<rparr>"
    by (auto simp: InsertTransaction_def query_eq_Ok refuse_def c3 row list_ex_iff split: if_splits)
  have none: "transaction_row_of db (txn_ID t) = None" using fresh by (force simp: transaction_row_of_def find_None_iff)
  have "pg_ok db'" using ok fresh by (auto simp: pg_ok_def db' row)
  moreover have "bk_txns (pg_books db) (txn_ID t) = None" by (simp add: pg_books_def none)
  moreover have "pg_books db' = books_insert t (pg_books db)"
  proof -
    have "transaction_row_of db' i = (if i = txn_ID t then Some row else transaction_row_of db i)" for i
      using none by (auto simp: transaction_row_of_def db' find_key_append row split: option.split)
    moreover have "account_row db' i = account_row db i" "balance_row db' i = balance_row db i" "ld_entries db' = ld_entries db" for i
      by (simp_all add: account_row_def balance_row_def db')
    moreover have "transaction_of row = t\<lparr>txn_Entries := []\<rparr>"
      using Currency_Valid_char3(2) [OF cur] by (simp add: transaction_of_def row_def)
    ultimately show ?thesis by (auto simp: pg_books_def books_insert_def fun_eq_iff split: option.split)
  qed
  ultimately show ?thesis by simp
qed

lemma Pg_SetTransactionStatus_Ok:
  assumes ok: "pg_ok db" and run: "Pg_SetTransactionStatus c i st at db = (Ok u, db')"
  shows "pg_ok db' \<and> bk_txns (pg_books db) i \<noteq> None \<and> pg_books db' = books_status i st at (pg_books db)"
proof -
  define f :: "TransactionRow \<Rightarrow> TransactionRow" where "f = (\<lambda>r. if tr_ID r = i
    then r\<lparr>tr_Status := st, tr_PostedAt := (case at of None \<Rightarrow> tr_PostedAt r | Some n \<Rightarrow> Some n)\<rparr> else r)"
  have ids: "tr_ID (f r) = tr_ID r" for r by (simp add: f_def)
  obtain r s where r: "SetTransactionStatus c i st at db = (Ok r, s)"
    "(case r of Inl _ \<Rightarrow> ret (Err (ErrOther ''set transaction status''))
      | Inr affected \<Rightarrow> if affected = 0 then ret (Err ErrTransactionNotFound) else ret (Ok ())) s = (Ok u, db')"
    using run by (auto simp: Pg_SetTransactionStatus_def seq_eq_Ok)
  then obtain n where n: "r = Inr n" "n \<noteq> 0" "s = db'" by (cases r) (auto split: if_splits)
  with r(1) have db': "db' = db\<lparr>ld_transactions := map f (ld_transactions db)\<rparr>"
    and cnt: "n = int (length (filter (\<lambda>r. tr_ID r = i) (ld_transactions db)))"
    by (auto simp: SetTransactionStatus_def query_eq_Ok refuse_def f_def split: if_splits)
  have "filter (\<lambda>r. tr_ID r = i) (ld_transactions db) \<noteq> []" using cnt n(2) by auto
  then obtain row where row: "row \<in> set (ld_transactions db)" "tr_ID row = i" by (auto simp: filter_empty_conv)
  have "bk_txns (pg_books db) i \<noteq> None" using distinct_row(3) [OF ok row(1)] row(2) by (simp add: pg_books_def)
  moreover have "pg_ok db'" using ok by (simp add: pg_ok_def db' comp_def ids)
  moreover have "pg_books db' = books_status i st at (pg_books db)"
  proof -
    have row': "transaction_row_of db' j = map_option f (transaction_row_of db j)" for j
      unfolding transaction_row_of_def db' using find_key_map [of tr_ID f j "ld_transactions db", OF ids] by simp
    have "transaction_of (f x) = (if j = i then set_status st at (transaction_of x) else transaction_of x)"
      if "transaction_row_of db j = Some x" for j x
      using that by (auto simp: f_def transaction_of_def set_status_def transaction_row_of_def find_Some_iff split: option.split)
    then have "map_option transaction_of (transaction_row_of db' j) = bk_txns (books_status i st at (pg_books db)) j" for j
      by (cases "transaction_row_of db j") (auto simp: row' books_status_def pg_books_def)
    moreover have "account_row db' j = account_row db j" "balance_row db' j = balance_row db j" "ld_entries db' = ld_entries db" for j
      by (simp_all add: account_row_def balance_row_def db')
    ultimately show ?thesis by (simp add: pg_books_def books_status_def fun_eq_iff split: option.split)
  qed
  ultimately show ?thesis by simp
qed

lemma Pg_EntriesByTransaction_Ok:
  assumes "Pg_EntriesByTransaction c i db = (Ok es, db')"
  shows "db' = db" and "mset es = mset (entries_of i (pg_books db))"
proof -
  have es: "es = map entryFromRow (sort_key en_Seq (filter (\<lambda>r. en_TransactionID r = i) (ld_entries db)))" and "db' = db"
    using assms by (auto simp: Pg_EntriesByTransaction_def rows_of_eq_Ok EntriesByTransaction_def query_eq_Ok select_def)
  moreover have "entries_of i (pg_books db) = map entryFromRow (filter (\<lambda>r. en_TransactionID r = i) (ld_entries db))"
    by (simp add: entries_of_def pg_books_def filter_map comp_def entryFromRow_def)
  ultimately show "db' = db" "mset es = mset (entries_of i (pg_books db))" by simp_all
qed

lemma Pg_GetTransaction_Ok:
  assumes "Pg_GetTransaction c i db = (Ok t, db')"
  shows "db' = db \<and> mset (txn_Entries t) = mset (entries_of i (pg_books db))
    \<and> (\<exists>row. bk_txns (pg_books db) i = Some row \<and> t = row\<lparr>txn_Entries := txn_Entries t\<rparr>)"
proof -
  obtain r where "transaction_row_of db i = Some r"
    and run: "seq (ret (transactionFromRow r)) (\<lambda>t. seq (Pg_EntriesByTransaction c i) (\<lambda>es. ret (Ok (t\<lparr>txn_Entries := es\<rparr>)))) db = (Ok t, db')"
    using assms
    by (auto simp: Pg_GetTransaction_def GetTransaction_def seq_eq_Ok query_eq_Ok select_def transaction_row_of_def split: option.splits)
  moreover obtain t0 es where "transactionFromRow r = Ok t0" "Pg_EntriesByTransaction c i db = (Ok es, db')" "t = t0\<lparr>txn_Entries := es\<rparr>"
    using run by (auto simp: seq_eq_Ok)
  ultimately show ?thesis
    using Pg_EntriesByTransaction_Ok [of c i db es db'] transactionFromRow_Ok [of r t0] by (simp add: pg_books_def)
qed

lemma Pg_FindReversal_row:
  assumes ok: "pg_ok db" and run: "Pg_FindReversal c i db = (r, db')"
  shows "db' = db \<and> (\<forall>t. r = Ok t \<longrightarrow> (\<exists>row. bk_txns (pg_books db) (txn_ID t) = Some row \<and> txn_ReversesID row = i))"
proof (cases "cancelled c")
  case True
  then show ?thesis using run by (auto simp: Pg_FindReversal_def FindReversal_def query_def seq_def)
next
  case False
  let ?row = "List.find (\<lambda>r. tr_ReversesID r = Some i) (ld_transactions db)"
  have res: "(r, db') = (case ?row of None \<Rightarrow> (Err ErrTransactionNotFound, db) | Some x \<Rightarrow> (transactionFromRow x, db))"
    using run False by (auto simp: Pg_FindReversal_def FindReversal_def query_def select_def seq_def split: option.splits)
  have "\<exists>row. bk_txns (pg_books db) (txn_ID t) = Some row \<and> txn_ReversesID row = i" if h: "r = Ok t" for t
  proof -
    obtain x where x: "?row = Some x" "transactionFromRow x = Ok t"
    proof (cases ?row)
      case None
      then show ?thesis using res h by simp
    next
      case (Some x)
      then show ?thesis using res h that by simp
    qed
    then have "x \<in> set (ld_transactions db)" "tr_ReversesID x = Some i" "t = transaction_of x"
      using transactionFromRow_Ok by (auto simp: find_Some_iff)
    then show ?thesis
      using distinct_row(3) [OF ok, of x] by (simp add: pg_books_def transaction_of_def derefString_def)
  qed
  then show ?thesis using res by (auto split: option.splits)
qed

text \<open>What a batch that succeeds has written, and the ids it returns.\<close>

lemma append_batch_Inr:
  assumes "append_batch rows db = (Inr ws, db')" and "\<forall>r\<in>set rows. Currency_Valid (en_Currency r)"
  shows "db' = db\<lparr>ld_entries := ld_entries db @ map2 (\<lambda>r w. r\<lparr>en_ID := fst w\<rparr>) rows ws, ld_nextval := ld_nextval db + int (length rows)\<rparr>
    \<and> map snd ws = map (\<lambda>r. (en_Seq r, en_CreatedAt r)) rows
    \<and> map fst ws = map (\<lambda>k. ld_nextval db + int k) [0..<length rows]
    \<and> (\<forall>k<length rows. \<forall>j<k. (en_TransactionID (rows ! j), en_Seq (rows ! j)) \<noteq> (en_TransactionID (rows ! k), en_Seq (rows ! k)))
    \<and> (\<forall>r\<in>set rows. \<forall>x\<in>set (ld_entries db). (en_TransactionID x, en_Seq x) \<noteq> (en_TransactionID r, en_Seq r))"
  using assms
proof (induction rows arbitrary: db ws)
  case Nil
  then show ?case by simp
next
  case (Cons r rows)
  let ?row = "r\<lparr>en_ID := ld_nextval db\<rparr>"
  let ?db = "db\<lparr>ld_entries := ld_entries db @ [?row], ld_nextval := ld_nextval db + 1\<rparr>"
  have c3: "char3 (en_Currency r) = Some (en_Currency r)" using Cons.prems(2) Currency_Valid_char3(1) by simp
  obtain w db1 ws1 where w: "AppendEntry r db = (Inr w, db1)" "append_batch rows db1 = (Inr ws1, db')" "ws = w # ws1"
    using Cons.prems(1) by (auto split: prod.splits sum.splits)
  have one: "w = (ld_nextval db, en_Seq r, en_CreatedAt r)" "db1 = ?db"
    and new: "\<forall>x\<in>set (ld_entries db). (en_TransactionID x, en_Seq x) \<noteq> (en_TransactionID r, en_Seq r)"
    using w(1) by (auto simp: AppendEntry_def c3 list_ex_iff split: if_splits)
  note IH = Cons.IH [OF w(2)]
  have IH': "db' = ?db\<lparr>ld_entries := ld_entries ?db @ map2 (\<lambda>r w. r\<lparr>en_ID := fst w\<rparr>) rows ws1, ld_nextval := ld_nextval ?db + int (length rows)\<rparr>"
    "map snd ws1 = map (\<lambda>r. (en_Seq r, en_CreatedAt r)) rows"
    "map fst ws1 = map (\<lambda>k. ld_nextval ?db + int k) [0..<length rows]"
    "\<forall>k<length rows. \<forall>j<k. (en_TransactionID (rows ! j), en_Seq (rows ! j)) \<noteq> (en_TransactionID (rows ! k), en_Seq (rows ! k))"
    "\<forall>r\<in>set rows. \<forall>x\<in>set (ld_entries ?db). (en_TransactionID x, en_Seq x) \<noteq> (en_TransactionID r, en_Seq r)"
    using IH Cons.prems(2) unfolding one(2) by simp_all
  have ids: "map fst ws = map (\<lambda>k. ld_nextval db + int k) [0..<length (r # rows)]"
  proof -
    have "[0..<length (r # rows)] = 0 # map Suc [0..<length rows]" by (simp add: map_Suc_upt upt_conv_Cons del: upt_Suc)
    then show ?thesis using IH'(3) by (simp add: w(3) one(1) comp_def add.assoc del: upt_Suc)
  qed
  moreover have "(en_TransactionID ((r # rows) ! j), en_Seq ((r # rows) ! j)) \<noteq> (en_TransactionID ((r # rows) ! k), en_Seq ((r # rows) ! k))"
    if h: "k < length (r # rows)" "j < k" for j k
  proof (cases j)
    case 0
    then obtain m where "k = Suc m" "m < length rows" using h by (cases k) auto
    with 0 IH'(5) show ?thesis by simp
  next
    case (Suc n)
    then obtain m where "k = Suc m" "m < length rows" "n < m" using h by (cases k) auto
    with Suc IH'(4) show ?thesis by simp
  qed
  moreover have "db' = db\<lparr>ld_entries := ld_entries db @ map2 (\<lambda>r w. r\<lparr>en_ID := fst w\<rparr>) (r # rows) ws,
      ld_nextval := ld_nextval db + int (length (r # rows))\<rparr>"
    by (subst IH'(1)) (simp add: w(3) one(1))
  ultimately show ?case using IH' new by (simp add: w(3) one(1))
qed

lemma map_of_written:
  assumes "distinct (map (fst \<circ> snd) ws)" and "(i, q, at) \<in> set ws"
  shows "map_of (written_by_seq ws) q = Some (i, at)"
proof -
  have "map_of (fold (\<lambda>(i, s, at) m. AList.update s (i, at) m) ws m) q
      = (case List.find (\<lambda>w. fst (snd w) = q) ws of None \<Rightarrow> map_of m q | Some (i, s, at) \<Rightarrow> Some (i, at))" for m
    using assms(1)
  proof (induction ws arbitrary: m)
    case (Cons w ws)
    obtain i s at where w: "w = (i, s, at)" by (cases w) auto
    show ?case
    proof (cases "s = q")
      case True
      then have "List.find (\<lambda>w. fst (snd w) = q) ws = None" using Cons.prems w by (force simp: find_None_iff)
      then show ?thesis using Cons.IH Cons.prems w True by (simp add: AList.update_conv')
    next
      case False
      then show ?thesis using Cons.IH Cons.prems w by (simp add: AList.update_conv' split: option.split)
    qed
  qed simp
  moreover have "List.find (\<lambda>w. fst (snd w) = fst (snd (i, q, at))) ws = Some (i, q, at)"
    by (rule find_key_Some [where k = "fst \<circ> snd", unfolded comp_def]) (use assms in \<open>simp_all add: comp_def\<close>)
  ultimately show ?thesis by (simp add: written_by_seq_def)
qed

lemma match_written_eq:
  assumes "list_all2 (\<lambda>e (i, s, at). ent_Seq e = s \<and> ent_CreatedAt e = at) es ws" and "distinct (map (fst \<circ> snd) ws)"
  shows "match_written (written_by_seq ws) es = Ok (map2 (\<lambda>e w. e\<lparr>ent_ID := fst w\<rparr>) es ws)"
proof -
  have "map_outcome_list (\<lambda>e. case map_of (written_by_seq ws) (ent_Seq e) of
      None \<Rightarrow> Err (ErrOther ''entry was not returned by the insert'')
    | Some (i, at) \<Rightarrow> Ok (e\<lparr>ent_ID := i, ent_CreatedAt := at\<rparr>)) es' = Ok (map2 (\<lambda>e w. e\<lparr>ent_ID := fst w\<rparr>) es' ws')"
    if "list_all2 (\<lambda>e (i, s, at). ent_Seq e = s \<and> ent_CreatedAt e = at) es' ws'" "set ws' \<subseteq> set ws" for es' ws'
    using that
  proof (induction rule: list_all2_induct)
    case (Cons e es' w ws')
    obtain i s at where w: "w = (i, s, at)" by (cases w) auto
    have "map_of (written_by_seq ws) s = Some (i, at)"
      using map_of_written [OF assms(2), of i s at] Cons.prems by (simp add: w)
    moreover have "ent_Seq e = s" "ent_CreatedAt e = at" using Cons.hyps(1) by (simp_all add: w)
    ultimately show ?case using Cons.IH Cons.prems by (simp add: w)
  qed simp
  from this [OF assms(1)] show ?thesis by (simp add: match_written_def)
qed

lemma Pg_AppendEntries_Ok:
  assumes ok: "pg_ok db" and run: "Pg_AppendEntries c es db = (Ok out, db')"
    and es: "\<forall>e\<in>set es. Currency_Valid (ent_Currency e) \<and> ent_TransactionID e = i"
  shows "pg_ok db' \<and> pg_books db' = books_append out (pg_books db)
    \<and> map (\<lambda>e. e\<lparr>ent_ID := 0\<rparr>) out = map (\<lambda>e. e\<lparr>ent_ID := 0\<rparr>) es"
proof (cases "es = []")
  case True
  then show ?thesis using run ok by (simp add: Pg_AppendEntries_def books_append_def)
next
  case False
  let ?rows = "map entry_params es"
  obtain r s where r: "AppendEntry_batch c ?rows db = (Ok r, s)"
    "(case r of Inl e \<Rightarrow> ret (Err (wrapEntryError e)) | Inr rows \<Rightarrow> ret (match_written (written_by_seq rows) es)) s = (Ok out, db')"
    using run False by (auto simp: Pg_AppendEntries_def seq_eq_Ok)
  then obtain ws where ws: "r = Inr ws" "match_written (written_by_seq ws) es = Ok out" "s = db'" by (cases r) auto
  with r(1) have b: "append_batch ?rows db = (Inr ws, db')"
    by (auto simp: AppendEntry_batch_def query_eq_Ok split: prod.splits)
  have "\<forall>r\<in>set ?rows. Currency_Valid (en_Currency r)" using es by (auto simp: entry_params_def)
  note a = append_batch_Inr [OF b this]
  have db': "db' = db\<lparr>ld_entries := ld_entries db @ map2 (\<lambda>r w. r\<lparr>en_ID := fst w\<rparr>) ?rows ws, ld_nextval := ld_nextval db + int (length es)\<rparr>"
    and sn: "map snd ws = map (\<lambda>e. (ent_Seq e, ent_CreatedAt e)) es"
    using a by (simp_all add: comp_def entry_params_def)
  have uniq: "ent_Seq (es ! j) \<noteq> ent_Seq (es ! k)" if "k < length es" "j < k" for j k
  proof -
    have "ent_TransactionID (es ! j) = ent_TransactionID (es ! k)" using es that by (metis less_trans nth_mem)
    then show ?thesis using a that by (simp add: entry_params_def)
  qed
  have "map (fst \<circ> snd) ws = map ent_Seq es" using arg_cong [OF sn, of "map fst"] by simp
  moreover have "distinct (map ent_Seq es)"
    unfolding distinct_conv_nth length_map
  proof (intro allI impI)
    fix j k
    assume "j < length es" "k < length es" "j \<noteq> k"
    then show "map ent_Seq es ! j \<noteq> map ent_Seq es ! k" using uniq [of j k] uniq [of k j] by (cases "j < k") auto
  qed
  ultimately have dist: "distinct (map (fst \<circ> snd) ws)" by simp
  have len: "length ws = length es" using arg_cong [OF sn, of length] by simp
  have "list_all2 (\<lambda>e (i, s, at). ent_Seq e = s \<and> ent_CreatedAt e = at) es ws"
  proof (rule list_all2_all_nthI)
    show "length es = length ws" by (simp add: len)
    fix n
    assume n: "n < length es"
    have "map snd ws ! n = map (\<lambda>e. (ent_Seq e, ent_CreatedAt e)) es ! n" by (simp only: sn)
    then have "snd (ws ! n) = (ent_Seq (es ! n), ent_CreatedAt (es ! n))" using n len by simp
    then show "case ws ! n of (i, s, at) \<Rightarrow> ent_Seq (es ! n) = s \<and> ent_CreatedAt (es ! n) = at" by (cases "ws ! n") auto
  qed
  from match_written_eq [OF this dist] ws(2) have out: "out = map2 (\<lambda>e w. e\<lparr>ent_ID := fst w\<rparr>) es ws" by simp
  have "\<forall>r\<in>set (map2 (\<lambda>r w. r\<lparr>en_ID := fst w\<rparr>) ?rows ws). Currency_Valid (en_Currency r)"
  proof -
    have "Currency_Valid (en_Currency a)" if "(a, w) \<in> set (zip ?rows ws)" for a w
      using set_zip_leftD [OF that] es by (auto simp: entry_params_def)
    then show ?thesis by (auto simp del: zip_map1)
  qed
  then have "pg_ok db'" using ok by (auto simp: pg_ok_def db')
  moreover have "pg_books db' = books_append out (pg_books db)"
  proof -
    have "entryFromRow ((entry_params e)\<lparr>en_ID := n\<rparr>) = e\<lparr>ent_ID := n\<rparr>" if "e \<in> set es" for e n
      using es that Currency_Valid_char3(2) by (simp add: entryFromRow_def entry_params_def)
    then have "map entryFromRow (map2 (\<lambda>r w. r\<lparr>en_ID := fst w\<rparr>) ?rows ws) = out"
      unfolding out using len by (intro nth_equalityI) simp_all
    moreover have "account_row db' i = account_row db i" "balance_row db' i = balance_row db i" "transaction_row_of db' i = transaction_row_of db i" for i
      by (simp_all add: account_row_def balance_row_def transaction_row_of_def db')
    ultimately show ?thesis by (simp add: pg_books_def books_append_def fun_eq_iff db' split: option.split)
  qed
  moreover have "map (\<lambda>e. e\<lparr>ent_ID := 0\<rparr>) out = map (\<lambda>e. e\<lparr>ent_ID := 0\<rparr>) es"
    unfolding out using len by (intro nth_equalityI) simp_all
  ultimately show ?thesis by simp
qed

section \<open>The repository contract\<close>

lemma select_state: "query c (select f) db = (r, db') \<Longrightarrow> db' = db"
  by (auto simp: query_def select_def split: if_splits)

lemma seq_state: "\<lbrakk>seq m f s = (r, s'); \<And>r t. m s = (r, t) \<Longrightarrow> t = s; \<And>x r t. f x s = (r, t) \<Longrightarrow> t = s\<rbrakk> \<Longrightarrow> s' = s"
  by (auto simp: seq_def split: prod.splits outcome.splits)

lemma each_with_entries_state: "each_with_entries c rows db = (r, db') \<Longrightarrow> db' = db"
proof (induction rows arbitrary: r db')
  case (Cons row rows)
  have entries: "Pg_EntriesByTransaction c i db = (r, t) \<Longrightarrow> t = db" for i r t
    unfolding Pg_EntriesByTransaction_def rows_of_def EntriesByTransaction_def
    by (erule seq_state) (auto dest: select_state)
  have "with_its_entries c row db = (r, t) \<Longrightarrow> t = db" for r t
    unfolding with_its_entries_def by (erule seq_state) (auto elim!: seq_state dest: entries)
  then show ?case using Cons by (auto elim!: seq_state)
qed simp

interpretation pg: repository postgres_repo pg_books pg_ok
proof (unfold_locales, goal_cases)
  case (1 s a acct u s')
  then show ?case using Pg_CreateAccount_Ok by (auto simp: postgres_repo_def)
next
  case (2 s a ids locked s')
  then show ?case using Pg_LockAccounts_Ok [of s a ids locked s'] by (simp add: postgres_repo_def)
next
  case (3 s a us u s')
  then show ?case using Pg_ApplyBalances_Ok by (simp add: postgres_repo_def)
next
  case (4 s a t u s')
  then show ?case using Pg_InsertTransaction_Ok by (simp add: postgres_repo_def)
next
  case (5 s a i st at u s')
  then show ?case using Pg_SetTransactionStatus_Ok by (simp add: postgres_repo_def)
next
  case (6 s a i t s')
  then show ?case using Pg_GetTransaction_Ok by (simp add: postgres_repo_def)
next
  case (7 s a i r s')
  then show ?case using Pg_FindReversal_row by (simp add: postgres_repo_def)
next
  case (8 s a es out s' i)
  then show ?case using Pg_AppendEntries_Ok [OF 8(1) _ 8(3)] by (simp add: postgres_repo_def)
next
  case (9 a m s accts s')
  then show ?case
    by (auto simp: postgres_repo_def Pg_ListAccounts_def ListAccounts_def elim!: seq_state dest: select_state)
next
  case (10 a m ref s txns s')
  then show ?case
    by (auto simp: postgres_repo_def Pg_TransactionsByRef_def TransactionsByRef_def elim!: seq_state
        dest: select_state each_with_entries_state)
qed

end
