(* ===== verification/Postgres_Commit.thy ===== *)
theory Postgres_Commit
  imports Postgres_Laws
begin

text \<open>
  The ledger service over PostgreSQL: every run of the service keeps the invariant of the books in the
  tables, and the constraint trigger that the first migration defers to the commit
  (\<^verbatim>\<open>migrations/00001_ledger_core.sql\<close>) never refuses one.
\<close>

section \<open>Runs over PostgreSQL\<close>

definition empty_world :: "generator \<Rightarrow> ledger_db world" where
  "empty_world g = \<lparr>w_db = empty_ledger, w_gen = g, w_tick = 0\<rparr>"

abbreviation pg_reachable :: "env \<Rightarrow> generator \<Rightarrow> ledger_db world \<Rightarrow> bool" where
  "pg_reachable E g w \<equiv> ledger_run postgres_repo E (empty_world g) w"

lemma pg_reachable_ok:
  assumes "pg_reachable E g w"
  shows "pg_ok (w_db w)" and "books_ok (pg_books (w_db w))"
  using pg.run_invariant [OF assms] by (simp_all add: empty_world_def pg_ok_empty pg_books_empty books_ok_empty)

section \<open>The trigger\<close>

definition assert_transaction_balanced :: "ledger_db \<Rightarrow> string \<Rightarrow> unit answer" where
  "assert_transaction_balanced db txn =
     (let es = filter (\<lambda>r. en_TransactionID r = txn) (ld_entries db);
          d = sum_list (map en_AmountMinor (filter (\<lambda>r. en_Direction r = ''debit'') es));
          c = sum_list (map en_AmountMinor (filter (\<lambda>r. en_Direction r = ''credit'') es));
          n = length (remdups (map (\<lambda>r. char_text (en_Currency r)) es))
      in if \<not> in64 d \<or> \<not> in64 c then Inl (ServerError ''bigint out of range'')
         else if n \<noteq> 1 then Inl (CheckViolation (''txn '' @ txn @ '' spans '' @ FormatUint n @ '' currencies''))
         else if d \<noteq> c then Inl (CheckViolation (''txn '' @ txn @ '' unbalanced: debits='' @ FormatInt d @ '' credits='' @ FormatInt c))
         else if d = 0 then Inl (CheckViolation (''txn '' @ txn @ '' has no entries''))
         else Inr ())"

text \<open>The transaction of the application: what it inserted into the log is checked at the commit.\<close>

definition new_entries :: "ledger_db \<Rightarrow> ledger_db \<Rightarrow> EntryRow list" where
  "new_entries db db' = drop (length (ld_entries db)) (ld_entries db')"

definition Pg_InTx :: "(ledger_db world, 'a) opr \<Rightarrow> (ledger_db world, 'a) opr" where
  "Pg_InTx m w =
     (case m w of
        (Ok x, w') \<Rightarrow>
          if list_all (\<lambda>r. assert_transaction_balanced (w_db w') (en_TransactionID r) = Inr ()) (new_entries (w_db w) (w_db w'))
          then (Ok x, w')
          else (Err (ErrOther ''commit''), w'\<lparr>w_db := w_db w\<rparr>)
      | (r, w') \<Rightarrow> (r, w'\<lparr>w_db := w_db w\<rparr>))"

lemma debit_sum_rows:
  "debit_sum (map spec_entry (map entryFromRow es)) = sum_list (map en_AmountMinor (filter (\<lambda>r. en_Direction r = ''debit'') es))"
  by (induction es) (auto simp: entryFromRow_def Debit_def)

lemma credit_sum_rows:
  assumes "\<forall>r\<in>set es. Direction_Valid (en_Direction r)"
  shows "credit_sum (map spec_entry (map entryFromRow es)) = sum_list (map en_AmountMinor (filter (\<lambda>r. en_Direction r = ''credit'') es))"
  using assms by (induction es) (auto simp: entryFromRow_def Debit_def Credit_def Direction_Valid_def)

text \<open>Over books that satisfy their invariant the check passes for the transaction of every entry.\<close>

lemma trigger_passes:
  assumes ok: "pg_ok db" and books: "books_ok (pg_books db)" and e: "e \<in> set (ld_entries db)"
  shows "assert_transaction_balanced db (en_TransactionID e) = Inr ()"
proof -
  define i where "i = en_TransactionID e"
  define es where "es = filter (\<lambda>r. en_TransactionID r = i) (ld_entries db)"
  have es: "e \<in> set es" "set es \<subseteq> set (ld_entries db)" using e by (auto simp: es_def i_def)
  have log: "entries_of i (pg_books db) = map entryFromRow es"
    by (simp add: entries_of_def pg_books_def es_def filter_map comp_def entryFromRow_def)
  have "entryFromRow e \<in> set (bk_log (pg_books db))" using e by (simp add: pg_books_def)
  from books_okD(4) [OF books this] obtain t where "bk_txns (pg_books db) i = Some t"
    by (auto simp: entry_ok_def entryFromRow_def i_def)
  then have g: "group_ok (txn_Currency t) (map entryFromRow es)"
    using books_okD(5) [OF books, of i t] unfolding txn_ok_def log by blast
  note entry = group_entry [OF g]
  have cur: "char_text (en_Currency r) = txn_Currency t" if "r \<in> set es" for r
  proof -
    have "Currency_Valid (en_Currency r)" using ok es(2) that by (auto simp: pg_ok_def)
    then have "char_text (en_Currency r) = TrimSpace (en_Currency r)" by (simp add: Currency_Valid_char3)
    moreover have "TrimSpace (en_Currency r) = txn_Currency t" using entry(2) [of "entryFromRow r"] that by (simp add: entryFromRow_def)
    ultimately show ?thesis by simp
  qed
  have "map (\<lambda>r. char_text (en_Currency r)) es = map (\<lambda>r. txn_Currency t) es" using cur by simp
  then have "set (map (\<lambda>r. char_text (en_Currency r)) es) = {txn_Currency t}" using es(1) by (auto simp del: map_map)
  then have n: "length (remdups (map (\<lambda>r. char_text (en_Currency r)) es)) = 1"
    by (metis card.empty card_insert_disjoint empty_iff finite.emptyI length_remdups_card_conv One_nat_def)
  have dirs: "\<forall>r\<in>set es. Direction_Valid (en_Direction r)"
    using g by (auto simp: group_ok_def list_all_iff entry_spec_ok_def entryFromRow_def spec_entry_def)
  have sums: "debit_sum (map spec_entry (map entryFromRow es)) = credit_sum (map spec_entry (map entryFromRow es))"
    "in64 (debit_sum (map spec_entry (map entryFromRow es)))"
    using g unfolding group_ok_def by blast+
  have pos: "0 < debit_sum (map spec_entry (map entryFromRow es))" by (rule group_positive [OF g])
  show ?thesis
    using sums pos n unfolding credit_sum_rows [OF dirs] debit_sum_rows
    by (simp add: assert_transaction_balanced_def Let_def es_def i_def)
qed

section \<open>The trigger never refuses a commit\<close>

lemma new_entries_member: "r \<in> set (new_entries db db') \<Longrightarrow> r \<in> set (ld_entries db')"
  by (auto simp: new_entries_def dest: in_set_dropD)

text \<open>
  C7. The check that the database defers to the commit is the last line of defence for I1 and I2. In
  every state the service reaches, and for every request, it finds nothing to refuse: a request
  commits, fails or rolls back over PostgreSQL exactly as it does without the trigger, whatever the
  clock, the random source and the context report.
\<close>

theorem commit_never_refused:
  assumes "pg_reachable E g w" and "typed_command c"
  shows "Pg_InTx (run_command postgres_repo E c) w = InTx (run_command postgres_repo E c) w"
proof -
  obtain r w' where run: "run_command postgres_repo E c w = (r, w')" by fastforce
  show ?thesis
  proof (cases r)
    case (Ok u)
    note ok = pg_reachable_ok [OF assms(1)]
    have "pg_ok (w_db w') \<and> books_ok (pg_books (w_db w'))"
      by (rule pg.run_command_ok [OF run [unfolded Ok] assms(2) ok])
    then have "list_all (\<lambda>r. assert_transaction_balanced (w_db w') (en_TransactionID r) = Inr ()) (new_entries (w_db w) (w_db w'))"
      by (auto simp: list_all_iff intro!: trigger_passes dest: new_entries_member)
    then show ?thesis by (simp add: Pg_InTx_def InTx_def run Ok)
  qed (simp_all add: Pg_InTx_def InTx_def run)
qed

definition pg_sample :: "bool \<Rightarrow> ledger_db world" where
  "pg_sample pending = run_all postgres_repo sample_env (sample_accounts False @ [CmdPost (sample_posting pending)]) (empty_world sample_generator)"

lemma pg_sample_reachable: "pg_reachable sample_env sample_generator (pg_sample pending)"
  unfolding pg_sample_def by (rule run_all_ledger_run) (simp add: typed_sample)

lemma commit_never_refused_witness:
  "length (ld_entries (w_db (pg_sample False))) = 2
    \<and> Pg_InTx (run_command postgres_repo sample_env (CmdPost (sample_posting False))) (pg_sample False)
      = InTx (run_command postgres_repo sample_env (CmdPost (sample_posting False))) (pg_sample False)"
proof
  show "length (ld_entries (w_db (pg_sample False))) = 2" by code_simp
  show "Pg_InTx (run_command postgres_repo sample_env (CmdPost (sample_posting False))) (pg_sample False)
      = InTx (run_command postgres_repo sample_env (CmdPost (sample_posting False))) (pg_sample False)"
    by (rule commit_never_refused [OF pg_sample_reachable]) (simp add: typed_sample)
qed

end
