(* ===== verification/Reconcile.thy ===== *)
theory Reconcile
  imports Postgres_Commit Idempotency
begin

text \<open>
  The background jobs of \<^verbatim>\<open>internal/workers/reconciler.go\<close> over \<^verbatim>\<open>internal/postgres/reconcile.go\<close>: the
  reconciler, which checks the books against themselves, and the reaper, which deletes expired
  idempotency keys. Metrics and logging are not modelled. The interface of the reconciler is the
  locale \<open>ledger_checker\<close>, interpreted on the aggregate queries of PostgreSQL.
\<close>

section \<open>The reconciler\<close>

record AccountDrift =
  dft_AccountID :: string
  dft_Materialized :: int
  dft_Derived :: int

definition Delta :: "AccountDrift \<Rightarrow> int" where
  "Delta d = wrap64 (dft_Materialized d - dft_Derived d)"

record 's LedgerChecker =
  lc_TrialBalance :: "ambient \<Rightarrow> string \<Rightarrow> ('s, int) opr"
  lc_Currencies :: "ambient \<Rightarrow> ('s, string list) opr"
  lc_DriftedAccounts :: "ambient \<Rightarrow> ('s, AccountDrift list) opr"

record Report =
  rep_TrialBalances :: "(string \<times> int) list"
  rep_Drifted :: "AccountDrift list"
  rep_CheckedAt :: int

definition Report_Clean :: "Report \<Rightarrow> bool" where
  "Report_Clean r \<longleftrightarrow> rep_Drifted r = [] \<and> list_all (\<lambda>(cur, drift). drift = 0) (rep_TrialBalances r)"

fun trial_each :: "'s LedgerChecker \<Rightarrow> env \<Rightarrow> string list \<Rightarrow> (string \<times> int) list \<Rightarrow> ('s world, (string \<times> int) list) opr" where
  "trial_each C E [] tb = ret (Ok tb)"
| "trial_each C E (cur # curs) tb =
     seq (call E (\<lambda>c. lc_TrialBalance C c cur)) (\<lambda>drift. trial_each C E curs (AList.update cur drift tb))"

definition Reconciler_Run :: "'s LedgerChecker \<Rightarrow> env \<Rightarrow> ('s world, Report) opr" where
  "Reconciler_Run C E =
     seq (clock_now E) (\<lambda>checkedAt.
     seq (call E (lc_Currencies C)) (\<lambda>currencies.
     seq (trial_each C E currencies []) (\<lambda>tb.
     seq (call E (lc_DriftedAccounts C)) (\<lambda>drifted.
     ret (Ok \<lparr>rep_TrialBalances = tb, rep_Drifted = drifted, rep_CheckedAt = checkedAt\<rparr>)))))"

section \<open>The checker over PostgreSQL\<close>

definition Checker_TrialBalance :: "ambient \<Rightarrow> string \<Rightarrow> (ledger_db, int) opr" where
  "Checker_TrialBalance c cur = seq (TrialBalance c cur) (\<lambda>r. case r of
     Inl _ \<Rightarrow> ret (Err (ErrOther ''trial balance'')) | Inr drift \<Rightarrow> ret (Ok drift))"

definition Checker_Currencies :: "ambient \<Rightarrow> (ledger_db, string list) opr" where
  "Checker_Currencies c = ListCurrencies c"

definition Checker_DriftedAccounts :: "ambient \<Rightarrow> (ledger_db, AccountDrift list) opr" where
  "Checker_DriftedAccounts c = seq (DriftedAccounts c) (\<lambda>r. case r of
     Inl _ \<Rightarrow> ret (Err (ErrOther ''drifted accounts''))
   | Inr rows \<Rightarrow> ret (Ok (map (\<lambda>row. \<lparr>dft_AccountID = dr_AccountID row, dft_Materialized = dr_Materialized row,
       dft_Derived = dr_Derived row\<rparr>) rows)))"

definition postgres_checker :: "ledger_db LedgerChecker" where
  "postgres_checker = \<lparr>lc_TrialBalance = Checker_TrialBalance, lc_Currencies = Checker_Currencies,
     lc_DriftedAccounts = Checker_DriftedAccounts\<rparr>"

section \<open>The reaper\<close>

definition reaper_batch :: "int \<Rightarrow> int" where
  "reaper_batch batchSize = (if batchSize \<le> 0 then 1000 else batchSize)"

text \<open>
  The loop ends with a short batch, with an error, or when the context is done between two batches.
  \<open>None\<close> means that the bound on the number of rounds ran out.
\<close>

fun reap_loop :: "nat \<Rightarrow> env \<Rightarrow> int \<Rightarrow> int \<Rightarrow> 'a idem_db world \<Rightarrow> (int outcome \<times> 'a idem_db world) option" where
  "reap_loop 0 E batch tot w = None"
| "reap_loop (Suc n) E batch tot w =
     (case seq (clock_now E) (\<lambda>now. call E (on_keys (\<lambda>c. Idem_DeleteExpired c now batch))) w of
        (Err e, w') \<Rightarrow> Some (Err e, w')
      | (Panic, w') \<Rightarrow> Some (Panic, w')
      | (Ok deleted, w') \<Rightarrow>
          let tot' = wrap64 (tot + deleted)
          in if deleted < batch then Some (Ok tot', w')
             else if env_cancelled E (w_tick w') then Some (Err ErrContext, w'\<lparr>w_tick := Suc (w_tick w')\<rparr>)
             else reap_loop n E batch tot' (w'\<lparr>w_tick := Suc (w_tick w')\<rparr>))"

definition Reaper_Run :: "nat \<Rightarrow> env \<Rightarrow> int \<Rightarrow> 'a idem_db world \<Rightarrow> (int outcome \<times> 'a idem_db world) option" where
  "Reaper_Run n E batchSize w = reap_loop n E (reaper_batch batchSize) 0 w"

section \<open>What a checker promises\<close>

text \<open>
  \<open>listing\<close> lists every account with its balance. A checker reads only; its three answers are about
  that list and the entry log.
\<close>

definition signed_total :: "string \<Rightarrow> (Account \<times> Balance) list \<Rightarrow> int" where
  "signed_total cur xs = sum_list (map (\<lambda>(a, b). if acc_Currency a = cur then EquationSign (acc_Type a) * bal_Posted b else 0) xs)"

definition drift_of :: "Entry list \<Rightarrow> Account \<times> Balance \<Rightarrow> AccountDrift" where
  "drift_of log x = \<lparr>dft_AccountID = acc_ID (fst x), dft_Materialized = bal_Posted (snd x),
     dft_Derived = net StatusPosted (fst x) log\<rparr>"

definition drifts :: "Entry list \<Rightarrow> (Account \<times> Balance) list \<Rightarrow> (Account \<times> Balance) list" where
  "drifts log xs = filter (\<lambda>x. bal_Posted (snd x) \<noteq> net StatusPosted (fst x) log) xs"

locale ledger_checker =
  fixes C :: "'s LedgerChecker" and books :: "'s \<Rightarrow> books" and wf :: "'s \<Rightarrow> bool" and listing :: "'s \<Rightarrow> (Account \<times> Balance) list"
  assumes listing_all:
      "wf s \<Longrightarrow> distinct (map (acc_ID \<circ> fst) (listing s))
         \<and> (\<forall>(a, b)\<in>set (listing s). bk_accounts (books s) (acc_ID a) = Some a \<and> bk_balances (books s) (acc_ID a) = Some b)
         \<and> (\<forall>i a. bk_accounts (books s) i = Some a \<longrightarrow> acc_ID a = i \<and> a \<in> fst ` set (listing s))"
    and currencies:
      "wf s \<Longrightarrow> lc_Currencies C c s = (r1, s') \<Longrightarrow> s' = s \<and> (\<forall>cs. r1 = Ok cs \<longrightarrow> set cs = (acc_Currency \<circ> fst) ` set (listing s))"
    and currencies_total: "wf s \<Longrightarrow> \<not> cancelled c \<Longrightarrow> \<exists>cs. lc_Currencies C c s = (Ok cs, s)"
    and trial: "wf s \<Longrightarrow> lc_TrialBalance C c cur s = (r2, s') \<Longrightarrow>
      s' = s \<and> (\<forall>d. cur \<in> (acc_Currency \<circ> fst) ` set (listing s) \<longrightarrow> r2 = Ok d \<longrightarrow> d = signed_total cur (listing s))"
    and trial_total: "wf s \<Longrightarrow> \<not> cancelled c \<Longrightarrow> \<forall>x\<in>set (listing s). bal_Posted (snd x) \<noteq> MinInt64 \<and> in64 (bal_Posted (snd x)) \<Longrightarrow>
      cur \<in> (acc_Currency \<circ> fst) ` set (listing s) \<Longrightarrow> signed_total cur (listing s) = 0 \<Longrightarrow> \<exists>d. lc_TrialBalance C c cur s = (Ok d, s)"
    and drifted: "wf s \<Longrightarrow> lc_DriftedAccounts C c s = (r3, s') \<Longrightarrow>
      s' = s \<and> (\<forall>ds. r3 = Ok ds \<longrightarrow> ds = map (drift_of (bk_log (books s))) (drifts (bk_log (books s)) (listing s)))"
    and drifted_total: "wf s \<Longrightarrow> \<not> cancelled c \<Longrightarrow> books_ok (books s) \<Longrightarrow> \<exists>ds. lc_DriftedAccounts C c s = (Ok ds, s)"
begin

lemma listed:
  assumes "wf s" and "x \<in> set (listing s)"
  shows "bk_accounts (books s) (acc_ID (fst x)) = Some (fst x)" and "bk_balances (books s) (acc_ID (fst x)) = Some (snd x)"
  using listing_all [OF assms(1)] assms(2) by (auto simp: split_beta)

lemma trial_each_run:
  assumes "trial_each C E curs tb w = (Ok out, w')" and "wf (w_db w)" and "set curs \<subseteq> (acc_Currency \<circ> fst) ` set (listing (w_db w))"
  shows "w_db w' = w_db w \<and> (distinct (map fst tb) \<longrightarrow> distinct (map fst out))
    \<and> map_of out = (\<lambda>cur. if cur \<in> set curs then Some (signed_total cur (listing (w_db w))) else map_of tb cur)"
  using assms
proof (induction curs arbitrary: tb w)
  case (Cons cur curs)
  obtain d db where d: "lc_TrialBalance C (ambient_at E (w_tick w)) cur (w_db w) = (Ok d, db)"
    and rest: "trial_each C E curs (AList.update cur d tb) (w\<lparr>w_db := db, w_tick := Suc (w_tick w)\<rparr>) = (Ok out, w')"
    using Cons.prems(1) by (auto simp: seq_eq_Ok call_eq_Ok)
  have db: "db = w_db w" "d = signed_total cur (listing (w_db w))" using trial [OF Cons.prems(2) d] Cons.prems(3) by simp_all
  have "w_db w' = w_db w \<and> (distinct (map fst (AList.update cur d tb)) \<longrightarrow> distinct (map fst out))
      \<and> map_of out = (\<lambda>x. if x \<in> set curs then Some (signed_total x (listing (w_db w))) else map_of (AList.update cur d tb) x)"
    using Cons.IH [OF rest] Cons.prems(2,3) by (simp add: db(1) cong: if_cong)
  then show ?case using distinct_update [of tb cur d] by (auto simp: AList.update_conv' db(2))
qed simp

text \<open>
  The report is clean exactly when every materialized balance is the one derived from the log, and the
  books of every currency add up to zero.
\<close>

lemma Run_exact:
  assumes run: "Reconciler_Run C E w = (Ok report, w')" and w: "wf (w_db w)"
  shows "w_db w' = w_db w" and "Report_Clean report \<longleftrightarrow>
    (\<forall>i a b. bk_accounts (books (w_db w)) i = Some a \<longrightarrow> bk_balances (books (w_db w)) i = Some b \<longrightarrow>
       bal_Posted b = net StatusPosted a (bk_log (books (w_db w))))
    \<and> (\<forall>cur. signed_total cur (listing (w_db w)) = 0)"
proof -
  let ?s = "w_db w"
  obtain cs db1 tb w2 ds db3 where c: "lc_Currencies C (ambient_at E (Suc (w_tick w))) ?s = (Ok cs, db1)"
    and t: "trial_each C E cs [] (w\<lparr>w_db := db1, w_tick := Suc (Suc (w_tick w))\<rparr>) = (Ok tb, w2)"
    and d: "lc_DriftedAccounts C (ambient_at E (w_tick w2)) (w_db w2) = (Ok ds, db3)"
    and rep: "report = \<lparr>rep_TrialBalances = tb, rep_Drifted = ds, rep_CheckedAt = env_now E (w_tick w)\<rparr>" and w': "w_db w' = db3"
    using run by (auto simp: Reconciler_Run_def seq_eq_Ok call_eq_Ok)
  have cs: "db1 = ?s" "set cs = (acc_Currency \<circ> fst) ` set (listing ?s)" using currencies [OF w c] by simp_all
  have tb: "w_db w2 = ?s" "distinct (map fst tb)"
    "map_of tb = (\<lambda>cur. if cur \<in> set cs then Some (signed_total cur (listing ?s)) else None)"
    using trial_each_run [OF t] w cs by (simp_all cong: if_cong)
  have ds: "db3 = ?s" "ds = map (drift_of (bk_log (books ?s))) (drifts (bk_log (books ?s)) (listing ?s))"
    using drifted [OF _ d] w tb(1) by simp_all
  show "w_db w' = ?s" using w' ds(1) by simp
  have zero: "list_all (\<lambda>(cur, drift). drift = 0) tb \<longleftrightarrow> (\<forall>cur. signed_total cur (listing ?s) = 0)"
  proof -
    have "list_all (\<lambda>(cur, drift). drift = 0) tb \<longleftrightarrow> (\<forall>cur d. map_of tb cur = Some d \<longrightarrow> d = 0)"
      using tb(2) by (auto simp: list_all_iff)
    moreover have "signed_total cur (listing ?s) = 0" if "cur \<notin> set cs" for cur
    proof -
      have "map (\<lambda>(a, b). if acc_Currency a = cur then EquationSign (acc_Type a) * bal_Posted b else 0) (listing ?s) = map (\<lambda>_. 0) (listing ?s)"
        using that cs(2) by (intro map_cong refl) (force split: prod.splits)
      then show ?thesis unfolding signed_total_def by (simp only: sum_list_0)
    qed
    ultimately show ?thesis using tb(3) by (metis option.sel option.distinct(1))
  qed
  have "ds = [] \<longleftrightarrow> (\<forall>x\<in>set (listing ?s). bal_Posted (snd x) = net StatusPosted (fst x) (bk_log (books ?s)))"
    by (auto simp: ds(2) drifts_def filter_empty_conv)
  also have "\<dots> \<longleftrightarrow> (\<forall>i a b. bk_accounts (books ?s) i = Some a \<longrightarrow> bk_balances (books ?s) i = Some b \<longrightarrow>
      bal_Posted b = net StatusPosted a (bk_log (books ?s)))" (is "?all \<longleftrightarrow> ?every")
  proof
    assume ?every
    then show ?all using listed [OF w] by blast
  next
    assume all: ?all
    show ?every
    proof (intro allI impI)
      fix i a b
      assume ab: "bk_accounts (books ?s) i = Some a" "bk_balances (books ?s) i = Some b"
      then obtain b' where l: "acc_ID a = i" "(a, b') \<in> set (listing ?s)" using listing_all [OF w] by force
      then have "bk_balances (books ?s) i = Some b'" using listing_all [OF w] by blast
      then show "bal_Posted b = net StatusPosted a (bk_log (books ?s))" using ab(2) all l(2) by auto
    qed
  qed
  finally show "Report_Clean report \<longleftrightarrow> (\<forall>i a b. bk_accounts (books ?s) i = Some a \<longrightarrow> bk_balances (books ?s) i = Some b \<longrightarrow>
      bal_Posted b = net StatusPosted a (bk_log (books ?s))) \<and> (\<forall>cur. signed_total cur (listing ?s) = 0)"
    using zero by (simp add: Report_Clean_def rep)
qed

text \<open>Over books that satisfy their invariant a pass succeeds and is clean.\<close>

lemma signed_total_zero:
  assumes w: "wf s" and ok: "books_ok (books s)"
  shows "signed_total cur (listing s) = 0"
proof -
  let ?as = "map fst (listing s)"
  have "distinct (map (acc_ID \<circ> fst) (listing s))" using listing_all [OF w] by blast
  then have dist: "distinct (map acc_ID ?as)" by (simp only: map_map)
  have sound: "\<forall>a\<in>set ?as. bk_accounts (books s) (acc_ID a) = Some a" using listed(1) [OF w] by auto
  have all: "a \<in> set ?as" if "bk_accounts (books s) i = Some a" for i a
    unfolding set_map using listing_all [OF w] that by blast
  have "bal_Posted (snd x) = net StatusPosted (fst x) (bk_log (books s))" if "x \<in> set (listing s)" for x
    using books_posted(1) [OF ok listed [OF w that]] .
  then have "signed_total cur (listing s) = sum_list (map (\<lambda>a. if acc_Currency a = cur
      then EquationSign (acc_Type a) * net StatusPosted a (bk_log (books s)) else 0) ?as)"
    unfolding signed_total_def by (intro arg_cong [where f = sum_list]) (auto simp: comp_def split: prod.splits)
  then show ?thesis using books_equation [OF ok dist sound all] by simp
qed

lemma trial_each_total:
  assumes "wf (w_db w)" and "\<forall>k. \<not> env_cancelled E k" and "\<forall>x\<in>set (listing (w_db w)). bal_Posted (snd x) \<noteq> MinInt64 \<and> in64 (bal_Posted (snd x))"
    and "\<forall>cur. signed_total cur (listing (w_db w)) = 0" and "set curs \<subseteq> (acc_Currency \<circ> fst) ` set (listing (w_db w))"
  shows "\<exists>out w'. trial_each C E curs tb w = (Ok out, w') \<and> w_db w' = w_db w"
  using assms
proof (induction curs arbitrary: tb w)
  case (Cons cur curs)
  have nc: "\<not> cancelled (ambient_at E (w_tick w))" using Cons.prems(2) by (simp add: ambient_at_def)
  have "cur \<in> (acc_Currency \<circ> fst) ` set (listing (w_db w))" using Cons.prems(5) by simp
  then obtain d where d: "lc_TrialBalance C (ambient_at E (w_tick w)) cur (w_db w) = (Ok d, w_db w)"
    using trial_total [OF Cons.prems(1) nc Cons.prems(3)] Cons.prems(4) by blast
  let ?w = "w\<lparr>w_tick := Suc (w_tick w)\<rparr>"
  have "\<exists>out w'. trial_each C E curs (AList.update cur d tb) ?w = (Ok out, w') \<and> w_db w' = w_db ?w"
    by (rule Cons.IH) (use Cons.prems in simp_all)
  then show ?case by (simp add: seq_def call_def d)
qed simp

lemma Run_clean:
  assumes w: "wf (w_db w)" "books_ok (books (w_db w))" and nc: "\<forall>k. \<not> env_cancelled E k"
    and range: "\<forall>i b. bk_balances (books (w_db w)) i = Some b \<longrightarrow> bal_Posted b \<noteq> MinInt64"
  shows "\<exists>report w'. Reconciler_Run C E w = (Ok report, w') \<and> w_db w' = w_db w \<and> Report_Clean report"
proof -
  have live: "\<not> cancelled (ambient_at E k)" for k using nc by (simp add: ambient_at_def)
  obtain cs where c: "lc_Currencies C (ambient_at E (Suc (w_tick w))) (w_db w) = (Ok cs, w_db w)"
    using currencies_total [OF w(1) live] by blast
  have cs: "set cs = (acc_Currency \<circ> fst) ` set (listing (w_db w))" using currencies [OF w(1) c] by simp
  have "bal_Posted (snd x) \<noteq> MinInt64 \<and> in64 (bal_Posted (snd x))" if "x \<in> set (listing (w_db w))" for x
    using listed(2) [OF w(1) that] range books_posted(2) [OF w(2) listed [OF w(1) that]] by blast
  then obtain tb w2 where t: "trial_each C E cs [] (w\<lparr>w_tick := Suc (Suc (w_tick w))\<rparr>) = (Ok tb, w2)" "w_db w2 = w_db w"
    using trial_each_total [of "w\<lparr>w_tick := Suc (Suc (w_tick w))\<rparr>" E cs "[]"] w nc cs signed_total_zero [OF w] by auto
  obtain ds where d: "lc_DriftedAccounts C (ambient_at E (w_tick w2)) (w_db w) = (Ok ds, w_db w)"
    using drifted_total [OF w(1) live w(2)] by blast
  let ?report = "\<lparr>rep_TrialBalances = tb, rep_Drifted = ds, rep_CheckedAt = env_now E (w_tick w)\<rparr>"
  have run: "Reconciler_Run C E w = (Ok ?report, w2\<lparr>w_db := w_db w, w_tick := Suc (w_tick w2)\<rparr>)"
    using t d c by (simp add: Reconciler_Run_def seq_def call_def clock_now_def)
  have "Report_Clean ?report"
    unfolding Run_exact(2) [OF run w(1)] using books_posted(1) [OF w(2)] signed_total_zero [OF w] by blast
  then show ?thesis using run by auto
qed

end

section \<open>The aggregate queries are such a checker\<close>

definition pg_listing :: "ledger_db \<Rightarrow> (Account \<times> Balance) list" where
  "pg_listing db = map (\<lambda>(a, b). (account_of a, balanceFromRow a b)) (balance_join db)"

lemma find_member: "List.find P xs = Some x \<Longrightarrow> x \<in> set xs \<and> P x"
  by (auto simp: find_Some_iff)

lemma balance_join_zip: "pg_ok db \<Longrightarrow> balance_join db = zip (ld_accounts db) (ld_balances db)"
  unfolding balance_join_def by (rule join_on_key) (simp_all add: pg_ok_def)

lemma pg_ok_length: "pg_ok db \<Longrightarrow> length (ld_balances db) = length (ld_accounts db)"
  unfolding pg_ok_def by (metis length_map)

lemma pg_listing_accounts:
  assumes "pg_ok db"
  shows "map fst (pg_listing db) = map account_of (ld_accounts db)"
proof -
  have "map fst (pg_listing db) = map account_of (map fst (zip (ld_accounts db) (ld_balances db)))"
    by (simp add: pg_listing_def balance_join_zip [OF assms] split_beta comp_def)
  then show ?thesis using pg_ok_length [OF assms] by simp
qed

lemma pg_listing_all:
  assumes ok: "pg_ok db"
  shows "distinct (map (acc_ID \<circ> fst) (pg_listing db))
    \<and> (\<forall>(a, b)\<in>set (pg_listing db). bk_accounts (pg_books db) (acc_ID a) = Some a \<and> bk_balances (pg_books db) (acc_ID a) = Some b)
    \<and> (\<forall>i a. bk_accounts (pg_books db) i = Some a \<longrightarrow> acc_ID a = i \<and> a \<in> fst ` set (pg_listing db))"
proof (intro conjI)
  have id: "acc_ID (account_of r) = ar_ID r" for r by (simp add: account_of_def)
  have "map (acc_ID \<circ> fst) (pg_listing db) = map ar_ID (ld_accounts db)"
    using arg_cong [OF pg_listing_accounts [OF ok], of "map acc_ID"] by (simp add: comp_def id)
  then show "distinct (map (acc_ID \<circ> fst) (pg_listing db))" using ok by (simp add: pg_ok_def)
  show "\<forall>(a, b)\<in>set (pg_listing db). bk_accounts (pg_books db) (acc_ID a) = Some a \<and> bk_balances (pg_books db) (acc_ID a) = Some b"
  proof
    fix x
    assume "x \<in> set (pg_listing db)"
    then obtain ra rb where x: "x = (account_of ra, balanceFromRow ra rb)" and m: "(ra, rb) \<in> set (balance_join db)"
      by (auto simp: pg_listing_def)
    note r = balance_join_rows [OF m]
    show "case x of (a, b) \<Rightarrow> bk_accounts (pg_books db) (acc_ID a) = Some a \<and> bk_balances (pg_books db) (acc_ID a) = Some b"
      using r distinct_row(1) [OF ok, of ra] distinct_row(2) [OF ok, of rb] by (simp add: x id pg_books_def)
  qed
  show "\<forall>i a. bk_accounts (pg_books db) i = Some a \<longrightarrow> acc_ID a = i \<and> a \<in> fst ` set (pg_listing db)"
  proof (intro allI impI)
    fix i a
    assume "bk_accounts (pg_books db) i = Some a"
    then obtain r where r: "r \<in> set (ld_accounts db)" "ar_ID r = i" "a = account_of r"
      by (auto simp: pg_books_def account_row_def dest: find_member)
    have "a \<in> set (map fst (pg_listing db))" using r by (simp add: pg_listing_accounts [OF ok])
    then show "acc_ID a = i \<and> a \<in> fst ` set (pg_listing db)" using r by (simp add: id)
  qed
qed

text \<open>A sum whose terms are all in range is the exact sum.\<close>

lemma sum_bigint_Inr: "sum_bigint (map (\<lambda>x. Inr (f x)) xs) = Inr (sum_list (map f xs))"
  by (induction xs) simp_all

lemma sum_bigint_values:
  assumes "sum_bigint (map g xs) = Inr n" and "\<And>x m. x \<in> set xs \<Longrightarrow> g x = Inr m \<Longrightarrow> m = f x"
  shows "n = sum_list (map f xs)"
  using assms
proof (induction xs arbitrary: n)
  case (Cons x xs)
  then obtain k m where "g x = Inr k" "sum_bigint (map g xs) = Inr m" "n = k + m" by (auto split: sum.splits)
  with Cons show ?case by simp
qed simp

lemma bigint_Inr: "bigint n = Inr m \<Longrightarrow> m = n"
  by (simp add: bigint_def split: if_splits)

lemma cast_bigint_Inr: "cast_bigint r = Inr n \<Longrightarrow> r = Inr n"
  by (auto simp: cast_bigint_def bigint_def split: sum.splits if_splits)

lemma sum_bigint_total:
  assumes "\<And>x. x \<in> set xs \<Longrightarrow> g x = Inr (f x)"
  shows "sum_bigint (map g xs) = Inr (sum_list (map f xs))"
proof -
  have "map g xs = map (\<lambda>x. Inr (f x)) xs" using assms by simp
  then show ?thesis by (simp only: sum_bigint_Inr)
qed

text \<open>The signed posted balance of a joined row, and the entries of an account, as the queries see them.\<close>

definition signed_posted :: "AccountRow \<times> AccountBalance \<Rightarrow> int" where
  "signed_posted x = EquationSign (ar_Type (fst x)) * ab_PostedMinor (snd x)"

definition signed_term :: "AccountRow \<times> AccountBalance \<Rightarrow> int answer" where
  "signed_term x = (if ar_Type (fst x) \<in> set [''asset'', ''expense''] then Inr (ab_PostedMinor (snd x)) else bigint (- ab_PostedMinor (snd x)))"

lemma signed_term_value: "signed_term x = Inr m \<Longrightarrow> m = signed_posted x"
  by (auto simp: signed_term_def signed_posted_def EquationSign_def Asset_def Expense_def dest: bigint_Inr split: if_splits)

lemma signed_term_total:
  "\<lbrakk>ab_PostedMinor (snd x) \<noteq> MinInt64; in64 (ab_PostedMinor (snd x))\<rbrakk> \<Longrightarrow> signed_term x = Inr (signed_posted x)"
  by (auto simp: signed_term_def signed_posted_def EquationSign_def Asset_def Expense_def bigint_def in64_def)

lemma known_code:
  assumes "pg_ok db" and "a \<in> set (ld_accounts db)"
  shows "acc_Currency (account_of a) = ar_Currency a" and "char_text (ar_Currency a) = ar_Currency a"
  using assms Currency_Valid_char3 [of "ar_Currency a"] by (auto simp: pg_ok_def account_of_def)

lemma trial_rows:
  assumes ok: "pg_ok db" and cur: "cur \<in> (acc_Currency \<circ> fst) ` set (pg_listing db)"
  shows "sum_list (map signed_posted (filter (\<lambda>(a, b). char_text (ar_Currency a) = char_text cur) (balance_join db))) = signed_total cur (pg_listing db)"
proof -
  have "cur \<in> acc_Currency ` set (map fst (pg_listing db))" using cur by auto
  then obtain r where "r \<in> set (ld_accounts db)" "cur = ar_Currency r"
    using known_code(1) [OF ok] by (auto simp: pg_listing_accounts [OF ok])
  then have "char_text cur = cur" using known_code(2) [OF ok] by simp
  then have sel: "(case x of (a, b) \<Rightarrow> char_text (ar_Currency a) = char_text cur) \<longleftrightarrow> acc_Currency (account_of (fst x)) = cur"
    if "x \<in> set (balance_join db)" for x
    using that balance_join_rows [of "fst x" "snd x" db] known_code [OF ok, of "fst x"] by (cases x) auto
  have "sum_list (map signed_posted (filter (\<lambda>(a, b). char_text (ar_Currency a) = char_text cur) (balance_join db)))
      = sum_list (map (\<lambda>x. if acc_Currency (account_of (fst x)) = cur then signed_posted x else 0) (balance_join db))"
    unfolding sum_list_map_filter' using sel by (intro arg_cong [where f = sum_list] map_cong refl) simp
  also have "\<dots> = signed_total cur (pg_listing db)"
    unfolding signed_total_def pg_listing_def
    by (intro arg_cong [where f = sum_list]) (auto simp: signed_posted_def account_of_def balanceFromRow_def)
  finally show ?thesis .
qed

lemma derived_minor_value:
  assumes "derived_minor a es = Inr d"
  shows "d = net StatusPosted (account_of a) (map entryFromRow es)"
proof -
  let ?P = "\<lambda>e. en_AccountID e = ar_ID a \<and> en_Status e = ''posted''"
  let ?f = "\<lambda>e. if en_Direction e = ar_NormalBalance a then en_AmountMinor e else - en_AmountMinor e"
  have "d = sum_list (map ?f (filter ?P es))"
    by (rule sum_bigint_values [OF cast_bigint_Inr [OF assms [unfolded derived_minor_def]]]) (auto dest: bigint_Inr split: if_splits)
  also have "\<dots> = net StatusPosted (account_of a) (map entryFromRow es)"
    unfolding sum_list_map_filter' net_def
    by (intro arg_cong [where f = sum_list]) (auto simp: entryFromRow_def account_of_def delta_def StatusPosted_def)
  finally show ?thesis .
qed

lemma derived_minor_total:
  assumes "\<forall>e\<in>set es. 0 < en_AmountMinor e \<and> in64 (en_AmountMinor e)" and "in64 (net StatusPosted (account_of a) (map entryFromRow es))"
  shows "\<exists>d. derived_minor a es = Inr d"
proof -
  let ?P = "\<lambda>e. en_AccountID e = ar_ID a \<and> en_Status e = ''posted''"
  let ?f = "\<lambda>e. if en_Direction e = ar_NormalBalance a then en_AmountMinor e else - en_AmountMinor e"
  have "sum_list (map ?f (filter ?P es)) = net StatusPosted (account_of a) (map entryFromRow es)"
    unfolding sum_list_map_filter' net_def
    by (intro arg_cong [where f = sum_list]) (auto simp: entryFromRow_def account_of_def delta_def StatusPosted_def)
  moreover have "sum_bigint (map (\<lambda>e. if en_Direction e = ar_NormalBalance a then Inr (en_AmountMinor e) else bigint (- en_AmountMinor e)) (filter ?P es))
      = Inr (sum_list (map ?f (filter ?P es)))"
    by (rule sum_bigint_total) (use assms(1) in \<open>auto simp: bigint_def in64_def\<close>)
  ultimately show ?thesis using assms(2) by (simp add: derived_minor_def cast_bigint_def bigint_def)
qed

lemma derived_rows_value:
  "derived_rows es xs = Inr rows \<Longrightarrow> rows = map (\<lambda>(a, b). \<lparr>dr_AccountID = ar_ID a, dr_Materialized = ab_PostedMinor b,
     dr_Derived = net StatusPosted (account_of a) (map entryFromRow es)\<rparr>) xs"
proof (induction xs arbitrary: rows)
  case (Cons x xs)
  obtain a b where x: "x = (a, b)" by (cases x)
  show ?case using Cons by (auto simp: x dest!: derived_minor_value split: sum.splits)
qed simp

lemma derived_rows_total:
  "\<forall>x\<in>set xs. \<exists>d. derived_minor (fst x) es = Inr d \<Longrightarrow> \<exists>rows. derived_rows es xs = Inr rows"
  by (induction xs) auto

text \<open>The methods of the checker as functions of the tables.\<close>

lemma Checker_TrialBalance_eq:
  "Checker_TrialBalance c cur db = (if cancelled c then (Err ErrContext, db)
     else case cast_bigint (sum_bigint (map signed_term
       (filter (\<lambda>(a, b). char_text (ar_Currency a) = char_text cur) (balance_join db)))) of
       Inl _ \<Rightarrow> (Err (ErrOther ''trial balance''), db) | Inr d \<Rightarrow> (Ok d, db))"
proof -
  have "signed_term = (\<lambda>(a, b). if ar_Type a \<in> set [''asset'', ''expense''] then Inr (ab_PostedMinor b) else bigint (- ab_PostedMinor b))"
    by (auto simp: signed_term_def fun_eq_iff)
  then show ?thesis
    by (simp add: Checker_TrialBalance_def TrialBalance_def query_def select_def seq_def split: sum.split)
qed

lemma Checker_DriftedAccounts_eq:
  "Checker_DriftedAccounts c db = (if cancelled c then (Err ErrContext, db)
     else case derived_rows (ld_entries db) (balance_join db) of
       Inl _ \<Rightarrow> (Err (ErrOther ''drifted accounts''), db)
     | Inr rows \<Rightarrow> (Ok (map (\<lambda>row. \<lparr>dft_AccountID = dr_AccountID row, dft_Materialized = dr_Materialized row, dft_Derived = dr_Derived row\<rparr>)
         (filter (\<lambda>r. dr_Materialized r \<noteq> dr_Derived r) rows)), db))"
  by (simp add: Checker_DriftedAccounts_def DriftedAccounts_def query_def select_def seq_def split: sum.split)

lemma pg_currencies:
  assumes ok: "pg_ok db" and run: "Checker_Currencies c db = (r, db')"
  shows "db' = db \<and> (\<forall>cs. r = Ok cs \<longrightarrow> set cs = (acc_Currency \<circ> fst) ` set (pg_listing db))"
proof -
  have "(acc_Currency \<circ> fst) ` set (pg_listing db) = acc_Currency ` set (map fst (pg_listing db))" by (simp add: image_comp)
  also have "\<dots> = (\<lambda>r. char_text (ar_Currency r)) ` set (ld_accounts db)"
    unfolding pg_listing_accounts [OF ok] using known_code [OF ok] by (simp add: image_image)
  finally show ?thesis
    using run by (auto simp: Checker_Currencies_def ListCurrencies_def query_def select_def split: if_splits)
qed

lemma pg_trial:
  assumes ok: "pg_ok db" and run: "Checker_TrialBalance c cur db = (r, db')"
  shows "db' = db \<and> (\<forall>d. cur \<in> (acc_Currency \<circ> fst) ` set (pg_listing db) \<longrightarrow> r = Ok d \<longrightarrow> d = signed_total cur (pg_listing db))"
proof -
  let ?rows = "filter (\<lambda>(a, b). char_text (ar_Currency a) = char_text cur) (balance_join db)"
  have "db' = db" using run by (auto simp: Checker_TrialBalance_eq split: if_splits sum.splits)
  moreover have "d = signed_total cur (pg_listing db)" if cur: "cur \<in> (acc_Currency \<circ> fst) ` set (pg_listing db)" and r: "r = Ok d" for d
  proof -
    have "cast_bigint (sum_bigint (map signed_term ?rows)) = Inr d"
      using run r by (auto simp: Checker_TrialBalance_eq split: if_splits sum.splits)
    from sum_bigint_values [OF cast_bigint_Inr [OF this], of signed_posted] signed_term_value trial_rows [OF ok cur]
    show ?thesis by simp
  qed
  ultimately show ?thesis by blast
qed

lemma pg_listing_member: "x \<in> set (balance_join db) \<Longrightarrow> (account_of (fst x), balanceFromRow (fst x) (snd x)) \<in> set (pg_listing db)"
  by (force simp: pg_listing_def)

lemma pg_trial_total:
  assumes ok: "pg_ok db" and nc: "\<not> cancelled c"
    and range: "\<forall>x\<in>set (pg_listing db). bal_Posted (snd x) \<noteq> MinInt64 \<and> in64 (bal_Posted (snd x))"
    and cur: "cur \<in> (acc_Currency \<circ> fst) ` set (pg_listing db)" "signed_total cur (pg_listing db) = 0"
  shows "\<exists>d. Checker_TrialBalance c cur db = (Ok d, db)"
proof -
  let ?rows = "filter (\<lambda>(a, b). char_text (ar_Currency a) = char_text cur) (balance_join db)"
  have "signed_term x = Inr (signed_posted x)" if "x \<in> set ?rows" for x
    using range pg_listing_member [of x db] that by (intro signed_term_total) (force simp: balanceFromRow_def)+
  then have "sum_bigint (map signed_term ?rows) = Inr 0"
    using sum_bigint_total [of ?rows signed_term signed_posted] trial_rows [OF ok cur(1)] cur(2) by simp
  then show ?thesis using nc by (simp add: Checker_TrialBalance_eq cast_bigint_def bigint_def)
qed

lemma pg_drifted:
  assumes run: "Checker_DriftedAccounts c db = (r, db')"
  shows "db' = db \<and> (\<forall>ds. r = Ok ds \<longrightarrow> ds = map (drift_of (bk_log (pg_books db))) (drifts (bk_log (pg_books db)) (pg_listing db)))"
proof -
  have "db' = db" using run by (auto simp: Checker_DriftedAccounts_eq split: if_splits sum.splits)
  moreover have "ds = map (drift_of (bk_log (pg_books db))) (drifts (bk_log (pg_books db)) (pg_listing db))" if r: "r = Ok ds" for ds
  proof -
    obtain rows where rows: "derived_rows (ld_entries db) (balance_join db) = Inr rows"
      and ds: "ds = map (\<lambda>row. \<lparr>dft_AccountID = dr_AccountID row, dft_Materialized = dr_Materialized row, dft_Derived = dr_Derived row\<rparr>)
        (filter (\<lambda>r. dr_Materialized r \<noteq> dr_Derived r) rows)"
      using run r that by (auto simp: Checker_DriftedAccounts_eq split: if_splits sum.splits)
    show ?thesis
      unfolding ds derived_rows_value [OF rows]
      by (simp add: drift_of_def drifts_def pg_listing_def pg_books_def filter_map comp_def split_beta account_of_def balanceFromRow_def)
  qed
  ultimately show ?thesis by blast
qed

lemma pg_drifted_total:
  assumes ok: "pg_ok db" and nc: "\<not> cancelled c" and books: "books_ok (pg_books db)"
  shows "\<exists>ds. Checker_DriftedAccounts c db = (Ok ds, db)"
proof -
  have log: "bk_log (pg_books db) = map entryFromRow (ld_entries db)" by (simp add: pg_books_def)
  have amounts: "\<forall>e\<in>set (ld_entries db). 0 < en_AmountMinor e \<and> in64 (en_AmountMinor e)"
  proof
    fix e
    assume "e \<in> set (ld_entries db)"
    then have "entryFromRow e \<in> set (bk_log (pg_books db))" by (simp add: log)
    from log_amounts(1,2) [OF books this] show "0 < en_AmountMinor e \<and> in64 (en_AmountMinor e)" by (simp add: entryFromRow_def)
  qed
  have "\<exists>d. derived_minor (fst x) (ld_entries db) = Inr d" if "x \<in> set (balance_join db)" for x
  proof -
    have l: "bk_accounts (pg_books db) (acc_ID (account_of (fst x))) = Some (account_of (fst x))"
      "bk_balances (pg_books db) (acc_ID (account_of (fst x))) = Some (balanceFromRow (fst x) (snd x))"
      using pg_listing_all [OF ok] pg_listing_member [OF that] by blast+
    have "in64 (net StatusPosted (account_of (fst x)) (map entryFromRow (ld_entries db)))"
      using books_posted [OF books l] by (simp add: log)
    with amounts show ?thesis by (rule derived_minor_total)
  qed
  then obtain rows where "derived_rows (ld_entries db) (balance_join db) = Inr rows" using derived_rows_total by blast
  then show ?thesis using nc by (simp add: Checker_DriftedAccounts_eq)
qed

interpretation rc: ledger_checker postgres_checker pg_books pg_ok pg_listing
proof (unfold_locales, goal_cases)
  case (1 s)
  then show ?case by (rule pg_listing_all)
next
  case (2 s c r1 s')
  then show ?case by (simp add: postgres_checker_def pg_currencies)
next
  case (3 s c)
  then show ?case by (simp add: postgres_checker_def Checker_Currencies_def ListCurrencies_def query_def select_def)
next
  case (4 s c cur r2 s')
  then show ?case using pg_trial [of s c cur r2 s'] by (simp add: postgres_checker_def)
next
  case (5 s c cur)
  then show ?case using pg_trial_total [of s c cur] by (simp add: postgres_checker_def)
next
  case (6 s c r3 s')
  then show ?case using pg_drifted [of c s r3 s'] by (simp add: postgres_checker_def)
next
  case (7 s c)
  then show ?case using pg_drifted_total [of s c] by (simp add: postgres_checker_def)
qed

section \<open>What the jobs report\<close>


text \<open>A database somebody has written to by hand.\<close>

definition tampered :: "ledger_db world" where
  "tampered = (empty_world sample_generator)\<lparr>w_db := empty_ledger\<lparr>
     ld_accounts := [\<lparr>ar_ID = ''a'', ar_MerchantID = ''m'', ar_Name = ''cash'', ar_Type = ''asset'', ar_NormalBalance = ''debit'',
       ar_Currency = ''USD'', ar_AllowNegative = False, ar_Metadata = JObject [], ar_CreatedAt = 0\<rparr>],
     ld_balances := [\<lparr>ab_AccountID = ''a'', ab_PostedMinor = 5, ab_PendingMinor = 0, ab_Version = 1, ab_UpdatedAt = 0\<rparr>]\<rparr>\<rparr>"

lemma pg_ok_tampered: "pg_ok (w_db tampered)"
  by (simp add: tampered_def pg_ok_def empty_ledger_def Currency_Valid_def exponents_def in64_def)




section \<open>The reaper drains the table\<close>

definition doomed :: "int \<Rightarrow> int \<Rightarrow> IdempotencyKey list \<Rightarrow> IdempotencyKey list" where
  "doomed now limit rows = take (nat limit) (sort_key ik_ExpiresAt (filter (\<lambda>r. ik_ExpiresAt r < now) rows))"

lemma doomed_rows: "set (doomed now limit rows) \<subseteq> {r \<in> set rows. ik_ExpiresAt r < now}"
  unfolding doomed_def by (auto dest: in_set_takeD)

lemma distinct_doomed: "distinct rows \<Longrightarrow> distinct (doomed now limit rows)"
  unfolding doomed_def by (simp add: distinct_sort)

lemma doomed_short:
  assumes "length (doomed now limit rows) < nat limit"
  shows "set (doomed now limit rows) = {r \<in> set rows. ik_ExpiresAt r < now}"
  using assms unfolding doomed_def by (auto simp: min_def split: if_splits)

lemma length_doomed: "length (doomed now limit rows) \<le> nat limit"
  by (simp add: doomed_def)

lemma wrap32_small: "0 \<le> n \<Longrightarrow> n \<le> int4_max \<Longrightarrow> wrap32 n = n"
  by (simp add: wrap32_def int4_max_def)

lemma DeleteExpired_rows:
  assumes "\<not> cancelled c" and "distinct (map ik_ID rows)" and "0 \<le> limit" "limit \<le> int4_max"
  shows "Idem_DeleteExpired c now limit rows = (Ok (int (length (doomed now limit rows))), filter (\<lambda>r. r \<notin> set (doomed now limit rows)) rows)"
proof -
  let ?D = "doomed now limit rows"
  have sub: "set ?D \<subseteq> set rows" using doomed_rows by blast
  have same: "ik_ID r \<in> set (map ik_ID ?D) \<longleftrightarrow> r \<in> set ?D" if "r \<in> set rows" for r
    using that sub assms(2) by (auto simp: distinct_map inj_on_def)
  have dist: "distinct rows" using assms(2) by (simp add: distinct_map)
  have "set (filter (\<lambda>r. r \<in> set ?D) rows) = set ?D" using sub by auto
  then have "length (filter (\<lambda>r. r \<in> set ?D) rows) = length ?D"
    using dist distinct_doomed [OF dist] by (metis distinct_card distinct_filter)
  moreover have "filter (\<lambda>r. ik_ID r \<in> set (map ik_ID ?D)) rows = filter (\<lambda>r. r \<in> set ?D) rows"
    "filter (\<lambda>r. \<not> ik_ID r \<in> set (map ik_ID ?D)) rows = filter (\<lambda>r. r \<notin> set ?D) rows"
    using same by (auto intro!: filter_cong)
  ultimately show ?thesis
    using assms by (simp add: Idem_DeleteExpired_def DeleteExpiredIdempotencyKeys_def wrap32_small query_def Let_def
        doomed_def [symmetric] delete_where_def del: set_map)
qed

lemma count_split:
  assumes "distinct rows" and "distinct D" and "set D \<subseteq> {r \<in> set rows. P r}"
  shows "length (filter P rows) = length D + length (filter P (filter (\<lambda>r. r \<notin> set D) rows))"
proof -
  have "length (filter P rows) = card {r \<in> set rows. P r}" using assms(1) by (metis distinct_card distinct_filter set_filter)
  also have "{r \<in> set rows. P r} = set D \<union> set (filter P (filter (\<lambda>r. r \<notin> set D) rows))" using assms(3) by auto
  also have "card \<dots> = card (set D) + card (set (filter P (filter (\<lambda>r. r \<notin> set D) rows)))" by (intro card_Un_disjoint) auto
  also have "\<dots> = length D + length (filter P (filter (\<lambda>r. r \<notin> set D) rows))"
    using assms(1,2) by (simp only: distinct_card distinct_filter)
  finally show ?thesis .
qed

lemma reap_loop_drains:
  fixes w :: "'a idem_db world"
  assumes "distinct (map ik_ID (db_keys (w_db w)))" and "length (db_keys (w_db w)) < n"
    and live: "\<forall>k. \<not> env_cancelled E k" and clock: "\<forall>i j. i \<le> j \<longrightarrow> env_now E i \<le> env_now E j"
    and batch: "0 < batch" "batch \<le> int4_max"
  shows "\<exists>w' t. reap_loop n E batch tot w = Some (Ok (wrap64 (tot + int (length (filter (\<lambda>r. ik_ExpiresAt r < t) (db_keys (w_db w)))))), w')
    \<and> env_now E (w_tick w) \<le> t \<and> db_app (w_db w') = db_app (w_db w) \<and> db_keys (w_db w') = filter (\<lambda>r. t \<le> ik_ExpiresAt r) (db_keys (w_db w))"
  using assms(1,2)
proof (induction n arbitrary: tot w)
  case (Suc n)
  define rows where "rows = db_keys (w_db w)"
  define now where "now = env_now E (w_tick w)"
  define D where "D = doomed now batch rows"
  define rest where "rest = filter (\<lambda>r. r \<notin> set D) rows"
  define v :: "'a idem_db world" where "v = w\<lparr>w_db := (w_db w)\<lparr>db_keys := rest\<rparr>, w_tick := Suc (Suc (w_tick w))\<rparr>"
  have dist: "distinct (map ik_ID rows)" "distinct rows" using Suc.prems(1) by (simp_all add: rows_def distinct_map)
  have step: "seq (clock_now E) (\<lambda>now. call E (on_keys (\<lambda>c. Idem_DeleteExpired c now batch))) w = (Ok (int (length D)), v)"
    using DeleteExpired_rows [of "ambient_at E (Suc (w_tick w))" rows batch now] live dist(1) batch
    by (simp add: seq_def clock_now_def call_def on_keys_def ambient_at_def rows_def now_def D_def rest_def v_def)
  have Dsub: "set D \<subseteq> {r \<in> set rows. ik_ExpiresAt r < now}" unfolding D_def by (rule doomed_rows)
  have Ddist: "distinct D" unfolding D_def by (rule distinct_doomed [OF dist(2)])
  have gone: "filter (\<lambda>r. t \<le> ik_ExpiresAt r) rest = filter (\<lambda>r. t \<le> ik_ExpiresAt r) rows" if "now \<le> t" for t
  proof -
    have "t \<le> ik_ExpiresAt r \<Longrightarrow> r \<notin> set D" for r using Dsub that by auto
    then show ?thesis by (simp add: rest_def) (metis (lifting))
  qed
  have count: "length (filter (\<lambda>r. ik_ExpiresAt r < t) rows) = length D + length (filter (\<lambda>r. ik_ExpiresAt r < t) rest)" if "now \<le> t" for t
    unfolding rest_def by (rule count_split [OF dist(2) Ddist]) (use Dsub that in auto)
  show ?case
  proof (cases "int (length D) < batch")
    case True
    then have "set D = {r \<in> set rows. ik_ExpiresAt r < now}" unfolding D_def by (intro doomed_short) simp
    then have "r \<notin> set D \<longleftrightarrow> now \<le> ik_ExpiresAt r" if "r \<in> set rows" for r using that by (simp add: not_less)
    then have whole: "rest = filter (\<lambda>r. now \<le> ik_ExpiresAt r) rows" unfolding rest_def by (rule filter_cong [OF refl])
    moreover have "filter (\<lambda>r. ik_ExpiresAt r < now) rest = []" unfolding whole by (auto simp: filter_empty_conv)
    ultimately show ?thesis
      using True step count [of now] by (intro exI [of _ v] exI [of _ now]) (simp add: v_def rows_def [symmetric] now_def [symmetric])
  next
    case False
    let ?v = "v\<lparr>w_tick := Suc (w_tick v)\<rparr>"
    have keys: "db_keys (w_db ?v) = rest" "w_tick ?v = Suc (Suc (Suc (w_tick w)))" "db_app (w_db ?v) = db_app (w_db w)"
      by (simp_all add: v_def)
    have "D \<noteq> []" using False batch by auto
    then have "hd D \<in> set rows" "\<not> hd D \<notin> set D" using Dsub by (auto dest!: hd_in_set)
    then have "length rest < length rows" unfolding rest_def by (rule length_filter_less)
    then have "length (db_keys (w_db ?v)) < n" using Suc.prems(2) unfolding keys rows_def by simp
    moreover have "distinct (map ik_ID (db_keys (w_db ?v)))" using dist(1) unfolding keys rest_def by (rule distinct_map_filter)
    ultimately obtain w' t where IH: "reap_loop n E batch (wrap64 (tot + int (length D))) ?v
        = Some (Ok (wrap64 (wrap64 (tot + int (length D)) + int (length (filter (\<lambda>r. ik_ExpiresAt r < t) rest)))), w')"
      "env_now E (w_tick ?v) \<le> t" "db_app (w_db w') = db_app (w_db w)" "db_keys (w_db w') = filter (\<lambda>r. t \<le> ik_ExpiresAt r) rest"
      using Suc.IH [of ?v "wrap64 (tot + int (length D))"] unfolding keys by blast
    have "now \<le> t" using clock IH(2) unfolding now_def keys by (meson le_SucI order_refl order_trans)
    moreover have "reap_loop (Suc n) E batch tot w = reap_loop n E batch (wrap64 (tot + int (length D))) ?v"
      using step False live by simp
    ultimately show ?thesis
      using IH gone [of t] count [of t] by (intro exI [of _ w'] exI [of _ t]) (simp add: wrap64_add rows_def [symmetric] now_def [symmetric] add.assoc)
  qed
qed simp


definition sample_key :: "string \<Rightarrow> int \<Rightarrow> IdempotencyKey" where
  "sample_key i at = \<lparr>ik_ID = i, ik_MerchantID = ''m'', ik_Key = i, ik_RequestMethod = ''POST'', ik_RequestPath = ''/'',
     ik_RequestHash = [], ik_State = IdemSucceeded, ik_RecoveryPoint = PointFinished, ik_LockExpiresAt = None,
     ik_ResponseStatus = None, ik_ResponseBody = [], ik_ResourceID = None, ik_RequestID = None,
     ik_CreatedAt = 0, ik_ExpiresAt = at\<rparr>"

definition sample_keys :: "unit idem_db world" where
  "sample_keys = \<lparr>w_db = \<lparr>db_keys = [sample_key ''a'' 5, sample_key ''b'' 2000000, sample_key ''c'' 7], db_app = ()\<rparr>,
     w_gen = sample_generator, w_tick = 0\<rparr>"


end
