(* ===== verification/Http_Errors.thy ===== *)
theory Http_Errors
  imports Idempotency
begin

text \<open>
  The error envelope of the API, \<^verbatim>\<open>internal/httpapi/errors.go\<close> and the writers of
  \<^verbatim>\<open>internal/httpapi/render.go\<close>. An error that reaches a handler is an \<open>APIError\<close> of the transport or an
  error of the domain; the domain errors are the sentinels of \<open>err\<close>, their texts and the encoding of
  the envelope are parameters (\<open>http_library\<close>). Logging is left out.
\<close>

section \<open>The envelope\<close>

type_synonym ErrorType = string

definition TypeInvalidRequest :: ErrorType where "TypeInvalidRequest = ''invalid_request_error''"

definition TypeIdempotency :: ErrorType where "TypeIdempotency = ''idempotency_error''"

definition TypeLedger :: ErrorType where "TypeLedger = ''ledger_error''"

definition TypeRateLimit :: ErrorType where "TypeRateLimit = ''rate_limit_error''"

definition TypeAuthentication :: ErrorType where "TypeAuthentication = ''authentication_error''"

definition TypeAPI :: ErrorType where "TypeAPI = ''api_error''"

definition docBase :: string where
  "docBase = ''https://github.com/Madhav-000-s/ledgerd/blob/main/docs/errors.md#''"

record ErrorBody =
  eb_Type :: ErrorType
  eb_Code :: string
  eb_Message :: string
  eb_Param :: string
  eb_RequestID :: string
  eb_DocURL :: string

record APIError =
  api_Status :: int
  api_Type :: ErrorType
  api_Code :: string
  api_Message :: string
  api_Param :: string
  api_Err :: "err option"

datatype fault = Api APIError | Domain err

definition Errorf :: "int \<Rightarrow> ErrorType \<Rightarrow> string \<Rightarrow> string \<Rightarrow> APIError" where
  "Errorf status typ code message =
     \<lparr>api_Status = status, api_Type = typ, api_Code = code, api_Message = message, api_Param = [], api_Err = None\<rparr>"

definition WithParam :: "APIError \<Rightarrow> string \<Rightarrow> APIError" where
  "WithParam e param = e\<lparr>api_Param := param\<rparr>"

definition WithCause :: "APIError \<Rightarrow> err \<Rightarrow> APIError" where
  "WithCause e cause = e\<lparr>api_Err := Some cause\<rparr>"

definition WithMessage :: "APIError \<Rightarrow> string \<Rightarrow> APIError" where
  "WithMessage e message = e\<lparr>api_Message := message\<rparr>"

section \<open>The table\<close>

record mapping_row =
  mp_sentinel :: err
  mp_status :: int
  mp_typ :: ErrorType
  mp_code :: string
  mp_param :: string

definition table_row :: "err \<Rightarrow> int \<Rightarrow> ErrorType \<Rightarrow> string \<Rightarrow> string \<Rightarrow> mapping_row" where
  "table_row sentinel status typ code param =
     \<lparr>mp_sentinel = sentinel, mp_status = status, mp_typ = typ, mp_code = code, mp_param = param\<rparr>"

definition errorTable :: "mapping_row list" where
  "errorTable =
     [table_row ErrUnbalanced 400 TypeInvalidRequest ''transaction_unbalanced'' ''entries'',
      table_row ErrMultiCurrency 400 TypeInvalidRequest ''multiple_currencies'' ''entries'',
      table_row ErrNoEntries 400 TypeInvalidRequest ''no_entries'' ''entries'',
      table_row ErrInvalidDirection 400 TypeInvalidRequest ''invalid_direction'' ''direction'',
      table_row ErrAccountCurrency 400 TypeInvalidRequest ''account_currency_mismatch'' ''currency'',
      table_row ErrInvalidAccountType 400 TypeInvalidRequest ''invalid_account_type'' ''type'',
      table_row ErrInvalidCursor 400 TypeInvalidRequest ''invalid_cursor'' ''starting_after'',
      table_row ErrAccountNotFound 404 TypeInvalidRequest ''account_not_found'' [],
      table_row ErrTransactionNotFound 404 TypeInvalidRequest ''transaction_not_found'' [],
      table_row ErrAccountExists 409 TypeInvalidRequest ''account_exists'' ''name'',
      table_row ErrInvalidAccount 400 TypeInvalidRequest ''invalid_account'' [],
      table_row ErrInsufficientFunds 422 TypeLedger ''insufficient_funds'' ''amount'',
      table_row ErrCaptureExceedsAuthorization 422 TypeLedger ''capture_exceeds_authorization'' ''amount'',
      table_row ErrAlreadyReversed 409 TypeLedger ''already_reversed'' [],
      table_row ErrNotPending 409 TypeLedger ''transaction_not_pending'' [],
      table_row ErrNotPosted 409 TypeLedger ''transaction_not_posted'' [],
      table_row ErrInvalidAmount 400 TypeInvalidRequest ''invalid_amount'' ''amount'',
      table_row ErrFeeExceedsAmount 422 TypeLedger ''fee_exceeds_amount'' ''amount'',
      table_row ErrRefundExceedsPayment 422 TypeLedger ''refund_exceeds_payment'' ''amount'',
      table_row ErrNotRefundable 409 TypeLedger ''payment_not_refundable'' [],
      table_row ErrNotCapturable 409 TypeLedger ''payment_not_capturable'' [],
      table_row ErrPaymentNotFound 404 TypeInvalidRequest ''payment_not_found'' [],
      table_row ErrAmountRequired 400 TypeInvalidRequest ''invalid_amount'' ''amount'',
      table_row ErrInvalidFeeSchedule 500 TypeAPI ''invalid_fee_schedule'' [],
      table_row ErrKeyRequired 400 TypeIdempotency ''idempotency_key_required'' ''Idempotency-Key'',
      table_row ErrInvalidKey 400 TypeIdempotency ''invalid_idempotency_key'' ''Idempotency-Key'',
      table_row ErrFingerprintMismatch 422 TypeIdempotency ''idempotency_key_reuse'' ''Idempotency-Key'',
      table_row ErrInProgress 409 TypeIdempotency ''idempotency_conflict'' ''Idempotency-Key'',
      table_row MoneyErrUnknownCurrency 400 TypeInvalidRequest ''unknown_currency'' ''currency'',
      table_row MoneyErrCurrencyMismatch 400 TypeInvalidRequest ''currency_mismatch'' ''currency'',
      table_row MoneyErrInvalidRatios 400 TypeInvalidRequest ''invalid_split'' [],
      table_row MoneyErrOverflow 400 TypeInvalidRequest ''amount_overflow'' ''amount'',
      table_row MoneyErrInvalidAmount 400 TypeInvalidRequest ''invalid_amount'' ''amount'']"

definition internal_message :: string where
  "internal_message = ''An unexpected error occurred. The request id identifies this failure in our logs.''"

definition toAPIError :: "(err \<Rightarrow> string) \<Rightarrow> fault \<Rightarrow> APIError" where
  "toAPIError text f =
     (case f of
        Api e \<Rightarrow> e
      | Domain e \<Rightarrow>
          (case List.find (\<lambda>m. mp_sentinel m = e) errorTable of
             Some m \<Rightarrow> \<lparr>api_Status = mp_status m, api_Type = mp_typ m, api_Code = mp_code m, api_Message = text e,
               api_Param = mp_param m, api_Err = Some e\<rparr>
           | None \<Rightarrow> \<lparr>api_Status = 500, api_Type = TypeAPI, api_Code = ''internal_error'', api_Message = internal_message,
               api_Param = [], api_Err = Some e\<rparr>))"

definition errUnauthorized :: APIError where
  "errUnauthorized = Errorf 401 TypeAuthentication ''unauthorized'' ''No valid API key was provided.''"

definition errForbidden :: APIError where
  "errForbidden = Errorf 403 TypeAuthentication ''insufficient_permissions''
     ''This API key does not have permission to perform that action.''"

definition errMalformedJSON :: APIError where
  "errMalformedJSON = Errorf 400 TypeInvalidRequest ''malformed_json'' ''The request body could not be parsed as JSON.''"

definition errBodyTooLarge :: APIError where
  "errBodyTooLarge = Errorf 413 TypeInvalidRequest ''request_too_large'' ''The request body exceeded the maximum size.''"

definition errRateLimited :: APIError where
  "errRateLimited = Errorf 429 TypeRateLimit ''rate_limit_exceeded''
     ''Too many requests. Retry after the interval given in the Retry-After header.''"

definition errNotFound :: APIError where
  "errNotFound = Errorf 404 TypeInvalidRequest ''not_found'' ''No such endpoint.''"

definition errMethodNotAllowed :: APIError where
  "errMethodNotAllowed = Errorf 405 TypeInvalidRequest ''method_not_allowed'' ''That method is not supported on this endpoint.''"

section \<open>Writing a response\<close>

text \<open>The text of an error, a time in the format of the API, and the envelope as JSON.\<close>

record http_library =
  hl_text :: "err \<Rightarrow> string"
  hl_time :: "int \<Rightarrow> string"
  hl_error :: "ErrorBody \<Rightarrow> string"

definition json_type :: "(string \<times> string) list" where
  "json_type = [(''Content-Type'', ''application/json; charset=utf-8'')]"

definition writeError :: "http_library \<Rightarrow> string \<Rightarrow> fault \<Rightarrow> http_response" where
  "writeError H requestID f =
     (let e = toAPIError (hl_text H) f
      in \<lparr>hr_Status = api_Status e,
          hr_Headers = (if api_Status e = 429 then [(''Retry-After'', ''1'')] else []) @ json_type,
          hr_Body = hl_error H \<lparr>eb_Type = api_Type e, eb_Code = api_Code e, eb_Message = api_Message e, eb_Param = api_Param e,
            eb_RequestID = requestID, eb_DocURL = docBase @ api_Code e\<rparr>\<rparr>)"

text \<open>A value that cannot be encoded is reported as an error of the server.\<close>

definition writeJSON :: "http_library \<Rightarrow> string \<Rightarrow> int \<Rightarrow> string outcome \<Rightarrow> http_response" where
  "writeJSON H requestID status body =
     (case body of
        Ok b \<Rightarrow> \<lparr>hr_Status = status, hr_Headers = json_type, hr_Body = b\<rparr>
      | _ \<Rightarrow> writeError H requestID (Api (Errorf 500 TypeAPI ''internal_error'' ''The response could not be serialized.'')))"

definition writeRecorded :: "int \<Rightarrow> string \<Rightarrow> http_response" where
  "writeRecorded status body = \<lparr>hr_Status = status, hr_Headers = json_type, hr_Body = body\<rparr>"

section \<open>Which errors the table knows\<close>

text \<open>The sentinels by the package that declares them.\<close>

definition money_sentinels :: "err list" where
  "money_sentinels = [MoneyErrCurrencyMismatch, MoneyErrUnknownCurrency, MoneyErrOverflow, MoneyErrInvalidAmount, MoneyErrInvalidRatios]"

definition ledger_sentinels :: "err list" where
  "ledger_sentinels = [ErrUnbalanced, ErrMultiCurrency, ErrInsufficientFunds, ErrInvalidAmount, ErrNoEntries, ErrAccountNotFound,
     ErrTransactionNotFound, ErrAccountExists, ErrInvalidAccount, ErrInvalidAccountType, ErrInvalidDirection, ErrAccountCurrency,
     ErrNotPending, ErrNotPosted, ErrAlreadyReversed, ErrCaptureExceedsAuthorization, ErrInvalidCursor]"

definition payment_sentinels :: "err list" where
  "payment_sentinels = [ErrFeeExceedsAmount, ErrInvalidFeeSchedule, ErrPaymentNotFound, ErrNotCapturable, ErrNotRefundable,
     ErrRefundExceedsPayment, ErrAmountRequired]"

definition idempotency_sentinels :: "err list" where
  "idempotency_sentinels = [ErrKeyNotFound, ErrFingerprintMismatch, ErrInProgress, ErrKeyRequired, ErrInvalidKey]"

lemma row_status:
  assumes "m \<in> set errorTable"
  shows "mp_sentinel m = ErrInvalidFeeSchedule \<and> mp_status m = 500
    \<or> mp_sentinel m \<noteq> ErrInvalidFeeSchedule \<and> 400 \<le> mp_status m \<and> mp_status m < 500"
proof -
  have "list_all (\<lambda>m. mp_sentinel m = ErrInvalidFeeSchedule \<and> mp_status m = 500
    \<or> mp_sentinel m \<noteq> ErrInvalidFeeSchedule \<and> 400 \<le> mp_status m \<and> mp_status m < 500) errorTable"
    by (simp add: errorTable_def table_row_def)
  then show ?thesis using assms by (simp add: list_all_iff)
qed

lemma unknown_status:
  "e \<notin> set (map mp_sentinel errorTable) \<Longrightarrow>
    hr_Status (writeError H rid (Domain e)) = 500 \<and> writeError H rid (Domain e) = writeError H rid (Domain (ErrOther []))"
proof -
  assume "e \<notin> set (map mp_sentinel errorTable)"
  then have "List.find (\<lambda>m. mp_sentinel m = e) errorTable = None" by (auto simp: find_None_iff)
  moreover have "List.find (\<lambda>m. mp_sentinel m = ErrOther []) errorTable = None"
    by (simp add: errorTable_def table_row_def)
  ultimately show ?thesis by (simp add: writeError_def toAPIError_def Let_def)
qed

text \<open>
  C33. The error table is complete and closed. Every sentinel of the ledger, of payments and of money,
  and every sentinel of idempotency except the one its store keeps to itself, has exactly one row, so
  the order of the rows does not matter; a caller's mistake is answered with a 4xx status, the one
  exception being a fee schedule the operator got wrong. Every other error is answered with one and
  the same envelope, which says nothing about its cause.
\<close>

theorem error_table_total:
  "set (map mp_sentinel errorTable)
      = set ledger_sentinels \<union> set payment_sentinels \<union> set money_sentinels \<union> (set idempotency_sentinels - {ErrKeyNotFound})
    \<and> distinct (map mp_sentinel errorTable)
    \<and> (if e \<in> set (map mp_sentinel errorTable)
       then (e = ErrInvalidFeeSchedule \<and> hr_Status (writeError H rid (Domain e)) = 500)
         \<or> (e \<noteq> ErrInvalidFeeSchedule \<and> 400 \<le> hr_Status (writeError H rid (Domain e)) \<and> hr_Status (writeError H rid (Domain e)) < 500)
       else writeError H rid (Domain e) = writeError H rid (Domain (ErrOther [])) \<and> hr_Status (writeError H rid (Domain e)) = 500)"
proof (intro conjI)
  show "set (map mp_sentinel errorTable)
      = set ledger_sentinels \<union> set payment_sentinels \<union> set money_sentinels \<union> (set idempotency_sentinels - {ErrKeyNotFound})"
    by code_simp
  show "distinct (map mp_sentinel errorTable)" by (simp add: errorTable_def table_row_def)
  show "if e \<in> set (map mp_sentinel errorTable)
       then (e = ErrInvalidFeeSchedule \<and> hr_Status (writeError H rid (Domain e)) = 500)
         \<or> (e \<noteq> ErrInvalidFeeSchedule \<and> 400 \<le> hr_Status (writeError H rid (Domain e)) \<and> hr_Status (writeError H rid (Domain e)) < 500)
       else writeError H rid (Domain e) = writeError H rid (Domain (ErrOther [])) \<and> hr_Status (writeError H rid (Domain e)) = 500"
  proof (cases "e \<in> set (map mp_sentinel errorTable)")
    case True
    then have "List.find (\<lambda>m. mp_sentinel m = e) errorTable \<noteq> None" by (auto simp: find_None_iff)
    then obtain m where "List.find (\<lambda>m. mp_sentinel m = e) errorTable = Some m" by blast
    moreover from this have "m \<in> set errorTable" "mp_sentinel m = e" by (auto simp: find_Some_iff)
    ultimately show ?thesis using True row_status [of m] by (simp add: writeError_def toAPIError_def Let_def)
  next
    case False
    then show ?thesis using unknown_status [OF False, of H rid] by auto
  qed
qed

end
