(* ===== verification/Http_Auth.thy ===== *)
theory Http_Auth
  imports Http_Errors Postgres_Ledger
begin

text \<open>
  API keys: their roles, generation and verification (\<^verbatim>\<open>internal/httpapi/auth.go\<close>), the store behind them
  (\<^verbatim>\<open>internal/postgres/apikeys.go\<close>) and its statements (\<^verbatim>\<open>internal/postgres/sqlc/api_keys.sql.go\<close>). Argon2id,
  the random source and the decoding of basic authentication are parameters (\<open>auth_library\<close>).
\<close>

section \<open>Roles\<close>

type_synonym Role = string

definition RoleRead :: Role where "RoleRead = ''read''"

definition RoleWrite :: Role where "RoleWrite = ''write''"

definition RoleAdmin :: Role where "RoleAdmin = ''admin''"

definition rank :: "Role \<Rightarrow> int" where
  "rank r = (if r = RoleRead then 1 else if r = RoleWrite then 2 else if r = RoleAdmin then 3 else 0)"

definition AtLeast :: "Role \<Rightarrow> Role \<Rightarrow> bool" where
  "AtLeast r want \<longleftrightarrow> rank r \<ge> rank want"

definition Role_Valid :: "Role \<Rightarrow> bool" where
  "Role_Valid r \<longleftrightarrow> rank r > 0"

section \<open>Keys\<close>

definition prefixLive :: string where "prefixLive = ''sk_live_''"

definition prefixTest :: string where "prefixTest = ''sk_test_''"

definition lookupLen :: nat where "lookupLen = 8"

definition secretLen :: nat where "secretLen = 32"

definition argonKeyLen :: nat where "argonKeyLen = 32"

definition argonSaltLen :: nat where "argonSaltLen = 16"

record Auth =
  auth_KeyID :: string
  auth_MerchantID :: string
  auth_Role :: Role
  auth_Livemode :: bool

record APIKeyRecord =
  key_ID :: string
  key_MerchantID :: string
  key_Lookup :: string
  key_SecretHash :: "byte list"
  key_Role :: Role
  key_Livemode :: bool
  key_Revoked :: bool

text \<open>
  \<open>al_argon2\<close> is \<^verbatim>\<open>argon2.IDKey\<close> with the parameters of the package; \<open>al_rand\<close> is \<^verbatim>\<open>rand.Read\<close> of a number of bytes
  at a moment.
\<close>

record auth_library =
  al_argon2 :: "string \<Rightarrow> byte list \<Rightarrow> byte list"
  al_rand :: "nat \<Rightarrow> nat \<Rightarrow> byte list option"
  al_BasicAuth :: "string \<Rightarrow> (string \<times> string) option"

definition lookupOf :: "string \<Rightarrow> string" where
  "lookupOf secret =
     (case List.find (has_prefix secret) [prefixLive, prefixTest] of
        Some p \<Rightarrow> (let body = drop (length p) secret in if length body < lookupLen then secret else p @ take lookupLen body)
      | None \<Rightarrow> if length secret < lookupLen then secret else take lookupLen secret)"

definition read_random :: "auth_library \<Rightarrow> nat \<Rightarrow> ('s world, byte list) opr" where
  "read_random A n w =
     (case al_rand A (w_tick w) n of
        None \<Rightarrow> (Err (ErrOther ''random source''), w\<lparr>w_tick := Suc (w_tick w)\<rparr>)
      | Some bs \<Rightarrow> (Ok bs, w\<lparr>w_tick := Suc (w_tick w)\<rparr>))"

definition hashSecret :: "auth_library \<Rightarrow> string \<Rightarrow> ('s world, byte list) opr" where
  "hashSecret A secret = seq (read_random A argonSaltLen) (\<lambda>salt. ret (Ok (salt @ al_argon2 A secret salt)))"

definition verifySecret :: "auth_library \<Rightarrow> string \<Rightarrow> byte list \<Rightarrow> bool" where
  "verifySecret A secret stored \<longleftrightarrow>
     length stored = argonSaltLen + argonKeyLen
     \<and> al_argon2 A secret (take argonSaltLen stored) = drop argonSaltLen stored"

text \<open>
  Drawing symbols from random bytes. The loop reads again while too few bytes were usable; with 32
  symbols no byte is rejected. \<open>None\<close> means that the bound on the number of reads ran out.
\<close>

definition symbol_limit :: nat where
  "symbol_limit = 256 - 256 mod length crockford"

definition symbols_of :: "byte list \<Rightarrow> string" where
  "symbols_of bs = map (\<lambda>b. crockford ! (unat b mod length crockford)) (filter (\<lambda>b. \<not> unat b \<ge> symbol_limit) bs)"

fun base32_loop :: "nat \<Rightarrow> auth_library \<Rightarrow> nat \<Rightarrow> string \<Rightarrow> 's world \<Rightarrow> (string outcome \<times> 's world) option" where
  "base32_loop 0 A n out w = None"
| "base32_loop (Suc reads) A n out w =
     (if \<not> length out < n then Some (Ok out, w)
      else case read_random A n w of
          (Ok buf, w') \<Rightarrow> base32_loop reads A n (take n (out @ symbols_of buf)) w'
        | (Err e, w') \<Rightarrow> Some (Err e, w')
        | (Panic, w') \<Rightarrow> Some (Panic, w'))"

definition randomBase32 :: "nat \<Rightarrow> auth_library \<Rightarrow> nat \<Rightarrow> 's world \<Rightarrow> (string outcome \<times> 's world) option" where
  "randomBase32 reads A n w = base32_loop reads A n [] w"

definition PrefixAPIKey :: string where "PrefixAPIKey = ''ak''"

definition GenerateAPIKey ::
  "nat \<Rightarrow> env \<Rightarrow> auth_library \<Rightarrow> string \<Rightarrow> Role \<Rightarrow> bool \<Rightarrow> 's world \<Rightarrow> ((string \<times> APIKeyRecord) outcome \<times> 's world) option" where
  "GenerateAPIKey reads E A merchantID role livemode w =
     (if \<not> Role_Valid role then Some (Err (ErrOther ''invalid role''), w)
      else map_option (\<lambda>(r, w1).
        seq (ret r) (\<lambda>body.
        let secret = (if livemode then prefixLive else prefixTest) @ body
        in seq (hashSecret A secret) (\<lambda>hash.
           seq (new_id E PrefixAPIKey) (\<lambda>i.
           ret (Ok (secret, \<lparr>key_ID = i, key_MerchantID = merchantID, key_Lookup = lookupOf secret, key_SecretHash = hash,
             key_Role = role, key_Livemode = livemode, key_Revoked = False\<rparr>))))) w1) (randomBase32 reads A secretLen w))"

section \<open>The store of keys\<close>

record ApiKeyRow =
  kr_ID :: string
  kr_MerchantID :: string
  kr_Name :: string
  kr_Lookup :: string
  kr_SecretHash :: "byte list"
  kr_Role :: Role
  kr_Livemode :: bool
  kr_LastUsedAt :: "int option"
  kr_RevokedAt :: "int option"
  kr_CreatedAt :: int

definition api_key_roles :: "string list" where
  "api_key_roles = [''read'', ''write'', ''admin'']"

definition CreateAPIKey :: "ambient \<Rightarrow> ApiKeyRow \<Rightarrow> (ApiKeyRow list, unit answer) opr" where
  "CreateAPIKey c row = query c (\<lambda>rows.
     if kr_Role row \<notin> set api_key_roles then refuse (ServerError ''invalid input value for enum'') rows
     else if list_ex (\<lambda>r. kr_ID r = kr_ID row \<or> kr_Lookup r = kr_Lookup row) rows then refuse UniqueViolation rows
     else (Ok (Inr ()), rows @ [row\<lparr>kr_LastUsedAt := None, kr_RevokedAt := None, kr_CreatedAt := wall_now c\<rparr>]))"

definition FindAPIKeyByLookup :: "ambient \<Rightarrow> string \<Rightarrow> (ApiKeyRow list, ApiKeyRow option) opr" where
  "FindAPIKeyByLookup c lookup = query c (select (\<lambda>rows. Ok (List.find (\<lambda>r. kr_Lookup r = lookup) rows)))"

definition ListAPIKeys :: "ambient \<Rightarrow> string \<Rightarrow> (ApiKeyRow list, ApiKeyRow list) opr" where
  "ListAPIKeys c merchantID = query c (select (\<lambda>rows.
     Ok (order_desc kr_CreatedAt (filter (\<lambda>r. kr_MerchantID r = merchantID) rows))))"

definition RevokeAPIKey :: "ambient \<Rightarrow> string \<Rightarrow> (ApiKeyRow list, int) opr" where
  "RevokeAPIKey c i = query c (update_where (\<lambda>r. kr_ID r = i \<and> kr_RevokedAt r = None) (\<lambda>r. r\<lparr>kr_RevokedAt := Some (wall_now c)\<rparr>))"

definition Keys_FindByLookup :: "ambient \<Rightarrow> string \<Rightarrow> (ApiKeyRow list, APIKeyRecord) opr" where
  "Keys_FindByLookup c lookup = or_missing ErrAPIKeyNotFound (\<lambda>row.
     \<lparr>key_ID = kr_ID row, key_MerchantID = kr_MerchantID row, key_Lookup = kr_Lookup row, key_SecretHash = kr_SecretHash row,
      key_Role = kr_Role row, key_Livemode = kr_Livemode row, key_Revoked = kr_RevokedAt row \<noteq> None\<rparr>) (FindAPIKeyByLookup c lookup)"

definition Keys_Create :: "ambient \<Rightarrow> APIKeyRecord \<Rightarrow> string \<Rightarrow> (ApiKeyRow list, unit) opr" where
  "Keys_Create c r name =
     seq (CreateAPIKey c \<lparr>kr_ID = key_ID r, kr_MerchantID = key_MerchantID r, kr_Name = name, kr_Lookup = key_Lookup r,
       kr_SecretHash = key_SecretHash r, kr_Role = key_Role r, kr_Livemode = key_Livemode r, kr_LastUsedAt = None,
       kr_RevokedAt = None, kr_CreatedAt = wall_now c\<rparr>) (\<lambda>res. case res of
       Inl _ \<Rightarrow> ret (Err (ErrOther ''create api key'')) | Inr _ \<Rightarrow> ret (Ok ()))"

definition Keys_Revoke :: "ambient \<Rightarrow> string \<Rightarrow> (ApiKeyRow list, unit) opr" where
  "Keys_Revoke c i = none_affected ErrAPIKeyNotFound (RevokeAPIKey c i)"

section \<open>Authentication\<close>

definition bearerToken :: "auth_library \<Rightarrow> string \<Rightarrow> string" where
  "bearerToken A header =
     (if header = [] then []
      else if has_prefix header ''Bearer '' then TrimSpace (drop (length ''Bearer '') header)
      else case al_BasicAuth A header of Some (user, _) \<Rightarrow> user | None \<Rightarrow> [])"

text \<open>
  The middleware: what follows is run with the caller's identity, or the response is an error. \<open>byLookup\<close> is
  the store's lookup, lifted to the state of the server.
\<close>

definition authenticate ::
  "http_library \<Rightarrow> auth_library \<Rightarrow> (string \<Rightarrow> ('s, APIKeyRecord) opr) \<Rightarrow> string \<Rightarrow> string
    \<Rightarrow> (Auth \<Rightarrow> ('s, http_response) opr) \<Rightarrow> ('s, http_response) opr" where
  "authenticate H A byLookup requestID header continue s =
     (let secret = bearerToken A header
      in if secret = [] then (Ok (writeError H requestID (Api errUnauthorized)), s)
         else case byLookup (lookupOf secret) s of
             (Err e, s') \<Rightarrow> (Ok (writeError H requestID (if e = ErrAPIKeyNotFound then Api errUnauthorized else Domain e)), s')
           | (Panic, s') \<Rightarrow> (Panic, s')
           | (Ok r, s') \<Rightarrow>
               if key_Revoked r \<or> \<not> verifySecret A secret (key_SecretHash r)
               then (Ok (writeError H requestID (Api errUnauthorized)), s')
               else continue \<lparr>auth_KeyID = key_ID r, auth_MerchantID = key_MerchantID r, auth_Role = key_Role r,
                 auth_Livemode = key_Livemode r\<rparr> s')"

definition requireRole :: "http_library \<Rightarrow> string \<Rightarrow> Role \<Rightarrow> Auth option \<Rightarrow> ('s, http_response) opr \<Rightarrow> ('s, http_response) opr" where
  "requireRole H requestID want auth continue =
     (case auth of
        None \<Rightarrow> ret (Ok (writeError H requestID (Api errUnauthorized)))
      | Some a \<Rightarrow> if \<not> AtLeast (auth_Role a) want then ret (Ok (writeError H requestID (Api errForbidden))) else continue)"

section \<open>Who gets through\<close>

lemma Keys_FindByLookup_eq:
  "Keys_FindByLookup c l rows =
     (if cancelled c then (Err ErrContext, rows)
      else case List.find (\<lambda>r. kr_Lookup r = l) rows of
          None \<Rightarrow> (Err ErrAPIKeyNotFound, rows)
        | Some row \<Rightarrow> (Ok \<lparr>key_ID = kr_ID row, key_MerchantID = kr_MerchantID row, key_Lookup = kr_Lookup row,
            key_SecretHash = kr_SecretHash row, key_Role = kr_Role row, key_Livemode = kr_Livemode row,
            key_Revoked = kr_RevokedAt row \<noteq> None\<rparr>, rows))"
  by (simp add: Keys_FindByLookup_def FindAPIKeyByLookup_def or_missing_def query_def select_def seq_def ret_def split: option.split)

definition caller_of :: "ApiKeyRow \<Rightarrow> Auth" where
  "caller_of row = \<lparr>auth_KeyID = kr_ID row, auth_MerchantID = kr_MerchantID row, auth_Role = kr_Role row, auth_Livemode = kr_Livemode row\<rparr>"

text \<open>
  C11. Authentication is sound. Either the presented token is the secret of a stored key that is not
  revoked, found by the clear part of the token, and the request continues as the merchant and with
  the role of exactly that key; or nothing behind the middleware runs, the store is unchanged, and the
  answer is one and the same 401, whether the key is unknown, revoked or the secret wrong. A failing
  store is a 500 and not a 401.
\<close>

theorem authenticate_sound:
  assumes "authenticate H A (Keys_FindByLookup c) rid header continue rows = (r, rows')"
  shows "(\<exists>row\<in>set rows. kr_RevokedAt row = None \<and> kr_Lookup row = lookupOf (bearerToken A header) \<and> bearerToken A header \<noteq> []
        \<and> verifySecret A (bearerToken A header) (kr_SecretHash row) \<and> continue (caller_of row) rows = (r, rows'))
    \<or> rows' = rows \<and> r = Ok (writeError H rid (Api errUnauthorized)) \<and> hr_Status (writeError H rid (Api errUnauthorized)) = 401
    \<or> rows' = rows \<and> cancelled c \<and> (\<exists>resp. r = Ok resp \<and> hr_Status resp = 500)"
proof -
  have status: "hr_Status (writeError H rid (Api errUnauthorized)) = 401" "hr_Status (writeError H rid (Domain ErrContext)) = 500"
    by (simp_all add: writeError_def toAPIError_def errUnauthorized_def Errorf_def Let_def errorTable_def table_row_def)
  show ?thesis
  proof (cases "List.find (\<lambda>r. kr_Lookup r = lookupOf (bearerToken A header)) rows")
    case None
    then show ?thesis using assms status by (auto simp: authenticate_def Let_def Keys_FindByLookup_eq split: if_splits)
  next
    case (Some row)
    then have "row \<in> set rows" "kr_Lookup row = lookupOf (bearerToken A header)" by (auto simp: find_Some_iff)
    then show ?thesis
      using assms status Some by (auto simp: authenticate_def Let_def Keys_FindByLookup_eq caller_of_def split: if_splits)
  qed
qed

text \<open>A library and a stored key for the examples: a constant digest and a random source of zeros.\<close>

definition sample_http :: http_library where
  "sample_http = \<lparr>hl_text = (\<lambda>_. []), hl_time = (\<lambda>_. []), hl_error = eb_Code\<rparr>"

definition sample_auth :: auth_library where
  "sample_auth = \<lparr>al_argon2 = (\<lambda>_ _. replicate argonKeyLen 7), al_rand = (\<lambda>_ n. Some (replicate n 0)), al_BasicAuth = (\<lambda>_. None)\<rparr>"

definition sample_moment :: ambient where
  "sample_moment = \<lparr>cancelled = False, wall_now = 1000000\<rparr>"

definition sample_key :: ApiKeyRow where
  "sample_key = \<lparr>kr_ID = ''ak_1'', kr_MerchantID = ''m'', kr_Name = ''n'', kr_Lookup = ''sk_test_00000000'',
     kr_SecretHash = replicate argonSaltLen 0 @ replicate argonKeyLen 7, kr_Role = RoleWrite, kr_Livemode = False,
     kr_LastUsedAt = None, kr_RevokedAt = None, kr_CreatedAt = 0\<rparr>"

definition sample_page :: "Auth \<Rightarrow> ('s, http_response) opr" where
  "sample_page a = ret (Ok (writeRecorded 200 (auth_MerchantID a)))"

theorem authenticate_sound_witness:
  "authenticate sample_http sample_auth (Keys_FindByLookup sample_moment) [] ''Bearer sk_test_00000000abc'' sample_page [sample_key]
     = (Ok (writeRecorded 200 ''m''), [sample_key])
   \<and> (\<exists>row\<in>set [sample_key]. kr_RevokedAt row = None \<and> sample_page (caller_of row) [sample_key] = (Ok (writeRecorded 200 ''m''), [sample_key]))"
proof -
  have run: "authenticate sample_http sample_auth (Keys_FindByLookup sample_moment) [] ''Bearer sk_test_00000000abc'' sample_page [sample_key]
     = (Ok (writeRecorded 200 ''m''), [sample_key])" by code_simp
  have "\<not> cancelled sample_moment" "writeRecorded 200 ''m'' \<noteq> writeError sample_http [] (Api errUnauthorized)"
    by code_simp+
  then show ?thesis using authenticate_sound [OF run] run by blast
qed

section \<open>Generated keys\<close>

text \<open>The random source fills the buffer it is given, and a digest has the length that was asked for.\<close>

definition well_behaved :: "auth_library \<Rightarrow> bool" where
  "well_behaved A \<longleftrightarrow> (\<forall>k n. \<exists>bs. al_rand A k n = Some bs \<and> length bs = n)
     \<and> (\<forall>secret salt. length (al_argon2 A secret salt) = argonKeyLen)"

lemma symbols_all: "length (symbols_of bs) = length bs" "set (symbols_of bs) \<subseteq> set crockford"
proof -
  have small: "\<not> unat (b :: byte) \<ge> symbol_limit" for b
    using unsigned_less [of b, where 'a = nat] by (simp add: symbol_limit_def crockford_def)
  then show "length (symbols_of bs) = length bs" by (simp add: symbols_of_def)
  have "crockford \<noteq> []" by (simp add: crockford_def)
  then show "set (symbols_of bs) \<subseteq> set crockford" by (auto simp: symbols_of_def)
qed

lemma randomBase32_total:
  assumes "well_behaved A"
  shows "\<exists>body w'. randomBase32 2 A n w = Some (Ok body, w') \<and> length body = n \<and> set body \<subseteq> set crockford \<and> w_db w' = w_db w"
proof (cases "n = 0")
  case True
  then show ?thesis by (simp add: randomBase32_def numeral_2_eq_2)
next
  case False
  obtain bs where "al_rand A (w_tick w) n = Some bs" "length bs = n" using assms unfolding well_behaved_def by blast
  then show ?thesis using False symbols_all [of bs]
    by (simp add: randomBase32_def numeral_2_eq_2 read_random_def)
qed

lemma lookupOf_generated:
  assumes "p = prefixLive \<or> p = prefixTest" and "length body = secretLen"
  shows "lookupOf (p @ body) = p @ take lookupLen body"
  using assms by (auto simp: lookupOf_def prefixLive_def prefixTest_def secretLen_def lookupLen_def has_prefix_def)

lemma bearer_generated:
  assumes "p = prefixLive \<or> p = prefixTest" and "set body \<subseteq> set crockford" and "body \<noteq> []"
  shows "bearerToken A (''Bearer '' @ p @ body) = p @ body"
proof -
  have "\<forall>c\<in>set crockford. graphic c" by (simp add: crockford_def graphic_def)
  then have "graphic (last body)" using assms(2,3) last_in_set by blast
  then have "TrimSpace (p @ body) = p @ body"
    using assms(1,3) by (intro TrimSpace_id) (auto simp: prefixLive_def prefixTest_def graphic_def)
  then show ?thesis by (simp add: bearerToken_def has_prefix_def)
qed

lemma GenerateAPIKey_shape:
  assumes "well_behaved A" and "GenerateAPIKey 2 E A m role live w = Some (Ok (secret, r), w1)"
  obtains p body salt where "p = prefixLive \<or> p = prefixTest" and "secret = p @ body" and "length body = secretLen"
    and "set body \<subseteq> set crockford" and "length salt = argonSaltLen" and "Role_Valid role"
    and "key_MerchantID r = m" and "key_Lookup r = lookupOf secret" and "key_SecretHash r = salt @ al_argon2 A secret salt"
    and "key_Role r = role" and "key_Livemode r = live"
proof -
  obtain body v where b: "randomBase32 2 A secretLen w = Some (Ok body, v)" "length body = secretLen" "set body \<subseteq> set crockford"
    using randomBase32_total [OF assms(1), of secretLen w] by blast
  obtain salt where salt: "al_rand A (w_tick v) argonSaltLen = Some salt" "length salt = argonSaltLen"
    using assms(1) unfolding well_behaved_def by blast
  have valid: "Role_Valid role" using assms(2) by (simp add: GenerateAPIKey_def split: if_splits)
  define p where "p = (if live then prefixLive else prefixTest)"
  have "secret = p @ body \<and> key_MerchantID r = m \<and> key_Lookup r = lookupOf secret
      \<and> key_SecretHash r = salt @ al_argon2 A secret salt \<and> key_Role r = role \<and> key_Livemode r = live"
    using assms(2) valid b(1) salt(1)
    by (auto simp: GenerateAPIKey_def hashSecret_def read_random_def seq_eq_Ok Let_def p_def [symmetric] split: option.splits)
  then show thesis using b salt valid by (intro that [of p body salt]) (auto simp: p_def)
qed

lemma find_last: "\<forall>x\<in>set xs. \<not> P x \<Longrightarrow> P y \<Longrightarrow> List.find P (xs @ [y]) = Some y"
  by (induction xs) auto

lemma stored_key_found:
  assumes "Keys_Create c r name rows = (Ok (), rows')"
  obtains row where "rows' = rows @ [row]" and "List.find (\<lambda>x. kr_Lookup x = key_Lookup r) rows' = Some row"
    and "kr_ID row = key_ID r" "kr_MerchantID row = key_MerchantID r" "kr_Lookup row = key_Lookup r"
    "kr_SecretHash row = key_SecretHash r" "kr_Role row = key_Role r" "kr_Livemode row = key_Livemode r" "kr_RevokedAt row = None"
    and "\<forall>x\<in>set rows. kr_ID x \<noteq> key_ID r \<and> kr_Lookup x \<noteq> key_Lookup r"
proof -
  define row where "row = \<lparr>kr_ID = key_ID r, kr_MerchantID = key_MerchantID r, kr_Name = name, kr_Lookup = key_Lookup r,
       kr_SecretHash = key_SecretHash r, kr_Role = key_Role r, kr_Livemode = key_Livemode r, kr_LastUsedAt = None,
       kr_RevokedAt = None, kr_CreatedAt = wall_now c\<rparr>"
  have new: "rows' = rows @ [row]" "\<forall>x\<in>set rows. kr_ID x \<noteq> key_ID r \<and> kr_Lookup x \<noteq> key_Lookup r"
    using assms by (auto simp: Keys_Create_def CreateAPIKey_def seq_eq_Ok query_eq_Ok refuse_def row_def list_ex_iff split: if_splits sum.splits)
  moreover from new(2) have "List.find (\<lambda>x. kr_Lookup x = key_Lookup r) (rows @ [row]) = Some row"
    by (intro find_last) (simp_all add: row_def)
  ultimately show thesis by (intro that [of row]) (simp_all add: row_def)
qed

text \<open>The example library keeps the assumptions, and generation succeeds with it.\<close>

definition auth_env :: env where
  "auth_env = \<lparr>env_now = (\<lambda>k. 1000000), env_rand = (\<lambda>k. Some (replicate 10 0)), env_cancelled = (\<lambda>k. False)\<rparr>"

definition auth_world :: "ApiKeyRow list world" where
  "auth_world = \<lparr>w_db = [], w_gen = sample_generator, w_tick = 0\<rparr>"

lemma sample_auth_well_behaved: "well_behaved sample_auth"
  by (simp add: well_behaved_def sample_auth_def)

text \<open>
  C34. A generated key works, and only while it is not revoked: generation ends, with one read of the
  random source for the key and one for the salt; once its record is stored, the secret presented as
  a bearer token authenticates as the merchant and with the role it was generated for; after a
  revocation it is answered with 401.
\<close>

theorem generated_key_authenticates:
  assumes "well_behaved A" and "\<not> cancelled d"
  shows "\<exists>res w1. GenerateAPIKey 2 E A m role live w = Some (res, w1) \<and> (\<forall>secret r c name rows rows'.
    res = Ok (secret, r) \<longrightarrow> Keys_Create c r name rows = (Ok (), rows') \<longrightarrow>
      length secret = 40 \<and> Role_Valid role
      \<and> authenticate H A (Keys_FindByLookup d) rid (''Bearer '' @ secret) continue rows'
        = continue \<lparr>auth_KeyID = key_ID r, auth_MerchantID = m, auth_Role = role, auth_Livemode = live\<rparr> rows'
      \<and> (\<forall>e rows''. Keys_Revoke e (key_ID r) rows' = (Ok (), rows'') \<longrightarrow>
          authenticate H A (Keys_FindByLookup d) rid (''Bearer '' @ secret) continue rows''
          = (Ok (writeError H rid (Api errUnauthorized)), rows'')))"
proof -
  obtain res w1 where gen: "GenerateAPIKey 2 E A m role live w = Some (res, w1)"
    using randomBase32_total [OF assms(1), of secretLen w] by (fastforce simp: GenerateAPIKey_def)
  have "length secret = 40 \<and> Role_Valid role
      \<and> authenticate H A (Keys_FindByLookup d) rid (''Bearer '' @ secret) continue rows'
        = continue \<lparr>auth_KeyID = key_ID r, auth_MerchantID = m, auth_Role = role, auth_Livemode = live\<rparr> rows'
      \<and> (\<forall>e rows''. Keys_Revoke e (key_ID r) rows' = (Ok (), rows'') \<longrightarrow>
          authenticate H A (Keys_FindByLookup d) rid (''Bearer '' @ secret) continue rows''
          = (Ok (writeError H rid (Api errUnauthorized)), rows''))"
    if ok: "res = Ok (secret, r)" "Keys_Create c r name rows = (Ok (), rows')" for secret r c name rows rows'
  proof -
    obtain p body salt where g: "p = prefixLive \<or> p = prefixTest" "secret = p @ body" "length body = secretLen"
      "set body \<subseteq> set crockford" "length salt = argonSaltLen" "Role_Valid role"
      and r: "key_MerchantID r = m" "key_Lookup r = lookupOf secret" "key_SecretHash r = salt @ al_argon2 A secret salt"
      "key_Role r = role" "key_Livemode r = live"
      by (rule GenerateAPIKey_shape [OF assms(1) gen [unfolded ok(1)]])
    obtain row where row: "rows' = rows @ [row]" "List.find (\<lambda>x. kr_Lookup x = lookupOf secret) rows' = Some row"
      "kr_ID row = key_ID r" "kr_MerchantID row = m" "kr_Lookup row = lookupOf secret"
      "kr_SecretHash row = salt @ al_argon2 A secret salt" "kr_Role row = role" "kr_Livemode row = live" "kr_RevokedAt row = None"
      "\<forall>x\<in>set rows. kr_ID x \<noteq> key_ID r \<and> kr_Lookup x \<noteq> lookupOf secret"
    proof (rule stored_key_found [OF ok(2)])
      fix row
      assume "rows' = rows @ [row]" "List.find (\<lambda>x. kr_Lookup x = key_Lookup r) rows' = Some row"
        "kr_ID row = key_ID r" "kr_MerchantID row = key_MerchantID r" "kr_Lookup row = key_Lookup r"
        "kr_SecretHash row = key_SecretHash r" "kr_Role row = key_Role r" "kr_Livemode row = key_Livemode r" "kr_RevokedAt row = None"
        "\<forall>x\<in>set rows. kr_ID x \<noteq> key_ID r \<and> kr_Lookup x \<noteq> key_Lookup r"
      then show thesis using r by (intro that [of row]) simp_all
    qed
    have len: "body \<noteq> []" "length secret = 40" using g(1,2,3) by (auto simp: secretLen_def prefixLive_def prefixTest_def)
    have token: "bearerToken A (''Bearer '' @ secret) = secret" using bearer_generated [OF g(1,4) len(1)] g(2) by simp
    have verify: "verifySecret A secret (salt @ al_argon2 A secret salt)"
      using assms(1) g(5) by (simp add: verifySecret_def well_behaved_def)
    have ne: "secret \<noteq> []" using len(2) by auto
    have "authenticate H A (Keys_FindByLookup d) rid (''Bearer '' @ secret) continue rows''
        = (Ok (writeError H rid (Api errUnauthorized)), rows'')"
      if rev: "Keys_Revoke e (key_ID r) rows' = (Ok (), rows'')" for e rows''
    proof -
      have "rows'' = map (\<lambda>x. if kr_ID x = key_ID r \<and> kr_RevokedAt x = None then x\<lparr>kr_RevokedAt := Some (wall_now e)\<rparr> else x) rows'"
        using rev by (auto simp: Keys_Revoke_def RevokeAPIKey_def none_affected_def seq_eq_Ok query_eq_Ok update_where_def split: if_splits)
      also have "\<dots> = rows @ [row\<lparr>kr_RevokedAt := Some (wall_now e)\<rparr>]"
        using row(3,9,10) by (auto simp: row(1) intro!: map_idI)
      finally have "List.find (\<lambda>x. kr_Lookup x = lookupOf secret) rows'' = Some (row\<lparr>kr_RevokedAt := Some (wall_now e)\<rparr>)"
        using row(5,10) by (simp add: find_last)
      then show ?thesis using ne assms(2) unfolding authenticate_def token by (simp add: Let_def Keys_FindByLookup_eq)
    qed
    moreover have "authenticate H A (Keys_FindByLookup d) rid (''Bearer '' @ secret) continue rows'
        = continue \<lparr>auth_KeyID = key_ID r, auth_MerchantID = m, auth_Role = role, auth_Livemode = live\<rparr> rows'"
      using ne assms(2) row verify unfolding authenticate_def token by (simp add: Let_def Keys_FindByLookup_eq)
    ultimately show ?thesis using len(2) g(6) by blast
  qed
  then show ?thesis using gen by blast
qed

theorem generated_key_authenticates_witness:
  "\<exists>secret r w1. GenerateAPIKey 2 auth_env sample_auth ''m'' RoleWrite False auth_world = Some (Ok (secret, r), w1)
    \<and> (\<exists>rows'. Keys_Create sample_moment r ''n'' [] = (Ok (), rows')
      \<and> authenticate sample_http sample_auth (Keys_FindByLookup sample_moment) [] (''Bearer '' @ secret) sample_page rows'
        = (Ok (writeRecorded 200 ''m''), rows'))"
proof -
  have ok: "case GenerateAPIKey 2 auth_env sample_auth ''m'' RoleWrite False auth_world of
      Some (Ok (secret, r), w1) \<Rightarrow> fst (Keys_Create sample_moment r ''n'' []) = Ok () | _ \<Rightarrow> False" by code_simp
  have ambient: "\<not> cancelled sample_moment" by code_simp
  obtain secret r w1 where gen: "GenerateAPIKey 2 auth_env sample_auth ''m'' RoleWrite False auth_world = Some (Ok (secret, r), w1)"
    and made: "fst (Keys_Create sample_moment r ''n'' []) = Ok ()"
    using ok by (auto split: option.splits outcome.splits)
  obtain rows' where stored: "Keys_Create sample_moment r ''n'' [] = (Ok (), rows')"
    using made by (cases "Keys_Create sample_moment r ''n'' []") auto
  have "authenticate sample_http sample_auth (Keys_FindByLookup sample_moment) [] (''Bearer '' @ secret) sample_page rows'
      = sample_page \<lparr>auth_KeyID = key_ID r, auth_MerchantID = ''m'', auth_Role = RoleWrite, auth_Livemode = False\<rparr> rows'"
    using generated_key_authenticates [OF sample_auth_well_behaved ambient, of auth_env "''m''" RoleWrite False auth_world
      sample_http "[]" sample_page] gen stored by auto
  then show ?thesis using gen stored by (auto simp: sample_page_def ret_def)
qed

end
