(* ===== verification/Rate_Limiter.thy ===== *)
theory Rate_Limiter
  imports Http_Auth Webhook_Verify
begin

text \<open>
  The token bucket of \<^verbatim>\<open>internal/httpapi/middleware.go\<close>. Its tokens are floating-point numbers; their type
  and arithmetic are a parameter (\<open>floats\<close>), of which the theorems use only laws that IEEE 754
  arithmetic has. The limiter is state of the process, so no transaction takes it back.
\<close>

section \<open>The limiter\<close>

record 'f floats =
  fl_of_int :: "int \<Rightarrow> 'f"
  fl_seconds :: "int \<Rightarrow> 'f"
  fl_add :: "'f \<Rightarrow> 'f \<Rightarrow> 'f"
  fl_sub :: "'f \<Rightarrow> 'f \<Rightarrow> 'f"
  fl_mul :: "'f \<Rightarrow> 'f \<Rightarrow> 'f"
  fl_div :: "'f \<Rightarrow> 'f \<Rightarrow> 'f"
  fl_lt :: "'f \<Rightarrow> 'f \<Rightarrow> bool"

record 'f bucket =
  bu_tokens :: 'f
  bu_lastSeen :: int

record 'f rateLimiter =
  rl_buckets :: "(string \<times> 'f bucket) list"
  rl_perMin :: int

definition newRateLimiter :: "int \<Rightarrow> 'f rateLimiter" where
  "newRateLimiter perMin = \<lparr>rl_buckets = [], rl_perMin = perMin\<rparr>"

definition minFloat :: "'f floats \<Rightarrow> 'f \<Rightarrow> 'f \<Rightarrow> 'f" where
  "minFloat F a b = (if fl_lt F a b then a else b)"

text \<open>The bucket of a key at a moment: a new one is full, an old one is refilled for the time that passed.\<close>

definition current_bucket :: "'f floats \<Rightarrow> int \<Rightarrow> string \<Rightarrow> 'f rateLimiter \<Rightarrow> 'f bucket" where
  "current_bucket F now key l =
     (let capacity = fl_of_int F (rl_perMin l);
          refillPerSecond = fl_div F capacity (fl_of_int F 60)
      in case map_of (rl_buckets l) key of
           None \<Rightarrow> \<lparr>bu_tokens = capacity, bu_lastSeen = now\<rparr>
         | Some b \<Rightarrow>
             \<lparr>bu_tokens = minFloat F capacity
                (fl_add F (bu_tokens b) (fl_mul F (fl_seconds F (Time_Sub now (bu_lastSeen b))) refillPerSecond)),
              bu_lastSeen = now\<rparr>)"

definition allow :: "'f floats \<Rightarrow> int \<Rightarrow> string \<Rightarrow> 'f rateLimiter \<Rightarrow> bool \<times> 'f rateLimiter" where
  "allow F now key l =
     (if rl_perMin l \<le> 0 then (True, l)
      else let b = current_bucket F now key l
        in if fl_lt F (bu_tokens b) (fl_of_int F 1) then (False, l\<lparr>rl_buckets := AList.update key b (rl_buckets l)\<rparr>)
           else (True, l\<lparr>rl_buckets := AList.update key (b\<lparr>bu_tokens := fl_sub F (bu_tokens b) (fl_of_int F 1)\<rparr>) (rl_buckets l)\<rparr>))"

definition sweep :: "int \<Rightarrow> int \<Rightarrow> 'f rateLimiter \<Rightarrow> 'f rateLimiter" where
  "sweep now idle l = l\<lparr>rl_buckets := filter (\<lambda>(key, b). \<not> bu_lastSeen b < now - idle) (rl_buckets l)\<rparr>"

text \<open>The middleware: over the limit, nothing behind it runs.\<close>

definition limit_requests ::
  "http_library \<Rightarrow> 'f floats \<Rightarrow> (nat \<Rightarrow> int) \<Rightarrow> string \<Rightarrow> Auth option
    \<Rightarrow> ('s world \<times> 'f rateLimiter, http_response) opr \<Rightarrow> ('s world \<times> 'f rateLimiter, http_response) opr" where
  "limit_requests H F clock requestID auth continue wl =
     (let (w, l) = wl;
          key = (case auth of Some a \<Rightarrow> auth_KeyID a | None \<Rightarrow> ''anonymous'');
          (ok, l') = allow F (clock (w_tick w)) key l
      in if \<not> ok then (Ok (writeError H requestID (Api errRateLimited)), (w, l')) else continue (w, l'))"

section \<open>A burst\<close>

text \<open>Requests that arrive at one and the same moment, by the keys they carry.\<close>

fun allow_all :: "'f floats \<Rightarrow> int \<Rightarrow> string list \<Rightarrow> 'f rateLimiter \<Rightarrow> bool list \<times> 'f rateLimiter" where
  "allow_all F now [] l = ([], l)"
| "allow_all F now (k # ks) l =
     (case allow F now k l of (ok, l1) \<Rightarrow> case allow_all F now ks l1 of (oks, l2) \<Rightarrow> (ok # oks, l2))"

text \<open>
  What IEEE 754 promises about integers of at most 53 bits: they are ordered as integers, taking one
  away is exact, and adding zero times a finite number changes nothing.
\<close>

definition exact_integers :: "'f floats \<Rightarrow> bool" where
  "exact_integers F \<longleftrightarrow>
     (\<forall>a b. \<bar>a\<bar> \<le> 2 ^ 53 \<longrightarrow> \<bar>b\<bar> \<le> 2 ^ 53 \<longrightarrow> fl_lt F (fl_of_int F a) (fl_of_int F b) = (a < b))
     \<and> (\<forall>a. 1 \<le> a \<longrightarrow> a \<le> 2 ^ 53 \<longrightarrow> fl_sub F (fl_of_int F a) (fl_of_int F 1) = fl_of_int F (a - 1))
     \<and> (\<forall>a c. 0 \<le> a \<longrightarrow> a \<le> 2 ^ 53 \<longrightarrow> 0 < c \<longrightarrow> c \<le> 2 ^ 53 \<longrightarrow>
          fl_add F (fl_of_int F a) (fl_mul F (fl_seconds F 0) (fl_div F (fl_of_int F c) (fl_of_int F 60))) = fl_of_int F a)"

text \<open>The buckets after \<open>ks\<close>: a key that was used \<open>n\<close> times has the capacity less \<open>n\<close>, and never less than zero.\<close>

definition spent :: "'f floats \<Rightarrow> int \<Rightarrow> string list \<Rightarrow> 'f rateLimiter \<Rightarrow> bool" where
  "spent F now ks l \<longleftrightarrow> (\<forall>k. map_of (rl_buckets l) k =
     (if k \<in> set ks then Some \<lparr>bu_tokens = fl_of_int F (max 0 (rl_perMin l - int (count_list ks k))), bu_lastSeen = now\<rparr> else None))"

lemma current_bucket_spent:
  assumes "exact_integers F" and "0 < rl_perMin l" and "rl_perMin l \<le> 2 ^ 53" and "spent F now ks l"
  shows "current_bucket F now k l = \<lparr>bu_tokens = fl_of_int F (max 0 (rl_perMin l - int (count_list ks k))), bu_lastSeen = now\<rparr>"
proof (cases "k \<in> set ks")
  case False
  then have "map_of (rl_buckets l) k = None" "count_list ks k = 0"
    using assms(4) by (simp_all add: spent_def)
  then show ?thesis using assms(2) by (simp add: current_bucket_def Let_def)
next
  case True
  define n where "n = max 0 (rl_perMin l - int (count_list ks k))"
  have n: "0 \<le> n" "n \<le> rl_perMin l" "n \<le> 2 ^ 53" using assms(2,3) by (auto simp: n_def)
  have found: "map_of (rl_buckets l) k = Some \<lparr>bu_tokens = fl_of_int F n, bu_lastSeen = now\<rparr>"
    using assms(4) True by (simp add: spent_def n_def)
  have "Time_Sub now now = 0" by (simp add: Time_Sub_def in64_def)
  moreover have "fl_add F (fl_of_int F n) (fl_mul F (fl_seconds F 0) (fl_div F (fl_of_int F (rl_perMin l)) (fl_of_int F 60))) = fl_of_int F n"
    using assms(1-3) n unfolding exact_integers_def by blast
  moreover have "fl_lt F (fl_of_int F (rl_perMin l)) (fl_of_int F n) = (rl_perMin l < n)"
    using assms(1-3) n unfolding exact_integers_def by auto
  ultimately show ?thesis
    unfolding n_def [symmetric] using found n(2) by (simp add: current_bucket_def Let_def minFloat_def)
qed

lemma allow_spent:
  assumes "exact_integers F" and "0 < rl_perMin l" and "rl_perMin l \<le> 2 ^ 53" and "spent F now ks l"
  shows "fst (allow F now k l) = (int (count_list ks k) < rl_perMin l)"
    and "spent F now (ks @ [k]) (snd (allow F now k l))"
    and "rl_perMin (snd (allow F now k l)) = rl_perMin l"
proof -
  define n where "n = max 0 (rl_perMin l - int (count_list ks k))"
  have n: "0 \<le> n" "n \<le> 2 ^ 53" using assms(2,3) by (auto simp: n_def)
  have cur: "current_bucket F now k l = \<lparr>bu_tokens = fl_of_int F n, bu_lastSeen = now\<rparr>"
    using current_bucket_spent [OF assms] by (simp add: n_def)
  have lt: "fl_lt F (fl_of_int F n) (fl_of_int F 1) = (n < 1)" using assms(1) n unfolding exact_integers_def by simp
  have sub: "1 \<le> n \<Longrightarrow> fl_sub F (fl_of_int F n) (fl_of_int F 1) = fl_of_int F (n - 1)"
    using assms(1) n unfolding exact_integers_def by blast
  have n1: "(n < 1) = (\<not> int (count_list ks k) < rl_perMin l)" by (auto simp: n_def)
  show "fst (allow F now k l) = (int (count_list ks k) < rl_perMin l)"
    using assms(2) by (simp add: allow_def cur lt n1 Let_def)
  show "rl_perMin (snd (allow F now k l)) = rl_perMin l" by (simp add: allow_def Let_def)
  show "spent F now (ks @ [k]) (snd (allow F now k l))"
  proof (cases "n < 1")
    case True
    then have "max 0 (rl_perMin l - int (count_list ks k) - 1) = n" using n(1) by (auto simp: n_def)
    then show ?thesis
      using assms(2,4) True by (auto simp: spent_def allow_def cur lt Let_def update_conv' algebra_simps)
  next
    case False
    then have "max 0 (rl_perMin l - int (count_list ks k) - 1) = n - 1" by (auto simp: n_def)
    then show ?thesis
      using assms(2,4) False sub by (auto simp: spent_def allow_def cur lt Let_def update_conv' algebra_simps)
  qed
qed

lemma allow_all_spent:
  assumes "exact_integers F" and "0 < rl_perMin l" and "rl_perMin l \<le> 2 ^ 53" and "spent F now before l"
  shows "fst (allow_all F now ks l)
    = map (\<lambda>i. int (count_list before (ks ! i) + count_list (take i ks) (ks ! i)) < rl_perMin l) [0..<length ks]"
  using assms
proof (induction ks arbitrary: l before)
  case (Cons k ks)
  note a = allow_spent [OF Cons.prems, of k]
  define l1 where "l1 = snd (allow F now k l)"
  have l1: "allow F now k l = (int (count_list before k) < rl_perMin l, l1)"
    using a(1) by (cases "allow F now k l") (simp add: l1_def)
  have rest: "fst (allow_all F now ks l1)
    = map (\<lambda>i. int (count_list (before @ [k]) (ks ! i) + count_list (take i ks) (ks ! i)) < rl_perMin l) [0..<length ks]"
    using Cons.IH [of l1 "before @ [k]"] Cons.prems a by (simp add: l1_def)
  have "[0..<length (k # ks)] = 0 # map Suc [0..<length ks]" by (metis length_Cons map_Suc_upt upt_conv_Cons zero_less_Suc)
  then show ?case using rest l1 by (auto simp: split_beta)
qed simp

text \<open>
  C36. The limit is exact in a burst, and per key. Among requests that arrive at one moment at a fresh
  limiter, a request is let through if and only if fewer than the limit of the earlier ones carried
  the same key; requests of other keys play no part.
\<close>

theorem burst_limited_per_key:
  assumes "exact_integers F" and "0 < perMin" and "perMin \<le> 2 ^ 53" and "i < length ks"
  shows "fst (allow_all F now ks (newRateLimiter perMin)) ! i \<longleftrightarrow> int (count_list (take i ks) (ks ! i)) < perMin"
proof -
  have "spent F now [] (newRateLimiter perMin :: 'a rateLimiter)" by (simp add: spent_def newRateLimiter_def)
  from allow_all_spent [OF assms(1) _ _ this, of ks] assms(2-4) show ?thesis by (simp add: newRateLimiter_def)
qed

definition int_floats :: "int floats" where
  "int_floats = \<lparr>fl_of_int = (\<lambda>n. n), fl_seconds = (\<lambda>d. d div 1000000000), fl_add = (+), fl_sub = (-), fl_mul = (*), fl_div = (div), fl_lt = (<)\<rparr>"

theorem burst_limited_per_key_witness:
  "exact_integers int_floats
   \<and> fst (allow_all int_floats 5 [''a'', ''b'', ''a'', ''a''] (newRateLimiter 2)) ! 2
   \<and> \<not> fst (allow_all int_floats 5 [''a'', ''b'', ''a'', ''a''] (newRateLimiter 2)) ! 3"
proof -
  have laws: "exact_integers int_floats" by (simp add: exact_integers_def int_floats_def)
  from burst_limited_per_key [OF laws, of 2 2 "[''a'', ''b'', ''a'', ''a'']" 5]
    burst_limited_per_key [OF laws, of 2 3 "[''a'', ''b'', ''a'', ''a'']" 5] laws
  show ?thesis by (simp add: numeral_2_eq_2 numeral_3_eq_3)
qed

end
