(* ===== verification/Http_Server.thy ===== *)
theory Http_Server
  imports Rate_Limiter Payments
begin

text \<open>
  The HTTP API: \<^verbatim>\<open>internal/httpapi/accounts.go\<close>, \<^verbatim>\<open>transfers.go\<close>, \<^verbatim>\<open>payments.go\<close>, the rest of
  \<^verbatim>\<open>render.go\<close> and \<^verbatim>\<open>middleware.go\<close>, and the routes of \<^verbatim>\<open>router.go\<close>, over any repository. JSON decoding
  and encoding of the request and response types are parameters (\<open>decoders\<close>, \<open>encoders\<close>), and so is the
  router's matching of a path against a template: a request carries the template it matched and the
  value of \<^verbatim>\<open>id\<close> in it. The idempotency store is present, as the server's command always supplies it.
\<close>

section \<open>Requests\<close>

record Request =
  rq_Method :: string
  rq_Path :: string
  rq_Route :: string
  rq_ID :: string
  rq_Authorization :: string
  rq_Key :: string
  rq_ContentType :: string
  rq_ContentLength :: int
  rq_Body :: string
  rq_Limit :: string
  rq_StartingAfter :: string

text \<open>
  A body behind \<^verbatim>\<open>http.MaxBytesReader\<close>: the bytes that can be read, and whether reading on fails. \<open>ReadAll\<close> is
  \<^verbatim>\<open>io.ReadAll\<close> of it.
\<close>

type_synonym body_reader = "string \<times> bool"

definition bodyLimit :: "int \<Rightarrow> string \<Rightarrow> body_reader" where
  "bodyLimit maxBytes body = (take (nat maxBytes) body, length body > nat maxBytes)"

definition ReadAll :: "body_reader \<Rightarrow> string outcome" where
  "ReadAll b = (if snd b then Err (ErrOther ''http: request body too large'') else Ok (fst b))"

record createAccountRequest =
  ca_Name :: string
  ca_Type :: string
  ca_Currency :: string
  ca_AllowNegative :: bool
  ca_Metadata :: metadata

record transferEntry =
  te_AccountID :: string
  te_Direction :: string
  te_Amount :: int

record createTransferRequest =
  ct_Currency :: string
  ct_Description :: string
  ct_ExternalRef :: string
  ct_Pending :: bool
  ct_Entries :: "transferEntry list"
  ct_Metadata :: metadata

record reverseTransactionRequest =
  rt_Reason :: string

record createPaymentRequest =
  cp_Amount :: int
  cp_Currency :: string
  cp_Capture :: "bool option"
  cp_Description :: string
  cp_Metadata :: metadata

record capturePaymentRequest =
  pc_Amount :: "int option"

record createRefundRequest =
  cf_PaymentID :: string
  cf_Amount :: "int option"
  cf_Reason :: string
  cf_Metadata :: metadata

text \<open>What \<^verbatim>\<open>Decode\<close> returns, with what \<^verbatim>\<open>More\<close> says afterwards.\<close>

datatype 'a decoded = Decoded 'a bool | MaxBytesError | UnmarshalTypeError string | DecodeError string

record decoders =
  de_account :: "body_reader \<Rightarrow> createAccountRequest decoded"
  de_transfer :: "body_reader \<Rightarrow> createTransferRequest decoded"
  de_reverse :: "body_reader \<Rightarrow> reverseTransactionRequest decoded"
  de_payment :: "body_reader \<Rightarrow> createPaymentRequest decoded"
  de_capture :: "body_reader \<Rightarrow> capturePaymentRequest decoded"
  de_refund :: "body_reader \<Rightarrow> createRefundRequest decoded"

text \<open>
  \<^verbatim>\<open>strings.EqualFold\<close> with \<open>application/json\<close>: letters are compared without case, and the long s
  (bytes \<open>C5 BF\<close>) is an \<open>s\<close>.
\<close>

fun fold_case :: "string \<Rightarrow> string" where
  "fold_case (a # b # s) =
     (if of_char a = (197 :: nat) \<and> of_char b = (191 :: nat) then CHR ''s'' # fold_case s
      else (if CHR ''A'' \<le> a \<and> a \<le> CHR ''Z'' then char_of (of_char a + 32 :: nat) else a) # fold_case (b # s))"
| "fold_case [a] = [if CHR ''A'' \<le> a \<and> a \<le> CHR ''Z'' then char_of (of_char a + 32 :: nat) else a]"
| "fold_case [] = []"

definition TrimPrefix :: "string \<Rightarrow> string \<Rightarrow> string" where
  "TrimPrefix s p = (if has_prefix s p then drop (length p) s else s)"

definition errUnsupportedMedia :: APIError where
  "errUnsupportedMedia = Errorf 415 TypeInvalidRequest ''unsupported_media_type'' ''Content-Type must be application/json.''"

definition decodeJSON :: "string \<Rightarrow> 'a decoded \<Rightarrow> APIError + 'a" where
  "decodeJSON ct d =
     (if ct \<noteq> [] \<and> fold_case (TrimSpace (hd (Split CHR '';'' ct))) \<noteq> ''application/json'' then Inl errUnsupportedMedia
      else case d of
        MaxBytesError \<Rightarrow> Inl (WithCause errBodyTooLarge (ErrOther ''http: request body too large''))
      | UnmarshalTypeError field \<Rightarrow>
          Inl (WithCause (WithParam (WithMessage errMalformedJSON (''Field '' @ field @ '' has the wrong type.'')) field) (ErrOther field))
      | DecodeError msg \<Rightarrow>
          if Contains msg ''unknown field''
          then Inl (WithCause (WithMessage errMalformedJSON (TrimPrefix msg ''json: '')) (ErrOther msg))
          else Inl (WithCause errMalformedJSON (ErrOther msg))
      | Decoded v extra \<Rightarrow>
          if extra then Inl (WithMessage errMalformedJSON ''The request body contained more than one JSON value.'') else Inr v)"

definition errInvalidLimit :: "string \<Rightarrow> APIError" where
  "errInvalidLimit message = WithParam (Errorf 400 TypeInvalidRequest ''invalid_limit'' message) ''limit''"

definition pageFrom :: "Request \<Rightarrow> APIError + Page" where
  "pageFrom r =
     (let p = \<lparr>page_Limit = 0, page_StartingAfter = rq_StartingAfter r\<rparr>
      in if rq_Limit r = [] then Inr (Page_Normalize p)
         else case ParseInt (rq_Limit r) of
             None \<Rightarrow> Inl (errInvalidLimit ''limit must be an integer.'')
           | Some n \<Rightarrow>
               if n < 1 \<or> n > MaxPageLimit
               then Inl (errInvalidLimit (''limit must be between 1 and '' @ FormatInt MaxPageLimit @ ''.''))
               else Inr (Page_Normalize (p\<lparr>page_Limit := n\<rparr>)))"

section \<open>Responses\<close>

record accountResponse =
  ars_Object :: string
  ars_ID :: string
  ars_MerchantID :: string
  ars_Name :: string
  ars_Type :: string
  ars_NormalBalance :: string
  ars_Currency :: string
  ars_AllowNegative :: bool
  ars_Metadata :: metadata
  ars_CreatedAt :: string

definition newAccountResponse :: "http_library \<Rightarrow> Account \<Rightarrow> accountResponse" where
  "newAccountResponse H a =
     \<lparr>ars_Object = ''account'', ars_ID = acc_ID a, ars_MerchantID = acc_MerchantID a, ars_Name = acc_Name a, ars_Type = acc_Type a,
      ars_NormalBalance = acc_NormalBalance a, ars_Currency = acc_Currency a, ars_AllowNegative = acc_AllowNegative a,
      ars_Metadata = acc_Metadata a, ars_CreatedAt = hl_time H (acc_CreatedAt a)\<rparr>"

record balanceResponse =
  brs_Object :: string
  brs_AccountID :: string
  brs_Currency :: string
  brs_Posted :: int
  brs_Pending :: int
  brs_Available :: int
  brs_UpdatedAt :: string

definition newBalanceResponse :: "http_library \<Rightarrow> Balance \<Rightarrow> balanceResponse" where
  "newBalanceResponse H b =
     \<lparr>brs_Object = ''balance'', brs_AccountID = bal_AccountID b, brs_Currency = bal_Currency b, brs_Posted = bal_Posted b,
      brs_Pending = bal_Pending b, brs_Available = Available b, brs_UpdatedAt = hl_time H (bal_UpdatedAt b)\<rparr>"

record entryResponse =
  ers_Object :: string
  ers_ID :: int
  ers_TransactionID :: string
  ers_AccountID :: string
  ers_Direction :: string
  ers_Amount :: int
  ers_Currency :: string
  ers_Status :: string
  ers_Seq :: int
  ers_BalanceAfter :: int
  ers_CreatedAt :: string

definition newEntryResponse :: "http_library \<Rightarrow> Entry \<Rightarrow> entryResponse" where
  "newEntryResponse H e =
     \<lparr>ers_Object = ''entry'', ers_ID = ent_ID e, ers_TransactionID = ent_TransactionID e, ers_AccountID = ent_AccountID e,
      ers_Direction = ent_Direction e, ers_Amount = ent_Amount e, ers_Currency = ent_Currency e, ers_Status = ent_Status e,
      ers_Seq = ent_Seq e, ers_BalanceAfter = ent_BalanceAfter e, ers_CreatedAt = hl_time H (ent_CreatedAt e)\<rparr>"

record transactionResponse =
  trs_Object :: string
  trs_ID :: string
  trs_MerchantID :: string
  trs_Status :: string
  trs_Currency :: string
  trs_Description :: string
  trs_ReversesID :: string
  trs_ExternalRef :: string
  trs_Metadata :: metadata
  trs_Entries :: "entryResponse list"
  trs_CreatedAt :: string
  trs_PostedAt :: string

definition newTransactionResponse :: "http_library \<Rightarrow> Transaction \<Rightarrow> transactionResponse" where
  "newTransactionResponse H t =
     \<lparr>trs_Object = ''transaction'', trs_ID = txn_ID t, trs_MerchantID = txn_MerchantID t, trs_Status = txn_Status t,
      trs_Currency = txn_Currency t, trs_Description = txn_Description t, trs_ReversesID = txn_ReversesID t,
      trs_ExternalRef = txn_ExternalRef t, trs_Metadata = txn_Metadata t, trs_Entries = map (newEntryResponse H) (txn_Entries t),
      trs_CreatedAt = hl_time H (txn_CreatedAt t),
      trs_PostedAt = (case txn_PostedAt t of None \<Rightarrow> [] | Some at \<Rightarrow> hl_time H at)\<rparr>"

record paymentResponse =
  prs_Object :: string
  prs_ID :: string
  prs_State :: string
  prs_Currency :: string
  prs_Amount :: int
  prs_Fee :: int
  prs_Net :: int
  prs_Refunded :: int
  prs_Refundable :: int
  prs_AuthorizationID :: string
  prs_ChargeID :: string
  prs_RefundIDs :: "string list"
  prs_CreatedAt :: string

definition newPaymentResponse :: "http_library \<Rightarrow> Payment \<Rightarrow> paymentResponse outcome" where
  "newPaymentResponse H p = andThen (Refundable p) (\<lambda>refundable.
     Ok \<lparr>prs_Object = ''payment'', prs_ID = pay_ID p, prs_State = pay_State p, prs_Currency = pay_Currency p,
      prs_Amount = amount (pay_Amount p), prs_Fee = amount (pay_Fee p), prs_Net = amount (pay_Net p),
      prs_Refunded = amount (pay_Refunded p), prs_Refundable = amount refundable, prs_AuthorizationID = pay_AuthorizationID p,
      prs_ChargeID = pay_ChargeID p, prs_RefundIDs = pay_RefundIDs p, prs_CreatedAt = hl_time H (pay_CreatedAt p)\<rparr>)"

record 'a listResponse =
  lrs_Object :: string
  lrs_Data :: "'a list"
  lrs_HasMore :: bool
  lrs_NextCursor :: string

definition newListResponse :: "'a list \<Rightarrow> string \<Rightarrow> 'a listResponse" where
  "newListResponse data nextCursor =
     \<lparr>lrs_Object = ''list'', lrs_Data = data, lrs_HasMore = (nextCursor \<noteq> []), lrs_NextCursor = nextCursor\<rparr>"

text \<open>\<^verbatim>\<open>json.Marshal\<close> of each type of response.\<close>

record encoders =
  en_account :: "accountResponse \<Rightarrow> string outcome"
  en_balance :: "balanceResponse \<Rightarrow> string outcome"
  en_transaction :: "transactionResponse \<Rightarrow> string outcome"
  en_payment :: "paymentResponse \<Rightarrow> string outcome"
  en_entries :: "entryResponse listResponse \<Rightarrow> string outcome"
  en_accounts :: "accountResponse listResponse \<Rightarrow> string outcome"
  en_status :: "(string \<times> string) list \<Rightarrow> string outcome"

section \<open>The server\<close>

text \<open>The tables a request can reach: the ledger's, the API keys and, around both, the idempotency keys.\<close>

record 's app_db =
  ap_keys :: "ApiKeyRow list"
  ap_ledger :: 's

type_synonym 's server_db = "'s app_db idem_db"

definition ledger_view :: "'s server_db world \<Rightarrow> 's world" where
  "ledger_view w = \<lparr>w_db = ap_ledger (db_app (w_db w)), w_gen = w_gen w, w_tick = w_tick w\<rparr>"

definition on_ledger :: "('s world, 'a) opr \<Rightarrow> ('s server_db world, 'a) opr" where
  "on_ledger f w =
     (case f (ledger_view w) of (r, v) \<Rightarrow>
        (r, w\<lparr>w_db := (w_db w)\<lparr>db_app := (db_app (w_db w))\<lparr>ap_ledger := w_db v\<rparr>\<rparr>, w_gen := w_gen v, w_tick := w_tick v\<rparr>))"

definition on_api_keys :: "(ambient \<Rightarrow> (ApiKeyRow list, 'a) opr) \<Rightarrow> ambient \<Rightarrow> ('s server_db, 'a) opr" where
  "on_api_keys f c db =
     (case f c (ap_keys (db_app db)) of (r, rows) \<Rightarrow> (r, db\<lparr>db_app := (db_app db)\<lparr>ap_keys := rows\<rparr>\<rparr>))"

record 's Server =
  sv_MaxBodyBytes :: int
  sv_ledger :: "'s Repository"
  sv_payments :: "Payments_Service option"
  sv_ping :: "(ambient \<Rightarrow> bool) option"
  sv_http :: http_library
  sv_auth :: auth_library
  sv_json :: json_library
  sv_decode :: decoders
  sv_encode :: encoders

text \<open>
  A step of a handler that can fail: the fault is written with \<open>wr\<close> and the handler returns. \<open>page\<close> writes
  to the response, \<open>captured\<close> to the writer of the idempotency middleware.
\<close>

definition proceed :: "(fault \<Rightarrow> 'r) \<Rightarrow> ('s, fault + 'a) opr \<Rightarrow> ('a \<Rightarrow> ('s, 'r) opr) \<Rightarrow> ('s, 'r) opr" where
  "proceed wr m f s =
     (case m s of
        (Ok (Inr x), s') \<Rightarrow> f x s'
      | (Ok (Inl flt), s') \<Rightarrow> (Ok (wr flt), s')
      | (Err e, s') \<Rightarrow> (Ok (wr (Domain e)), s')
      | (Panic, s') \<Rightarrow> (Panic, s'))"

definition fine :: "('s, 'a) opr \<Rightarrow> ('s, fault + 'a) opr" where
  "fine m = seq m (\<lambda>x. ret (Ok (Inr x)))"

definition checked :: "APIError + 'a \<Rightarrow> ('s, fault + 'a) opr" where
  "checked r = ret (Ok (case r of Inl e \<Rightarrow> Inl (Api e) | Inr x \<Rightarrow> Inr x))"

definition captured :: "http_library \<Rightarrow> string \<Rightarrow> fault \<Rightarrow> capturingWriter \<times> bool" where
  "captured H rid flt =
     (let resp = writeError H rid flt in (Write (hr_Body resp) (WriteHeader (hr_Status resp) \<lparr>cw_status = 0, cw_body = []\<rparr>), False))"

definition merchant_of :: "Auth option \<Rightarrow> string" where
  "merchant_of auth = (case auth of Some a \<Rightarrow> auth_MerchantID a | None \<Rightarrow> [])"

section \<open>Accounts\<close>

definition handleCreateAccount :: "'s Server \<Rightarrow> env \<Rightarrow> string \<Rightarrow> Auth option \<Rightarrow> Request \<Rightarrow> ('s server_db world, http_response) opr" where
  "handleCreateAccount S E rid auth r =
     (let wr = writeError (sv_http S) rid
      in proceed wr (checked (decodeJSON (rq_ContentType r) (de_account (sv_decode S) (bodyLimit (sv_MaxBodyBytes S) (rq_Body r))))) (\<lambda>req.
         proceed wr (fine (ret (ParseCurrency (ca_Currency req)))) (\<lambda>cur.
         proceed wr (fine (InTx (on_ledger (Service_CreateAccount (sv_ledger S) E
           \<lparr>acc_ID = [], acc_MerchantID = merchant_of auth, acc_Name = ca_Name req, acc_Type = ca_Type req, acc_NormalBalance = [],
            acc_Currency = cur, acc_AllowNegative = ca_AllowNegative req, acc_Metadata = ca_Metadata req, acc_CreatedAt = zero_time\<rparr>)))) (\<lambda>account.
         ret (Ok (writeJSON (sv_http S) rid 201 (en_account (sv_encode S) (newAccountResponse (sv_http S) account))))))))"

definition authorizedAccount :: "'s Server \<Rightarrow> env \<Rightarrow> Auth option \<Rightarrow> Request \<Rightarrow> ('s server_db world, fault + Account) opr" where
  "authorizedAccount S E auth r =
     (case auth of
        None \<Rightarrow> ret (Ok (Inl (Api errUnauthorized)))
      | Some a \<Rightarrow> seq (on_ledger (Service_GetAccount (sv_ledger S) E (rq_ID r))) (\<lambda>account.
          ret (Ok (if acc_MerchantID account \<noteq> auth_MerchantID a then Inl (Domain ErrAccountNotFound) else Inr account))))"

definition handleGetAccount :: "'s Server \<Rightarrow> env \<Rightarrow> string \<Rightarrow> Auth option \<Rightarrow> Request \<Rightarrow> ('s server_db world, http_response) opr" where
  "handleGetAccount S E rid auth r =
     proceed (writeError (sv_http S) rid) (authorizedAccount S E auth r) (\<lambda>account.
     ret (Ok (writeJSON (sv_http S) rid 200 (en_account (sv_encode S) (newAccountResponse (sv_http S) account)))))"

definition handleGetBalance :: "'s Server \<Rightarrow> env \<Rightarrow> string \<Rightarrow> Auth option \<Rightarrow> Request \<Rightarrow> ('s server_db world, http_response) opr" where
  "handleGetBalance S E rid auth r =
     (let wr = writeError (sv_http S) rid
      in proceed wr (authorizedAccount S E auth r) (\<lambda>account.
         proceed wr (fine (on_ledger (Service_Balance (sv_ledger S) E (acc_ID account)))) (\<lambda>balance.
         ret (Ok (writeJSON (sv_http S) rid 200 (en_balance (sv_encode S) (newBalanceResponse (sv_http S) balance)))))))"

definition handleListEntries :: "'s Server \<Rightarrow> env \<Rightarrow> string \<Rightarrow> Auth option \<Rightarrow> Request \<Rightarrow> ('s server_db world, http_response) opr" where
  "handleListEntries S E rid auth r =
     (let wr = writeError (sv_http S) rid
      in proceed wr (authorizedAccount S E auth r) (\<lambda>account.
         proceed wr (checked (pageFrom r)) (\<lambda>page.
         proceed wr (fine (on_ledger (Service_ListEntries (sv_ledger S) E (acc_ID account) page))) (\<lambda>(entries, next_cursor).
         ret (Ok (writeJSON (sv_http S) rid 200
           (en_entries (sv_encode S) (newListResponse (map (newEntryResponse (sv_http S)) entries) next_cursor))))))))"

definition handleListAccounts :: "'s Server \<Rightarrow> env \<Rightarrow> string \<Rightarrow> Auth option \<Rightarrow> ('s server_db world, http_response) opr" where
  "handleListAccounts S E rid auth =
     proceed (writeError (sv_http S) rid) (fine (on_ledger (Service_ListAccounts (sv_ledger S) E (merchant_of auth)))) (\<lambda>accounts.
     ret (Ok (writeJSON (sv_http S) rid 200
       (en_accounts (sv_encode S) (newListResponse (map (newAccountResponse (sv_http S)) accounts) [])))))"

definition own_transaction :: "'s Server \<Rightarrow> env \<Rightarrow> Auth option \<Rightarrow> string \<Rightarrow> ('s server_db world, Transaction) opr" where
  "own_transaction S E auth i =
     seq (on_ledger (Service_GetTransaction (sv_ledger S) E i)) (\<lambda>txn.
     ret (if txn_MerchantID txn \<noteq> merchant_of auth then Err ErrTransactionNotFound else Ok txn))"

definition handleGetTransaction :: "'s Server \<Rightarrow> env \<Rightarrow> string \<Rightarrow> Auth option \<Rightarrow> Request \<Rightarrow> ('s server_db world, http_response) opr" where
  "handleGetTransaction S E rid auth r =
     proceed (writeError (sv_http S) rid) (fine (own_transaction S E auth (rq_ID r))) (\<lambda>txn.
     ret (Ok (writeJSON (sv_http S) rid 200 (en_transaction (sv_encode S) (newTransactionResponse (sv_http S) txn)))))"

section \<open>Transfers\<close>

definition entryParam :: "nat \<Rightarrow> string \<Rightarrow> string" where
  "entryParam i field = ''entries['' @ FormatUint i @ ''].'' @ field"

fun transfer_entries :: "nat \<Rightarrow> string \<Rightarrow> transferEntry list \<Rightarrow> (fault + EntrySpec list) outcome" where
  "transfer_entries i cur [] = Ok (Inr [])"
| "transfer_entries i cur (e # es) =
     (if \<not> Direction_Valid (te_Direction e)
      then Ok (Inl (Api (WithParam (Errorf 400 TypeInvalidRequest ''invalid_direction'' ''direction must be \"debit\" or \"credit\".'')
        (entryParam i ''direction''))))
      else andThen (Money_New (te_Amount e) cur) (\<lambda>amt.
        andThen (transfer_entries (Suc i) cur es) (\<lambda>rest. case rest of
          Inl flt \<Rightarrow> Ok (Inl flt)
        | Inr specs \<Rightarrow> Ok (Inr (\<lparr>es_AccountID = te_AccountID e, es_Direction = te_Direction e, es_Amount = amt\<rparr> # specs)))))"

fun assert_each :: "'s Server \<Rightarrow> env \<Rightarrow> string \<Rightarrow> string list \<Rightarrow> EntrySpec list \<Rightarrow> ('s server_db world, unit) opr" where
  "assert_each S E merchantID seen [] = ret (Ok ())"
| "assert_each S E merchantID seen (e # es) =
     (if es_AccountID e \<in> set seen then assert_each S E merchantID seen es
      else seq (on_ledger (Service_GetAccount (sv_ledger S) E (es_AccountID e))) (\<lambda>account.
        if acc_MerchantID account \<noteq> merchantID then ret (Err ErrAccountNotFound)
        else assert_each S E merchantID (es_AccountID e # seen) es))"

definition assertAccountsBelongTo :: "'s Server \<Rightarrow> env \<Rightarrow> string \<Rightarrow> EntrySpec list \<Rightarrow> ('s server_db world, unit) opr" where
  "assertAccountsBelongTo S E merchantID entries = assert_each S E merchantID [] entries"

text \<open>A response that is recorded with its transaction: the encoded value and the resource it names.\<close>

definition recorded :: "'a outcome \<Rightarrow> ('a \<Rightarrow> string outcome) \<Rightarrow> string \<Rightarrow> ('s, string \<times> string) opr" where
  "recorded v marshal resourceID = ret (andThen (andThen v marshal) (\<lambda>body. Ok (body, resourceID)))"

definition handleCreateTransfer ::
  "'s Server \<Rightarrow> env \<Rightarrow> string \<Rightarrow> Auth option \<Rightarrow> Request \<Rightarrow> IdemRecord \<Rightarrow> ('s server_db world, capturingWriter \<times> bool) opr" where
  "handleCreateTransfer S E rid auth r rec =
     (let wr = captured (sv_http S) rid
      in proceed wr (checked (decodeJSON (rq_ContentType r) (de_transfer (sv_decode S) (rq_Body r, False)))) (\<lambda>req.
         if ct_Entries req = [] then ret (Ok (wr (Api (toAPIError (hl_text (sv_http S)) (Domain ErrNoEntries)))))
         else proceed wr (fine (ret (ParseCurrency (ct_Currency req)))) (\<lambda>cur.
         proceed wr (ret (transfer_entries 0 cur (ct_Entries req))) (\<lambda>entries.
         proceed wr (fine (assertAccountsBelongTo S E (merchant_of auth) entries)) (\<lambda>_.
         money_handler E (\<lambda>e. writeError (sv_http S) rid (Domain e)) 201
           (seq (on_ledger (Post (sv_ledger S) E
              \<lparr>ts_MerchantID = merchant_of auth, ts_Description = ct_Description req, ts_ExternalRef = ct_ExternalRef req,
               ts_Entries = entries, ts_Pending = ct_Pending req, ts_Metadata = ct_Metadata req\<rparr>)) (\<lambda>txn.
            recorded (Ok (newTransactionResponse (sv_http S) txn)) (en_transaction (sv_encode S)) (txn_ID txn))) rec)))))"

text \<open>The optional body of a request: it is read only when the request declares a length.\<close>

definition optional_body :: "Request \<Rightarrow> 'a \<Rightarrow> (body_reader \<Rightarrow> 'a decoded) \<Rightarrow> APIError + 'a" where
  "optional_body r absent decode =
     (if rq_ContentLength r > 0 then decodeJSON (rq_ContentType r) (decode (rq_Body r, False)) else Inr absent)"

definition handleReverseTransaction ::
  "'s Server \<Rightarrow> env \<Rightarrow> string \<Rightarrow> Auth option \<Rightarrow> Request \<Rightarrow> IdemRecord \<Rightarrow> ('s server_db world, capturingWriter \<times> bool) opr" where
  "handleReverseTransaction S E rid auth r rec =
     (let wr = captured (sv_http S) rid
      in proceed wr (checked (optional_body r \<lparr>rt_Reason = []\<rparr> (de_reverse (sv_decode S)))) (\<lambda>req.
         proceed wr (fine (own_transaction S E auth (rq_ID r))) (\<lambda>_.
         money_handler E (\<lambda>e. writeError (sv_http S) rid (Domain e)) 201
           (seq (on_ledger (Reverse (sv_ledger S) E (rq_ID r) (rt_Reason req))) (\<lambda>reversal.
            recorded (Ok (newTransactionResponse (sv_http S) reversal)) (en_transaction (sv_encode S)) (txn_ID reversal))) rec)))"

section \<open>Payments\<close>

definition recorded_payment :: "'s Server \<Rightarrow> Payment \<Rightarrow> ('t, string \<times> string) opr" where
  "recorded_payment S p = recorded (newPaymentResponse (sv_http S) p) (en_payment (sv_encode S)) (pay_ID p)"

definition handleCreatePayment ::
  "'s Server \<Rightarrow> env \<Rightarrow> Payments_Service \<Rightarrow> string \<Rightarrow> Auth option \<Rightarrow> Request \<Rightarrow> IdemRecord
    \<Rightarrow> ('s server_db world, capturingWriter \<times> bool) opr" where
  "handleCreatePayment S E svc rid auth r rec =
     (let wr = captured (sv_http S) rid
      in proceed wr (checked (decodeJSON (rq_ContentType r) (de_payment (sv_decode S) (rq_Body r, False)))) (\<lambda>req.
         proceed wr (fine (ret (ParseCurrency (cp_Currency req)))) (\<lambda>cur.
         proceed wr (fine (ret (Money_New (cp_Amount req) cur))) (\<lambda>amt.
         money_handler E (\<lambda>e. writeError (sv_http S) rid (Domain e)) 201
           (seq (on_ledger (Charge (sv_ledger S) E svc
              \<lparr>cr_MerchantID = merchant_of auth, cr_Amount = amt,
               cr_Capture = (case cp_Capture req of None \<Rightarrow> True | Some capture \<Rightarrow> capture),
               cr_Description = cp_Description req, cr_Metadata = cp_Metadata req\<rparr>)) (recorded_payment S)) rec))))"

definition optionalAmount ::
  "'s Server \<Rightarrow> env \<Rightarrow> string \<Rightarrow> string \<Rightarrow> int option \<Rightarrow> ('s server_db world, money option) opr" where
  "optionalAmount S E merchantID paymentID minor =
     (case minor of
        None \<Rightarrow> ret (Ok None)
      | Some n \<Rightarrow> seq (on_ledger (Payments_Get (sv_ledger S) E merchantID paymentID)) (\<lambda>payment.
          ret (andThen (Money_New n (pay_Currency payment)) (\<lambda>amt. Ok (Some amt)))))"

definition handleCapturePayment ::
  "'s Server \<Rightarrow> env \<Rightarrow> Payments_Service \<Rightarrow> string \<Rightarrow> Auth option \<Rightarrow> Request \<Rightarrow> IdemRecord
    \<Rightarrow> ('s server_db world, capturingWriter \<times> bool) opr" where
  "handleCapturePayment S E svc rid auth r rec =
     proceed (captured (sv_http S) rid) (checked (optional_body r \<lparr>pc_Amount = None\<rparr> (de_capture (sv_decode S)))) (\<lambda>req.
     money_handler E (\<lambda>e. writeError (sv_http S) rid (Domain e)) 200
       (seq (optionalAmount S E (merchant_of auth) (rq_ID r) (pc_Amount req)) (\<lambda>amt.
        seq (on_ledger (Payments_Capture (sv_ledger S) E svc (merchant_of auth) (rq_ID r) amt)) (recorded_payment S))) rec)"

definition handleCancelPayment ::
  "'s Server \<Rightarrow> env \<Rightarrow> string \<Rightarrow> Auth option \<Rightarrow> Request \<Rightarrow> IdemRecord \<Rightarrow> ('s server_db world, capturingWriter \<times> bool) opr" where
  "handleCancelPayment S E rid auth r rec =
     money_handler E (\<lambda>e. writeError (sv_http S) rid (Domain e)) 200
       (seq (on_ledger (Cancel (sv_ledger S) E (merchant_of auth) (rq_ID r))) (recorded_payment S)) rec"

definition handleGetPayment :: "'s Server \<Rightarrow> env \<Rightarrow> string \<Rightarrow> Auth option \<Rightarrow> Request \<Rightarrow> ('s server_db world, http_response) opr" where
  "handleGetPayment S E rid auth r =
     proceed (writeError (sv_http S) rid) (fine (on_ledger (Payments_Get (sv_ledger S) E (merchant_of auth) (rq_ID r)))) (\<lambda>payment.
     case newPaymentResponse (sv_http S) payment of
       Panic \<Rightarrow> ret Panic
     | resp \<Rightarrow> ret (Ok (writeJSON (sv_http S) rid 200 (andThen resp (en_payment (sv_encode S))))))"

definition errPaymentIDRequired :: APIError where
  "errPaymentIDRequired = WithParam (Errorf 400 TypeInvalidRequest ''payment_id_required'' ''payment_id is required.'') ''payment_id''"

definition handleCreateRefund ::
  "'s Server \<Rightarrow> env \<Rightarrow> Payments_Service \<Rightarrow> string \<Rightarrow> Auth option \<Rightarrow> Request \<Rightarrow> IdemRecord
    \<Rightarrow> ('s server_db world, capturingWriter \<times> bool) opr" where
  "handleCreateRefund S E svc rid auth r rec =
     (let wr = captured (sv_http S) rid
      in proceed wr (checked (decodeJSON (rq_ContentType r) (de_refund (sv_decode S) (rq_Body r, False)))) (\<lambda>req.
         if cf_PaymentID req = [] then ret (Ok (wr (Api errPaymentIDRequired)))
         else money_handler E (\<lambda>e. writeError (sv_http S) rid (Domain e)) 201
           (seq (optionalAmount S E (merchant_of auth) (cf_PaymentID req) (cf_Amount req)) (\<lambda>amt.
            seq (on_ledger (Refund (sv_ledger S) E svc
              \<lparr>rr_MerchantID = merchant_of auth, rr_PaymentID = cf_PaymentID req, rr_Amount = amt, rr_Reason = cf_Reason req,
               rr_Metadata = cf_Metadata req\<rparr>)) (recorded_payment S))) rec))"

section \<open>Health\<close>

definition handleLive :: "'s Server \<Rightarrow> string \<Rightarrow> ('t, http_response) opr" where
  "handleLive S rid = ret (Ok (writeJSON (sv_http S) rid 200 (en_status (sv_encode S) [(''status'', ''ok'')])))"

definition handleReady :: "'s Server \<Rightarrow> env \<Rightarrow> string \<Rightarrow> ('t world, http_response) opr" where
  "handleReady S E rid =
     (case sv_ping S of
        None \<Rightarrow> handleLive S rid
      | Some ping \<Rightarrow> seq (call E (\<lambda>c. ret (Ok (ping c)))) (\<lambda>up.
          if up then handleLive S rid
          else ret (Ok (writeJSON (sv_http S) rid 503
            (en_status (sv_encode S) [(''status'', ''unavailable''), (''reason'', ''database unreachable'')])))))"

section \<open>Routes\<close>

datatype endpoint = EpListAccounts | EpGetAccount | EpGetBalance | EpListEntries | EpGetTransaction | EpGetPayment | EpCreateAccount
  | EpCreateTransfer | EpReverseTransaction | EpCreatePayment | EpCapturePayment | EpCancelPayment | EpCreateRefund

text \<open>The routes under \<^verbatim>\<open>/v1\<close> with the role each one requires; those of payments are mounted only with a payments service.\<close>

definition routes :: "'s Server \<Rightarrow> (string \<times> string \<times> Role \<times> endpoint) list" where
  "routes S =
     [(''GET'', ''/v1/accounts'', RoleRead, EpListAccounts), (''GET'', ''/v1/accounts/{id}'', RoleRead, EpGetAccount),
      (''GET'', ''/v1/accounts/{id}/balance'', RoleRead, EpGetBalance), (''GET'', ''/v1/accounts/{id}/entries'', RoleRead, EpListEntries),
      (''GET'', ''/v1/transactions/{id}'', RoleRead, EpGetTransaction)]
     @ (if sv_payments S \<noteq> None then [(''GET'', ''/v1/payments/{id}'', RoleRead, EpGetPayment)] else [])
     @ [(''POST'', ''/v1/accounts'', RoleWrite, EpCreateAccount), (''POST'', ''/v1/transfers'', RoleWrite, EpCreateTransfer),
        (''POST'', ''/v1/transactions/{id}/reverse'', RoleWrite, EpReverseTransaction)]
     @ (if sv_payments S \<noteq> None
        then [(''POST'', ''/v1/payments'', RoleWrite, EpCreatePayment), (''POST'', ''/v1/payments/{id}/capture'', RoleWrite, EpCapturePayment),
              (''POST'', ''/v1/payments/{id}/cancel'', RoleWrite, EpCancelPayment), (''POST'', ''/v1/refunds'', RoleWrite, EpCreateRefund)]
        else [])"

text \<open>The idempotency middleware around a handler, with the collaborators the server gives it.\<close>

definition idempotent ::
  "'s Server \<Rightarrow> env \<Rightarrow> string \<Rightarrow> Auth option \<Rightarrow> Request
    \<Rightarrow> (IdemRecord \<Rightarrow> ('s server_db world, capturingWriter \<times> bool) opr) \<Rightarrow> ('s server_db world, http_response) opr" where
  "idempotent S E rid auth r next_handler =
     Handler E (sv_json S) (\<lambda>e. writeError (sv_http S) rid (Domain e)) next_handler
       \<lparr>hq_Key = rq_Key r, hq_Merchant = map_option auth_MerchantID auth,
        hq_Body = ReadAll (bodyLimit (sv_MaxBodyBytes S) (rq_Body r)), hq_Method = rq_Method r, hq_Path = rq_Path r, hq_RequestID = rid\<rparr>"

definition with_payments :: "'s Server \<Rightarrow> (Payments_Service \<Rightarrow> ('t, 'a) opr) \<Rightarrow> ('t, 'a) opr" where
  "with_payments S f = (case sv_payments S of Some svc \<Rightarrow> f svc | None \<Rightarrow> ret Panic)"

definition run_endpoint ::
  "'s Server \<Rightarrow> env \<Rightarrow> string \<Rightarrow> Auth option \<Rightarrow> Request \<Rightarrow> endpoint \<Rightarrow> ('s server_db world, http_response) opr" where
  "run_endpoint S E rid auth r ep =
     (case ep of
        EpListAccounts \<Rightarrow> handleListAccounts S E rid auth
      | EpGetAccount \<Rightarrow> handleGetAccount S E rid auth r
      | EpGetBalance \<Rightarrow> handleGetBalance S E rid auth r
      | EpListEntries \<Rightarrow> handleListEntries S E rid auth r
      | EpGetTransaction \<Rightarrow> handleGetTransaction S E rid auth r
      | EpGetPayment \<Rightarrow> handleGetPayment S E rid auth r
      | EpCreateAccount \<Rightarrow> handleCreateAccount S E rid auth r
      | EpCreateTransfer \<Rightarrow> idempotent S E rid auth r (handleCreateTransfer S E rid auth r)
      | EpReverseTransaction \<Rightarrow> idempotent S E rid auth r (handleReverseTransaction S E rid auth r)
      | EpCreatePayment \<Rightarrow> idempotent S E rid auth r (\<lambda>rec. with_payments S (\<lambda>svc. handleCreatePayment S E svc rid auth r rec))
      | EpCapturePayment \<Rightarrow> idempotent S E rid auth r (\<lambda>rec. with_payments S (\<lambda>svc. handleCapturePayment S E svc rid auth r rec))
      | EpCancelPayment \<Rightarrow> idempotent S E rid auth r (handleCancelPayment S E rid auth r)
      | EpCreateRefund \<Rightarrow> idempotent S E rid auth r (\<lambda>rec. with_payments S (\<lambda>svc. handleCreateRefund S E svc rid auth r rec)))"

text \<open>No route: the router tells a path it knows under another method from one it does not know.\<close>

definition unrouted :: "http_library \<Rightarrow> string \<Rightarrow> string list \<Rightarrow> Request \<Rightarrow> ('t, http_response) opr" where
  "unrouted H rid known r = ret (Ok (writeError H rid (Api (if rq_Route r \<in> set known then errMethodNotAllowed else errNotFound))))"

definition dispatch :: "'s Server \<Rightarrow> env \<Rightarrow> string \<Rightarrow> Auth \<Rightarrow> Request \<Rightarrow> ('s server_db world, http_response) opr" where
  "dispatch S E rid auth r =
     (case List.find (\<lambda>(verb, pattern, role, ep). verb = rq_Method r \<and> pattern = rq_Route r) (routes S) of
        Some (verb, pattern, role, ep) \<Rightarrow> requireRole (sv_http S) rid role (Some auth) (run_endpoint S E rid (Some auth) r ep)
      | None \<Rightarrow> unrouted (sv_http S) rid (map (\<lambda>(verb, pattern, role, ep). pattern) (routes S)) r)"

section \<open>Serving a request\<close>

text \<open>The state of the process: the database with the generator, and the rate limiter.\<close>

type_synonym ('s, 'f) process = "'s server_db world \<times> 'f rateLimiter"

definition on_world :: "('s server_db world, 'a) opr \<Rightarrow> (('s, 'f) process, 'a) opr" where
  "on_world f p = (case f (fst p) of (r, w) \<Rightarrow> (r, (w, snd p)))"

definition v1 :: "'s Server \<Rightarrow> 'f floats \<Rightarrow> env \<Rightarrow> string \<Rightarrow> Request \<Rightarrow> (('s, 'f) process, http_response) opr" where
  "v1 S F E rid r =
     authenticate (sv_http S) (sv_auth S) (\<lambda>lookup. on_world (call E (on_api_keys (\<lambda>c. Keys_FindByLookup c lookup)))) rid (rq_Authorization r) (\<lambda>auth.
     limit_requests (sv_http S) F (env_now E) rid (Some auth) (on_world (dispatch S E rid auth r)))"

definition is_v1 :: "string \<Rightarrow> bool" where
  "is_v1 path \<longleftrightarrow> path = ''/v1'' \<or> has_prefix path ''/v1/''"

definition root_router :: "'s Server \<Rightarrow> 'f floats \<Rightarrow> env \<Rightarrow> string \<Rightarrow> Request \<Rightarrow> (('s, 'f) process, http_response) opr" where
  "root_router S F E rid r =
     (if is_v1 (rq_Path r) then v1 S F E rid r
      else if rq_Method r = ''GET'' \<and> rq_Route r = ''/healthz'' then on_world (handleLive S rid)
      else if rq_Method r = ''GET'' \<and> rq_Route r = ''/readyz'' then on_world (handleReady S E rid)
      else unrouted (sv_http S) rid [''/healthz'', ''/readyz''] r)"

definition recoverer :: "http_library \<Rightarrow> string \<Rightarrow> ('t, http_response) opr \<Rightarrow> ('t, http_response) opr" where
  "recoverer H rid next_handler t =
     (case next_handler t of
        (Panic, t') \<Rightarrow> (Ok (writeError H rid (Api (Errorf 500 TypeAPI ''internal_error'' internal_message))), t')
      | other \<Rightarrow> other)"

definition PrefixRequest :: string where "PrefixRequest = ''req''"

text \<open>A request gets an identifier of its own, which its response carries; one the client sends is ignored.\<close>

definition requestID :: "env \<Rightarrow> (string \<Rightarrow> (('s, 'f) process, http_response) opr) \<Rightarrow> (('s, 'f) process, http_response) opr" where
  "requestID E next_handler =
     seq (on_world (new_id E PrefixRequest)) (\<lambda>rid.
     seq (next_handler rid) (\<lambda>resp.
     ret (Ok (resp\<lparr>hr_Headers := (''Request-Id'', rid) # hr_Headers resp\<rparr>))))"

text \<open>
  \<^verbatim>\<open>ServeHTTP\<close> through the whole chain. The handler timeout is the environment's \<open>env_cancelled\<close>; the identifier of the
  request is drawn outside the recovery from panics.
\<close>

definition ServeHTTP :: "'s Server \<Rightarrow> 'f floats \<Rightarrow> env \<Rightarrow> Request \<Rightarrow> (('s, 'f) process, http_response) opr" where
  "ServeHTTP S F E r = requestID E (\<lambda>rid. recoverer (sv_http S) rid (root_router S F E rid r))"

end
