(* ===== verification/Tenancy.thy ===== *)
theory Tenancy
  imports Payment_Laws Postgres_Laws
begin

text \<open>
  Whose books an operation touches. Every account and every transaction belongs to a merchant. The
  ledger itself does not compare the two, so that merchants are kept apart is a property of the
  callers: of the payments service, which works on the chart of the merchant it is given, and of the
  HTTP handlers. The lemmas here say what ledger and payment operations leave alone, over any
  repository that also keeps the reading laws of \<open>tenant_repository\<close>; both stores do.
\<close>

section \<open>Belonging to a merchant\<close>

definition owned :: "string \<Rightarrow> books \<Rightarrow> string \<Rightarrow> bool" where
  "owned m B i \<longleftrightarrow> (\<exists>a. bk_accounts B i = Some a \<and> acc_MerchantID a = m)"

text \<open>The entries of a transaction are on accounts of the merchant of the transaction.\<close>

definition tenant_ok :: "books \<Rightarrow> bool" where
  "tenant_ok B \<longleftrightarrow>
     (\<forall>e\<in>set (bk_log B). \<forall>t. bk_txns B (ent_TransactionID e) = Some t \<longrightarrow> owned (txn_MerchantID t) B (ent_AccountID e))
     \<and> bk_txns B [] = None"

text \<open>What changes between two states of the books when only merchant \<open>m\<close> has acted.\<close>

definition own :: "string \<Rightarrow> books \<Rightarrow> books \<Rightarrow> bool" where
  "own m B B' \<longleftrightarrow>
     (\<forall>i a. bk_accounts B i = Some a \<longrightarrow> bk_accounts B' i = Some a)
     \<and> (\<forall>i a. bk_accounts B' i = Some a \<longrightarrow> bk_accounts B i = Some a \<or> acc_MerchantID a = m)
     \<and> (\<forall>i a b. bk_accounts B i = Some a \<longrightarrow> acc_MerchantID a \<noteq> m \<longrightarrow> bk_balances B i = Some b \<longrightarrow>
          (\<exists>b'. bk_balances B' i = Some b' \<and> bal_Posted b' = bal_Posted b \<and> bal_Pending b' = bal_Pending b))
     \<and> (\<exists>es. bk_log B' = bk_log B @ es \<and> (\<forall>e\<in>set es. owned m B' (ent_AccountID e)))
     \<and> (\<forall>i t. bk_txns B i = Some t \<longrightarrow>
          (\<exists>t'. bk_txns B' i = Some t' \<and> txn_MerchantID t' = txn_MerchantID t \<and> (txn_MerchantID t \<noteq> m \<longrightarrow> t' = t)))
     \<and> (\<forall>i t. bk_txns B' i = Some t \<longrightarrow> bk_txns B i = None \<longrightarrow> txn_MerchantID t = m)"

lemma own_refl [simp]: "own m B B"
  by (simp add: own_def)

lemma ownD:
  assumes "own m B B'"
  shows "bk_accounts B i = Some a \<Longrightarrow> bk_accounts B' i = Some a"
    and "bk_accounts B' i = Some a \<Longrightarrow> bk_accounts B i = Some a \<or> acc_MerchantID a = m"
    and "bk_accounts B i = Some a \<Longrightarrow> acc_MerchantID a \<noteq> m \<Longrightarrow> bk_balances B i = Some b \<Longrightarrow>
          \<exists>b'. bk_balances B' i = Some b' \<and> bal_Posted b' = bal_Posted b \<and> bal_Pending b' = bal_Pending b"
    and "\<exists>es. bk_log B' = bk_log B @ es \<and> (\<forall>e\<in>set es. owned m B' (ent_AccountID e))"
    and "bk_txns B i = Some t \<Longrightarrow>
          \<exists>t'. bk_txns B' i = Some t' \<and> txn_MerchantID t' = txn_MerchantID t \<and> (txn_MerchantID t \<noteq> m \<longrightarrow> t' = t)"
    and "bk_txns B' i = Some t \<Longrightarrow> bk_txns B i = None \<Longrightarrow> txn_MerchantID t = m"
  using assms unfolding own_def by blast+

lemma own_owned: "own m B B' \<Longrightarrow> owned k B i \<Longrightarrow> owned k B' i"
  using ownD(1) by (fastforce simp: owned_def)

lemma own_trans:
  assumes 1: "own m B C" and 2: "own m C D"
  shows "own m B D"
  unfolding own_def
proof (intro conjI allI impI)
  obtain es fs where es: "bk_log C = bk_log B @ es" "\<forall>e\<in>set es. owned m C (ent_AccountID e)"
    and fs: "bk_log D = bk_log C @ fs" "\<forall>e\<in>set fs. owned m D (ent_AccountID e)"
    using ownD(4) [OF 1] ownD(4) [OF 2] by blast
  then show "\<exists>gs. bk_log D = bk_log B @ gs \<and> (\<forall>e\<in>set gs. owned m D (ent_AccountID e))"
    using own_owned [OF 2] by (intro exI [of _ "es @ fs"]) auto
next
  fix i a
  assume "bk_accounts B i = Some a"
  then show "bk_accounts D i = Some a" using ownD(1) [OF 1] ownD(1) [OF 2] by blast
next
  fix i a
  assume "bk_accounts D i = Some a"
  then show "bk_accounts B i = Some a \<or> acc_MerchantID a = m" using ownD(2) [OF 1] ownD(2) [OF 2] by blast
next
  fix i a b
  assume a: "bk_accounts B i = Some a" "acc_MerchantID a \<noteq> m" "bk_balances B i = Some b"
  from ownD(3) [OF 1 a] obtain c where c: "bk_balances C i = Some c" "bal_Posted c = bal_Posted b" "bal_Pending c = bal_Pending b" by blast
  from ownD(3) [OF 2 ownD(1) [OF 1 a(1)] a(2) c(1)] c(2,3)
  show "\<exists>b'. bk_balances D i = Some b' \<and> bal_Posted b' = bal_Posted b \<and> bal_Pending b' = bal_Pending b" by simp
next
  fix i t
  assume "bk_txns B i = Some t"
  from ownD(5) [OF 1 this] obtain c where c: "bk_txns C i = Some c" "txn_MerchantID c = txn_MerchantID t"
    "txn_MerchantID t \<noteq> m \<longrightarrow> c = t" by blast
  from ownD(5) [OF 2 c(1)] c(2,3)
  show "\<exists>t'. bk_txns D i = Some t' \<and> txn_MerchantID t' = txn_MerchantID t \<and> (txn_MerchantID t \<noteq> m \<longrightarrow> t' = t)" by auto
next
  fix i t
  assume t: "bk_txns D i = Some t" "bk_txns B i = None"
  show "txn_MerchantID t = m"
  proof (cases "bk_txns C i")
    case None
    then show ?thesis using ownD(6) [OF 2 t(1)] by blast
  next
    case (Some c)
    from ownD(6) [OF 1 this t(2)] ownD(5) [OF 2 Some] t(1) show ?thesis by auto
  qed
qed

text \<open>A posting on accounts of one merchant, a change of status, a new account.\<close>

lemma own_posts:
  assumes "posts spec t B B'" and "books_ok B" and "txn_MerchantID t = m"
    and "\<forall>e\<in>set (ts_Entries spec). owned m B (es_AccountID e)"
  shows "own m B B'"
proof -
  have es: "owned m B (ent_AccountID e)" if "e \<in> set (txn_Entries t)" for e
  proof -
    have "spec_entry e \<in> set (ts_Entries spec)" using assms(1) that unfolding posts_def by (metis image_eqI set_map)
    then show ?thesis using assms(4) by fastforce
  qed
  have "\<exists>b'. bk_balances B' i = Some b' \<and> bal_Posted b' = bal_Posted b \<and> bal_Pending b' = bal_Pending b"
    if a: "bk_accounts B i = Some a" "acc_MerchantID a \<noteq> m" "bk_balances B i = Some b" for i a b
  proof -
    have "acc_ID a = i" using books_okD(1) [OF assms(2) a(1)] by (simp add: account_ok_def)
    then have "acc_ID a \<notin> ent_AccountID ` set (txn_Entries t)" using es a(1,2) by (fastforce simp: owned_def)
    then have "net st a (txn_Entries t) = 0" for st by (rule net_untouched)
    moreover have "\<exists>b'. bk_balances B' i = Some b' \<and> bal_Posted b' = bal_Posted b + net StatusPosted a (txn_Entries t)
        \<and> bal_Pending b' = bal_Pending b + net StatusPending a (txn_Entries t)"
      using assms(1) a(1,3) unfolding posts_def by blast
    ultimately show ?thesis by simp
  qed
  then show ?thesis using assms(1,3) es unfolding own_def posts_def owned_def by auto
qed

lemma tenant_ok_posts:
  assumes "posts spec t B B'" and "books_ok B" and "tenant_ok B" and "txn_MerchantID t = m" and "txn_ID t \<noteq> []"
    and "\<forall>e\<in>set (ts_Entries spec). owned m B (es_AccountID e)"
  shows "tenant_ok B'"
proof -
  note o = own_posts [OF assms(1,2,4,6)]
  have "owned (txn_MerchantID t') B' (ent_AccountID e)"
    if e: "e \<in> set (bk_log B')" "bk_txns B' (ent_TransactionID e) = Some t'" for e t'
  proof (cases "e \<in> set (bk_log B)")
    case True
    have "ent_TransactionID e \<in> dom (bk_txns B)" using books_okD(4) [OF assms(2) True] by (simp add: entry_ok_def)
    then have "bk_txns B (ent_TransactionID e) = Some t'" using assms(1) e(2) by (auto simp: posts_def split: if_splits)
    then show ?thesis using assms(3) True own_owned [OF o] by (auto simp: tenant_ok_def)
  next
    case False
    then have "e \<in> set (txn_Entries t)" using assms(1) e(1) by (auto simp: posts_def)
    moreover from this have "t' = t\<lparr>txn_Entries := []\<rparr>" using assms(1) e(2) by (auto simp: posts_def)
    moreover have "spec_entry e \<in> set (ts_Entries spec)" using assms(1) calculation(1) unfolding posts_def by (metis image_eqI set_map)
    ultimately show ?thesis using assms(4,6) own_owned [OF o] by fastforce
  qed
  moreover have "bk_txns B' [] = None" using assms(1,3,5) by (auto simp: posts_def tenant_ok_def)
  ultimately show ?thesis by (auto simp: tenant_ok_def)
qed

lemma own_status:
  assumes "bk_txns B i = Some row" and "txn_MerchantID row = m"
  shows "own m B (books_status i st at B)"
  using assms by (auto simp: own_def books_status_def set_status_def split: option.split)

lemma tenant_ok_status: "tenant_ok B \<Longrightarrow> tenant_ok (books_status i st at B)"
  by (auto simp: tenant_ok_def books_status_def set_status_def owned_def split: if_splits option.splits)

lemma own_create:
  assumes "bk_accounts B (acc_ID a) = None" and "dom (bk_balances B) = dom (bk_accounts B)" and "acc_MerchantID a = m"
  shows "own m B (books_create at a B)"
  using assms by (auto simp: own_def books_create_def)

lemma tenant_ok_create:
  assumes "bk_accounts B (acc_ID a) = None" and "tenant_ok B"
  shows "tenant_ok (books_create at a B)"
  using assms by (fastforce simp: tenant_ok_def books_create_def owned_def)

section \<open>Operations act for one merchant\<close>

locale tenant_repository = repository R books wf
  for R :: "'s Repository" and books :: "'s \<Rightarrow> books" and wf :: "'s \<Rightarrow> bool" +
  assumes get_account: "wf s \<Longrightarrow> repo_GetAccount R a i s = (r1, s') \<Longrightarrow>
      s' = s \<and> (\<forall>acct. r1 = Ok acct \<longrightarrow> bk_accounts (books s) i = Some acct)"
    and list_accounts: "wf s \<Longrightarrow> books_ok (books s) \<Longrightarrow> repo_ListAccounts R a m s = (Ok accts, s') \<Longrightarrow>
      \<forall>acct\<in>set accts. bk_accounts (books s) (acc_ID acct) = Some acct \<and> acc_MerchantID acct = m"
    and by_ref: "wf s \<Longrightarrow> repo_TransactionsByRef R a m ref s = (Ok txns, s') \<Longrightarrow>
      \<forall>t\<in>set txns. \<exists>row. bk_txns (books s) (txn_ID t) = Some row \<and> txn_MerchantID row = m"
    and get_txn_state: "repo_GetTransaction R a i s = (r2, s') \<Longrightarrow> s' = s"
    and get_balance_state: "repo_GetBalance R a i s = (r3, s') \<Longrightarrow> s' = s"
    and list_entries_state: "repo_ListEntries R a i p s = (r4, s') \<Longrightarrow> s' = s"
begin

definition good :: "'s world \<Rightarrow> bool" where
  "good w \<longleftrightarrow> sound w \<and> tenant_ok (books (w_db w))"

definition acts :: "string \<Rightarrow> 's world \<Rightarrow> 's world \<Rightarrow> bool" where
  "acts m w w' \<longleftrightarrow> good w' \<and> own m (books (w_db w)) (books (w_db w'))"

lemma acts_same: "good w \<Longrightarrow> w_db w' = w_db w \<Longrightarrow> acts m w w'"
  by (simp add: acts_def good_def sound_def)

lemma acts_trans: "acts m u v \<Longrightarrow> acts m v w \<Longrightarrow> acts m u w"
  unfolding acts_def using own_trans by blast

lemma acts_good: "acts m w w' \<Longrightarrow> good w'"
  by (simp add: acts_def)

lemma acts_owned: "acts m w w' \<Longrightarrow> owned k (books (w_db w)) i \<Longrightarrow> owned k (books (w_db w')) i"
  unfolding acts_def using own_owned by blast

lemma new_id_nonempty: "new_id E PrefixTransaction w = (Ok i, w') \<Longrightarrow> i \<noteq> []"
  by (auto simp: new_id_def id_new_def PrefixTransaction_def seq_def ret_def split: prod.splits outcome.splits)

lemma record_transaction_ID: "record_transaction R E spec locked txn w = (Ok t, w') \<Longrightarrow> txn_ID t = txn_ID txn"
  by (auto simp: record_transaction_def seq_eq_Ok split: prod.splits)

lemma locked_posting_ID:
  assumes "seq (call E (\<lambda>c. repo_LockAccounts R c (AccountIDs spec))) (\<lambda>locked.
      seq (new_id E PrefixTransaction) (\<lambda>i. seq (clock_now E) (\<lambda>now.
      record_transaction R E spec locked (transaction_row spec rev_id i now)))) w = (Ok t, w')"
  shows "txn_ID t \<noteq> []"
  using assms new_id_nonempty
  by (fastforce simp: seq_eq_Ok transaction_row_def dest!: record_transaction_ID)

lemma acts_posts:
  assumes "posts spec t (books (w_db w)) (books (w_db w'))" and "good w" and "sound w'"
    and "txn_ID t \<noteq> []" and "txn_MerchantID t = m" and "\<forall>e\<in>set (ts_Entries spec). owned m (books (w_db w)) (es_AccountID e)"
  shows "acts m w w'"
proof -
  have "books_ok (books (w_db w))" "tenant_ok (books (w_db w))" using assms(2) by (simp_all add: good_def sound_def)
  then show ?thesis
    using tenant_ok_posts [OF assms(1)] own_posts [OF assms(1)] assms(3-6) by (simp add: acts_def good_def)
qed

lemma Post_acts:
  assumes "Post R E spec w = (Ok t, w')" and "good w" and "typed_spec spec"
    and "ts_MerchantID spec = m" and "\<forall>e\<in>set (ts_Entries spec). owned m (books (w_db w)) (es_AccountID e)"
  shows "acts m w w'"
proof (rule acts_posts [OF _ assms(2) _ _ _ assms(5)])
  have w: "wf (w_db w)" "books_ok (books (w_db w))" using assms(2) by (simp_all add: good_def sound_def)
  from Post_posts [OF assms(1) w assms(3)] obtain i now where
    p: "posts spec t (books (w_db w)) (books (w_db w'))" "t = (transaction_row spec [] i now)\<lparr>txn_Entries := txn_Entries t\<rparr>" by blast
  then show "posts spec t (books (w_db w)) (books (w_db w'))" by simp
  show "txn_MerchantID t = m" by (subst p(2)) (simp add: transaction_row_def assms(4))
  show "sound w'" using Post_books_ok [OF assms(1) w assms(3)] by (simp add: sound_def)
  show "txn_ID t \<noteq> []"
    using assms(1) by (intro locked_posting_ID [where w = w]) (auto simp: Post_def seq_ret_eq split: outcome.splits)
qed

text \<open>The entries of a transaction, mirrored, are on the accounts of its merchant.\<close>

lemma mirrored_owned:
  assumes "good w" and "bk_txns (books (w_db w)) i = Some row" and "mset es = mset (entries_of i (books (w_db w)))"
  shows "\<forall>e\<in>set (map mirrored es). owned (txn_MerchantID row) (books (w_db w)) (es_AccountID e)"
proof -
  have "set es = set (entries_of i (books (w_db w)))" using assms(3) by (rule mset_eq_setD)
  then show ?thesis using assms(1,2) by (auto simp: good_def tenant_ok_def entries_of_def mirrored_def)
qed

lemma Void_acts:
  assumes "Void R E i w = (Ok t, w')" and "good w"
    and "\<And>row. bk_txns (books (w_db w)) i = Some row \<Longrightarrow> txn_MerchantID row = m"
  shows "acts m w w'"
proof -
  have w: "wf (w_db w)" "books_ok (books (w_db w))" using assms(2) by (simp_all add: good_def sound_def)
  obtain auth w1 where g: "call E (\<lambda>c. repo_GetTransaction R c i) w = (Ok auth, w1)" and pend: "IsPending auth"
    using assms(1) by (auto simp: Void_def seq_eq_Ok split: if_splits)
  note a = get_transaction_Ok [OF g w]
  obtain row where row: "bk_txns (books (w_db w)) i = Some row" "auth = row\<lparr>txn_Entries := txn_Entries auth\<rparr>" using a(2) by blast
  have m: "txn_MerchantID auth = m" by (subst row(2)) (simp add: assms(3) [OF row(1)])
  have me: "mirror_entries (txn_Entries auth) = Ok (map mirrored (txn_Entries auth))" by (rule mirror_entries_ok [OF a(3)])
  define spec where "spec = \<lparr>ts_MerchantID = txn_MerchantID auth, ts_Description = ''void of authorization '' @ txn_ID auth,
      ts_ExternalRef = txn_ExternalRef auth, ts_Entries = map mirrored (txn_Entries auth), ts_Pending = True,
      ts_Metadata = [(''voids'', JString (txn_ID auth))]\<rparr>"
  obtain w2 where po: "Post R E spec w1 = (Ok t, w2)"
    and st: "call E (\<lambda>c. repo_SetTransactionStatus R c (txn_ID auth) StatusVoided None) w2 = (Ok (), w')"
    using assms(1) g pend by (auto simp: Void_def seq_eq_Ok me spec_def)
  have 1: "acts m w w1" by (rule acts_same [OF assms(2) a(1)])
  have ty: "typed_spec spec" using group_entry(5) [OF a(3)] by (auto simp: spec_def typed_spec_def list_all_iff mirrored_def)
  have "acts m w1 w2"
    by (rule Post_acts [OF po acts_good [OF 1] ty])
      (use mirrored_owned [OF assms(2) row(1) a(6)] m a(1) assms(3) [OF row(1)] in \<open>simp_all add: spec_def\<close>)
  with 1 have 2: "acts m w w2" by (rule acts_trans)
  have s: "wf (w_db w')" "books (w_db w') = books_status i StatusVoided None (books (w_db w2))"
    using set_status_Ok [OF st] acts_good [OF 2] a(4) by (simp_all add: good_def sound_def)
  obtain row2 where row2: "bk_txns (books (w_db w2)) i = Some row2" "txn_MerchantID row2 = m"
    using 2 ownD(5) row(1) assms(3) [OF row(1)] unfolding acts_def by metis
  have "acts m w2 w'"
    using s own_status [OF row2] tenant_ok_status books_ok_status acts_good [OF 2]
    by (simp add: acts_def good_def sound_def)
  with 2 show ?thesis by (rule acts_trans)
qed

lemma Reverse_acts:
  assumes "Reverse R E i reason w = (Ok t, w')" and "good w"
    and "\<And>row. bk_txns (books (w_db w)) i = Some row \<Longrightarrow> txn_MerchantID row = m"
  shows "acts m w w'"
proof -
  have w: "wf (w_db w)" "books_ok (books (w_db w))" using assms(2) by (simp_all add: good_def sound_def)
  obtain orig w1 ex w2 where g: "call E (\<lambda>c. repo_GetTransaction R c i) w = (Ok orig, w1)"
    and posted: "txn_Status orig = StatusPosted"
    and ex: "attempt (call E (\<lambda>c. repo_FindReversal R c i)) w1 = (Ok ex, w2)"
    using assms(1) by (auto simp: Reverse_def seq_eq_Ok split: if_splits)
  note a = get_transaction_Ok [OF g w]
  obtain row where row: "bk_txns (books (w_db w)) i = Some row" "orig = row\<lparr>txn_Entries := txn_Entries orig\<rparr>" using a(2) by blast
  have m: "txn_MerchantID orig = m" by (subst row(2)) (simp add: assms(3) [OF row(1)])
  have me: "mirror_entries (txn_Entries orig) = Ok (map mirrored (txn_Entries orig))" by (rule mirror_entries_ok [OF a(3)])
  define spec where "spec = reversal_spec orig reason (map mirrored (txn_Entries orig))"
  have db2: "w_db w2 = w_db w"
    using ex find_reversal [of "w_db w1"] w a(1) by (auto simp: attempt_def call_def split: prod.splits outcome.splits)
  have run: "seq (ret (Spec_Validate spec)) (\<lambda>_. seq (call E (\<lambda>c. repo_LockAccounts R c (AccountIDs spec))) (\<lambda>locked.
      seq (new_id E PrefixTransaction) (\<lambda>k. seq (clock_now E) (\<lambda>now.
      record_transaction R E spec locked (transaction_row spec (txn_ID orig) k now))))) w2 = (Ok t, w')"
    using assms(1) g posted ex by (auto simp: Reverse_def seq_eq_Ok me spec_def [symmetric] Let_def split: if_splits)
  then have v: "Spec_Validate spec = Ok ()" by (cases "Spec_Validate spec") (auto simp: seq_ret_eq)
  note tail = run [unfolded v seq_ret]
  have ty: "typed_spec spec"
    using group_entry(5) [OF a(3)] by (auto simp: typed_spec_def list_all_iff mirrored_def spec_def reversal_spec_def)
  have sp: "spec_ok spec" using v Spec_Validate_spec_ok ty by (simp add: typed_spec_def)
  have w2: "wf (w_db w2)" "books_ok (books (w_db w2))" using w db2 by simp_all
  from locked_posting [OF tail w2 sp ty] obtain k now where p: "wf (w_db w')"
    "posts spec t (books (w_db w)) (books (w_db w'))" "t = (transaction_row spec (txn_ID orig) k now)\<lparr>txn_Entries := txn_Entries t\<rparr>"
    using db2 by auto
  show ?thesis
  proof (rule acts_posts [OF p(2) assms(2)])
    show "sound w'" using p(1) transaction_row_books_ok [OF p(2) sp w(2) p(3)] by (simp add: sound_def)
    show "txn_ID t \<noteq> []" by (rule locked_posting_ID [OF tail])
    show "txn_MerchantID t = m" by (subst p(3)) (simp add: transaction_row_def spec_def reversal_spec_def m)
    show "\<forall>e\<in>set (ts_Entries spec). owned m (books (w_db w)) (es_AccountID e)"
      using mirrored_owned [OF assms(2) row(1) a(6)] assms(3) [OF row(1)] by (simp add: spec_def reversal_spec_def)
  qed
qed

lemma CreateAccount_acts:
  assumes "Service_CreateAccount R E a0 w = (Ok a, w')" and "good w" and "acc_MerchantID a0 = m"
  shows "acts m w w'" and "owned m (books (w_db w')) (acc_ID a)"
proof -
  have w: "wf (w_db w)" "books_ok (books (w_db w))" using assms(2) by (simp_all add: good_def sound_def)
  from CreateAccount_books_ok [OF assms(1) w] obtain at where c: "wf (w_db w')" "books_ok (books (w_db w'))"
    "books (w_db w') = books_create at a (books (w_db w))" and new: "bk_accounts (books (w_db w)) (acc_ID a) = None"
    and m: "acc_MerchantID a = m" using assms(3) by blast
  show "acts m w w'"
    using c own_create [OF new books_okD(2) [OF w(2)] m] tenant_ok_create [OF new] assms(2)
    by (simp add: acts_def good_def sound_def)
  show "owned m (books (w_db w')) (acc_ID a)" by (simp add: c(3) owned_def books_create_def m)
qed

text \<open>The chart of a merchant is made of the merchant's accounts.\<close>

lemma chart_step_acts:
  assumes "(case map_of byName name of Some a \<Rightarrow> ret (Ok a) | None \<Rightarrow> Service_CreateAccount R E (chart_account m cur spec)) w = (Ok a, w')"
    and "good w" and "\<forall>(n, b)\<in>set byName. owned m (books (w_db w)) (acc_ID b)"
  shows "acts m w w' \<and> owned m (books (w_db w')) (acc_ID a) \<and> (\<forall>(n, b)\<in>set byName. owned m (books (w_db w')) (acc_ID b))"
proof (cases "map_of byName name")
  case None
  with assms(1) have c: "Service_CreateAccount R E (chart_account m cur spec) w = (Ok a, w')" by simp
  from CreateAccount_acts [OF c assms(2)] have "acts m w w'" "owned m (books (w_db w')) (acc_ID a)"
    by (simp_all add: chart_account_def)
  then show ?thesis using assms(3) acts_owned by blast
next
  case (Some b)
  then have "a = b" "w' = w" "(name, b) \<in> set byName" using assms(1) by (auto dest: map_of_SomeD)
  then show ?thesis using acts_same [OF assms(2) refl] assms(3) by auto
qed

lemma EnsureChart_acts:
  assumes "EnsureChart R E m cur w = (Ok c, w')" and "good w"
  shows "acts m w w'" and "\<forall>i\<in>{ch_Clearing c, ch_Payable c, ch_FeeRevenue c, ch_Holds c}. owned m (books (w_db w')) i"
proof -
  have wf: "wf (w_db w)" "books_ok (books (w_db w))" using assms(2) by (simp_all add: good_def sound_def)
  define c0 where "c0 = \<lparr>ch_Clearing = [], ch_Payable = [], ch_FeeRevenue = [], ch_Holds = [], ch_Currency = cur\<rparr>"
  obtain as w0 where l: "Service_ListAccounts R E m w = (Ok as, w0)"
    and run: "chart_loop R E m cur (rev (map (\<lambda>a. (acc_Name a, a)) as)) chartSpecs c0 w0 = (Ok c, w')"
    using assms(1) unfolding EnsureChart_def c0_def by (auto simp: seq_eq_Ok simp del: chart_loop.simps split: if_splits)
  define byName where "byName = rev (map (\<lambda>a. (acc_Name a, a)) as)"
  have same: "w_db w0 = w_db w" by (rule ListAccounts_state [OF l])
  have start: "acts m w w0" by (rule acts_same [OF assms(2) same])
  have "\<forall>a\<in>set as. bk_accounts (books (w_db w)) (acc_ID a) = Some a \<and> acc_MerchantID a = m"
    using l list_accounts [OF wf] by (auto simp: Service_ListAccounts_def call_eq_Ok)
  then have names: "\<forall>(n, b)\<in>set byName. owned m (books (w_db w0)) (acc_ID b)"
    by (auto simp: byName_def owned_def same)
  let ?find = "\<lambda>spec. case map_of byName (AccountName (cs_name spec) cur) of Some a \<Rightarrow> ret (Ok a)
     | None \<Rightarrow> Service_CreateAccount R E (chart_account m cur spec)"
  obtain k1 k2 k3 k4 where specs: "chartSpecs = [k1, k2, k3, k4]" and keys: "cs_name k1 = AccountClearing"
    "cs_name k2 = AccountPayable" "cs_name k3 = AccountFeeRevenue" "cs_name k4 = AccountHolds"
    by (simp add: chartSpecs_def)
  have distinct: "AccountClearing \<noteq> AccountPayable" "AccountClearing \<noteq> AccountFeeRevenue" "AccountClearing \<noteq> AccountHolds"
    "AccountPayable \<noteq> AccountFeeRevenue" "AccountPayable \<noteq> AccountHolds" "AccountFeeRevenue \<noteq> AccountHolds"
    by (simp_all add: AccountClearing_def AccountPayable_def AccountFeeRevenue_def AccountHolds_def)
  obtain a1 a2 a3 a4 w1 w2 w3 where
    1: "?find k1 w0 = (Ok a1, w1)" and 2: "?find k2 w1 = (Ok a2, w2)" and
    3: "?find k3 w2 = (Ok a3, w3)" and 4: "?find k4 w3 = (Ok a4, w')" and
    c: "c = \<lparr>ch_Clearing = acc_ID a1, ch_Payable = acc_ID a2, ch_FeeRevenue = acc_ID a3, ch_Holds = acc_ID a4, ch_Currency = cur\<rparr>"
    using run unfolding byName_def [symmetric] c0_def specs
    by (auto simp: seq_eq_Ok set_chart_def keys distinct distinct [symmetric])
  note s1 = chart_step_acts [OF 1 acts_good [OF start] names]
  note s2 = chart_step_acts [OF 2 acts_good [of m w0 w1]]
  note s3 = chart_step_acts [OF 3 acts_good [of m w1 w2]]
  note s4 = chart_step_acts [OF 4 acts_good [of m w2 w3]]
  have r1: "acts m w w1" using s1 start acts_trans by blast
  have r2: "acts m w1 w2" "owned m (books (w_db w2)) (acc_ID a1)" using s1 s2 acts_owned by blast+
  have r3: "acts m w2 w3" "owned m (books (w_db w3)) (acc_ID a1)" "owned m (books (w_db w3)) (acc_ID a2)"
    using s1 s2 s3 r2 acts_owned by blast+
  have r4: "acts m w3 w'" "\<forall>a\<in>{a1, a2, a3, a4}. owned m (books (w_db w')) (acc_ID a)"
    using s1 s2 s3 s4 r3 acts_owned by blast+
  show "acts m w w'" using r1 r2(1) r3(1) r4(1) acts_trans by blast
  show "\<forall>i\<in>{ch_Clearing c, ch_Payable c, ch_FeeRevenue c, ch_Holds c}. owned m (books (w_db w')) i"
    using r4(2) by (simp add: c)
qed

text \<open>The authorization a payment names is a transaction of the merchant, when there is one.\<close>

lemma derive_authorization:
  assumes "derive pid m ts = Ok p" and "pay_AuthorizationID p \<noteq> []"
  shows "\<exists>t\<in>set ts. pay_AuthorizationID p = txn_ID t"
proof -
  have step: "dv_authorize (derive_step t d) = dv_authorize d \<or> dv_authorize (derive_step t d) = Some t" for t d
    by (auto simp: derive_step_def derive_role_def Let_def split: prod.splits)
  have "dv_authorize (fold derive_step xs d) = dv_authorize d \<or> (\<exists>t\<in>set xs. dv_authorize (fold derive_step xs d) = Some t)" for xs d
  proof (induction xs arbitrary: d)
    case (Cons x xs)
    from Cons.IH [of "derive_step x d"] step [of x d] show ?case by auto
  qed simp
  from this [of ts derive_start] show ?thesis
    using assms by (auto simp: derive_def derive_start_def Let_def split: list.splits option.splits)
qed

lemma Get_authorization:
  assumes "Payments_Get R E m pid w = (Ok p, w')" and "good w"
    and "bk_txns (books (w_db w)) (pay_AuthorizationID p) = Some row"
  shows "txn_MerchantID row = m"
proof -
  have wf: "wf (w_db w)" using assms(2) by (simp add: good_def sound_def)
  have ne: "pay_AuthorizationID p \<noteq> []" using assms(2,3) by (auto simp: good_def tenant_ok_def)
  obtain ts where ts: "derive pid m ts = Ok p"
    "\<forall>t\<in>set ts. \<exists>row. bk_txns (books (w_db w)) (txn_ID t) = Some row \<and> txn_MerchantID row = m"
    using assms(1) by_ref [OF wf]
    by (auto simp: Payments_Get_def Service_TransactionsByRef_def seq_eq_Ok call_eq_Ok split: if_splits)
  from derive_authorization [OF ts(1) ne] ts(2) assms(3) show ?thesis by auto
qed

lemma Get_acts: "Payments_Get R E m i w = (Ok p, w') \<Longrightarrow> good w \<Longrightarrow> acts k w w'"
  by (rule acts_same) (auto dest: Get_state)

lemma charge_entries_owned:
  assumes "\<forall>i\<in>{ch_Clearing c, ch_Payable c, ch_FeeRevenue c, ch_Holds c}. owned m B i"
  shows "\<forall>e\<in>set (charge_entries c x y z). owned m B (es_AccountID e)"
    and "\<forall>e\<in>set (refund_entries c x y z). owned m B (es_AccountID e)"
    and "\<forall>e\<in>set (ts_Entries (charge_spec req c fee nt i)). owned m B (es_AccountID e)"
  using assms by (auto simp: charge_entries_def refund_entries_def charge_spec_def Let_def)

lemma Charge_acts:
  assumes "Charge R E svc req w = (Ok p, w')" and "good w" and "in64 (amount (cr_Amount req))"
  shows "acts (cr_MerchantID req) w w'"
proof -
  obtain chart fee nt i t w1 w2 w3 where
    c: "EnsureChart R E (cr_MerchantID req) (currency (cr_Amount req)) w = (Ok chart, w1)"
    and f: "Compute (svc_fees svc) (cr_Amount req) = Ok (fee, nt)" and i: "new_id E PrefixPayment w1 = (Ok i, w2)"
    and p: "Post R E (charge_spec req chart fee nt i) w2 = (Ok t, w3)"
    and g: "Payments_Get R E (cr_MerchantID req) i w3 = (Ok p, w')"
    using assms(1) by (auto simp: Charge_def seq_eq_Ok split: if_splits prod.splits)
  note ec = EnsureChart_acts [OF c assms(2)]
  have 2: "acts (cr_MerchantID req) w1 w2" by (rule acts_same [OF acts_good [OF ec(1)] new_id_db [OF i]])
  have ty: "typed_spec (charge_spec req chart fee nt i)"
    using Compute_in64 [OF f] assms(3) by (auto simp: typed_entries charge_spec_def charge_entries_def Let_def)
  have 3: "acts (cr_MerchantID req) w2 w3"
    by (rule Post_acts [OF p acts_good [OF 2] ty])
      (use charge_entries_owned(3) [OF ec(2)] new_id_db [OF i] in \<open>simp_all add: charge_spec_def Let_def\<close>)
  show ?thesis using ec(1) 2 3 Get_acts [OF g acts_good [OF 3]] acts_trans by blast
qed

lemma Capture_acts:
  assumes "Payments_Capture R E svc m i amt w = (Ok p, w')" and "good w" and "\<And>x. amt = Some x \<Longrightarrow> in64 (amount x)"
  shows "acts m w w'"
proof -
  obtain p0 n chart fee nt v t w1 w2 w3 w4 where
    g: "Payments_Get R E m i w = (Ok p0, w1)" and n: "payment_capture_amount p0 amt = Ok n"
    and c: "EnsureChart R E m (pay_Currency p0) w1 = (Ok chart, w2)" and f: "Compute (svc_fees svc) n = Ok (fee, nt)"
    and v: "Void R E (pay_AuthorizationID p0) w2 = (Ok v, w3)"
    and p: "Post R E (capture_spec m i (pay_AuthorizationID p0) chart n fee nt) w3 = (Ok t, w4)"
    and g': "Payments_Get R E m i w4 = (Ok p, w')"
    using assms(1) by (auto simp: Payments_Capture_def seq_eq_Ok split: if_splits prod.splits)
  have 1: "acts m w w1" by (rule Get_acts [OF g assms(2)])
  note ec = EnsureChart_acts [OF c acts_good [OF 1]]
  have 12: "acts m w w2" using 1 ec(1) by (rule acts_trans)
  have auth: "txn_MerchantID row = m" if "bk_txns (books (w_db w2)) (pay_AuthorizationID p0) = Some row" for row
    using Get_authorization [OF g assms(2)] 12 that ownD(5,6) unfolding acts_def by (metis not_Some_eq option.inject)
  have 3: "acts m w2 w3" by (rule Void_acts [OF v acts_good [OF 12] auth])
  have "in64 (amount n)"
    using n Get_in64 [OF g] assms(3) by (auto simp: payment_capture_amount_def split: option.splits if_splits)
  then have ty: "typed_spec (capture_spec m i (pay_AuthorizationID p0) chart n fee nt)"
    using Compute_in64 [OF f] by (simp add: typed_entries capture_spec_def charge_entries_def)
  have "\<forall>x\<in>{ch_Clearing chart, ch_Payable chart, ch_FeeRevenue chart, ch_Holds chart}. owned m (books (w_db w3)) x"
    using ec(2) acts_owned [OF 3] by blast
  from charge_entries_owned(1) [OF this] have 4: "acts m w3 w4"
    by (intro Post_acts [OF p acts_good [OF 3] ty]) (simp_all add: capture_spec_def)
  show ?thesis using 12 3 4 Get_acts [OF g' acts_good [OF 4]] acts_trans by blast
qed

lemma Cancel_acts:
  assumes "Cancel R E m i w = (Ok p, w')" and "good w"
  shows "acts m w w'"
proof -
  obtain p0 w1 v w2 where g: "Payments_Get R E m i w = (Ok p0, w1)" and v: "Void R E (pay_AuthorizationID p0) w1 = (Ok v, w2)"
    and g': "Payments_Get R E m i w2 = (Ok p, w')"
    using assms(1) by (auto simp: Cancel_def seq_eq_Ok split: if_splits)
  have 1: "acts m w w1" by (rule Get_acts [OF g assms(2)])
  have 2: "acts m w1 w2"
    by (rule Void_acts [OF v acts_good [OF 1]]) (use Get_authorization [OF g assms(2)] Get_state [OF g] in simp)
  show ?thesis using 1 2 Get_acts [OF g' acts_good [OF 2]] acts_trans by blast
qed

lemma Refund_acts:
  assumes "Refund R E svc req w = (Ok p, w')" and "good w" and "\<And>x. rr_Amount req = Some x \<Longrightarrow> in64 (amount x)"
  shows "acts (rr_MerchantID req) w w'"
proof -
  obtain p0 n chart fee rest t w1 w2 w3 where
    g: "Payments_Get R E (rr_MerchantID req) (rr_PaymentID req) w = (Ok p0, w1)"
    and n: "refund_amount p0 (rr_Amount req) = Ok n"
    and c: "EnsureChart R E (rr_MerchantID req) (pay_Currency p0) w1 = (Ok chart, w2)"
    and f: "RefundFee (svc_fees svc) (pay_Amount p0) (pay_Refunded p0) n (svc_refundPercentageFee svc) = Ok fee"
    and r: "Money_Sub n fee = Ok rest"
    and p: "Post R E (refund_spec req chart n rest fee) w2 = (Ok t, w3)"
    and g': "Payments_Get R E (rr_MerchantID req) (rr_PaymentID req) w3 = (Ok p, w')"
    using assms(1) by (auto simp: Refund_def seq_eq_Ok split: if_splits)
  have 1: "acts (rr_MerchantID req) w w1" by (rule Get_acts [OF g assms(2)])
  note ec = EnsureChart_acts [OF c acts_good [OF 1]]
  have ty: "typed_spec (refund_spec req chart n rest fee)"
    using refund_amount_in64 [OF n assms(3)] RefundFee_in64 [OF f] Money_results_in64(2) [OF r]
    by (auto simp: typed_entries refund_spec_def refund_entries_def)
  have 3: "acts (rr_MerchantID req) w2 w3"
    by (rule Post_acts [OF p acts_good [OF ec(1)] ty]) (use charge_entries_owned(2) [OF ec(2)] in \<open>simp_all add: refund_spec_def\<close>)
  show ?thesis using 1 ec(1) 3 Get_acts [OF g' acts_good [OF 3]] acts_trans by blast
qed

end

section \<open>Both stores\<close>

lemma set_sorted [simp]: "set (insertion_sort lt xs) = set xs"
proof -
  have "\<forall>j\<in>set js. j < length ys \<Longrightarrow> mset (fold (sink lt) js ys) = mset ys" for js ys
    by (induction js arbitrary: ys) (simp_all add: mset_sink)
  from this [of "[1..<length xs]" xs] show ?thesis unfolding insertion_sort_def by (intro mset_eq_setD) simp
qed

interpretation mem_tenant: tenant_repository memory_repo books_of store_ok
proof (unfold_locales, goal_cases)
  case (1 s a i r s')
  then show ?case by (auto simp: memory_repo_def Mem_GetAccount_def guarded_def books_of_def split: if_splits option.splits)
next
  case (2 s a m accts s')
  show ?case
  proof
    fix acct
    assume "acct \<in> set accts"
    then have "acct \<in> snd ` set (st_accounts s)" "acc_MerchantID acct = m"
      using 2(3) by (auto simp: memory_repo_def Mem_ListAccounts_def guarded_def sortAccounts_def split: if_splits)
    then obtain i where "map_of (st_accounts s) i = Some acct" using 2(1) by (auto simp: store_ok_def)
    then show "bk_accounts (books_of s) (acc_ID acct) = Some acct \<and> acc_MerchantID acct = m"
      using books_okD(1) [OF 2(2), of i acct] \<open>acc_MerchantID acct = m\<close> by (simp add: books_of_def account_ok_def)
  qed
next
  case (3 s a m ref txns s')
  show ?case
  proof
    fix t
    assume "t \<in> set txns"
    then obtain row where row: "row \<in> snd ` set (st_transactions s)" "txn_MerchantID row = m" "txn_ID t = txn_ID row"
      using 3(2) by (force simp: memory_repo_def Mem_TransactionsByRef_def guarded_def sortTransactions_def with_entries_def split: if_splits)
    then obtain i where "map_of (st_transactions s) i = Some row" using 3(1) by (auto simp: store_ok_def)
    moreover from this have "txn_ID row = i" using 3(1) by (simp add: store_ok_def)
    ultimately show "\<exists>row. bk_txns (books_of s) (txn_ID t) = Some row \<and> txn_MerchantID row = m"
      using row by (auto simp: books_of_def)
  qed
next
  case (4 a i s r s')
  then show ?case by (auto simp: memory_repo_def Mem_GetTransaction_def guarded_def split: if_splits option.splits)
next
  case (5 a i s r s')
  then show ?case by (auto simp: memory_repo_def Mem_GetBalance_def guarded_def split: if_splits option.splits)
next
  case (6 a i p s r s')
  then show ?case
    by (auto simp: memory_repo_def Mem_ListEntries_def guarded_def Let_def seq_def ret_def split: if_splits option.splits outcome.splits prod.splits)
qed

lemma entries_state: "Pg_EntriesByTransaction c i db = (r, db') \<Longrightarrow> db' = db"
  unfolding Pg_EntriesByTransaction_def rows_of_def EntriesByTransaction_def
  by (erule seq_state) (auto dest: select_state)

interpretation pg_tenant: tenant_repository postgres_repo pg_books pg_ok
proof (unfold_locales, goal_cases)
  case (1 s a i r s')
  then show ?case
    by (auto simp: postgres_repo_def Pg_GetAccount_def GetAccount_def query_def select_def seq_def ret_def pg_books_def account_row_def
        split: if_splits option.splits dest: accountFromRow_Ok)
next
  case (2 s a m accts s')
  then obtain rows where rows: "set rows \<subseteq> {r \<in> set (ld_accounts s). ar_MerchantID r = m}" "list_all2 (\<lambda>r x. accountFromRow r = Ok x) rows accts"
    by (intro that [of "sort_key ar_ID (filter (\<lambda>r. ar_MerchantID r = m) (ld_accounts s))"])
      (auto simp: postgres_repo_def Pg_ListAccounts_def ListAccounts_def seq_eq_Ok query_eq_Ok select_def map_outcome_list_Ok)
  show ?case
  proof
    fix acct
    assume "acct \<in> set accts"
    then obtain k where k: "k < length accts" "acct = accts ! k" by (auto simp: in_set_conv_nth)
    define r where "r = rows ! k"
    have r: "r \<in> set rows" "accountFromRow r = Ok acct"
      using rows(2) k by (simp_all add: r_def list_all2_conv_all_nth)
    then have "List.find (\<lambda>x. ar_ID x = ar_ID r) (ld_accounts s) = Some r"
      using rows(1) 2(1) by (intro find_key_Some) (auto simp: pg_ok_def)
    then show "bk_accounts (pg_books s) (acc_ID acct) = Some acct \<and> acc_MerchantID acct = m"
      using accountFromRow_Ok [OF r(2)] r(1) rows(1) by (auto simp: pg_books_def account_row_def account_of_def)
  qed
next
  case (3 s a m ref txns s')
  then obtain rows where rows: "set rows \<subseteq> {r \<in> set (ld_transactions s). tr_MerchantID r = m}" "each_with_entries a rows s = (Ok txns, s')"
    by (intro that [of "sort_key tr_CreatedAt (sort_key tr_ID (filter (\<lambda>r. tr_MerchantID r = m \<and> nullString ref \<noteq> None
          \<and> tr_ExternalRef r = nullString ref) (ld_transactions s)))"])
      (auto simp: postgres_repo_def Pg_TransactionsByRef_def TransactionsByRef_def seq_eq_Ok query_eq_Ok select_def)
  have "\<exists>r\<in>set rows. txn_ID t = tr_ID r \<and> txn_MerchantID t = tr_MerchantID r" if "t \<in> set txns" for t
    using rows(2) that
  proof (induction rows arbitrary: txns s)
    case (Cons row rows)
    then obtain t0 ts s1 where t: "with_its_entries a row s = (Ok t0, s1)" "each_with_entries a rows s1 = (Ok ts, s')" "txns = t0 # ts"
      by (auto simp: seq_eq_Ok)
    have "txn_ID t0 = tr_ID row" "txn_MerchantID t0 = tr_MerchantID row"
      using t(1) by (auto simp: with_its_entries_def seq_eq_Ok transaction_of_def dest!: transactionFromRow_Ok)
    then show ?case using Cons t by auto
  qed simp
  note found = this
  show ?case
  proof
    fix t
    assume "t \<in> set txns"
    from found [OF this] obtain r where r: "r \<in> set rows" "txn_ID t = tr_ID r" by blast
    have "List.find (\<lambda>x. tr_ID x = tr_ID r) (ld_transactions s) = Some r"
      using rows(1) r(1) 3(1) by (intro find_key_Some) (auto simp: pg_ok_def)
    then show "\<exists>row. bk_txns (pg_books s) (txn_ID t) = Some row \<and> txn_MerchantID row = m"
      using r rows(1) by (auto simp: pg_books_def transaction_row_of_def transaction_of_def)
  qed
next
  case (4 a i s r s')
  show ?case
    using 4 entries_state unfolding postgres_repo_def Pg_GetTransaction_def GetTransaction_def
    by (auto elim!: seq_state dest: select_state split: option.splits)
next
  case (5 a i s r s')
  then show ?case
    by (auto simp: postgres_repo_def Pg_GetBalance_def GetBalance_def or_missing_def elim!: seq_state dest: select_state split: option.splits)
next
  case (6 a i p s r s')
  then show ?case
    by (auto simp: postgres_repo_def Pg_ListEntries_def ListEntries_def rows_of_def Let_def elim!: seq_state dest: select_state split: if_splits)
qed

end
