(* ===== verification/Http_Laws.thy ===== *)
theory Http_Laws
  imports Http_Server Tenancy
begin

text \<open>
  What the API promises as a whole: a request acts only on the books of the merchant whose key it
  carries. Inside the contract \<open>tenant_repository\<close> each combinator of the handlers is shown to act for one merchant
  if its parts do; the theorem for the server over the database follows by interpretation.
\<close>

section \<open>Steps that do not touch the ledger\<close>

lemma view_on_ledger: "on_ledger f w = (r, w') \<Longrightarrow> f (ledger_view w) = (r, ledger_view w')"
  by (auto simp: on_ledger_def ledger_view_def split: prod.splits)

lemma view_keys: "call E (on_keys f) w = (r, w') \<Longrightarrow> w_db (ledger_view w') = w_db (ledger_view w)"
  by (auto simp: call_def on_keys_def ledger_view_def split: prod.splits)

lemma view_api_keys: "call E (on_api_keys f) w = (r, w') \<Longrightarrow> w_db (ledger_view w') = w_db (ledger_view w)"
  by (auto simp: call_def on_api_keys_def ledger_view_def split: prod.splits)

lemma view_db: "w_db w' = w_db w \<Longrightarrow> w_db (ledger_view w') = w_db (ledger_view w)"
  by (simp add: ledger_view_def)

section \<open>Acting for everybody\<close>

lemma own_all:
  assumes "\<And>k. own k B B'"
  shows "bk_accounts B' = bk_accounts B" and "bk_txns B' = bk_txns B" and "bk_log B' = bk_log B"
proof -
  have "bk_accounts B' i = Some a \<Longrightarrow> bk_accounts B i = Some a" for i a
    using ownD(2) [OF assms [of "CHR ''x'' # acc_MerchantID a"], of i a] by auto
  then show acc: "bk_accounts B' = bk_accounts B"
    using ownD(1) [OF assms] by (intro ext) (metis not_None_eq)
  have "bk_txns B' i = Some t \<Longrightarrow> bk_txns B i \<noteq> None" for i t
    using ownD(6) [OF assms [of "CHR ''x'' # txn_MerchantID t"], of i t] by auto
  moreover have "bk_txns B i = Some t \<Longrightarrow> bk_txns B' i = Some t" for i t
    using ownD(5) [OF assms [of "CHR ''x'' # txn_MerchantID t"], of i t] by auto
  ultimately show "bk_txns B' = bk_txns B" by (intro ext) (metis not_None_eq option.inject)
  obtain es where es: "bk_log B' = bk_log B @ es" "\<forall>e\<in>set es. owned [] B' (ent_AccountID e)" using ownD(4) [OF assms] by blast
  obtain fs where fs: "bk_log B' = bk_log B @ fs" "\<forall>e\<in>set fs. owned ''x'' B' (ent_AccountID e)" using ownD(4) [OF assms] by blast
  have "es = []" using es fs by (cases es) (auto simp: owned_def)
  then show "bk_log B' = bk_log B" using es by simp
qed

section \<open>What the decoders promise\<close>

text \<open>An amount that was decoded into an \<^verbatim>\<open>int64\<close> fits one.\<close>

definition typed_decoders :: "decoders \<Rightarrow> bool" where
  "typed_decoders D \<longleftrightarrow>
     (\<forall>b v x. de_transfer D b = Decoded v x \<longrightarrow> list_all (\<lambda>e. in64 (te_Amount e)) (ct_Entries v))
     \<and> (\<forall>b v x. de_payment D b = Decoded v x \<longrightarrow> in64 (cp_Amount v))
     \<and> (\<forall>b v x n. de_capture D b = Decoded v x \<longrightarrow> pc_Amount v = Some n \<longrightarrow> in64 n)
     \<and> (\<forall>b v x n. de_refund D b = Decoded v x \<longrightarrow> cf_Amount v = Some n \<longrightarrow> in64 n)"

lemma decodeJSON_Inr: "decodeJSON ct d = Inr v \<Longrightarrow> \<exists>x. d = Decoded v x"
  by (auto simp: decodeJSON_def split: if_splits decoded.splits)

lemma typed_requests:
  assumes "typed_decoders D"
  shows "decodeJSON ct (de_transfer D b) = Inr t \<Longrightarrow> list_all (\<lambda>e. in64 (te_Amount e)) (ct_Entries t)"
    and "decodeJSON ct (de_payment D b) = Inr p \<Longrightarrow> in64 (cp_Amount p)"
    and "decodeJSON ct (de_capture D b) = Inr c \<Longrightarrow> pc_Amount c = Some n \<Longrightarrow> in64 n"
    and "decodeJSON ct (de_refund D b) = Inr f \<Longrightarrow> cf_Amount f = Some n \<Longrightarrow> in64 n"
proof -
  note laws = assms [unfolded typed_decoders_def]
  show "list_all (\<lambda>e. in64 (te_Amount e)) (ct_Entries t)" if "decodeJSON ct (de_transfer D b) = Inr t"
    using decodeJSON_Inr [OF that] laws by blast
  show "in64 (cp_Amount p)" if "decodeJSON ct (de_payment D b) = Inr p"
    using decodeJSON_Inr [OF that] laws by blast
  show "in64 n" if "decodeJSON ct (de_capture D b) = Inr c" "pc_Amount c = Some n"
    using decodeJSON_Inr [OF that(1)] that(2) laws by blast
  show "in64 n" if "decodeJSON ct (de_refund D b) = Inr f" "cf_Amount f = Some n"
    using decodeJSON_Inr [OF that(1)] that(2) laws by blast
qed

lemma transfer_entries_typed:
  "transfer_entries i cur es = Ok (Inr specs) \<Longrightarrow> list_all (\<lambda>e. in64 (te_Amount e)) es \<Longrightarrow>
    list_all (\<lambda>e. in64 (amount (es_Amount e))) specs"
proof (induction i cur es arbitrary: specs rule: transfer_entries.induct)
  case (2 i cur e es)
  then obtain amt others where "Money_New (te_Amount e) cur = Ok amt" "transfer_entries (Suc i) cur es = Ok others"
    "(case others of Inl flt \<Rightarrow> Ok (Inl flt) | Inr specs \<Rightarrow>
        Ok (Inr (\<lparr>es_AccountID = te_AccountID e, es_Direction = te_Direction e, es_Amount = amt\<rparr> # specs))) = Ok (Inr specs)"
    and d: "Direction_Valid (te_Direction e)"
    by (auto split: if_splits)
  then show ?case using 2 by (cases others) (auto simp: Money_New_def split: if_splits)
qed simp

section \<open>Acting for a merchant\<close>

context tenant_repository
begin

definition acting :: "string \<Rightarrow> ('s server_db world \<Rightarrow> bool) \<Rightarrow> ('s server_db world, 'a) opr \<Rightarrow> bool" where
  "acting m P f \<longleftrightarrow> (\<forall>w r w'. good (ledger_view w) \<longrightarrow> P w \<longrightarrow> f w = (r, w') \<longrightarrow> acts m (ledger_view w) (ledger_view w'))"

abbreviation always :: "'s server_db world \<Rightarrow> bool" where
  "always \<equiv> (\<lambda>w. True)"

text \<open>Only an operation that succeeds has to act for the merchant; a transaction around it takes the rest back.\<close>

definition acting_Ok :: "string \<Rightarrow> ('s server_db world \<Rightarrow> bool) \<Rightarrow> ('s server_db world, 'a) opr \<Rightarrow> bool" where
  "acting_Ok m P f \<longleftrightarrow> (\<forall>w x w'. good (ledger_view w) \<longrightarrow> P w \<longrightarrow> f w = (Ok x, w') \<longrightarrow> acts m (ledger_view w) (ledger_view w'))"

lemma actingI:
  "(\<And>w r w'. good (ledger_view w) \<Longrightarrow> P w \<Longrightarrow> f w = (r, w') \<Longrightarrow> acts m (ledger_view w) (ledger_view w')) \<Longrightarrow> acting m P f"
  by (simp add: acting_def)

lemma actingD: "acting m P f \<Longrightarrow> good (ledger_view w) \<Longrightarrow> P w \<Longrightarrow> f w = (r, w') \<Longrightarrow> acts m (ledger_view w) (ledger_view w')"
  by (simp add: acting_def)

lemma acting_weaken: "acting m always f \<Longrightarrow> acting m P f"
  by (simp add: acting_def)

lemma acting_still: "(\<And>w r w'. f w = (r, w') \<Longrightarrow> w_db (ledger_view w') = w_db (ledger_view w)) \<Longrightarrow> acting m P f"
  by (rule actingI, rule acts_same, assumption, blast)

lemma acting_ret: "acting m P (ret r)"
  by (rule acting_still) simp

lemma acting_call: "acting m P (call E (on_keys f))"
  by (rule acting_still) (rule view_keys)

lemma acting_clock: "acting m P (clock_now E)"
  by (rule acting_still) (auto simp: clock_now_def ledger_view_def)

lemma acting_id: "acting m P (new_id E p)"
  by (rule acting_still) (rule view_db, erule new_id_db)

lemmas acting_basics = acting_ret acting_call acting_clock acting_id

lemma acting_seq:
  assumes "acting m P f" and "\<And>x. acting m (\<lambda>w'. \<exists>w. good (ledger_view w) \<and> P w \<and> f w = (Ok x, w')) (g x)"
  shows "acting m P (seq f g)"
proof (rule actingI)
  fix w r w'
  assume w: "good (ledger_view w)" "P w" "seq f g w = (r, w')"
  obtain r1 w1 where f: "f w = (r1, w1)" by (cases "f w")
  note a = actingD [OF assms(1) w(1,2) f]
  show "acts m (ledger_view w) (ledger_view w')"
  proof (cases r1)
    case (Ok x)
    then have "g x w1 = (r, w')" using w(3) f by (simp add: seq_def)
    with actingD [OF assms(2) [of x] acts_good [OF a], of r w'] w(1,2) f Ok have "acts m (ledger_view w1) (ledger_view w')" by blast
    with a show ?thesis by (rule acts_trans)
  qed (use w(3) f a in \<open>auto simp: seq_def\<close>)
qed

lemma acting_seq': "acting m P f \<Longrightarrow> (\<And>x. acting m always (g x)) \<Longrightarrow> acting m P (seq f g)"
  by (rule acting_seq) (auto intro: acting_weaken)

lemma acting_proceed:
  assumes "acting m P f" and "\<And>x. acting m (\<lambda>w'. \<exists>w. good (ledger_view w) \<and> P w \<and> f w = (Ok (Inr x), w')) (g x)"
  shows "acting m P (proceed wr f g)"
proof (rule actingI)
  fix w r w'
  assume w: "good (ledger_view w)" "P w" "proceed wr f g w = (r, w')"
  obtain r1 w1 where f: "f w = (r1, w1)" by (cases "f w")
  note a = actingD [OF assms(1) w(1,2) f]
  show "acts m (ledger_view w) (ledger_view w')"
  proof (cases "\<exists>x. r1 = Ok (Inr x)")
    case True
    then obtain x where r1: "r1 = Ok (Inr x)" by blast
    then have "g x w1 = (r, w')" using w(3) f by (simp add: proceed_def)
    with actingD [OF assms(2) [of x] acts_good [OF a], of r w'] w(1,2) f r1 have "acts m (ledger_view w1) (ledger_view w')" by blast
    with a show ?thesis by (rule acts_trans)
  next
    case False
    then have "w' = w1" using w(3) f by (auto simp: proceed_def split: outcome.splits sum.splits)
    with a show ?thesis by simp
  qed
qed

lemma acting_proceed': "acting m P f \<Longrightarrow> (\<And>x. acting m always (g x)) \<Longrightarrow> acting m P (proceed wr f g)"
  by (rule acting_proceed) (auto intro: acting_weaken)

lemma acting_orWrite: "acting m P f \<Longrightarrow> (\<And>x. acting m always (g x)) \<Longrightarrow> acting m P (orWrite wr f g)"
proof (rule actingI)
  fix w r w'
  assume *: "acting m P f" "\<And>x. acting m always (g x)" "good (ledger_view w)" "P w" "orWrite wr f g w = (r, w')"
  obtain r1 w1 where f: "f w = (r1, w1)" by (cases "f w")
  note a = actingD [OF *(1,3,4) f]
  have "acts m (ledger_view w1) (ledger_view w')"
  proof (cases r1)
    case (Ok x)
    then have "g x w1 = (r, w')" using *(5) f by (simp add: orWrite_def)
    with actingD [OF *(2) acts_good [OF a]] show ?thesis by simp
  qed (use *(5) f acts_same [OF acts_good [OF a]] in \<open>auto simp: orWrite_def\<close>)
  with a show "acts m (ledger_view w) (ledger_view w')" by (rule acts_trans)
qed

lemma acting_attempt: "acting m P f \<Longrightarrow> acting m P (attempt f)"
  by (auto simp: acting_def attempt_def split: prod.splits outcome.splits)

lemma acting_fine: "acting m P f \<Longrightarrow> acting m P (fine f)"
  unfolding fine_def by (intro acting_seq' acting_basics)

lemma acting_checked: "acting m P (checked r)"
  unfolding checked_def by (rule acting_basics)

lemma acting_InTx: "acting_Ok m P f \<Longrightarrow> acting m P (InTx f)"
  unfolding acting_def acting_Ok_def InTx_def
  by (auto split: prod.splits outcome.splits intro: acts_same simp: ledger_view_def)

lemma acting_Ok_seq:
  assumes "acting_Ok m P f" and "\<And>x. acting_Ok m (\<lambda>w'. \<exists>w. good (ledger_view w) \<and> P w \<and> f w = (Ok x, w')) (g x)"
  shows "acting_Ok m P (seq f g)"
  unfolding acting_Ok_def
proof (intro allI impI)
  fix w x w'
  assume w: "good (ledger_view w)" "P w" "seq f g w = (Ok x, w')"
  then obtain y w1 where f: "f w = (Ok y, w1)" "g y w1 = (Ok x, w')" by (auto simp: seq_eq_Ok)
  then have a: "acts m (ledger_view w) (ledger_view w1)" using assms(1) w(1,2) by (auto simp: acting_Ok_def)
  have "acts m (ledger_view w1) (ledger_view w')"
    using assms(2) [of y] acts_good [OF a] w(1,2) f unfolding acting_Ok_def by blast
  with a show "acts m (ledger_view w) (ledger_view w')" by (rule acts_trans)
qed

lemma acting_acting_Ok: "acting m always f \<Longrightarrow> acting_Ok m P f"
  by (auto simp: acting_def acting_Ok_def)

lemma acting_Ok_ledger:
  "(\<And>w x w'. good w \<Longrightarrow> P w \<Longrightarrow> f w = (Ok x, w') \<Longrightarrow> acts m w w') \<Longrightarrow> acting_Ok m (\<lambda>w. P (ledger_view w)) (on_ledger f)"
  unfolding acting_Ok_def by (auto dest!: view_on_ledger)

lemma acting_Ok_weaken: "acting_Ok m Q f \<Longrightarrow> (\<And>w. P w \<Longrightarrow> Q w) \<Longrightarrow> acting_Ok m P f"
  by (auto simp: acting_Ok_def)

lemma acting_finish: "acting m P (finish E r c d)"
  unfolding finish_def Let_def
  by (auto intro!: acting_seq' acting_attempt acting_basics split: if_splits)

lemma acting_run_held: "(\<And>r. acting m always (h r)) \<Longrightarrow> acting m P (run_held E h r)"
  unfolding run_held_def
  by (rule acting_seq' [OF acting_weaken]) (auto intro!: acting_seq' acting_finish acting_basics split: prod.splits)

lemma acting_Acquire: "acting m P (Idem_Acquire E r)"
  unfolding Idem_Acquire_def by (intro acting_seq' acting_basics) (auto intro!: acting_seq' acting_basics split: option.splits)

lemma acting_Handler:
  assumes "\<And>r. acting m always (h r)"
  shows "acting m P (Handler E L wr h req)"
  unfolding Handler_def
  by (auto intro!: acting_orWrite acting_basics acting_Acquire acting_run_held assms split: option.splits decision.splits)

lemma acting_money_handler:
  assumes "acting_Ok m P operation"
  shows "acting m P (money_handler E wr status operation r)"
proof -
  define T where "T = seq operation (\<lambda>(body, resourceID). seq (Complete E (Some r) status body resourceID) (\<lambda>_. ret (Ok body)))"
  have "acting_Ok m P T" unfolding T_def
    by (rule acting_Ok_seq [OF assms])
      (auto intro!: acting_acting_Ok acting_seq' acting_basics simp: Complete_def split: prod.splits)
  note tx = acting_InTx [OF this]
  show ?thesis
  proof (rule actingI)
    fix w x w'
    assume w: "good (ledger_view w)" "P w" "money_handler E wr status operation r w = (x, w')"
    obtain y w1 where i: "InTx T w = (y, w1)" by (cases "InTx T w")
    have "w' = w1" using w(3) unfolding money_handler_def T_def [symmetric] i by (cases y) auto
    with actingD [OF tx w(1,2) i] show "acts m (ledger_view w) (ledger_view w')" by simp
  qed
qed

lemma acting_if: "(b \<Longrightarrow> acting m P f) \<Longrightarrow> (\<not> b \<Longrightarrow> acting m P g) \<Longrightarrow> acting m P (if b then f else g)"
  by simp

lemma acting_checked_step: "(\<And>x. r = Inr x \<Longrightarrow> acting m P (g x)) \<Longrightarrow> acting m P (proceed wr (checked r) g)"
  by (cases r) (auto simp: acting_def proceed_def checked_def intro: acts_same)

lemma acting_pure_step: "(\<And>x. r = Ok (Inr x) \<Longrightarrow> acting m P (g x)) \<Longrightarrow> acting m P (proceed wr (ret r) g)"
  by (auto simp: acting_def proceed_def intro: acts_same split: outcome.splits sum.splits)

lemma acting_fine_step: "(\<And>x. r = Ok x \<Longrightarrow> acting m P (g x)) \<Longrightarrow> acting m P (proceed wr (fine (ret r)) g)"
  by (cases r) (auto simp: acting_def proceed_def fine_def intro: acts_same)

section \<open>Reading\<close>

lemma acting_reads:
  assumes "\<And>w r w'. good w \<Longrightarrow> f w = (r, w') \<Longrightarrow> w_db w' = w_db w"
  shows "acting m P (on_ledger f)"
  by (rule actingI) (metis acts_same assms view_on_ledger)

lemma call_still: "(\<And>a s r s'. wf s \<Longrightarrow> f a s = (r, s') \<Longrightarrow> s' = s) \<Longrightarrow> good w \<Longrightarrow> call E f w = (r, w') \<Longrightarrow> w_db w' = w_db w"
  by (auto simp: call_def good_def sound_def split: prod.splits)

lemma acting_GetAccount: "acting m P (on_ledger (Service_GetAccount R E i))"
  unfolding Service_GetAccount_def by (rule acting_reads, erule call_still [rotated]) (use get_account in blast)+

lemma acting_Balance: "acting m P (on_ledger (Service_Balance R E i))"
  unfolding Service_Balance_def by (rule acting_reads, erule call_still [rotated]) (use get_balance_state in blast)+

lemma acting_GetTransaction: "acting m P (on_ledger (Service_GetTransaction R E i))"
  unfolding Service_GetTransaction_def by (rule acting_reads, erule call_still [rotated]) (use get_txn_state in blast)+

lemma acting_ListAccounts: "acting m P (on_ledger (Service_ListAccounts R E k))"
  unfolding Service_ListAccounts_def by (rule acting_reads, erule call_still [rotated]) (use list_accounts_state in blast)+

lemma seq_still:
  assumes "\<And>r v. f w = (r, v) \<Longrightarrow> w_db v = w_db w" and "\<And>x v r w'. f w = (Ok x, v) \<Longrightarrow> g x v = (r, w') \<Longrightarrow> w_db w' = w_db v"
    and "seq f g w = (r, w')"
  shows "w_db w' = w_db w"
proof -
  obtain x v where f: "f w = (x, v)" by (cases "f w")
  show ?thesis
  proof (cases x)
    case (Ok y)
    then have "g y v = (r, w')" using assms(3) f by (simp add: seq_def)
    then show ?thesis using assms(1,2) f Ok by metis
  qed (use assms(1,3) f in \<open>auto simp: seq_def\<close>)
qed

lemma good_db: "good w \<Longrightarrow> w_db w' = w_db w \<Longrightarrow> good w'"
  by (simp add: good_def sound_def)

lemma acting_ListEntries: "acting m P (on_ledger (Service_ListEntries R E i p))"
proof (rule acting_reads)
  fix w r w'
  assume w: "good w" "Service_ListEntries R E i p w = (r, w')"
  have 1: "w_db v = w_db w" if "call E (\<lambda>c. repo_GetAccount R c i) w = (x, v)" for x v
    by (rule call_still [OF _ w(1) that]) (use get_account in blast)
  have 2: "w_db v' = w_db v" if "call E (\<lambda>c. repo_ListEntries R c i (Page_Normalize p)) v = (x, v')" "good v" for x v v'
    by (rule call_still [OF _ that(2,1)]) (use list_entries_state in blast)
  show "w_db w' = w_db w"
    using w(2) unfolding Service_ListEntries_def by (rule seq_still [rotated 2]) (use 1 2 good_db [OF w(1)] in blast)+
qed

lemma acting_PaymentsGet: "acting m P (on_ledger (Payments_Get R E k i))"
proof (rule acting_reads)
  fix w r w'
  assume w: "good w" "Payments_Get R E k i w = (r, w')"
  have 1: "w_db v = w_db w" if "Service_TransactionsByRef R E k i w = (x, v)" for x v
    by (rule call_still [OF _ w(1) that [unfolded Service_TransactionsByRef_def]]) (use by_ref_state in blast)
  show "w_db w' = w_db w"
    using w(2) 1 by (auto simp: Payments_Get_def seq_def split: prod.splits outcome.splits if_splits)
qed

section \<open>Handlers\<close>

lemma acting_own_transaction:
  assumes "sv_ledger S = R"
  shows "acting m P (own_transaction S E auth i)"
  unfolding own_transaction_def assms by (intro acting_seq' acting_GetTransaction acting_ret)

lemma own_transaction_owned:
  assumes "own_transaction S E auth i w = (Ok t, w')" and "sv_ledger S = R" and "good (ledger_view w)"
  shows "w_db (ledger_view w') = w_db (ledger_view w)"
    and "bk_txns (books (w_db (ledger_view w'))) i = Some row \<Longrightarrow> txn_MerchantID row = merchant_of auth"
proof -
  have g: "Service_GetTransaction R E i (ledger_view w) = (Ok t, ledger_view w')" and m: "txn_MerchantID t = merchant_of auth"
    using assms(1,2) by (auto simp: own_transaction_def seq_eq_Ok split: if_splits dest!: view_on_ledger)
  have w: "wf (w_db (ledger_view w))" "books_ok (books (w_db (ledger_view w)))" using assms(3) by (simp_all add: good_def sound_def)
  note t = get_transaction_Ok [OF g [unfolded Service_GetTransaction_def] w]
  show same: "w_db (ledger_view w') = w_db (ledger_view w)" by (rule t(1))
  obtain row' where r: "bk_txns (books (w_db (ledger_view w))) i = Some row'" "t = row'\<lparr>txn_Entries := txn_Entries t\<rparr>"
    using t(2) by blast
  have "txn_MerchantID t = txn_MerchantID row'" by (subst r(2)) simp
  then show "bk_txns (books (w_db (ledger_view w'))) i = Some row \<Longrightarrow> txn_MerchantID row = merchant_of auth"
    using r(1) m same by simp
qed

lemma acting_assert:
  assumes "sv_ledger S = R"
  shows "acting m P (assert_each S E k seen es)"
proof (induction es arbitrary: seen P)
  case (Cons e es)
  show ?case unfolding assert_each.simps assms by (intro acting_if acting_seq acting_GetAccount acting_ret Cons.IH)
qed (simp add: acting_ret)

lemma assert_owned:
  assumes "assert_each S E m seen es w = (Ok u, w')" and "sv_ledger S = R" and "good (ledger_view w)"
  shows "w_db (ledger_view w') = w_db (ledger_view w)
    \<and> (\<forall>e\<in>set es. es_AccountID e \<in> set seen \<or> owned m (books (w_db (ledger_view w))) (es_AccountID e))"
  using assms
proof (induction es arbitrary: seen w)
  case (Cons e es)
  show ?case
  proof (cases "es_AccountID e \<in> set seen")
    case True
    then show ?thesis using Cons by simp
  next
    case False
    then obtain a w1 where a: "on_ledger (Service_GetAccount R E (es_AccountID e)) w = (Ok a, w1)" "acc_MerchantID a = m"
      "assert_each S E m (es_AccountID e # seen) es w1 = (Ok u, w')"
      using Cons.prems(1,2) by (auto simp: seq_eq_Ok split: if_splits)
    have g: "Service_GetAccount R E (es_AccountID e) (ledger_view w) = (Ok a, ledger_view w1)" by (rule view_on_ledger [OF a(1)])
    have wf: "wf (w_db (ledger_view w))" using Cons.prems(3) by (simp add: good_def sound_def)
    have acc: "w_db (ledger_view w1) = w_db (ledger_view w)" "owned m (books (w_db (ledger_view w))) (es_AccountID e)"
      using g a(2) get_account [OF wf] by (auto simp: Service_GetAccount_def call_eq_Ok owned_def)
    with Cons.IH [OF a(3) Cons.prems(2) good_db [OF Cons.prems(3)]] show ?thesis by auto
  qed
qed simp

lemma acting_Ok_recorded: "acting_Ok m P (recorded v marshal i)"
  unfolding recorded_def by (rule acting_acting_Ok [OF acting_ret])

lemma acting_handleCreateTransfer:
  assumes "sv_ledger S = R" and "typed_decoders (sv_decode S)" and "merchant_of auth = m"
  shows "acting m P (handleCreateTransfer S E rid auth r rec)"
  unfolding handleCreateTransfer_def Let_def assms(3)
proof (intro acting_checked_step)
  fix req
  assume "decodeJSON (rq_ContentType r) (de_transfer (sv_decode S) (rq_Body r, False)) = Inr req"
  then have typed: "list_all (\<lambda>e. in64 (te_Amount e)) (ct_Entries req)"
    by (rule typed_requests(1) [OF assms(2)])
  have "acting m P (proceed wr (fine (assertAccountsBelongTo S E m entries)) (\<lambda>_. money_handler E we 201
      (seq (on_ledger (Post (sv_ledger S) E \<lparr>ts_MerchantID = m, ts_Description = d, ts_ExternalRef = x, ts_Entries = entries,
         ts_Pending = p, ts_Metadata = md\<rparr>)) (\<lambda>txn. recorded (v txn) marshal (txn_ID txn))) rec))"
    if e: "transfer_entries 0 cur (ct_Entries req) = Ok (Inr entries)" for cur entries wr we d x p md v marshal
  proof (rule acting_proceed [OF acting_fine])
    show "acting m P (assertAccountsBelongTo S E m entries)"
      unfolding assertAccountsBelongTo_def by (rule acting_assert [OF assms(1)])
    let ?Q = "\<lambda>v. \<forall>e\<in>set entries. owned m (books (w_db v)) (es_AccountID e)"
    have ty: "typed_spec \<lparr>ts_MerchantID = m, ts_Description = d, ts_ExternalRef = x, ts_Entries = entries, ts_Pending = p, ts_Metadata = md\<rparr>"
      using transfer_entries_typed [OF e typed] by (simp add: typed_spec_def)
    have post: "acting_Ok m (\<lambda>w. ?Q (ledger_view w)) (on_ledger (Post R E \<lparr>ts_MerchantID = m, ts_Description = d, ts_ExternalRef = x,
        ts_Entries = entries, ts_Pending = p, ts_Metadata = md\<rparr>))"
      by (rule acting_Ok_ledger) (erule (1) Post_acts [OF _ _ ty]; simp)
    have "?Q (ledger_view w')" if a: "good (ledger_view w)" "fine (assertAccountsBelongTo S E m entries) w = (Ok (Inr u), w')" for w w' u
    proof -
      have "assert_each S E m [] entries w = (Ok u, w')" using a(2) by (auto simp: fine_def assertAccountsBelongTo_def seq_eq_Ok)
      from assert_owned [OF this assms(1) a(1)] show ?thesis by simp
    qed
    then show "acting m (\<lambda>w'. \<exists>w. good (ledger_view w) \<and> P w \<and> fine (assertAccountsBelongTo S E m entries) w = (Ok (Inr u), w'))
        (money_handler E we 201 (seq (on_ledger (Post (sv_ledger S) E \<lparr>ts_MerchantID = m, ts_Description = d, ts_ExternalRef = x,
          ts_Entries = entries, ts_Pending = p, ts_Metadata = md\<rparr>)) (\<lambda>txn. recorded (v txn) marshal (txn_ID txn))) rec)" for u
      unfolding assms(1) by (intro acting_money_handler acting_Ok_seq acting_Ok_recorded acting_Ok_weaken [OF post]) blast
  qed
  then show "acting m P (if ct_Entries req = [] then ret (Ok (captured (sv_http S) rid (Api (toAPIError (hl_text (sv_http S)) (Domain ErrNoEntries)))))
     else proceed (captured (sv_http S) rid) (fine (ret (ParseCurrency (ct_Currency req)))) (\<lambda>cur.
       proceed (captured (sv_http S) rid) (ret (transfer_entries 0 cur (ct_Entries req))) (\<lambda>entries.
       proceed (captured (sv_http S) rid) (fine (assertAccountsBelongTo S E m entries)) (\<lambda>_.
         money_handler E (\<lambda>e. writeError (sv_http S) rid (Domain e)) 201
           (seq (on_ledger (Post (sv_ledger S) E \<lparr>ts_MerchantID = m, ts_Description = ct_Description req,
               ts_ExternalRef = ct_ExternalRef req, ts_Entries = entries, ts_Pending = ct_Pending req, ts_Metadata = ct_Metadata req\<rparr>)) (\<lambda>txn.
            recorded (Ok (newTransactionResponse (sv_http S) txn)) (en_transaction (sv_encode S)) (txn_ID txn))) rec))))"
    by (auto intro!: acting_ret acting_fine_step acting_pure_step)
qed

lemma acting_handleReverseTransaction:
  assumes "sv_ledger S = R" and "merchant_of auth = m"
  shows "acting m P (handleReverseTransaction S E rid auth r rec)"
  unfolding handleReverseTransaction_def Let_def
proof (intro acting_checked_step acting_proceed acting_fine acting_own_transaction assms(1))
  fix req t
  let ?Q = "\<lambda>v. \<forall>row. bk_txns (books (w_db v)) (rq_ID r) = Some row \<longrightarrow> txn_MerchantID row = m"
  have rev: "acting_Ok m (\<lambda>w. ?Q (ledger_view w)) (on_ledger (Reverse R E (rq_ID r) (rt_Reason req)))"
    by (rule acting_Ok_ledger) (erule (1) Reverse_acts; blast)
  have "?Q (ledger_view w')" if a: "good (ledger_view w)" "fine (own_transaction S E auth (rq_ID r)) w = (Ok (Inr t), w')" for w w'
    using own_transaction_owned(2) [OF _ assms(1) a(1)] a(2) assms(2) by (auto simp: fine_def seq_eq_Ok)
  then show "acting m (\<lambda>w'. \<exists>w. good (ledger_view w) \<and> P w \<and> fine (own_transaction S E auth (rq_ID r)) w = (Ok (Inr t), w'))
     (money_handler E (\<lambda>e. writeError (sv_http S) rid (Domain e)) 201
       (seq (on_ledger (Reverse (sv_ledger S) E (rq_ID r) (rt_Reason req))) (\<lambda>reversal.
        recorded (Ok (newTransactionResponse (sv_http S) reversal)) (en_transaction (sv_encode S)) (txn_ID reversal))) rec)"
    unfolding assms(1) by (intro acting_money_handler acting_Ok_seq acting_Ok_recorded acting_Ok_weaken [OF rev]) blast
qed

lemma acting_Ok_pre: "(\<And>w. P w \<Longrightarrow> C) \<Longrightarrow> (C \<Longrightarrow> acting_Ok m P f) \<Longrightarrow> acting_Ok m P f"
  by (auto simp: acting_Ok_def)

lemma acting_Ok_always: "(\<And>w x w'. good w \<Longrightarrow> f w = (Ok x, w') \<Longrightarrow> acts m w w') \<Longrightarrow> acting_Ok m P (on_ledger f)"
  by (rule acting_Ok_weaken [OF acting_Ok_ledger [where P = "\<lambda>_. True"]]) auto

lemma acting_Ok_recorded_payment: "acting_Ok m P (recorded_payment S p)"
  unfolding recorded_payment_def by (rule acting_Ok_recorded)

lemma acting_handleCreatePayment:
  assumes "sv_ledger S = R" and "typed_decoders (sv_decode S)" and "merchant_of auth = m"
  shows "acting m P (handleCreatePayment S E svc rid auth r rec)"
  unfolding handleCreatePayment_def Let_def assms(1,3)
proof (intro acting_checked_step acting_fine_step acting_money_handler acting_Ok_seq acting_Ok_recorded_payment acting_Ok_always)
  fix req cur amt w p w'
  assume d: "decodeJSON (rq_ContentType r) (de_payment (sv_decode S) (rq_Body r, False)) = Inr req"
    and a: "Money_New (cp_Amount req) cur = Ok amt" and w: "good w"
    and c: "Charge R E svc \<lparr>cr_MerchantID = m, cr_Amount = amt, cr_Capture = case_option True (\<lambda>capture. capture) (cp_Capture req),
        cr_Description = cp_Description req, cr_Metadata = cp_Metadata req\<rparr> w = (Ok p, w')"
  have "in64 (cp_Amount req)" by (rule typed_requests(2) [OF assms(2) d])
  then have "in64 (amount amt)" using a by (auto simp: Money_New_def split: if_splits)
  with Charge_acts [OF c w] show "acts m w w'" by simp
qed

lemma acting_optionalAmount:
  assumes "sv_ledger S = R"
  shows "acting m P (optionalAmount S E k i minor)"
  unfolding optionalAmount_def assms by (cases minor) (auto intro!: acting_ret acting_seq' acting_PaymentsGet)

lemma optionalAmount_in64:
  "optionalAmount S E k i minor w = (Ok amt, w') \<Longrightarrow> (\<And>n. minor = Some n \<Longrightarrow> in64 n) \<Longrightarrow> amt = Some x \<Longrightarrow> in64 (amount x)"
  by (auto simp: optionalAmount_def seq_eq_Ok Money_New_def split: option.splits if_splits)

lemma acting_optional_operation:
  assumes "sv_ledger S = R" and "\<And>n. minor = Some n \<Longrightarrow> in64 n"
    and "\<And>amt w p w'. good w \<Longrightarrow> (\<And>x. amt = Some x \<Longrightarrow> in64 (amount x)) \<Longrightarrow> f amt w = (Ok p, w') \<Longrightarrow> acts m w w'"
  shows "acting_Ok m P (seq (optionalAmount S E k i minor) (\<lambda>amt. seq (on_ledger (f amt)) (recorded_payment S)))"
proof (rule acting_Ok_seq [OF acting_acting_Ok [OF acting_optionalAmount [OF assms(1)]]])
  fix amt
  show "acting_Ok m (\<lambda>w'. \<exists>w. good (ledger_view w) \<and> P w \<and> optionalAmount S E k i minor w = (Ok amt, w'))
      (seq (on_ledger (f amt)) (recorded_payment S))"
  proof (rule acting_Ok_pre [where C = "\<forall>x. amt = Some x \<longrightarrow> in64 (amount x)"])
    assume typed: "\<forall>x. amt = Some x \<longrightarrow> in64 (amount x)"
    show "acting_Ok m (\<lambda>w'. \<exists>w. good (ledger_view w) \<and> P w \<and> optionalAmount S E k i minor w = (Ok amt, w'))
      (seq (on_ledger (f amt)) (recorded_payment S))"
      by (intro acting_Ok_seq acting_Ok_recorded_payment acting_Ok_always) (use assms(3) typed in blast)
  qed (use optionalAmount_in64 assms(2) in blast)
qed

lemma acting_handleCapturePayment:
  assumes "sv_ledger S = R" and "typed_decoders (sv_decode S)" and "merchant_of auth = m"
  shows "acting m P (handleCapturePayment S E svc rid auth r rec)"
  unfolding handleCapturePayment_def assms(1,3)
proof (intro acting_checked_step acting_money_handler acting_optional_operation assms(1))
  fix req n
  assume "optional_body r \<lparr>pc_Amount = None\<rparr> (de_capture (sv_decode S)) = Inr req" "pc_Amount req = Some n"
  then show "in64 n"
    using typed_requests(3) [OF assms(2)] by (auto simp: optional_body_def split: if_splits)
qed (rule Capture_acts)

lemma acting_handleCancelPayment:
  assumes "sv_ledger S = R" and "merchant_of auth = m"
  shows "acting m P (handleCancelPayment S E rid auth r rec)"
  unfolding handleCancelPayment_def assms
  by (intro acting_money_handler acting_Ok_seq acting_Ok_recorded_payment acting_Ok_always) (erule (1) Cancel_acts)

lemma acting_handleCreateRefund:
  assumes "sv_ledger S = R" and "typed_decoders (sv_decode S)" and "merchant_of auth = m"
  shows "acting m P (handleCreateRefund S E svc rid auth r rec)"
  unfolding handleCreateRefund_def Let_def assms(1,3)
proof (intro acting_checked_step acting_if acting_ret acting_money_handler acting_optional_operation assms(1))
  fix req n
  assume "decodeJSON (rq_ContentType r) (de_refund (sv_decode S) (rq_Body r, False)) = Inr req" "cf_Amount req = Some n"
  then show "in64 n" by (rule typed_requests(4) [OF assms(2)])
next
  fix req amt w p w'
  assume "good w" and "\<And>x. amt = Some x \<Longrightarrow> in64 (amount x)"
    and "Refund R E svc \<lparr>rr_MerchantID = m, rr_PaymentID = cf_PaymentID req, rr_Amount = amt, rr_Reason = cf_Reason req,
      rr_Metadata = cf_Metadata req\<rparr> w = (Ok p, w')"
  then show "acts m w w'" using Refund_acts [of E svc _ w p w'] by fastforce
qed

lemma acting_handleCreateAccount:
  assumes "sv_ledger S = R" and "merchant_of auth = m"
  shows "acting m P (handleCreateAccount S E rid auth r)"
  unfolding handleCreateAccount_def Let_def assms
  by (intro acting_checked_step acting_fine_step acting_proceed' acting_fine acting_InTx acting_Ok_always acting_ret)
    (erule (1) CreateAccount_acts(1), simp)

text \<open>The endpoints that read act for nobody, whoever asks.\<close>

definition reading :: "endpoint \<Rightarrow> bool" where
  "reading ep \<longleftrightarrow> ep \<in> {EpListAccounts, EpGetAccount, EpGetBalance, EpListEntries, EpGetTransaction, EpGetPayment}"

lemma acting_authorizedAccount:
  assumes "sv_ledger S = R"
  shows "acting m P (authorizedAccount S E auth r)"
  unfolding authorizedAccount_def assms by (auto intro!: acting_ret acting_seq' acting_GetAccount split: option.splits)

lemma acting_reading:
  assumes "sv_ledger S = R" and "reading ep"
  shows "acting m P (run_endpoint S E rid auth r ep)"
proof -
  have payment: "acting m P (case newPaymentResponse H p of Panic \<Rightarrow> ret Panic | resp \<Rightarrow> ret (f resp))" for P H p f
    by (auto intro!: acting_ret split: outcome.splits)
  have "acting m P (handleListAccounts S E rid auth)" "acting m P (handleGetAccount S E rid auth r)"
    "acting m P (handleGetBalance S E rid auth r)" "acting m P (handleGetTransaction S E rid auth r)"
    "acting m P (handleGetPayment S E rid auth r)"
    unfolding handleListAccounts_def handleGetAccount_def handleGetBalance_def handleGetTransaction_def handleGetPayment_def Let_def
    by (intro acting_proceed' acting_fine acting_authorizedAccount assms(1) acting_own_transaction acting_ret payment
        acting_ListAccounts [folded assms(1)] acting_Balance [folded assms(1)] acting_PaymentsGet [folded assms(1)])+
  moreover have "acting m P (handleListEntries S E rid auth r)"
    unfolding handleListEntries_def Let_def
    by (intro acting_proceed' acting_fine acting_authorizedAccount assms(1) acting_checked acting_ListEntries [folded assms(1)])
      (auto intro: acting_ret split: prod.splits)
  ultimately show ?thesis using assms(2) by (auto simp: reading_def run_endpoint_def)
qed

section \<open>Serving\<close>

lemma acting_endpoint:
  assumes "sv_ledger S = R" and "typed_decoders (sv_decode S)"
  shows "acting (auth_MerchantID auth) P (run_endpoint S E rid (Some auth) r ep)"
proof (cases "reading ep")
  case True
  then show ?thesis by (rule acting_reading [OF assms(1)])
next
  case False
  have m: "merchant_of (Some auth) = auth_MerchantID auth" by (simp add: merchant_of_def)
  have pay: "(\<And>svc. acting k Q (f svc)) \<Longrightarrow> acting k Q (with_payments S f)" for k Q and f :: "Payments_Service \<Rightarrow> ('s server_db world, capturingWriter \<times> bool) opr"
    unfolding with_payments_def by (cases "sv_payments S") (simp_all add: acting_ret)
  note handlers = acting_handleCreateTransfer [OF assms m] acting_handleReverseTransaction [OF assms(1) m] acting_handleCancelPayment [OF assms(1) m]
    pay [OF acting_handleCreatePayment [OF assms m]] pay [OF acting_handleCapturePayment [OF assms m]] pay [OF acting_handleCreateRefund [OF assms m]]
  show ?thesis
    using False unfolding run_endpoint_def idempotent_def
    by (cases ep) (auto simp: reading_def intro: acting_Handler handlers acting_handleCreateAccount [OF assms(1) m])
qed

lemma route_role: "(verb, pattern, role, ep) \<in> set (routes S) \<Longrightarrow> role = RoleWrite \<or> reading ep"
  by (auto simp: routes_def reading_def split: if_splits)

lemma dispatch_acts:
  assumes "dispatch S E rid auth r w = (x, w')" and "sv_ledger S = R" and "typed_decoders (sv_decode S)" and "good (ledger_view w)"
  shows "acts (auth_MerchantID auth) (ledger_view w) (ledger_view w')"
    and "\<not> AtLeast (auth_Role auth) RoleWrite \<Longrightarrow> acts k (ledger_view w) (ledger_view w')"
proof -
  consider (still) "w' = w"
    | (run) verb pattern role ep where "(verb, pattern, role, ep) \<in> set (routes S)" "AtLeast (auth_Role auth) role"
      "run_endpoint S E rid (Some auth) r ep w = (x, w')"
  proof (cases "List.find (\<lambda>(verb, pattern, role, ep). verb = rq_Method r \<and> pattern = rq_Route r) (routes S)")
    case None
    then show ?thesis using assms(1) still by (simp add: dispatch_def unrouted_def)
  next
    case (Some route)
    obtain verb pattern role ep where route: "route = (verb, pattern, role, ep)" by (cases route)
    have "route \<in> set (routes S)" using Some unfolding find_Some_iff by (metis nth_mem)
    then show ?thesis using assms(1) Some still run route by (auto simp: dispatch_def requireRole_def split: if_splits)
  qed
  note found = this
  show "acts (auth_MerchantID auth) (ledger_view w) (ledger_view w')"
    using found by cases (use assms(4) acts_same actingD [OF acting_endpoint [OF assms(2,3), where P = "\<lambda>_. True"] assms(4)] in auto)
  assume low: "\<not> AtLeast (auth_Role auth) RoleWrite"
  show "acts k (ledger_view w) (ledger_view w')"
    using found
  proof cases
    case still
    then show ?thesis using acts_same [OF assms(4)] by simp
  next
    case run
    then have "reading ep" using low route_role by blast
    from actingD [OF acting_reading [OF assms(2) this, where P = "\<lambda>_. True"] assms(4) _ run(3)] show ?thesis by simp
  qed
qed

end

section \<open>Authenticated requests\<close>

definition presented :: "auth_library \<Rightarrow> string \<Rightarrow> ApiKeyRow \<Rightarrow> bool" where
  "presented A header row \<longleftrightarrow> bearerToken A header \<noteq> [] \<and> kr_RevokedAt row = None
     \<and> kr_Lookup row = lookupOf (bearerToken A header) \<and> verifySecret A (bearerToken A header) (kr_SecretHash row)"

lemma find_key_call:
  assumes "on_world (call E (on_api_keys (\<lambda>c. Keys_FindByLookup c i))) (w, l) = (x, p)"
  shows "w_db (fst p) = w_db w \<and> snd p = l
    \<and> (\<forall>key. x = Ok key \<longrightarrow> (\<exists>row\<in>set (ap_keys (db_app (w_db w))). kr_Lookup row = i
        \<and> key = \<lparr>key_ID = kr_ID row, key_MerchantID = kr_MerchantID row, key_Lookup = kr_Lookup row,
            key_SecretHash = kr_SecretHash row, key_Role = kr_Role row, key_Livemode = kr_Livemode row,
            key_Revoked = kr_RevokedAt row \<noteq> None\<rparr>))"
  using assms
  by (auto simp: on_world_def call_def on_api_keys_def Keys_FindByLookup_eq find_Some_iff
      split: if_splits option.splits prod.splits)

lemma v1_runs:
  fixes w :: "'s server_db world" and l :: "'f rateLimiter"
  assumes "v1 S F E rid r (w, l) = (x, (w', l'))"
  shows "w_db w' = w_db w
    \<or> (\<exists>row\<in>set (ap_keys (db_app (w_db w))). presented (sv_auth S) (rq_Authorization r) row
        \<and> (\<exists>w1. w_db w1 = w_db w \<and> dispatch S E rid (caller_of row) r w1 = (x, w')))"
proof -
  define secret where "secret = bearerToken (sv_auth S) (rq_Authorization r)"
  define lookup :: "(('s, 'f) process, APIKeyRecord) opr"
    where "lookup = on_world (call E (on_api_keys (\<lambda>c. Keys_FindByLookup c (lookupOf secret))))"
  obtain y p where y: "lookup (w, l) = (y, p)" by (cases "lookup (w, l)")
  note found = find_key_call [OF y [unfolded lookup_def]]
  consider (still) "w_db w' = w_db w" | (key) key where "secret \<noteq> []" "y = Ok key" "\<not> key_Revoked key" "verifySecret (sv_auth S) secret (key_SecretHash key)"
    "limit_requests (sv_http S) F (env_now E) rid (Some \<lparr>auth_KeyID = key_ID key, auth_MerchantID = key_MerchantID key,
        auth_Role = key_Role key, auth_Livemode = key_Livemode key\<rparr>)
      (on_world (dispatch S E rid \<lparr>auth_KeyID = key_ID key, auth_MerchantID = key_MerchantID key, auth_Role = key_Role key,
        auth_Livemode = key_Livemode key\<rparr> r)) p = (x, (w', l'))"
    using assms found y unfolding v1_def authenticate_def secret_def [symmetric] Let_def lookup_def [symmetric]
    by (cases y) (auto split: if_splits)
  then show ?thesis
  proof cases
    case still
    then show ?thesis by simp
  next
    case key
    obtain row where row: "row \<in> set (ap_keys (db_app (w_db w)))" "kr_Lookup row = lookupOf secret"
      and k: "key = \<lparr>key_ID = kr_ID row, key_MerchantID = kr_MerchantID row, key_Lookup = kr_Lookup row,
            key_SecretHash = kr_SecretHash row, key_Role = kr_Role row, key_Livemode = kr_Livemode row,
            key_Revoked = kr_RevokedAt row \<noteq> None\<rparr>" using found key(2) by blast
    have "presented (sv_auth S) (rq_Authorization r) row"
      using key(1,3,4) row(2) unfolding presented_def secret_def by (simp add: k)
    moreover have "w_db w' = w_db w \<or> (\<exists>w1. w_db w1 = w_db w \<and> dispatch S E rid (caller_of row) r w1 = (x, w'))"
      using key(5) found
      by (cases p) (auto simp: limit_requests_def on_world_def caller_of_def k split: prod.splits if_splits)
    ultimately show ?thesis using row(1) by blast
  qed
qed

lemma on_world_eq: "on_world f (w, l) = (x, (w', l')) \<longleftrightarrow> f w = (x, w') \<and> l' = l"
  by (auto simp: on_world_def split: prod.splits)

text \<open>What the chain around the dispatcher does to the database: nothing.\<close>

lemma ServeHTTP_runs:
  fixes w :: "'s server_db world" and l :: "'f rateLimiter"
  assumes "ServeHTTP S F E r (w, l) = (x, (w', l'))"
  shows "w_db w' = w_db w
    \<or> (\<exists>row\<in>set (ap_keys (db_app (w_db w))). presented (sv_auth S) (rq_Authorization r) row
        \<and> (\<exists>rid y w1. w_db w1 = w_db w \<and> dispatch S E rid (caller_of row) r w1 = (y, w')))"
proof -
  obtain q w1 where q: "new_id E PrefixRequest w = (q, w1)" by (cases "new_id E PrefixRequest w")
  have db1: "w_db w1 = w_db w" by (rule new_id_db [OF q])
  have "w' = w1 \<or> (\<exists>rid y l2. root_router S F E rid r (w1, l) = (y, (w', l2)))"
    using assms q by (auto simp: ServeHTTP_def requestID_def seq_def on_world_def recoverer_def split: prod.splits outcome.splits)
  moreover have "w_db w' = w_db w \<or> (\<exists>row\<in>set (ap_keys (db_app (w_db w))). presented (sv_auth S) (rq_Authorization r) row
        \<and> (\<exists>w2. w_db w2 = w_db w \<and> dispatch S E rid (caller_of row) r w2 = (y, w')))"
    if root: "root_router S F E rid r (w1, l) = (y, (w', l2))" for rid y l2
  proof (cases "is_v1 (rq_Path r)")
    case True
    then show ?thesis using v1_runs [of S F E rid r w1 l y w' l2] root db1 by (simp add: root_router_def)
  next
    case False
    then have "w_db w' = w_db w1"
      using root by (auto simp: root_router_def on_world_eq unrouted_def handleLive_def handleReady_def seq_def call_def
          split: if_splits option.splits)
    then show ?thesis using db1 by simp
  qed
  ultimately show ?thesis using db1 by blast
qed

section \<open>Merchants are kept apart\<close>

text \<open>The books in the server's database, and what has to hold of them.\<close>

definition server_books :: "ledger_db server_db world \<Rightarrow> books" where
  "server_books w = pg_books (ap_ledger (db_app (w_db w)))"

definition server_ok :: "ledger_db server_db world \<Rightarrow> bool" where
  "server_ok w \<longleftrightarrow> pg_ok (ap_ledger (db_app (w_db w))) \<and> books_ok (server_books w) \<and> tenant_ok (server_books w)"

lemma server_ok_good: "server_ok w \<longleftrightarrow> pg_tenant.good (ledger_view w)"
  by (auto simp: server_ok_def server_books_def pg_tenant.good_def repository.sound_def [OF pg.repository_axioms] ledger_view_def)

lemma acts_books: "pg_tenant.acts m (ledger_view w) (ledger_view w') \<longleftrightarrow> server_ok w' \<and> own m (server_books w) (server_books w')"
  by (simp add: pg_tenant.acts_def server_ok_good server_books_def ledger_view_def)

text \<open>
  C4. Merchants are kept apart, through the whole chain from the socket to the tables. Serving any
  request over the database keeps the books in order, with every entry of a transaction on an account of
  the transaction's merchant; and either the books are as before, or the request carried the secret
  of a stored, unrevoked key, and everything that changed belongs to the merchant of that key: no
  account, balance, entry or transaction of anybody else is touched. With a key that may only read,
  accounts, transactions and entries are unchanged altogether.
\<close>

theorem tenant_isolation:
  assumes "ServeHTTP S F E r (w, l) = (x, (w', l'))" and "sv_ledger S = postgres_repo" and "typed_decoders (sv_decode S)"
    and "server_ok w"
  shows "server_ok w'
    \<and> (server_books w' = server_books w
       \<or> (\<exists>row\<in>set (ap_keys (db_app (w_db w))). presented (sv_auth S) (rq_Authorization r) row
           \<and> own (kr_MerchantID row) (server_books w) (server_books w')
           \<and> (AtLeast (kr_Role row) RoleWrite \<or> bk_accounts (server_books w') = bk_accounts (server_books w)
               \<and> bk_txns (server_books w') = bk_txns (server_books w) \<and> bk_log (server_books w') = bk_log (server_books w))))"
  using ServeHTTP_runs [OF assms(1)]
proof (elim disjE bexE conjE exE)
  assume "w_db w' = w_db w"
  then show ?thesis using assms(4) by (simp add: server_ok_def server_books_def)
next
  fix row rid y w1
  assume row: "row \<in> set (ap_keys (db_app (w_db w)))" "presented (sv_auth S) (rq_Authorization r) row"
    and w1: "w_db w1 = w_db w" and run: "dispatch S E rid (caller_of row) r w1 = (y, w')"
  have good: "pg_tenant.good (ledger_view w1)"
    using assms(4) w1 unfolding server_ok_good [symmetric] by (simp add: server_ok_def server_books_def)
  have books: "server_books w1 = server_books w" using w1 by (simp add: server_books_def)
  have m: "auth_MerchantID (caller_of row) = kr_MerchantID row" "auth_Role (caller_of row) = kr_Role row" by (simp_all add: caller_of_def)
  note acts = pg_tenant.dispatch_acts [OF run assms(2,3) good, unfolded acts_books books m]
  have "AtLeast (kr_Role row) RoleWrite \<or> (\<forall>k. own k (server_books w) (server_books w'))" using acts(2) by blast
  then show ?thesis using acts(1) row own_all [of "server_books w" "server_books w'"] by blast
qed

section \<open>An example\<close>

text \<open>
  A server over the database with the libraries of the examples; it knows one key, and every body
  decodes to the same request.
\<close>

definition sample_decoders :: decoders where
  "sample_decoders =
     \<lparr>de_account = (\<lambda>_. Decoded \<lparr>ca_Name = ''cash'', ca_Type = Asset, ca_Currency = ''usd'', ca_AllowNegative = False, ca_Metadata = []\<rparr> False),
      de_transfer = (\<lambda>_. DecodeError ''EOF''), de_reverse = (\<lambda>_. DecodeError ''EOF''), de_payment = (\<lambda>_. DecodeError ''EOF''),
      de_capture = (\<lambda>_. DecodeError ''EOF''), de_refund = (\<lambda>_. DecodeError ''EOF'')\<rparr>"

definition sample_encoders :: encoders where
  "sample_encoders =
     \<lparr>en_account = (\<lambda>a. Ok (ars_Name a)), en_balance = (\<lambda>_. Ok []), en_transaction = (\<lambda>_. Ok []), en_payment = (\<lambda>_. Ok []),
      en_entries = (\<lambda>_. Ok []), en_accounts = (\<lambda>_. Ok []), en_status = (\<lambda>_. Ok [])\<rparr>"

definition sample_server :: "ledger_db Server" where
  "sample_server =
     \<lparr>sv_MaxBodyBytes = 1048576, sv_ledger = postgres_repo, sv_payments = None, sv_ping = None, sv_http = sample_http, sv_auth = sample_auth,
      sv_json = sample_library, sv_decode = sample_decoders, sv_encode = sample_encoders\<rparr>"

definition sample_database :: "ledger_db server_db world" where
  "sample_database = \<lparr>w_db = \<lparr>db_keys = [], db_app = \<lparr>ap_keys = [sample_key], ap_ledger = empty_ledger\<rparr>\<rparr>, w_gen = sample_generator, w_tick = 0\<rparr>"

definition sample_request :: Request where
  "sample_request = \<lparr>rq_Method = ''POST'', rq_Path = ''/v1/accounts'', rq_Route = ''/v1/accounts'', rq_ID = [],
     rq_Authorization = ''Bearer sk_test_00000000abc'', rq_Key = [], rq_ContentType = ''Application/JSON; charset=utf-8'',
     rq_ContentLength = 1, rq_Body = ''A'', rq_Limit = [], rq_StartingAfter = []\<rparr>"

lemma sample_server_laws: "sv_ledger sample_server = postgres_repo" "typed_decoders (sv_decode sample_server)" "server_ok sample_database"
proof -
  show "sv_ledger sample_server = postgres_repo" by (simp add: sample_server_def)
  show "typed_decoders (sv_decode sample_server)" by (simp add: typed_decoders_def sample_server_def sample_decoders_def)
  have "ap_ledger (db_app (w_db sample_database)) = empty_ledger" by (simp add: sample_database_def)
  then show "server_ok sample_database"
    using pg_ok_empty books_ok_empty
    by (simp add: server_ok_def server_books_def pg_books_empty tenant_ok_def empty_books_def)
qed

text \<open>The stages of the example, one at a time.\<close>

definition sample_issued :: "string outcome \<times> ledger_db server_db world" where
  "sample_issued = new_id auth_env PrefixRequest sample_database"

definition sample_new_account :: Account where
  "sample_new_account = \<lparr>acc_ID = [], acc_MerchantID = ''m'', acc_Name = ''cash'', acc_Type = Asset, acc_NormalBalance = [],
     acc_Currency = ''USD'', acc_AllowNegative = False, acc_Metadata = [], acc_CreatedAt = zero_time\<rparr>"

lemma sample_stages:
  "case fst sample_issued of Ok _ \<Rightarrow> True | _ \<Rightarrow> False"
  "bearerToken sample_auth ''Bearer sk_test_00000000abc'' = ''sk_test_00000000abc''"
  "lookupOf ''sk_test_00000000abc'' = ''sk_test_00000000''"
  "verifySecret sample_auth ''sk_test_00000000abc'' (kr_SecretHash sample_key)"
  "fst (allow int_floats 1000000 ''ak_1'' (newRateLimiter 60))"
  "decodeJSON ''Application/JSON; charset=utf-8'' (de_account sample_decoders (''A'', False))
     = Inr \<lparr>ca_Name = ''cash'', ca_Type = Asset, ca_Currency = ''usd'', ca_AllowNegative = False, ca_Metadata = []\<rparr>"
  "ParseCurrency ''usd'' = Ok ''USD''"
  "case Service_CreateAccount postgres_repo auth_env sample_new_account
      \<lparr>w_db = empty_ledger, w_gen = w_gen (snd sample_issued), w_tick = 2\<rparr> of (Ok _, _) \<Rightarrow> True | _ \<Rightarrow> False"
proof -
  show "case fst sample_issued of Ok _ \<Rightarrow> True | _ \<Rightarrow> False" by code_simp
  have trim: "TrimSpace ''sk_test_00000000abc'' = ''sk_test_00000000abc''" "TrimSpace ''Application/JSON'' = ''Application/JSON''"
    "TrimSpace ''usd'' = ''usd''" by (rule TrimSpace_id; simp add: graphic_def)+
  have folded: "fold_case ''Application/JSON'' = ''application/json''" by code_simp
  show "bearerToken sample_auth ''Bearer sk_test_00000000abc'' = ''sk_test_00000000abc''"
    by (simp add: bearerToken_def has_prefix_def trim)
  show "lookupOf ''sk_test_00000000abc'' = ''sk_test_00000000''" by code_simp
  show "verifySecret sample_auth ''sk_test_00000000abc'' (kr_SecretHash sample_key)" by code_simp
  show "fst (allow int_floats 1000000 ''ak_1'' (newRateLimiter 60))" by code_simp
  show "decodeJSON ''Application/JSON; charset=utf-8'' (de_account sample_decoders (''A'', False))
     = Inr \<lparr>ca_Name = ''cash'', ca_Type = Asset, ca_Currency = ''usd'', ca_AllowNegative = False, ca_Metadata = []\<rparr>" by (simp add: decodeJSON_def trim folded sample_decoders_def del: fold_case.simps)
  have upper: "ToUpper ''usd'' = ''USD''" "Currency_Valid ''USD''" by code_simp+
  show "ParseCurrency ''usd'' = Ok ''USD''" by (simp add: ParseCurrency_def trim upper del: ToUpper.simps)
  show "case Service_CreateAccount postgres_repo auth_env sample_new_account
      \<lparr>w_db = empty_ledger, w_gen = w_gen (snd sample_issued), w_tick = 2\<rparr> of (Ok _, _) \<Rightarrow> True | _ \<Rightarrow> False" by code_simp
qed

lemma sample_created:
  assumes "w_db w = w_db sample_database" and "w_gen w = w_gen (snd sample_issued)" and "w_tick w = 2"
  shows "\<exists>resp w'. dispatch sample_server auth_env rid (caller_of sample_key) sample_request w = (Ok resp, w') \<and> hr_Status resp = 201"
proof -
  have view: "ledger_view w = \<lparr>w_db = empty_ledger, w_gen = w_gen (snd sample_issued), w_tick = 2\<rparr>"
    using assms by (simp add: ledger_view_def sample_database_def)
  obtain a v where "Service_CreateAccount postgres_repo auth_env sample_new_account (ledger_view w) = (Ok a, v)"
    using sample_stages(8) unfolding view [symmetric] by (auto split: prod.splits outcome.splits)
  then obtain w' where made: "on_ledger (Service_CreateAccount postgres_repo auth_env sample_new_account) w = (Ok a, w')"
    by (auto simp: on_ledger_def)
  have account: "sample_new_account = \<lparr>acc_ID = [], acc_MerchantID = merchant_of (Some (caller_of sample_key)), acc_Name = ''cash'', acc_Type = Asset,
     acc_NormalBalance = [], acc_Currency = ''USD'', acc_AllowNegative = False, acc_Metadata = [], acc_CreatedAt = zero_time\<rparr>"
    by (simp add: sample_new_account_def merchant_of_def caller_of_def sample_key_def)
  have body: "bodyLimit (sv_MaxBodyBytes sample_server) (rq_Body sample_request) = (''A'', False)"
    by (simp add: bodyLimit_def sample_server_def sample_request_def)
  have decode: "decodeJSON (rq_ContentType sample_request) (de_account (sv_decode sample_server) (''A'', False))
     = Inr \<lparr>ca_Name = ''cash'', ca_Type = Asset, ca_Currency = ''usd'', ca_AllowNegative = False, ca_Metadata = []\<rparr>"
    using sample_stages(6) by (simp add: sample_server_def sample_request_def)
  have handler: "handleCreateAccount sample_server auth_env rid (Some (caller_of sample_key)) sample_request w
      = (Ok (writeJSON sample_http rid 201 (Ok (acc_Name a))), w')"
    using made unfolding handleCreateAccount_def Let_def body decode account
    by (simp add: proceed_def checked_def fine_def seq_def sample_stages(7) InTx_def sample_server_def sample_encoders_def newAccountResponse_def)
  have find: "List.find (\<lambda>(verb, pattern, role, ep). verb = rq_Method sample_request \<and> pattern = rq_Route sample_request) (routes sample_server)
      = Some (''POST'', ''/v1/accounts'', RoleWrite, EpCreateAccount)"
    by (simp add: routes_def sample_request_def sample_server_def)
  have role: "AtLeast (auth_Role (caller_of sample_key)) RoleWrite" by (simp add: AtLeast_def caller_of_def sample_key_def)
  show ?thesis
    unfolding dispatch_def find by (simp add: requireRole_def role run_endpoint_def handler writeJSON_def)
qed

lemma sample_served:
  "\<exists>resp w' l'. ServeHTTP sample_server int_floats auth_env sample_request (sample_database, newRateLimiter 60) = (Ok resp, (w', l'))
    \<and> hr_Status resp = 201"
proof -
  define w1 where "w1 = snd sample_issued"
  obtain rid where issued: "new_id auth_env PrefixRequest sample_database = (Ok rid, w1)"
    using sample_stages(1) by (cases "sample_issued") (auto simp: sample_issued_def w1_def split: outcome.splits)
  have w1: "w_db w1 = w_db sample_database" "w_tick w1 = 1"
    using issued new_id_db [OF issued] by (auto simp: new_id_def sample_database_def split: prod.splits)
  define w2 where "w2 = w1\<lparr>w_tick := 2\<rparr>"
  have lookup: "on_world (call auth_env (on_api_keys (\<lambda>c. Keys_FindByLookup c ''sk_test_00000000''))) (w1, l)
      = (Ok \<lparr>key_ID = kr_ID sample_key, key_MerchantID = kr_MerchantID sample_key, key_Lookup = kr_Lookup sample_key,
          key_SecretHash = kr_SecretHash sample_key, key_Role = kr_Role sample_key, key_Livemode = kr_Livemode sample_key,
          key_Revoked = False\<rparr>, (w2, l))" for l :: "int rateLimiter"
    using w1 by (simp add: on_world_def call_def on_api_keys_def Keys_FindByLookup_eq w2_def sample_database_def sample_key_def
        ambient_at_def auth_env_def numeral_2_eq_2)
  obtain l' where allowed: "allow int_floats 1000000 ''ak_1'' (newRateLimiter 60) = (True, l')"
    using sample_stages(5) by (cases "allow int_floats 1000000 ''ak_1'' (newRateLimiter 60)") auto
  obtain resp w' where created: "dispatch sample_server auth_env rid (caller_of sample_key) sample_request w2 = (Ok resp, w')" "hr_Status resp = 201"
    using sample_created [of w2 rid] w1 by (auto simp: w2_def w1_def)
  have key: "kr_ID sample_key = ''ak_1''" "env_now auth_env = (\<lambda>_. 1000000)" by (simp_all add: sample_key_def auth_env_def)
  have "v1 sample_server int_floats auth_env rid sample_request (w1, newRateLimiter 60) = (Ok resp, (w', l'))"
    using lookup created allowed sample_stages(2-4) key
    by (simp add: v1_def authenticate_def sample_server_def sample_request_def Let_def limit_requests_def on_world_def caller_of_def)
  moreover have "is_v1 (rq_Path sample_request)" by (simp add: is_v1_def sample_request_def has_prefix_def)
  ultimately show ?thesis
    using issued created(2) by (simp add: ServeHTTP_def requestID_def seq_def on_world_def recoverer_def root_router_def)
qed

theorem tenant_isolation_witness:
  "\<exists>resp w' l'. ServeHTTP sample_server int_floats auth_env sample_request (sample_database, newRateLimiter 60) = (Ok resp, (w', l'))
    \<and> hr_Status resp = 201 \<and> server_ok w' \<and> own ''m'' (server_books sample_database) (server_books w')"
proof -
  obtain resp w' l' where s: "ServeHTTP sample_server int_floats auth_env sample_request (sample_database, newRateLimiter 60) = (Ok resp, (w', l'))"
    and ok: "hr_Status resp = 201" using sample_served by blast
  have m: "kr_MerchantID row = ''m''" if "row \<in> set (ap_keys (db_app (w_db sample_database)))" for row
    using that by (simp add: sample_database_def sample_key_def)
  note isolated = tenant_isolation [OF s sample_server_laws]
  have "own ''m'' (server_books sample_database) (server_books w')" using isolated m by (metis own_refl)
  then show ?thesis using isolated s ok by blast
qed

section \<open>Bodies\<close>

lemma other_is_500: "hr_Status (writeError H rid (Domain (ErrOther m))) = 500"
  by (rule unknown_status [THEN conjunct1]) (simp add: errorTable_def table_row_def)



text \<open>
  A body whose length is not declared (\<^verbatim>\<open>ContentLength\<close> is -1 for a chunked request) is not looked at: a capture that
  asks for a part is carried out as a capture of everything.
\<close>

lemma capture_ignores_undeclared_body:
  assumes "rq_ContentLength r \<le> 0"
  shows "handleCapturePayment S E svc rid auth r rec =
    money_handler E (\<lambda>e. writeError (sv_http S) rid (Domain e)) 200
      (seq (on_ledger (Payments_Capture (sv_ledger S) E svc (merchant_of auth) (rq_ID r) None)) (recorded_payment S)) rec"
  using assms
  by (intro ext) (simp add: handleCapturePayment_def optional_body_def proceed_def checked_def optionalAmount_def)

text \<open>
  C3. Another merchant's account or transaction looks exactly like one that does not exist: wherever
  the store finds a resource of somebody else, the reading endpoints give, byte for byte, the answer
  they give where the store finds nothing.
\<close>

definition finds_account :: "'s Server \<Rightarrow> env \<Rightarrow> string \<Rightarrow> 's server_db world \<Rightarrow> Account outcome" where
  "finds_account S E i w = fst (repo_GetAccount (sv_ledger S) (ambient_at E (w_tick w)) i (ap_ledger (db_app (w_db w))))"

definition finds_transaction :: "'s Server \<Rightarrow> env \<Rightarrow> string \<Rightarrow> 's server_db world \<Rightarrow> Transaction outcome" where
  "finds_transaction S E i w = fst (repo_GetTransaction (sv_ledger S) (ambient_at E (w_tick w)) i (ap_ledger (db_app (w_db w))))"

theorem foreign_looks_missing:
  assumes "ep \<in> {EpGetAccount, EpGetBalance, EpListEntries} \<and> finds_account S E (rq_ID r) w = Ok acct
        \<and> acc_MerchantID acct \<noteq> auth_MerchantID a \<and> finds_account S E (rq_ID r) v = Err ErrAccountNotFound
      \<or> ep = EpGetTransaction \<and> finds_transaction S E (rq_ID r) w = Ok txn
        \<and> txn_MerchantID txn \<noteq> auth_MerchantID a \<and> finds_transaction S E (rq_ID r) v = Err ErrTransactionNotFound"
  shows "fst (run_endpoint S E rid (Some a) r ep w) = fst (run_endpoint S E rid (Some a) r ep v)
    \<and> (\<exists>resp. fst (run_endpoint S E rid (Some a) r ep w) = Ok resp \<and> hr_Status resp = 404)"
proof -
  have account: "\<exists>x'. on_ledger (Service_GetAccount (sv_ledger S) E (rq_ID r)) x = (finds_account S E (rq_ID r) x, x')" for x
    by (simp add: on_ledger_def Service_GetAccount_def call_def ledger_view_def finds_account_def split: prod.splits)
  have transaction: "\<exists>x'. on_ledger (Service_GetTransaction (sv_ledger S) E (rq_ID r)) x = (finds_transaction S E (rq_ID r) x, x')" for x
    by (simp add: on_ledger_def Service_GetTransaction_def call_def ledger_view_def finds_transaction_def split: prod.splits)
  obtain w1 v1 w2 v2 where store: "on_ledger (Service_GetAccount (sv_ledger S) E (rq_ID r)) w = (finds_account S E (rq_ID r) w, w1)"
    "on_ledger (Service_GetAccount (sv_ledger S) E (rq_ID r)) v = (finds_account S E (rq_ID r) v, v1)"
    "on_ledger (Service_GetTransaction (sv_ledger S) E (rq_ID r)) w = (finds_transaction S E (rq_ID r) w, w2)"
    "on_ledger (Service_GetTransaction (sv_ledger S) E (rq_ID r)) v = (finds_transaction S E (rq_ID r) v, v2)"
    using account transaction by metis
  have status: "hr_Status (writeError H rid (Domain ErrAccountNotFound)) = 404" "hr_Status (writeError H rid (Domain ErrTransactionNotFound)) = 404" for H
    by (simp_all add: writeError_def toAPIError_def errorTable_def table_row_def Let_def)
  consider "ep = EpGetAccount" | "ep = EpGetBalance" | "ep = EpListEntries" | "ep = EpGetTransaction" using assms by blast
  then show ?thesis
    by cases (use assms in \<open>simp_all add: run_endpoint_def handleGetAccount_def handleGetBalance_def handleListEntries_def
      handleGetTransaction_def authorizedAccount_def own_transaction_def proceed_def fine_def seq_def merchant_of_def Let_def store status\<close>)
qed

definition foreign_database :: "ledger_db server_db world" where
  "foreign_database = sample_database\<lparr>w_db := \<lparr>db_keys = [], db_app = \<lparr>ap_keys = [sample_key], ap_ledger = empty_ledger\<lparr>
     ld_accounts := [\<lparr>ar_ID = ''a'', ar_MerchantID = ''other'', ar_Name = ''cash'', ar_Type = ''asset'', ar_NormalBalance = ''debit'',
       ar_Currency = ''USD'', ar_AllowNegative = False, ar_Metadata = JObject [], ar_CreatedAt = 0\<rparr>]\<rparr>\<rparr>\<rparr>\<rparr>"

theorem foreign_looks_missing_witness:
  "(\<exists>acct. finds_account sample_server auth_env ''a'' foreign_database = Ok acct)
   \<and> fst (run_endpoint sample_server auth_env ''req_1'' (Some (caller_of sample_key)) (sample_request\<lparr>rq_ID := ''a''\<rparr>) EpGetBalance foreign_database)
     = fst (run_endpoint sample_server auth_env ''req_1'' (Some (caller_of sample_key)) (sample_request\<lparr>rq_ID := ''a''\<rparr>) EpGetBalance sample_database)"
proof -
  have "case finds_account sample_server auth_env ''a'' foreign_database of Ok acct \<Rightarrow> acc_MerchantID acct \<noteq> ''m'' | _ \<Rightarrow> False" by code_simp
  then obtain acct where found: "finds_account sample_server auth_env ''a'' foreign_database = Ok acct" "acc_MerchantID acct \<noteq> ''m''"
    by (auto split: outcome.splits)
  have missing: "finds_account sample_server auth_env ''a'' sample_database = Err ErrAccountNotFound" by code_simp
  have "EpGetBalance \<in> {EpGetAccount, EpGetBalance, EpListEntries} \<and> finds_account sample_server auth_env (rq_ID (sample_request\<lparr>rq_ID := ''a''\<rparr>)) foreign_database = Ok acct
      \<and> acc_MerchantID acct \<noteq> auth_MerchantID (caller_of sample_key)
      \<and> finds_account sample_server auth_env (rq_ID (sample_request\<lparr>rq_ID := ''a''\<rparr>)) sample_database = Err ErrAccountNotFound"
    using found missing by (simp add: caller_of_def sample_key_def)
  from foreign_looks_missing [OF disjI1 [OF this]] found show ?thesis by blast
qed

end
