(* ===== verification/Config.thy ===== *)
theory Config
  imports Money Sql_Tables
begin

text \<open>
  Configuration, \<^verbatim>\<open>internal/platform/config/config.go\<close>. The environment of the process is a lookup; parsing of
  durations and of URLs is a parameter (\<open>environment\<close>). An error is named by the variable it is about.
\<close>

section \<open>The configuration\<close>

type_synonym Isolation = string

definition IsolationReadCommitted :: Isolation where "IsolationReadCommitted = ''read_committed''"

definition IsolationSerializable :: Isolation where "IsolationSerializable = ''serializable''"

record HTTPConfig =
  ht_Addr :: string
  ht_ReadTimeout :: int
  ht_WriteTimeout :: int
  ht_IdleTimeout :: int
  ht_HandlerTimeout :: int
  ht_ShutdownTimeout :: int
  ht_MaxBodyBytes :: int
  ht_RateLimitPerMin :: int

record DBConfig =
  dc_URL :: string
  dc_MaxConns :: int
  dc_MinConns :: int
  dc_MaxConnLifetime :: int
  dc_MaxConnIdleTime :: int
  dc_ConnectTimeout :: int
  dc_LockTimeout :: int
  dc_StatementTimeout :: int

record LogConfig =
  lc_Level :: string
  lc_Format :: string

record LedgerConfig =
  gc_Isolation :: string
  gc_AuthorizationTTL :: int
  gc_RefundPercentageFee :: bool

record WebhooksConfig =
  wc_AllowInsecure :: bool
  wc_AllowPrivateIPs :: bool
  wc_BackoffBase :: int
  wc_BackoffCap :: int
  wc_MaxAttempts :: int
  wc_RequestTimeout :: int
  wc_ConnectTimeout :: int
  wc_MaxRespBytes :: int
  wc_SecretKey :: string

record WorkerConfig =
  kc_DispatchBatchSize :: int
  kc_DispatchPollPeriod :: int
  kc_DeliveryBatchSize :: int
  kc_DeliveryWorkers :: int
  kc_DeliveryLease :: int
  kc_ReconcilePeriod :: int
  kc_ReapPeriod :: int
  kc_ReapBatchSize :: int
  kc_IdempotencyTTL :: int

record Config =
  cfg_Env :: string
  cfg_HTTP :: HTTPConfig
  cfg_DB :: DBConfig
  cfg_Log :: LogConfig
  cfg_Ledger :: LedgerConfig
  cfg_Webhooks :: WebhooksConfig
  cfg_Worker :: WorkerConfig

section \<open>Reading variables\<close>

record environment =
  LookupEnv :: "string \<Rightarrow> string option"
  ParseDuration :: "string \<Rightarrow> int option"
  url_Parses :: "string \<Rightarrow> bool"

datatype config_error = NotInteger string | NotDuration string | NotBoolean string | Invalid string

definition second :: int where "second = 1000000000"

definition ParseBool :: "string \<Rightarrow> bool option" where
  "ParseBool s =
     (if s \<in> set [''1'', ''t'', ''T'', ''true'', ''TRUE'', ''True''] then Some True
      else if s \<in> set [''0'', ''f'', ''F'', ''false'', ''FALSE'', ''False''] then Some False else None)"

text \<open>
  \<^verbatim>\<open>strings.ToLower\<close>: ASCII letters, and the two other code points whose lower case is ASCII (I with a dot, U+0130, and
  the Kelvin sign, U+212A). Every other code point maps to a non-ASCII one and is left as it is here.
\<close>

fun ToLower :: "string \<Rightarrow> string" where
  "ToLower [] = []"
| "ToLower (c # s) =
     (if 65 \<le> (of_char c :: nat) \<and> (of_char c :: nat) \<le> 90 then char_of ((of_char c :: nat) + 32) # ToLower s
      else if (of_char c :: nat) = 196 \<and> s \<noteq> [] \<and> (of_char (hd s) :: nat) = 176 then CHR ''i'' # ToLower (tl s)
      else if map of_char (c # take 2 s) = [226, 132, 170 :: nat] then CHR ''k'' # ToLower (drop 2 s)
      else c # ToLower s)"

definition envStr :: "environment \<Rightarrow> string \<Rightarrow> string \<Rightarrow> string" where
  "envStr X key deflt = (case LookupEnv X key of Some v \<Rightarrow> if v \<noteq> [] then v else deflt | None \<Rightarrow> deflt)"

text \<open>A variable that is set but does not parse yields the default and is reported; \<open>parsed\<close> is the value, \<open>fails\<close> the report.\<close>

definition parsed :: "(string \<Rightarrow> 'a option) \<Rightarrow> environment \<Rightarrow> string \<Rightarrow> 'a \<Rightarrow> 'a" where
  "parsed parse X key deflt =
     (case LookupEnv X key of
        None \<Rightarrow> deflt
      | Some v \<Rightarrow> if v = [] then deflt else case parse v of Some x \<Rightarrow> x | None \<Rightarrow> deflt)"

definition fails :: "(string \<Rightarrow> 'a option) \<Rightarrow> (string \<Rightarrow> config_error) \<Rightarrow> environment \<Rightarrow> string \<Rightarrow> config_error list" where
  "fails parse report X key =
     (case LookupEnv X key of Some v \<Rightarrow> if v \<noteq> [] \<and> parse v = None then [report key] else [] | None \<Rightarrow> [])"

definition envInt :: "environment \<Rightarrow> string \<Rightarrow> int \<Rightarrow> int" where
  "envInt X = parsed ParseInt X"

definition intFails :: "environment \<Rightarrow> string \<Rightarrow> config_error list" where
  "intFails X = fails ParseInt NotInteger X"

definition envDur :: "environment \<Rightarrow> string \<Rightarrow> int \<Rightarrow> int" where
  "envDur X = parsed (ParseDuration X) X"

definition durFails :: "environment \<Rightarrow> string \<Rightarrow> config_error list" where
  "durFails X = fails (ParseDuration X) NotDuration X"

definition envBool :: "environment \<Rightarrow> string \<Rightarrow> bool \<Rightarrow> bool" where
  "envBool X = parsed ParseBool X"

definition boolFails :: "environment \<Rightarrow> string \<Rightarrow> config_error list" where
  "boolFails X = fails ParseBool NotBoolean X"

section \<open>Loading\<close>

definition http_of :: "environment \<Rightarrow> HTTPConfig" where
  "http_of X =
     \<lparr>ht_Addr = envStr X ''HTTP_ADDR'' '':8080'',
      ht_ReadTimeout = envDur X ''HTTP_READ_TIMEOUT'' (10 * second),
      ht_WriteTimeout = envDur X ''HTTP_WRITE_TIMEOUT'' (30 * second),
      ht_IdleTimeout = envDur X ''HTTP_IDLE_TIMEOUT'' (120 * second),
      ht_HandlerTimeout = envDur X ''HTTP_HANDLER_TIMEOUT'' (30 * second),
      ht_ShutdownTimeout = envDur X ''HTTP_SHUTDOWN_TIMEOUT'' (30 * second),
      ht_MaxBodyBytes = envInt X ''HTTP_MAX_BODY_BYTES'' (2 ^ 20),
      ht_RateLimitPerMin = envInt X ''HTTP_RATE_LIMIT_PER_MIN'' 600\<rparr>"

definition db_of :: "environment \<Rightarrow> DBConfig" where
  "db_of X =
     \<lparr>dc_URL = envStr X ''DATABASE_URL'' [],
      dc_MaxConns = wrap32 (envInt X ''DB_MAX_CONNS'' 20),
      dc_MinConns = wrap32 (envInt X ''DB_MIN_CONNS'' 2),
      dc_MaxConnLifetime = envDur X ''DB_MAX_CONN_LIFETIME'' (3600 * second),
      dc_MaxConnIdleTime = envDur X ''DB_MAX_CONN_IDLE_TIME'' (30 * 60 * second),
      dc_ConnectTimeout = envDur X ''DB_CONNECT_TIMEOUT'' (5 * second),
      dc_LockTimeout = envDur X ''DB_LOCK_TIMEOUT'' (3 * second),
      dc_StatementTimeout = envDur X ''DB_STATEMENT_TIMEOUT'' (10 * second)\<rparr>"

definition log_of :: "environment \<Rightarrow> LogConfig" where
  "log_of X =
     \<lparr>lc_Level = ToLower (envStr X ''LOG_LEVEL'' ''info''),
      lc_Format = ToLower (envStr X ''LOG_FORMAT'' ''json'')\<rparr>"

definition ledger_of :: "environment \<Rightarrow> LedgerConfig" where
  "ledger_of X =
     \<lparr>gc_Isolation = ToLower (envStr X ''LEDGER_ISOLATION'' IsolationReadCommitted),
      gc_AuthorizationTTL = envDur X ''LEDGER_AUTHORIZATION_TTL'' (7 * 24 * 3600 * second),
      gc_RefundPercentageFee = envBool X ''LEDGER_REFUND_PERCENTAGE_FEE'' True\<rparr>"

definition webhooks_of :: "environment \<Rightarrow> WebhooksConfig" where
  "webhooks_of X =
     \<lparr>wc_AllowInsecure = envBool X ''ALLOW_INSECURE_WEBHOOKS'' False,
      wc_AllowPrivateIPs = envBool X ''ALLOW_PRIVATE_IP_WEBHOOKS'' False,
      wc_BackoffBase = envDur X ''WEBHOOK_BACKOFF_BASE'' (10 * second),
      wc_BackoffCap = envDur X ''WEBHOOK_BACKOFF_CAP'' (6 * 3600 * second),
      wc_MaxAttempts = envInt X ''WEBHOOK_MAX_ATTEMPTS'' 16,
      wc_RequestTimeout = envDur X ''WEBHOOK_REQUEST_TIMEOUT'' (5 * second),
      wc_ConnectTimeout = envDur X ''WEBHOOK_CONNECT_TIMEOUT'' (2 * second),
      wc_MaxRespBytes = envInt X ''WEBHOOK_MAX_RESP_BYTES'' (64 * 2 ^ 10),
      wc_SecretKey = envStr X ''WEBHOOK_SECRET_KEY'' []\<rparr>"

definition worker_of :: "environment \<Rightarrow> WorkerConfig" where
  "worker_of X =
     \<lparr>kc_DispatchBatchSize = envInt X ''WORKER_DISPATCH_BATCH'' 100,
      kc_DispatchPollPeriod = envDur X ''WORKER_DISPATCH_POLL'' second,
      kc_DeliveryBatchSize = envInt X ''WORKER_DELIVERY_BATCH'' 50,
      kc_DeliveryWorkers = envInt X ''WORKER_DELIVERY_WORKERS'' 8,
      kc_DeliveryLease = envDur X ''WORKER_DELIVERY_LEASE'' (60 * second),
      kc_ReconcilePeriod = envDur X ''WORKER_RECONCILE_PERIOD'' (5 * 60 * second),
      kc_ReapPeriod = envDur X ''WORKER_REAP_PERIOD'' (5 * 60 * second),
      kc_ReapBatchSize = envInt X ''WORKER_REAP_BATCH'' 1000,
      kc_IdempotencyTTL = envDur X ''IDEMPOTENCY_TTL'' (24 * 3600 * second)\<rparr>"

definition IsProd :: "Config \<Rightarrow> bool" where
  "IsProd c \<longleftrightarrow> cfg_Env c = ''prod''"

definition complain :: "bool \<Rightarrow> string \<Rightarrow> config_error list" where
  "complain b key = (if b then [Invalid key] else [])"

definition validate :: "environment \<Rightarrow> Config \<Rightarrow> config_error list" where
  "validate X c =
     complain (dc_URL (cfg_DB c) = [] \<or> \<not> url_Parses X (dc_URL (cfg_DB c))) ''DATABASE_URL''
     @ complain (gc_Isolation (cfg_Ledger c) \<notin> set [IsolationReadCommitted, IsolationSerializable]) ''LEDGER_ISOLATION''
     @ complain (lc_Level (cfg_Log c) \<notin> set [''debug'', ''info'', ''warn'', ''error'']) ''LOG_LEVEL''
     @ complain (lc_Format (cfg_Log c) \<notin> set [''json'', ''text'']) ''LOG_FORMAT''
     @ complain (dc_MinConns (cfg_DB c) > dc_MaxConns (cfg_DB c)) ''DB_MIN_CONNS''
     @ complain (wc_MaxAttempts (cfg_Webhooks c) < 1) ''WEBHOOK_MAX_ATTEMPTS''
     @ complain (wc_BackoffBase (cfg_Webhooks c) \<le> 0 \<or> wc_BackoffCap (cfg_Webhooks c) < wc_BackoffBase (cfg_Webhooks c)) ''WEBHOOK_BACKOFF_CAP''
     @ complain (kc_DeliveryWorkers (cfg_Worker c) < 1) ''WORKER_DELIVERY_WORKERS''
     @ (if IsProd c
        then complain (wc_AllowInsecure (cfg_Webhooks c)) ''ALLOW_INSECURE_WEBHOOKS''
          @ complain (wc_AllowPrivateIPs (cfg_Webhooks c)) ''ALLOW_PRIVATE_IP_WEBHOOKS''
          @ complain (length (wc_SecretKey (cfg_Webhooks c)) \<noteq> 64) ''WEBHOOK_SECRET_KEY''
        else [])"

definition config_of :: "environment \<Rightarrow> Config" where
  "config_of X =
     \<lparr>cfg_Env = envStr X ''LEDGERD_ENV'' ''dev'', cfg_HTTP = http_of X, cfg_DB = db_of X, cfg_Log = log_of X, cfg_Ledger = ledger_of X,
      cfg_Webhooks = webhooks_of X, cfg_Worker = worker_of X\<rparr>"

text \<open>The reports of the reading, in the order the variables are read.\<close>

definition reading_fails :: "environment \<Rightarrow> config_error list" where
  "reading_fails X = concat
     [durFails X ''HTTP_READ_TIMEOUT'', durFails X ''HTTP_WRITE_TIMEOUT'', durFails X ''HTTP_IDLE_TIMEOUT'',
      durFails X ''HTTP_HANDLER_TIMEOUT'', durFails X ''HTTP_SHUTDOWN_TIMEOUT'', intFails X ''HTTP_MAX_BODY_BYTES'',
      intFails X ''HTTP_RATE_LIMIT_PER_MIN'', intFails X ''DB_MAX_CONNS'', intFails X ''DB_MIN_CONNS'',
      durFails X ''DB_MAX_CONN_LIFETIME'', durFails X ''DB_MAX_CONN_IDLE_TIME'', durFails X ''DB_CONNECT_TIMEOUT'',
      durFails X ''DB_LOCK_TIMEOUT'', durFails X ''DB_STATEMENT_TIMEOUT'', durFails X ''LEDGER_AUTHORIZATION_TTL'',
      boolFails X ''LEDGER_REFUND_PERCENTAGE_FEE'', boolFails X ''ALLOW_INSECURE_WEBHOOKS'', boolFails X ''ALLOW_PRIVATE_IP_WEBHOOKS'',
      durFails X ''WEBHOOK_BACKOFF_BASE'', durFails X ''WEBHOOK_BACKOFF_CAP'', intFails X ''WEBHOOK_MAX_ATTEMPTS'',
      durFails X ''WEBHOOK_REQUEST_TIMEOUT'', durFails X ''WEBHOOK_CONNECT_TIMEOUT'', intFails X ''WEBHOOK_MAX_RESP_BYTES'',
      intFails X ''WORKER_DISPATCH_BATCH'', durFails X ''WORKER_DISPATCH_POLL'', intFails X ''WORKER_DELIVERY_BATCH'',
      intFails X ''WORKER_DELIVERY_WORKERS'', durFails X ''WORKER_DELIVERY_LEASE'', durFails X ''WORKER_RECONCILE_PERIOD'',
      durFails X ''WORKER_REAP_PERIOD'', intFails X ''WORKER_REAP_BATCH'', durFails X ''IDEMPOTENCY_TTL'']"

definition Load :: "environment \<Rightarrow> config_error list + Config" where
  "Load X =
     (let cfg = config_of X; errs = reading_fails X @ validate X cfg
      in if errs \<noteq> [] then Inl errs else Inr cfg)"

section \<open>What a loaded configuration guarantees\<close>

lemma complain_Nil [simp]: "complain b key = [] \<longleftrightarrow> \<not> b"
  by (simp add: complain_def)

lemma wrap32_range: "- (2 ^ 31) \<le> wrap32 n \<and> wrap32 n < 2 ^ 31"
  by (simp add: wrap32_def)

lemma envInt_in64: "in64 deflt \<Longrightarrow> in64 (envInt X key deflt)"
  by (auto simp: envInt_def parsed_def split: option.splits dest: ParseInt_in64)


text \<open>The environment names of a deployment are compared exactly: any other spelling of production gets none of its checks.\<close>

lemma other_environments_unchecked:
  assumes "Load X = Inr c" and "LookupEnv X ''LEDGERD_ENV'' = Some ''production''"
  shows "\<not> IsProd c"
  using assms by (auto simp: Load_def Let_def config_of_def IsProd_def envStr_def split: if_splits)

end
