(* ===== verification/Spec2Isabelle.thy ===== *)
theory Spec2Isabelle
  imports Ledger_Effects Payment_Laws Webhook_Leases Webhook_Secrets Webhook_Client Idempotency_Laws Reconcile Http_Laws Config
begin

text \<open>
  A verification of \<^verbatim>\<open>ledgerd\<close>, a double-entry ledger with payments, idempotent requests and webhooks, written in Go.

  \<^bold>\<open>The program.\<close> An HTTP API (\<^verbatim>\<open>internal/httpapi\<close>) authenticates a caller by an API key, limits its rate, and hands the
  request to a handler. Handlers that move money run inside the idempotency middleware (\<^verbatim>\<open>internal/idempotency\<close>): the
  request is fingerprinted, a key is acquired with a lease, and the response is recorded in the transaction that moves the money. The payments
  service (\<^verbatim>\<open>internal/payments\<close>) turns a charge, capture, cancellation or refund into postings of the ledger service
  (\<^verbatim>\<open>internal/ledger\<close>), which validates, locks accounts, applies balances and appends entries over a repository: the one in memory
  (\<^verbatim>\<open>internal/ledger/memory\<close>) or the one in PostgreSQL (\<^verbatim>\<open>internal/postgres\<close>). Events (\<^verbatim>\<open>internal/events\<close>) wait in an outbox;
  the worker process fans them out and delivers them, signed, to the endpoints of merchants (\<^verbatim>\<open>internal/webhooks\<close>), and runs the
  reconciler and the reaper (\<^verbatim>\<open>internal/workers\<close>). Receivers check signatures with \<^verbatim>\<open>pkg/webhookverify\<close>.

  \<^bold>\<open>How Go is read.\<close> \<open>Go_Prelude\<close> and \<open>Go_Strings\<close>: an \<open>int64\<close> is an \<open>int\<close> with its wrap-around written out (\<open>wrap64\<close>,
  \<open>in64\<close>); a string is its bytes; an instant is a number of nanoseconds; a fallible call has an \<open>outcome\<close>, which is a value, an error
  (one constructor of \<open>err\<close> per sentinel, two errors being equal exactly when \<^verbatim>\<open>errors.Is\<close> says so) or a panic. A method that changes state is an
  operation \<open>('s, 'a) opr\<close>, which returns its outcome with the state it leaves, on the error paths too; \<open>seq\<close> composes such calls.
  The world of a call (\<open>world\<close>, in \<open>Ledger_Service\<close>) is the database, the identifier generator and a step counter; the environment
  (\<open>env\<close>) says for every step what the clock and the random source return and whether the context is done, so every theorem holds for every clock, every
  random source and every moment of cancellation. \<open>InTx\<close> keeps the database of a body only when the body succeeds.

  \<^bold>\<open>Theories and sources.\<close>
  \<^item> \<open>Money\<close>, \<open>Money_Laws\<close>: \<^verbatim>\<open>internal/money\<close>. Checked arithmetic, basis points, allocation, decimal text. Allocation conserves the amount, rendering and parsing round-trip.
  \<^item> \<open>Ident\<close>: \<^verbatim>\<open>internal/platform/id\<close>. Identifiers of one generator strictly increase, whatever the clock does.
  \<^item> \<open>Ledger_Types\<close>, \<open>Cursor\<close>: \<^verbatim>\<open>internal/ledger\<close>, \<^verbatim>\<open>types.go\<close>, \<^verbatim>\<open>spec.go\<close>, \<^verbatim>\<open>cursor.go\<close>. Validation of a posting accepts exactly the balanced ones; cursors round-trip.
  \<^item> \<open>Repository\<close>: \<^verbatim>\<open>repository.go\<close>, the interface between the ledger and its stores. Its contract is the locale \<open>repository\<close> over an abstraction of a
    store to its \<open>books\<close>; \<open>total_repository\<close> adds that calls succeed.
  \<^item> \<open>Ledger_Service\<close>: \<^verbatim>\<open>service.go\<close>. \<open>Ledger_Books\<close>, \<open>Ledger_Laws\<close>, \<open>Ledger_Effects\<close>: the invariant of the books, that every operation
    keeps it over any repository with the contract, the runs of the service, and the effect of posting (a refinement of \<open>posts\<close>), void, capture, reversal and paging.
  \<^item> \<open>Memory_Store\<close>: \<^verbatim>\<open>memory.go\<close>, with the interpretation \<open>mem\<close> of both contracts.
  \<^item> \<open>Sql_Tables\<close>, \<open>Postgres_Ledger\<close>: the tables of the first migration with their constraints, the statements of \<^verbatim>\<open>internal/postgres/sqlc\<close> and the
    repository of \<^verbatim>\<open>internal/postgres/ledger.go\<close>; \<open>Postgres_Laws\<close> has the interpretation \<open>pg\<close>. \<open>Postgres_Commit\<close>: the trigger that checks every transaction
    at its commit never refuses one of the ledger service.
  \<^item> \<open>Fees\<close>, \<open>Payments\<close>, \<open>Payment_Laws\<close>: \<^verbatim>\<open>internal/payments\<close>. Fees returned by successive refunds telescope; refunds never exceed a payment; the
    view of a payment accounts for every unit; payments keep the books in order.
  \<^item> \<open>Canonical\<close>, \<open>Idempotency\<close>, \<open>Idempotency_Laws\<close>: \<^verbatim>\<open>internal/idempotency\<close> and \<^verbatim>\<open>internal/postgres/idempotency.go\<close>. Requests interleaved statement by
    statement (\<open>idem_step\<close>) execute an operation at most once as long as holders keep within their lease, and not otherwise; a recorded response is what later requests get.
  \<^item> \<open>Http_Errors\<close>, \<open>Http_Auth\<close>, \<open>Rate_Limiter\<close>, \<open>Http_Server\<close>: \<^verbatim>\<open>internal/httpapi\<close> and the store of API keys. The error table is total; authentication is
    sound; the limit is exact per key in a burst. \<open>Tenancy\<close> (the locale \<open>tenant_repository\<close>, interpreted on both stores) and \<open>Http_Laws\<close>: a request, served through the whole chain
    over the tables, touches only what belongs to the merchant of its key.
  \<^item> \<open>Webhook_Verify\<close>, \<open>Webhook_Secrets\<close>, \<open>Webhook_Client\<close>, \<open>Webhook_Delivery\<close>: signatures, secrets, the guard against private addresses, the retry policy.
    \<open>Webhook_Store\<close>, \<open>Webhook_Worker\<close>: the queue, the dispatcher and the worker. \<open>Webhook_Laws\<close>, \<open>Webhook_Dispatch\<close>,
    \<open>Webhook_Progress\<close>, \<open>Webhook_Leases\<close>: the tables keep their constraints, a dispatch is all or nothing, the queue drains, and two ways in which it does not.
  \<^item> \<open>Reconcile\<close>: \<^verbatim>\<open>internal/workers/reconciler.go\<close> and \<^verbatim>\<open>internal/postgres/reconcile.go\<close>, over the locale \<open>ledger_checker\<close>. The report is exact, and clean after every run of the service.
  \<^item> \<open>Config\<close>: \<^verbatim>\<open>internal/platform/config\<close>. A configuration that loads has the bounds the program relies on.

  \<^bold>\<open>State and operations.\<close> The store in memory is \<open>Store\<close>, the ledger's tables are \<open>ledger_db\<close>, the webhook tables \<open>webhook_db\<close>; the tables a
  request can reach are \<open>server_db\<close>, with the rate limiter beside it in \<open>process\<close>. Operations carry the names of the Go functions, with
  the package or type as a prefix where two would clash (\<open>Service_Capture\<close>, \<open>Payments_Capture\<close>, \<open>Pg_GetAccount\<close>, \<open>Mem_GetAccount\<close>, \<open>Idem_Acquire\<close>).

  \<^bold>\<open>Bounds.\<close> Structural recursion needs none. \<open>randomBase32\<close> takes a number of reads: two are enough, because the alphabet has 32 symbols and no byte is rejected.
  \<open>walk_pages\<close> takes a number of pages: one more than there are entries is enough. The reaper takes a number of batches: one more than there
  are keys is enough. The worker's queue drains within as many rounds as there are attempts left.

  \<^bold>\<open>What is abstracted.\<close> A statement of the database is one atomic step, and a transaction runs without interference: row locks, \<^verbatim>\<open>SKIP LOCKED\<close> and isolation levels are
  therefore not visible; the interleaving of requests is modelled where it matters, between statements of the idempotency and the delivery tables. Instants keep
  their nanoseconds, gaps in sequences do not occur, rows that an \<^verbatim>\<open>ORDER BY\<close> does not tell apart keep the order of the table, and a \<^verbatim>\<open>JSONB\<close> document
  is a value. \<open>InTx\<close> has no failure of its own at the commit; \<open>Postgres_Commit\<close> shows for the ledger that the trigger gives none. Code that is not in the
  repository is a parameter with named laws: JSON, HMAC, SHA-256, Argon2id, AES-GCM, floating-point arithmetic, name resolution, the matching of routes, and
  the exchange with an endpoint.

  \<^bold>\<open>Not modelled.\<close> Log lines and metrics (\<^verbatim>\<open>internal/platform/log\<close>, \<^verbatim>\<open>metrics\<close>), on which no state depends; the connection pool and the migration tool
  (\<^verbatim>\<open>internal/postgres/db.go\<close>, \<^verbatim>\<open>migrate.go\<close>), which only call libraries; the wiring, tickers and signals of the two commands (\<^verbatim>\<open>cmd\<close>), whose jobs are modelled
  one pass at a time; savepoints (\<^verbatim>\<open>InNestedTx\<close>), which nothing uses; generated scanners of enumerations; and a server without an idempotency store, which only tests build.
\<close>

end
